(* ===== verification/Prelude.thy ===== *)
theory Prelude
  imports Main "HOL-Library.Word"
begin

text \<open>
  Shared vocabulary of the development.

  \<^item> Outcomes.  A kernel routine is a function from a state to \<open>'s stop + ('a \<times> 's)\<close>:
    \<open>Inr (x, s')\<close> is a normal return of \<open>x\<close> in state \<open>s'\<close>, \<open>Inl\<close> is every way in which
    control does not come back to the caller (a \<open>panic\<close>, a failed \<open>assert\<close>, the use of a
    null pointer, an index outside an array, a loop that does not end, a lock that is never
    granted, the switch to a user environment, the halt of the processor, the kernel
    monitor, a page fault in kernel code).
    \<open>rbind\<close> sequences two such computations.
  \<^item> Linked lists.  The kernel keeps all its lists (free pages, LRU pages, tasklets, memory
    areas, free environments) as chains through a link field of array elements.  A pointer
    is an \<open>'a option\<close> (\<open>None\<close> is \<open>NULL\<close>), a link field a function
    \<open>'a \<Rightarrow> 'a option\<close>, and \<open>llist lnk p xs\<close> says that the chain that starts at \<open>p\<close>
    visits exactly \<open>xs\<close> and ends.
  \<^item> \<open>seek\<close> is the loop shape \<open>while (p) { if (P(p)) break; old = p; p = p->link; }\<close>
    that five of the list routines share, with a bound on the number of rounds.
\<close>

named_theorems frame_simps
  \<open>equations that say which part of the state an operation leaves alone\<close>

named_theorems op_defs
  \<open>the defining equations of the operations of one component\<close>

section \<open>Outcomes\<close>

datatype 's stop =
    Panic string
  | AssertFail string
  | NullDeref
  | OutOfBounds
  | Diverge
  | Blocked
  | EnterUser nat 's
  | Halted 's
  | InMonitor 's
  | PageFault "32 word"

type_synonym ('s, 'a) kres = "'s stop + ('a \<times> 's)"

definition rbind :: "'e + 'a \<Rightarrow> ('a \<Rightarrow> 'e + 'b) \<Rightarrow> 'e + 'b" where
  "rbind m f = (case m of Inl e \<Rightarrow> Inl e | Inr x \<Rightarrow> f x)"

lemma rbind_eq: "(\<And>x. m = Inr x \<Longrightarrow> f x = g x) \<Longrightarrow> rbind m f = rbind m g"
  by (cases m) (auto simp: rbind_def)

lemma rbind_simps [simp]:
  "rbind (Inl e) f = Inl e"
  "rbind (Inr x) f = f x"
  by (simp_all add: rbind_def)

lemma rbind_cong [fundef_cong]:
  "m = m' \<Longrightarrow> (\<And>x. m' = Inr x \<Longrightarrow> f x = f' x) \<Longrightarrow> rbind m f = rbind m' f'"
  by (cases m') (auto simp: rbind_def)

lemma rbind_eq_Inr: "rbind m f = Inr y \<longleftrightarrow> (\<exists>x. m = Inr x \<and> f x = Inr y)"
  by (cases m) auto

lemma rbind_InrE [elim!]:
  assumes "rbind m f = Inr y"
  obtains x where "m = Inr x" and "f x = Inr y"
  using assms by (auto simp: rbind_eq_Inr)

lemma rbind_assoc: "rbind (rbind m f) g = rbind m (\<lambda>x. rbind (f x) g)"
  by (cases m) auto

lemma rbind_if: "rbind (if b then m else m') f = (if b then rbind m f else rbind m' f)"
  by simp

section \<open>Chains through a link field\<close>

fun lseg :: "('a \<Rightarrow> 'a option) \<Rightarrow> 'a option \<Rightarrow> 'a list \<Rightarrow> 'a option \<Rightarrow> bool" where
  "lseg lnk p [] q = (p = q)"
| "lseg lnk p (n # ns) q = (p = Some n \<and> lseg lnk (lnk n) ns q)"

definition llist :: "('a \<Rightarrow> 'a option) \<Rightarrow> 'a option \<Rightarrow> 'a list \<Rightarrow> bool" where
  "llist lnk p ns = lseg lnk p ns None"

lemma llist_Nil [simp]: "llist lnk p [] = (p = None)"
  by (simp add: llist_def)

lemma llist_Cons [simp]: "llist lnk p (n # ns) = (p = Some n \<and> llist lnk (lnk n) ns)"
  by (simp add: llist_def)

lemma llist_None [simp]: "llist lnk None ns = (ns = [])"
  by (cases ns) auto

lemma llist_Some: "llist lnk (Some n) ns = (\<exists>ms. ns = n # ms \<and> llist lnk (lnk n) ms)"
  by (cases ns) auto

lemma lseg_append: "lseg lnk p (ms @ ns) q = (\<exists>r. lseg lnk p ms r \<and> lseg lnk r ns q)"
  by (induction ms arbitrary: p) auto

lemma llist_append: "llist lnk p (ms @ ns) = (\<exists>r. lseg lnk p ms r \<and> llist lnk r ns)"
  by (simp add: llist_def lseg_append)

lemma lseg_local:
  "(\<And>n. n \<in> set ns \<Longrightarrow> lnk n = lnk' n) \<Longrightarrow> lseg lnk p ns q = lseg lnk' p ns q"
  by (induction ns arbitrary: p) auto

lemma llist_local:
  "(\<And>n. n \<in> set ns \<Longrightarrow> lnk n = lnk' n) \<Longrightarrow> llist lnk p ns = llist lnk' p ns"
  unfolding llist_def by (rule lseg_local)

lemma lseg_fun_upd [simp]: "a \<notin> set ns \<Longrightarrow> lseg (lnk(a := v)) p ns q = lseg lnk p ns q"
  by (rule lseg_local) auto

lemma llist_fun_upd [simp]: "a \<notin> set ns \<Longrightarrow> llist (lnk(a := v)) p ns = llist lnk p ns"
  by (rule llist_local) auto

lemma llist_determ: "llist lnk p ms \<Longrightarrow> llist lnk p ns \<Longrightarrow> ms = ns"
proof (induction ms arbitrary: p ns)
  case Nil
  then show ?case by simp
next
  case (Cons m ms)
  then show ?case by (cases ns) auto
qed

text \<open>A chain that ends visits no element twice: otherwise it would run on forever.\<close>

lemma llist_suffix_unique:
  assumes "llist lnk p (us @ n # vs @ n # ws)"
  shows False
proof -
  from assms have "llist lnk (lnk n) (vs @ n # ws)" and "llist lnk (lnk n) ws"
    by (auto simp: llist_append lseg_append)
  then have "vs @ n # ws = ws" by (rule llist_determ)
  then have "length (vs @ n # ws) = length ws" by simp
  then show False by simp
qed

lemma llist_distinct: "llist lnk p ns \<Longrightarrow> distinct ns"
  using llist_suffix_unique not_distinct_decomp
  by (metis append.assoc append_Cons append_Nil)

lemma llist_tl_fresh: "llist lnk (lnk n) ns \<Longrightarrow> n \<notin> set ns"
  using llist_distinct [of lnk "Some n" "n # ns"] by simp

lemma llist_last_link: "llist lnk p ns \<Longrightarrow> ns \<noteq> [] \<Longrightarrow> lnk (last ns) = None"
  by (induction ns arbitrary: p) (auto split: if_splits)

lemma llist_butlast_link: "llist lnk p ns \<Longrightarrow> n \<in> set (butlast ns) \<Longrightarrow> lnk n \<noteq> None"
proof (induction ns arbitrary: p)
  case Nil
  then show ?case by simp
next
  case (Cons k ks)
  then show ?case by (cases ks) auto
qed

lemma llist_links_in:
  "llist lnk p ns \<Longrightarrow> n \<in> set ns \<Longrightarrow> lnk n = Some m \<Longrightarrow> m \<in> set ns"
proof (induction ns arbitrary: p)
  case Nil
  then show ?case by simp
next
  case (Cons k ks)
  then show ?case by (cases ks) auto
qed

lemma llist_head_in: "llist lnk p ns \<Longrightarrow> p = Some n \<Longrightarrow> n \<in> set ns"
  by (cases ns) auto

text \<open>Pushing, unlinking an inner element and appending, as updates of the link field.\<close>

lemma llist_push:
  "llist lnk p ns \<Longrightarrow> n \<notin> set ns \<Longrightarrow> llist (lnk(n := p)) (Some n) (n # ns)"
  by simp

lemma llist_unlink:
  assumes "llist lnk p (us @ b # n # vs)"
  shows "llist (lnk(b := lnk n, n := None)) p (us @ b # vs)"
proof -
  have d: "distinct (us @ b # n # vs)" using assms by (rule llist_distinct)
  from assms obtain r where "lseg lnk p us r" and "r = Some b" and "llist lnk (lnk n) vs"
    by (auto simp: llist_append)
  with d show ?thesis by (auto simp: llist_append)
qed

lemma llist_unlink_keep:
  assumes "llist lnk p (us @ b # n # vs)"
  shows "llist (lnk(b := lnk n)) p (us @ b # vs)"
proof -
  have d: "distinct (us @ b # n # vs)" using assms by (rule llist_distinct)
  from assms obtain r where "lseg lnk p us r" and "r = Some b" and "llist lnk (lnk n) vs"
    by (auto simp: llist_append)
  with d show ?thesis by (auto simp: llist_append)
qed

lemma llist_snoc:
  assumes "llist lnk p (us @ [b])" and "n \<notin> set (us @ [b])"
  shows "llist (lnk(b := Some n, n := None)) p (us @ [b, n])"
proof -
  have d: "distinct (us @ [b])" using assms(1) by (rule llist_distinct)
  from assms(1) have "lseg lnk p us (Some b)" by (auto simp: llist_append)
  with d assms(2) show ?thesis by (auto simp: llist_append)
qed

lemma llist_insert_after:
  assumes "llist lnk p (us @ b # vs)" and "n \<notin> set (us @ b # vs)"
  shows "llist (lnk(n := lnk b, b := Some n)) p (us @ b # n # vs)"
proof -
  have d: "distinct (us @ b # vs)" using assms(1) by (rule llist_distinct)
  from assms(1) have "lseg lnk p us (Some b)" and "llist lnk (lnk b) vs"
    by (auto simp: llist_append)
  with d assms(2) show ?thesis by (auto simp: llist_append)
qed

section \<open>The search loop of the list routines\<close>

text \<open>
  \<open>seek fuel lnk P old cur\<close> returns the pair of pointers \<open>(old, cur)\<close> the C loop holds
  when it leaves: \<open>cur\<close> is the first element that satisfies \<open>P\<close> or \<open>None\<close>, and \<open>old\<close> the
  element before it.  \<open>None\<close> as a result means that the loop was still running after
  \<open>fuel\<close> rounds; on a chain of fewer than \<open>fuel\<close> elements that does not happen.
\<close>

fun seek :: "nat \<Rightarrow> ('a \<Rightarrow> 'a option) \<Rightarrow> ('a \<Rightarrow> bool) \<Rightarrow> 'a option \<Rightarrow> 'a option
    \<Rightarrow> ('a option \<times> 'a option) option" where
  "seek 0 lnk P old cur = None"
| "seek (Suc fuel) lnk P old cur =
     (case cur of
        None \<Rightarrow> Some (old, None)
      | Some c \<Rightarrow> if P c then Some (old, Some c) else seek fuel lnk P (Some c) (lnk c))"

lemma seek_none:
  assumes "llist lnk cur ns" and "length ns < fuel" and "\<forall>n \<in> set ns. \<not> P n"
  shows "seek fuel lnk P old cur = Some (if ns = [] then old else Some (last ns), None)"
  using assms
proof (induction ns arbitrary: fuel old cur)
  case Nil
  then show ?case by (cases fuel) auto
next
  case (Cons n ns)
  then obtain k where k: "fuel = Suc k" and "length ns < k" by (cases fuel) auto
  with Cons show ?case by auto
qed

lemma seek_hit:
  assumes "llist lnk cur (us @ n # vs)" and "length us < fuel"
    and "\<forall>u \<in> set us. \<not> P u" and "P n"
  shows "seek fuel lnk P old cur = Some (if us = [] then old else Some (last us), Some n)"
  using assms
proof (induction us arbitrary: fuel old cur)
  case Nil
  then show ?case by (cases fuel) auto
next
  case (Cons u us)
  then obtain k where k: "fuel = Suc k" and "length us < k" by (cases fuel) auto
  with Cons show ?case by auto
qed

lemma seek_hit_prev:
  assumes "llist lnk cur (us @ b # n # vs)" and "Suc (length us) < fuel"
    and "\<forall>u \<in> set us. \<not> P u" and "\<not> P b" and "P n"
  shows "seek fuel lnk P old cur = Some (Some b, Some n)"
  using seek_hit [of lnk cur "us @ [b]" n vs fuel P old] assms by auto

lemma seek_last:
  assumes "llist lnk cur (us @ [b, c])" and "length us + 1 < fuel"
  shows "seek fuel lnk (\<lambda>p. lnk p = None) old cur = Some (Some b, Some c)"
proof (rule seek_hit_prev [where vs = "[]"])
  show "lnk c = None" using llist_last_link [OF assms(1)] by simp
  show "\<forall>u \<in> set us. lnk u \<noteq> None" and "lnk b \<noteq> None"
    using llist_butlast_link [OF assms(1)] by (auto simp: butlast_append)
qed (use assms in auto)

lemma seek_here: "P c \<Longrightarrow> seek (Suc fuel) lnk P old (Some c) = Some (old, Some c)"
  by simp

lemma seek_empty: "seek (Suc fuel) lnk P old None = Some (old, None)"
  by simp

declare seek.simps(2) [simp del]

text \<open>Splitting a list at its first element with a property.\<close>

lemma split_first:
  assumes "\<exists>n \<in> set ns. P n"
  obtains us n vs where "ns = us @ n # vs" and "P n" and "\<forall>u \<in> set us. \<not> P u"
  using split_list_first_prop [OF assms] by blast

lemma sorted_wrt_related: "sorted_wrt R xs \<Longrightarrow> i \<in> set xs \<Longrightarrow> j \<in> set xs \<Longrightarrow> i \<noteq> j \<Longrightarrow> R i j \<or> R j i"
  by (induction xs) auto

section \<open>Lists of bounded, distinct indices\<close>

lemma distinct_bounded_length:
  "distinct (ns :: nat list) \<Longrightarrow> \<forall>n \<in> set ns. n < b \<Longrightarrow> length ns \<le> b"
  using card_mono [of "{..<b}" "set ns"] by (auto simp: distinct_card)

lemma llist_bounded_length:
  "llist lnk p (ns :: nat list) \<Longrightarrow> \<forall>n \<in> set ns. n < b \<Longrightarrow> length ns \<le> b"
  by (auto intro: distinct_bounded_length llist_distinct)

lemma llist_upt:
  assumes "\<And>i. a \<le> i \<Longrightarrow> i < b \<Longrightarrow> lnk i = (if i = b - 1 then None else Some (i + 1))" and "a < b"
  shows "llist lnk (Some a) [a..<b]"
  using assms
proof (induction "b - a" arbitrary: a)
  case 0
  then show ?case by simp
next
  case (Suc n)
  have u: "[a..<b] = a # [Suc a..<b]" using Suc.prems(2) by (simp add: upt_conv_Cons)
  show ?case
  proof (cases "Suc a < b")
    case True
    then have "llist lnk (Some (Suc a)) [Suc a..<b]" using Suc by (intro Suc.hyps(1)) auto
    then show ?thesis unfolding u using Suc.prems(1) [of a] True by simp
  next
    case False
    then show ?thesis unfolding u using Suc.prems by simp
  qed
qed

end
