(* ===== verification/Mmu.thy ===== *)
theory Mmu
  imports Prelude
begin

text \<open>
  The x86 paging arithmetic of \<^verbatim>\<open>inc/mmu.h\<close>, the rounding macros of \<^verbatim>\<open>inc/types.h\<close>, the
  address-space layout of \<^verbatim>\<open>inc/memlayout.h\<close> and the address conversions of
  \<^verbatim>\<open>kern/pmap.h\<close>.  Addresses and page-table entries are 32-bit words; a physical frame is
  named by its number, a natural number.

  The lemmas describe the macros bit by bit (\<open>mmu_bits\<close>), show that a linear address is
  split and put together without loss, that an entry built from a frame and flag bits gives
  both back, and what the rounding macros do up to the wrap-around at the top of the
  address space.
\<close>

unbundle bit_operations_syntax

type_synonym u8 = "8 word"
type_synonym u16 = "16 word"
type_synonym u32 = "32 word"
type_synonym u64 = "64 word"

named_theorems mmu_bits \<open>bits of the paging macros and constants\<close>

section \<open>Constants\<close>

abbreviation PGSIZE :: u32 where "PGSIZE \<equiv> 4096"
abbreviation NPDENTRIES :: nat where "NPDENTRIES \<equiv> 1024"
abbreviation NPTENTRIES :: nat where "NPTENTRIES \<equiv> 1024"
abbreviation PTSIZE :: u32 where "PTSIZE \<equiv> 4194304"

definition KERNBASE :: u32 where "KERNBASE = 0xF0000000"
definition IOPHYSMEM :: u32 where "IOPHYSMEM = 0x0A0000"
definition EXTPHYSMEM :: u32 where "EXTPHYSMEM = 0x100000"
definition KSTACKTOP :: u32 where "KSTACKTOP = KERNBASE"
definition KSTKSIZE :: u32 where "KSTKSIZE = 8 * PGSIZE"
definition KSTKGAP :: u32 where "KSTKGAP = 8 * PGSIZE"
definition MMIOLIM :: u32 where "MMIOLIM = KSTACKTOP - PTSIZE"
definition MMIOBASE :: u32 where "MMIOBASE = MMIOLIM - PTSIZE"
definition ULIM :: u32 where "ULIM = MMIOBASE"
definition UVPT :: u32 where "UVPT = ULIM - PTSIZE"
definition UPAGES :: u32 where "UPAGES = UVPT - PTSIZE"
definition UENVS :: u32 where "UENVS = UPAGES - PTSIZE"
definition UTOP :: u32 where "UTOP = UENVS"
definition USTACKTOP :: u32 where "USTACKTOP = UTOP - 2 * PGSIZE"
definition UTEXT :: u32 where "UTEXT = 2 * PTSIZE"
definition UTEMP :: u32 where "UTEMP = PTSIZE"
definition MPENTRY_PADDR :: u32 where "MPENTRY_PADDR = 0x7000"

lemmas layout_defs =
  KERNBASE_def IOPHYSMEM_def EXTPHYSMEM_def KSTACKTOP_def KSTKSIZE_def KSTKGAP_def MMIOLIM_def
  MMIOBASE_def ULIM_def UVPT_def UPAGES_def UENVS_def UTOP_def USTACKTOP_def UTEXT_def UTEMP_def
  MPENTRY_PADDR_def

definition PTE_P :: u32 where "PTE_P = 0x001"
definition PTE_W :: u32 where "PTE_W = 0x002"
definition PTE_U :: u32 where "PTE_U = 0x004"
definition PTE_PWT :: u32 where "PTE_PWT = 0x008"
definition PTE_PCD :: u32 where "PTE_PCD = 0x010"
definition PTE_A :: u32 where "PTE_A = 0x020"
definition PTE_D :: u32 where "PTE_D = 0x040"
definition PTE_PS :: u32 where "PTE_PS = 0x080"
definition PTE_G :: u32 where "PTE_G = 0x100"
definition PTE_AVAIL :: u32 where "PTE_AVAIL = 0xE00"

lemmas pte_flag_defs =
  PTE_P_def PTE_W_def PTE_U_def PTE_PWT_def PTE_PCD_def PTE_A_def PTE_D_def PTE_PS_def
  PTE_G_def PTE_AVAIL_def

section \<open>Macros\<close>

definition PGNUM :: "u32 \<Rightarrow> u32" where
  "PGNUM la = drop_bit 12 la"

definition PDX :: "u32 \<Rightarrow> u32" where
  "PDX la = drop_bit 22 la AND 0x3FF"

definition PTX :: "u32 \<Rightarrow> u32" where
  "PTX la = drop_bit 12 la AND 0x3FF"

definition PGOFF :: "u32 \<Rightarrow> u32" where
  "PGOFF la = la AND 0xFFF"

definition PGADDR :: "u32 \<Rightarrow> u32 \<Rightarrow> u32 \<Rightarrow> u32" where
  "PGADDR d t off = push_bit 22 d OR push_bit 12 t OR off"

definition PTE_ADDR :: "u32 \<Rightarrow> u32" where
  "PTE_ADDR pte = pte AND NOT 0xFFF"

definition ROUNDDOWN :: "u32 \<Rightarrow> u32 \<Rightarrow> u32" where
  "ROUNDDOWN a n = a - a mod n"

definition ROUNDUP :: "u32 \<Rightarrow> u32 \<Rightarrow> u32" where
  "ROUNDUP a n = ROUNDDOWN (a + n - 1) n"

text \<open>Indices of the two paging levels and the frame an entry names, as numbers.\<close>

definition pdx :: "u32 \<Rightarrow> nat" where "pdx la = unat (PDX la)"
definition ptx :: "u32 \<Rightarrow> nat" where "ptx la = unat (PTX la)"
definition frame :: "u32 \<Rightarrow> nat" where "frame pa = unat (PGNUM pa)"

text \<open>\<open>page2pa\<close> of the page with index \<open>i\<close> (\<open>pp - pages\<close>), and the kernel address of it.\<close>

definition page2pa :: "nat \<Rightarrow> u32" where
  "page2pa i = push_bit 12 (of_nat i)"

definition kva :: "nat \<Rightarrow> u32" where
  "kva i = KERNBASE + page2pa i"

text \<open>
  \<open>PADDR\<close> panics below \<open>KERNBASE\<close>, and also on one page the authors used while debugging.
\<close>

definition PADDR :: "u32 \<Rightarrow> 's stop + u32" where
  "PADDR va =
     (if va < KERNBASE then Inl (Panic ''PADDR called with invalid kva'')
      else if 0xf02a5000 \<le> va \<and> va < 0xf02a6000 then Inl (Panic ''BADBAD'')
      else Inr (va - KERNBASE))"

section \<open>Bit-level description\<close>

lemma low10_mask: "(0x3FF :: u32) = mask 10"
  by (simp add: mask_eq_exp_minus_1)

lemma low12_mask: "(0xFFF :: u32) = mask 12"
  by (simp add: mask_eq_exp_minus_1)

lemma bit_mask32: "bit (mask k :: u32) n \<longleftrightarrow> n < 32 \<and> n < k"
  by (simp only: bit_mask_iff possible_bit_word) simp

lemma bit_word_bound32: "bit (w :: u32) n \<Longrightarrow> n < 32"
  using bit_imp_le_length [of w n] by simp

lemma bit_PGNUM [mmu_bits]: "bit (PGNUM la) n \<longleftrightarrow> bit la (n + 12)"
  unfolding PGNUM_def bit_drop_bit_eq by (simp add: ac_simps)

lemma bit_PDX [mmu_bits]: "bit (PDX la) n \<longleftrightarrow> n < 10 \<and> bit la (n + 22)"
  unfolding PDX_def low10_mask bit_and_iff bit_drop_bit_eq bit_mask32 by (auto simp: ac_simps)

lemma bit_PTX [mmu_bits]: "bit (PTX la) n \<longleftrightarrow> n < 10 \<and> bit la (n + 12)"
  unfolding PTX_def low10_mask bit_and_iff bit_drop_bit_eq bit_mask32 by (auto simp: ac_simps)

lemma bit_PGOFF [mmu_bits]: "bit (PGOFF la) n \<longleftrightarrow> n < 12 \<and> bit la n"
  unfolding PGOFF_def low12_mask bit_and_iff bit_mask32 by auto

lemma bit_PTE_ADDR [mmu_bits]: "bit (PTE_ADDR pte) n \<longleftrightarrow> 12 \<le> n \<and> bit pte n"
  unfolding PTE_ADDR_def low12_mask bit_and_iff bit_not_iff bit_mask32
  by (auto dest: bit_word_bound32)

lemma bit_page2pa [mmu_bits]:
  "bit (page2pa i) n \<longleftrightarrow> 12 \<le> n \<and> n < 32 \<and> bit i (n - 12)"
  by (auto simp: page2pa_def bit_push_bit_iff bit_of_nat_iff)

lemma word_eqI32:
  assumes "\<And>n. n < 32 \<Longrightarrow> bit (a :: u32) n = bit b n"
  shows "a = b"
  by (rule bit_word_eqI) (use assms in auto)

lemma bit_unat32 [mmu_bits]: "bit (unat (w :: u32)) n \<longleftrightarrow> bit w n"
  by (simp add: bit_unsigned_iff)

lemma high_bits_clear:
  assumes "(f :: u32) < 2 ^ k" and "k \<le> n"
  shows "\<not> bit f n"
proof -
  have "unat f < unat (2 ^ k :: u32)" using assms(1) by (simp only: word_less_nat_alt)
  also have "\<dots> = unat (of_nat (2 ^ k) :: u32)" by simp
  also have "\<dots> \<le> 2 ^ k" unfolding unat_of_nat by (rule mod_less_eq_dividend)
  also have "\<dots> \<le> 2 ^ n" using assms(2) by (simp add: power_increasing)
  finally have "unat f div 2 ^ n = 0" by simp
  then have "\<not> bit (unat f) n" by (simp add: bit_iff_odd)
  then show ?thesis unfolding bit_unat32 .
qed

lemma low12_clear: "(f :: u32) < 4096 \<Longrightarrow> 12 \<le> n \<Longrightarrow> \<not> bit f n"
  using high_bits_clear [of f 12 n] by simp

lemma low10_clear: "(f :: u32) < 1024 \<Longrightarrow> 10 \<le> n \<Longrightarrow> \<not> bit f n"
  using high_bits_clear [of f 10 n] by simp

section \<open>Linear addresses\<close>

lemma pdx_bound [simp]: "pdx la < 1024"
proof -
  have "unat (drop_bit 22 la AND 0x3FF) \<le> unat (0x3FF :: u32)"
    by (rule word_and_le1 [THEN word_le_nat_alt [THEN iffD1]])
  then show ?thesis by (simp add: pdx_def PDX_def)
qed

lemma ptx_bound [simp]: "ptx la < 1024"
proof -
  have "unat (drop_bit 12 la AND 0x3FF) \<le> unat (0x3FF :: u32)"
    by (rule word_and_le1 [THEN word_le_nat_alt [THEN iffD1]])
  then show ?thesis by (simp add: ptx_def PTX_def)
qed

lemma PGADDR_split: "PGADDR (PDX la) (PTX la) (PGOFF la) = la"
proof (rule word_eqI32)
  fix n :: nat
  assume n: "n < 32"
  consider "n < 12" | "12 \<le> n" "n < 22" | "22 \<le> n" by linarith
  then show "bit (PGADDR (PDX la) (PTX la) (PGOFF la)) n = bit la n"
    using n by cases (auto simp: PGADDR_def bit_or_iff bit_push_bit_iff mmu_bits)
qed

lemma PGADDR_fields:
  assumes d: "d < 1024" and t: "t < 1024" and off: "off < 4096"
  shows "PDX (PGADDR d t off) = d" and "PTX (PGADDR d t off) = t" and "PGOFF (PGADDR d t off) = off"
proof -
  note clear = low10_clear [OF d] low10_clear [OF t] low12_clear [OF off]
  have dd: "n < 10" if "bit d n" for n using clear(1) [of n] that by linarith
  have tt: "n < 10" if "bit t n" for n using clear(2) [of n] that by linarith
  have ff: "n < 12" if "bit off n" for n using clear(3) [of n] that by linarith
  show "PDX (PGADDR d t off) = d"
    by (rule word_eqI32) (auto simp: PGADDR_def bit_or_iff bit_push_bit_iff mmu_bits dest: dd tt ff)
  show "PTX (PGADDR d t off) = t"
    by (rule word_eqI32) (auto simp: PGADDR_def bit_or_iff bit_push_bit_iff mmu_bits dest: dd tt ff)
  show "PGOFF (PGADDR d t off) = off"
    by (rule word_eqI32) (auto simp: PGADDR_def bit_or_iff bit_push_bit_iff mmu_bits dest: dd tt ff)
qed

section \<open>Entries\<close>

lemma PTE_ADDR_idem [simp]: "PTE_ADDR (PTE_ADDR x) = PTE_ADDR x"
  by (rule word_eqI32) (simp add: mmu_bits)

lemma PGNUM_PTE_ADDR [simp]: "PGNUM (PTE_ADDR x) = PGNUM x"
  by (rule word_eqI32) (simp add: mmu_bits)

lemma frame_PTE_ADDR [simp]: "frame (PTE_ADDR x) = frame x"
  by (simp add: frame_def)

lemma PTE_ADDR_page2pa [simp]: "PTE_ADDR (page2pa i) = page2pa i"
  by (rule word_eqI32) (simp add: mmu_bits)

lemma PTE_ADDR_or: "f < 4096 \<Longrightarrow> PTE_ADDR (page2pa i OR f) = page2pa i"
  by (rule word_eqI32) (auto simp: bit_or_iff mmu_bits dest: low12_clear)

lemma unat_div4096: "unat (drop_bit 12 (x :: u32)) = unat x div 4096"
  by (simp only: unat_drop_bit_eq) (simp add: drop_bit_eq_div)

lemma frame_bound: "frame x < 1048576"
proof -
  have "unat x < 4294967296" using unsigned_less [of x] by simp
  then show ?thesis unfolding frame_def PGNUM_def unat_div4096 by simp
qed

lemma unat_page2pa:
  assumes "i < 1048576"
  shows "unat (page2pa i) = i * 4096"
proof -
  have "page2pa i = of_nat (i * 4096)"
    by (simp add: page2pa_def push_bit_eq_mult)
  then show ?thesis using assms by (simp only: unat_of_nat) simp
qed

lemma frame_page2pa [simp]: "i < 1048576 \<Longrightarrow> frame (page2pa i) = i"
  unfolding frame_def PGNUM_def unat_div4096 by (simp add: unat_page2pa)

lemma frame_or: "i < 1048576 \<Longrightarrow> f < 4096 \<Longrightarrow> frame (page2pa i OR f) = i"
  using frame_PTE_ADDR [of "page2pa i OR f"] by (simp add: PTE_ADDR_or)

lemma page2pa_inj:
  assumes "i < 1048576" and "j < 1048576" and "page2pa i = page2pa j"
  shows "i = j"
  using arg_cong [OF assms(3), of frame] assms(1,2) by simp

lemma page2pa_frame: "page2pa (frame x) = PTE_ADDR x"
  by (rule word_eqI32) (auto simp: mmu_bits frame_def)

section \<open>Flag bits\<close>

lemma flag_tests [mmu_bits]:
  "x AND PTE_P = 0 \<longleftrightarrow> \<not> bit x 0"
  "x AND PTE_W = 0 \<longleftrightarrow> \<not> bit x 1"
  "x AND PTE_U = 0 \<longleftrightarrow> \<not> bit x 2"
  "x AND PTE_PS = 0 \<longleftrightarrow> \<not> bit x 7"
  "x AND PTE_G = 0 \<longleftrightarrow> \<not> bit x 8"
  using and_exp_eq_0_iff_not_bit [of x 0] and_exp_eq_0_iff_not_bit [of x 1]
    and_exp_eq_0_iff_not_bit [of x 2] and_exp_eq_0_iff_not_bit [of x 7]
    and_exp_eq_0_iff_not_bit [of x 8]
  by (simp_all add: pte_flag_defs)

lemma bit_exp32: "bit (2 ^ k :: u32) n \<longleftrightarrow> n = k \<and> k < 32"
  by (auto simp: bit_exp_iff)

lemma bit_flags [mmu_bits]:
  "bit PTE_P n \<longleftrightarrow> n = 0"
  "bit PTE_W n \<longleftrightarrow> n = 1"
  "bit PTE_U n \<longleftrightarrow> n = 2"
  "bit PTE_PS n \<longleftrightarrow> n = 7"
  "bit PTE_G n \<longleftrightarrow> n = 8"
  using bit_exp32 [of 0 n] bit_exp32 [of 1 n] bit_exp32 [of 2 n] bit_exp32 [of 7 n] bit_exp32 [of 8 n]
  by (simp_all add: pte_flag_defs)

section \<open>Rounding\<close>

lemma unat_mod4096: "unat ((x :: u32) mod 4096) = unat x mod 4096"
  by (simp add: unat_mod)

lemma ROUNDDOWN_PGSIZE: "unat (ROUNDDOWN a PGSIZE) = 4096 * (unat a div 4096)"
proof -
  have "a mod 4096 \<le> a" by (simp add: word_le_nat_alt unat_mod4096)
  then have "unat (a - a mod 4096) = unat a - unat a mod 4096"
    by (simp add: unat_sub unat_mod4096)
  then show ?thesis by (simp add: ROUNDDOWN_def minus_mod_eq_mult_div)
qed

lemma ROUNDUP_PGSIZE:
  assumes "unat a \<le> 4294963200"
  shows "unat (ROUNDUP a PGSIZE) = 4096 * ((unat a + 4095) div 4096)"
proof -
  have "unat (a + 4095) = unat a + 4095"
    using assms by (simp add: unat_word_ariths)
  then have "unat (4095 + a) = unat a + 4095" by (simp add: add.commute)
  then show ?thesis by (simp add: ROUNDUP_def ROUNDDOWN_PGSIZE)
qed

lemma ROUNDUP_PGSIZE_wraps:
  assumes "4294963200 < unat a"
  shows "ROUNDUP a PGSIZE = 0"
proof -
  have lt: "unat a < 4294967296" using unsigned_less [of a] by simp
  have "unat (a + 4095) = (unat a + 4095) mod 4294967296"
    by (simp add: unat_word_ariths)
  also have "\<dots> = unat a + 4095 - 4294967296"
    using assms lt by (simp add: mod_if)
  finally have "unat (a + 4095) < 4096" using lt by linarith
  then have "unat (ROUNDDOWN (a + 4095) PGSIZE) = 0" by (simp add: ROUNDDOWN_PGSIZE)
  then show ?thesis by (simp add: ROUNDUP_def unat_0_iff add.commute)
qed

section \<open>Signed numbers\<close>

lemma sint_unat:
  fixes w :: u32
  assumes "unat w < 2147483648"
  shows "sint w = int (unat w)"
proof -
  have "int (unat w) < 2147483648" using assms by linarith
  then have "uint w < 2147483648" by (simp only: uint_nat)
  then have "signed_take_bit 31 (uint w) = uint w" by (intro signed_take_bit_int_eq_self) (simp_all add: order_trans [OF _ uint_ge_0])
  then have "sint w = uint w" unfolding sint_uint by simp
  then show ?thesis by simp
qed

lemma sint_pos_unat: "0 < sint (w :: u32) \<longleftrightarrow> 0 < unat w \<and> unat w < 2147483648"
proof (cases "unat w < 2147483648")
  case True
  then show ?thesis unfolding sint_unat [OF True] of_nat_0_less_iff by blast
next
  case False
  have "unat w < 4294967296" using unsigned_less [of w] by simp
  then have "unat w div 2147483648 = 1" using False by simp
  then have "bit (unat w) 31" by (simp add: bit_iff_odd)
  then have "sint w < 0" using bit_last_iff [of w] by (simp add: bit_unat32)
  then show ?thesis using False by simp
qed

end
