(* ===== verification/PageAlloc.thy ===== *)
theory PageAlloc
  imports Mmu
begin

text \<open>
  The physical page allocator of \<^verbatim>\<open>kern/pmap.c\<close>: the boot allocator, the free list with its
  four list routines, the search for a free 4 MB block, \<open>page_alloc\<close>, \<open>page_free\<close> and
  \<open>page_decref\<close>.

  The array \<open>pages\<close> is a function from page numbers to \<open>page_info\<close> records and a
  \<open>struct page_info *\<close> is a page number or \<open>None\<close>.  The contents of physical memory are
  kept per frame and 32-bit word (\<open>pmem\<close>).  The record \<open>pm_state\<close> holds the globals of this
  part of the file; the later components extend it, so every routine here works on
  \<open>'z pm_state_scheme\<close>.

  The invariant \<open>pfl_ok s xs\<close> says that the free list of \<open>s\<close> is the chain \<open>xs\<close>, that its
  pages are unreferenced and unflagged, that no other page is linked, and that the counter
  is the length of the chain.  After the checks at boot the counter is 7 too large, since one of the list routines does not
  lower it (theory \<open>BootChecks\<close>); the rest of the invariant holds then, and the properties that assume it speak of
  states in which the counter is right.  The locale \<open>frame_allocator\<close> states what a client of the
  allocator relies on; it is interpreted by \<open>page_alloc\<close> and \<open>page_free\<close>.
\<close>

section \<open>State\<close>

record page_info =
  pp_link :: "nat option"
  lru_link :: "nat option"
  pp_ref :: u16
  page_flags :: u32

record pm_state =
  npages :: nat
  npages_basemem :: nat
  PREMAPPED_FLAG :: bool
  kern_end :: u32
  nextfree :: u32
  pages :: "nat \<Rightarrow> page_info"
  page_free_list :: "nat option"
  free_pages_count :: u32
  pmem :: "nat \<Rightarrow> nat \<Rightarrow> u32"

definition ALLOC_ZERO :: u32 where "ALLOC_ZERO = 0x01"
definition ALLOC_HUGE :: u32 where "ALLOC_HUGE = 0x02"
definition ALLOC_PREMAPPED :: u32 where "ALLOC_PREMAPPED = 0x04"
definition ALLOC :: u32 where "ALLOC = 0x10"
definition POISON_AFTER_FREE :: u32 where "POISON_AFTER_FREE = 0x20"

abbreviation KB :: nat where "KB \<equiv> 1024"

definition upd_page :: "nat \<Rightarrow> (page_info \<Rightarrow> page_info) \<Rightarrow> 'z pm_state_scheme \<Rightarrow> 'z pm_state_scheme" where
  "upd_page i f s = s\<lparr>pages := (pages s)(i := f (pages s i))\<rparr>"

abbreviation plink :: "'z pm_state_scheme \<Rightarrow> nat \<Rightarrow> nat option" where
  "plink s \<equiv> (\<lambda>i. pp_link (pages s i))"

section \<open>Addresses of pages\<close>

text \<open>
  \<open>KADDR\<close> returns the frame whose kernel address the macro yields; every use in the page
  allocator and the page tables applies it to a page-aligned address.
\<close>

definition KADDR :: "u32 \<Rightarrow> 'z pm_state_scheme \<Rightarrow> 'z pm_state_scheme stop + nat" where
  "KADDR pa s =
     (if npages s \<le> frame pa then Inl (Panic ''KADDR called with invalid pa'') else Inr (frame pa))"

definition page2kva :: "nat \<Rightarrow> 'z pm_state_scheme \<Rightarrow> 'z pm_state_scheme stop + nat" where
  "page2kva pp s = KADDR (page2pa pp) s"

definition pa2page :: "u32 \<Rightarrow> 'z pm_state_scheme \<Rightarrow> 'z pm_state_scheme stop + nat" where
  "pa2page pa s =
     (if npages s \<le> frame pa then Inl (Panic ''pa2page called with invalid pa'') else Inr (frame pa))"

text \<open>\<open>memset\<close> of a whole page with a byte repeated in every word.\<close>

definition memset_page :: "nat \<Rightarrow> u32 \<Rightarrow> 'z pm_state_scheme \<Rightarrow> 'z pm_state_scheme" where
  "memset_page fr w s = s\<lparr>pmem := (pmem s)(fr := (\<lambda>_. w))\<rparr>"

section \<open>The boot allocator\<close>

definition boot_alloc :: "u32 \<Rightarrow> 'z pm_state_scheme \<Rightarrow> ('z pm_state_scheme, u32) kres" where
  "boot_alloc n s =
     (let s = (if nextfree s = 0 then s\<lparr>nextfree := ROUNDUP (kern_end s) PGSIZE\<rparr> else s) in
      if n = 0 then Inr (nextfree s, s)
      else
        let pages_to_alloc = (if PGSIZE mod n \<noteq> 0 then n div PGSIZE + 1 else n div PGSIZE);
            result = nextfree s;
            s = s\<lparr>nextfree := nextfree s + PGSIZE * pages_to_alloc\<rparr> in
        if of_nat (npages s) * PGSIZE + KERNBASE < nextfree s
        then Inl (Panic ''BOOT ALLOCATOR: OUT OF MEMORY'')
        else Inr (result, s))"

text \<open>
  \<open>is_allocated_init\<close> decides at boot whether a page is in use (the source's comment says the
  opposite: \<open>will return true only if the page is free\<close>).
\<close>

definition is_allocated_init :: "nat \<Rightarrow> 'z pm_state_scheme \<Rightarrow> ('z pm_state_scheme, bool) kres" where
  "is_allocated_init pp s =
     (let page_a = page2pa pp in
      if page_a < of_nat (npages_basemem s) * PGSIZE then Inr (False, s)
      else if IOPHYSMEM \<le> page_a \<and> page_a < EXTPHYSMEM then Inr (True, s)
      else if EXTPHYSMEM \<le> page_a then
        rbind (boot_alloc 0 s) (\<lambda>(nf, s).
        rbind (PADDR nf) (\<lambda>lim.
          if page_a < lim then Inr (True, s)
          else if page_a = MPENTRY_PADDR then Inr (False, s)
          else Inr (False, s)))
      else if page_a = MPENTRY_PADDR then Inr (False, s)
      else Inr (False, s))"

section \<open>The free list\<close>

definition dec_free_count :: "'z pm_state_scheme \<Rightarrow> ('z pm_state_scheme, unit) kres" where
  "dec_free_count s =
     (if 0 < free_pages_count s then Inr ((), s\<lparr>free_pages_count := free_pages_count s - 1\<rparr>)
      else Inl (AssertFail ''free_pages_count > 0''))"

definition remove_head_pfl :: "'z pm_state_scheme \<Rightarrow> ('z pm_state_scheme, nat option) kres" where
  "remove_head_pfl s =
     (case page_free_list s of
        None \<Rightarrow> Inl NullDeref
      | Some pp \<Rightarrow>
          if pp_ref (pages s pp) \<noteq> 0 then Inl (Panic ''remove_head_pfl(): PP ref is not 0'')
          else
            let s = s\<lparr>page_free_list := pp_link (pages s pp)\<rparr>;
                s = upd_page pp (\<lambda>p. p\<lparr>pp_link := None\<rparr>) s in
            rbind (dec_free_count s) (\<lambda>(_, s). Inr (Some pp, s)))"

definition remove_element_pfl :: "nat \<Rightarrow> 'z pm_state_scheme \<Rightarrow> ('z pm_state_scheme, unit) kres" where
  "remove_element_pfl pp s =
     (if page_free_list s = Some pp then
        let s = s\<lparr>page_free_list := pp_link (pages s pp)\<rparr>;
            s = upd_page pp (\<lambda>p. p\<lparr>pp_link := None\<rparr>) s in
        dec_free_count s
      else
        case seek (Suc (npages s)) (plink s) (\<lambda>c. c = pp) None (page_free_list s) of
          None \<Rightarrow> Inl Diverge
        | Some (pp_old, None) \<Rightarrow> Inr ((), s)
        | Some (None, Some pp_c) \<Rightarrow> Inl NullDeref
        | Some (Some pp_old, Some pp_c) \<Rightarrow>
            let s = upd_page pp_old (\<lambda>p. p\<lparr>pp_link := pp_link (pages s pp_c)\<rparr>) s;
                s = upd_page pp (\<lambda>p. p\<lparr>pp_link := None\<rparr>) s in
            dec_free_count s)"

text \<open>
  The first case of the next routine (the head lies in the first 4 MB) does not touch
  \<open>free_pages_count\<close>; the second does.
\<close>

definition remove_element_4MB_pfl :: "'z pm_state_scheme \<Rightarrow> ('z pm_state_scheme, nat option) kres" where
  "remove_element_4MB_pfl s =
     (case page_free_list s of
        None \<Rightarrow> Inl NullDeref
      | Some h \<Rightarrow>
          if page2pa h < 0x400000 then
            let s = s\<lparr>page_free_list := pp_link (pages s h)\<rparr>;
                s = upd_page h (\<lambda>p. p\<lparr>pp_link := None\<rparr>) s in
            Inr (Some h, s)
          else
            case seek (Suc (npages s)) (plink s) (\<lambda>c. page2pa c < 0x400000) None (page_free_list s) of
              None \<Rightarrow> Inl Diverge
            | Some (pp_old, None) \<Rightarrow> Inr (None, s)
            | Some (None, Some pp) \<Rightarrow> Inl NullDeref
            | Some (Some pp_old, Some pp) \<Rightarrow>
                let s = upd_page pp_old (\<lambda>p. p\<lparr>pp_link := pp_link (pages s pp)\<rparr>) s;
                    s = upd_page pp (\<lambda>p. p\<lparr>pp_link := None\<rparr>) s in
                rbind (dec_free_count s) (\<lambda>(_, s). Inr (Some pp, s)))"

definition add_head_pfl :: "nat \<Rightarrow> 'z pm_state_scheme \<Rightarrow> 'z pm_state_scheme" where
  "add_head_pfl pp s =
     (let s = upd_page pp (\<lambda>p. p\<lparr>pp_link := page_free_list s, pp_ref := 0, page_flags := 0\<rparr>) s
      in s\<lparr>page_free_list := Some pp, free_pages_count := free_pages_count s + 1\<rparr>)"

section \<open>Huge blocks\<close>

text \<open>
  \<open>huge_scan pg base i n count\<close> is the inner loop of \<open>find_huge_page\<close> with \<open>n\<close> rounds left;
  \<open>huge_search\<close> the outer one.  The result \<open>None\<close> stands for \<open>-1\<close>.
\<close>

fun huge_scan :: "(nat \<Rightarrow> page_info) \<Rightarrow> nat \<Rightarrow> nat \<Rightarrow> nat \<Rightarrow> nat \<Rightarrow> nat" where
  "huge_scan pg base i 0 count = count"
| "huge_scan pg base i (Suc n) count =
     (if page_flags (pg (i + base)) AND ALLOC = 0 then huge_scan pg base (Suc i) n (Suc count) else 0)"

fun huge_search :: "(nat \<Rightarrow> page_info) \<Rightarrow> nat \<Rightarrow> nat \<Rightarrow> nat \<Rightarrow> nat option" where
  "huge_search pg j 0 count = None"
| "huge_search pg j (Suc n) count =
     (let count = huge_scan pg (j * KB) 0 KB count in
      if count = KB then Some (j * KB) else huge_search pg (Suc j) n count)"

definition find_huge_page :: "'z pm_state_scheme \<Rightarrow> nat option" where
  "find_huge_page s = huge_search (pages s) 0 (npages s div KB) 0"

section \<open>Allocation\<close>

definition poison_mark :: "u32 \<Rightarrow> nat \<Rightarrow> 'z pm_state_scheme \<Rightarrow> ('z pm_state_scheme, unit) kres" where
  "poison_mark alloc_flags i s =
     (if alloc_flags AND POISON_AFTER_FREE \<noteq> 0 then
        if page_flags (pages s i) AND POISON_AFTER_FREE \<noteq> 0
        then Inl (Panic ''page_alloc huge: PAGE TO ALLOC ALREADY MARKED AS POISON_AFTER_FREE'')
        else Inr ((), upd_page i (\<lambda>p. p\<lparr>page_flags := page_flags p OR POISON_AFTER_FREE\<rparr>) s)
      else Inr ((), s))"

definition zero_fill :: "u32 \<Rightarrow> nat \<Rightarrow> 'z pm_state_scheme \<Rightarrow> ('z pm_state_scheme, unit) kres" where
  "zero_fill alloc_flags i s =
     (if alloc_flags AND ALLOC_ZERO \<noteq> 0
      then rbind (page2kva i s) (\<lambda>fr. Inr ((), memset_page fr 0 s))
      else Inr ((), s))"

text \<open>The loop over the pages of a huge block, from page \<open>i\<close> with \<open>n\<close> pages left.\<close>

fun huge_claim :: "u32 \<Rightarrow> nat \<Rightarrow> nat \<Rightarrow> nat \<Rightarrow> 'z pm_state_scheme \<Rightarrow> ('z pm_state_scheme, unit) kres" where
  "huge_claim alloc_flags hp_idx i 0 s = Inr ((), s)"
| "huge_claim alloc_flags hp_idx i (Suc n) s =
     rbind (poison_mark alloc_flags i s) (\<lambda>(_, s).
     if i \<noteq> hp_idx \<and> page_flags (pages s i) AND ALLOC_HUGE \<noteq> 0
     then Inl (Panic ''page_alloc huge: PAGE TO ALLOC ALREADY MARKED ALLOC'')
     else if page_flags (pages s i) AND ALLOC \<noteq> 0
     then Inl (Panic ''page_alloc huge: PAGE TO ALLOC ALREADY MARKED ALLOC'')
     else
       rbind (zero_fill alloc_flags i s) (\<lambda>(_, s).
       rbind (remove_element_pfl i (upd_page i (\<lambda>p. p\<lparr>page_flags := page_flags p OR ALLOC\<rparr>) s)) (\<lambda>(_, s).
       huge_claim alloc_flags hp_idx (Suc i) n s)))"

definition page_alloc_huge :: "u32 \<Rightarrow> 'z pm_state_scheme \<Rightarrow> ('z pm_state_scheme, nat option) kres" where
  "page_alloc_huge alloc_flags s =
     (case find_huge_page s of
        None \<Rightarrow> Inr (None, s)
      | Some hp_idx \<Rightarrow>
          rbind (poison_mark alloc_flags hp_idx s) (\<lambda>(_, s).
          if page_flags (pages s hp_idx) AND ALLOC_HUGE \<noteq> 0
          then Inl (Panic ''page_alloc huge: PAGE TO ALLOC ALREADY MARKED ALLOC'')
          else
            rbind (huge_claim alloc_flags hp_idx hp_idx KB
                     (upd_page hp_idx (\<lambda>p. p\<lparr>page_flags := page_flags p OR ALLOC_HUGE\<rparr>) s)) (\<lambda>(_, s).
            Inr (Some hp_idx, s))))"

definition page_alloc_single :: "u32 \<Rightarrow> 'z pm_state_scheme \<Rightarrow> ('z pm_state_scheme, nat option) kres" where
  "page_alloc_single alloc_flags s =
     rbind (if PREMAPPED_FLAG s then remove_element_4MB_pfl s else remove_head_pfl s) (\<lambda>(pg, s).
     case pg of
       None \<Rightarrow> Inl NullDeref
     | Some pg0 \<Rightarrow>
         if page_flags (pages s pg0) AND ALLOC \<noteq> 0 \<or> page_flags (pages s pg0) AND ALLOC_HUGE \<noteq> 0
         then Inl (Panic ''page_alloc: PAGE TO ALLOC ALREADY MARKED ALLOC'')
         else
           rbind (poison_mark alloc_flags pg0 s) (\<lambda>(_, s).
           rbind (zero_fill alloc_flags pg0 (upd_page pg0 (\<lambda>p. p\<lparr>page_flags := page_flags p OR ALLOC\<rparr>) s))
             (\<lambda>(_, s). Inr (Some pg0, s))))"

definition page_alloc :: "u32 \<Rightarrow> 'z pm_state_scheme \<Rightarrow> ('z pm_state_scheme, nat option) kres" where
  "page_alloc alloc_flags s =
     (if page_free_list s = None then Inr (None, s)
      else if alloc_flags AND ALLOC_HUGE \<noteq> 0 then page_alloc_huge alloc_flags s
      else page_alloc_single alloc_flags s)"

section \<open>Release\<close>

definition poison_page :: "nat \<Rightarrow> 'z pm_state_scheme \<Rightarrow> ('z pm_state_scheme, unit) kres" where
  "poison_page pp s = rbind (page2kva pp s) (\<lambda>fr. Inr ((), memset_page fr 0x01010101 s))"

definition unpoison :: "nat \<Rightarrow> 'z pm_state_scheme \<Rightarrow> ('z pm_state_scheme, unit) kres" where
  "unpoison i s =
     (if page_flags (pages s i) AND POISON_AFTER_FREE \<noteq> 0 then
        rbind (poison_page i s) (\<lambda>(_, s).
        Inr ((), upd_page i (\<lambda>p. p\<lparr>page_flags := page_flags p XOR POISON_AFTER_FREE\<rparr>) s))
      else Inr ((), s))"

fun free_huge_check :: "nat \<Rightarrow> nat \<Rightarrow> 'z pm_state_scheme \<Rightarrow> 'z pm_state_scheme stop + unit" where
  "free_huge_check i 0 s = Inr ()"
| "free_huge_check i (Suc n) s =
     (if npages s \<le> i then Inl OutOfBounds
      else if page_flags (pages s i) AND ALLOC = 0
      then Inl (Panic ''page_free huge: PAGE TO FREE NOT MARKED ALLOC'')
      else if pp_ref (pages s i) \<noteq> 0
      then Inl (Panic ''page_free huge: THE PAGE TO FREE IS STILL REFERENCED'')
      else if pp_link (pages s i) \<noteq> None
      then Inl (Panic ''page_free huge: THE PAGE TO FREE IS LINKED TO A FREE ELEMENT'')
      else free_huge_check (Suc i) n s)"

fun free_huge_put :: "nat \<Rightarrow> nat \<Rightarrow> 'z pm_state_scheme \<Rightarrow> ('z pm_state_scheme, unit) kres" where
  "free_huge_put i 0 s = Inr ((), s)"
| "free_huge_put i (Suc n) s =
     rbind (unpoison i s) (\<lambda>(_, s).
     free_huge_put (Suc i) n
       (add_head_pfl i (upd_page i (\<lambda>p. p\<lparr>page_flags := page_flags p XOR ALLOC\<rparr>) s)))"

definition page_free :: "nat \<Rightarrow> 'z pm_state_scheme \<Rightarrow> ('z pm_state_scheme, unit) kres" where
  "page_free pp s =
     (if pp_ref (pages s pp) \<noteq> 0 then Inl (Panic ''page_free: THE PAGE TO FREE IS STILL REFERENCED'')
      else if pp_link (pages s pp) \<noteq> None
      then Inl (Panic ''page_free: THE PAGE TO FREE IS LINKED TO A FREE ELEMENT'')
      else if page_flags (pages s pp) AND ALLOC_HUGE \<noteq> 0 then
        let idx = frame (page2pa pp) in
        rbind (free_huge_check idx KB s) (\<lambda>_.
        free_huge_put idx KB
          (upd_page idx (\<lambda>p. p\<lparr>page_flags := page_flags p XOR ALLOC_HUGE\<rparr>) s))
      else
        rbind (unpoison pp s) (\<lambda>(_, s).
        if page_flags (pages s pp) AND ALLOC \<noteq> 0 then
          Inr ((), add_head_pfl pp (upd_page pp (\<lambda>p. p\<lparr>page_flags := page_flags p XOR ALLOC\<rparr>) s))
        else Inl (Panic ''page free: PAGE TO FREE MARKED AS NOT ALLOC'')))"

definition page_decref :: "nat \<Rightarrow> 'z pm_state_scheme \<Rightarrow> ('z pm_state_scheme, unit) kres" where
  "page_decref pp s =
     (let s = upd_page pp (\<lambda>p. p\<lparr>pp_ref := pp_ref p - 1\<rparr>) s in
      if pp_ref (pages s pp) = 0 then page_free pp s else Inr ((), s))"

section \<open>Basic facts\<close>

lemma upd_page_simps [simp]:
  "npages (upd_page i f s) = npages s"
  "npages_basemem (upd_page i f s) = npages_basemem s"
  "PREMAPPED_FLAG (upd_page i f s) = PREMAPPED_FLAG s"
  "kern_end (upd_page i f s) = kern_end s"
  "nextfree (upd_page i f s) = nextfree s"
  "pages (upd_page i f s) = (pages s)(i := f (pages s i))"
  "page_free_list (upd_page i f s) = page_free_list s"
  "free_pages_count (upd_page i f s) = free_pages_count s"
  "pmem (upd_page i f s) = pmem s"
  "pm_state.more (upd_page i f s) = pm_state.more s"
  by (simp_all add: upd_page_def)

lemma memset_page_simps [simp]:
  "npages (memset_page fr w s) = npages s"
  "npages_basemem (memset_page fr w s) = npages_basemem s"
  "PREMAPPED_FLAG (memset_page fr w s) = PREMAPPED_FLAG s"
  "kern_end (memset_page fr w s) = kern_end s"
  "nextfree (memset_page fr w s) = nextfree s"
  "pages (memset_page fr w s) = pages s"
  "page_free_list (memset_page fr w s) = page_free_list s"
  "free_pages_count (memset_page fr w s) = free_pages_count s"
  "pmem (memset_page fr w s) = (pmem s)(fr := (\<lambda>_. w))"
  "pm_state.more (memset_page fr w s) = pm_state.more s"
  by (simp_all add: memset_page_def)

lemma add_head_pfl_simps [simp]:
  "npages (add_head_pfl p s) = npages s"
  "npages_basemem (add_head_pfl p s) = npages_basemem s"
  "PREMAPPED_FLAG (add_head_pfl p s) = PREMAPPED_FLAG s"
  "kern_end (add_head_pfl p s) = kern_end s"
  "nextfree (add_head_pfl p s) = nextfree s"
  "page_free_list (add_head_pfl p s) = Some p"
  "free_pages_count (add_head_pfl p s) = free_pages_count s + 1"
  "pmem (add_head_pfl p s) = pmem s"
  "pages (add_head_pfl p s) =
     (pages s)(p := (pages s p)\<lparr>pp_link := page_free_list s, pp_ref := 0, page_flags := 0\<rparr>)"
  "pm_state.more (add_head_pfl p s) = pm_state.more s"
  by (simp_all add: add_head_pfl_def Let_def)

lemma alloc_flag_tests:
  "x AND ALLOC_ZERO = 0 \<longleftrightarrow> \<not> bit x 0"
  "x AND ALLOC_HUGE = 0 \<longleftrightarrow> \<not> bit x 1"
  "x AND ALLOC = 0 \<longleftrightarrow> \<not> bit x 4"
  "x AND POISON_AFTER_FREE = 0 \<longleftrightarrow> \<not> bit x 5"
  using and_exp_eq_0_iff_not_bit [of x 0] and_exp_eq_0_iff_not_bit [of x 1]
    and_exp_eq_0_iff_not_bit [of x 4] and_exp_eq_0_iff_not_bit [of x 5]
  by (simp_all add: ALLOC_ZERO_def ALLOC_HUGE_def ALLOC_def POISON_AFTER_FREE_def)

lemma bit_alloc_flags:
  "bit ALLOC_ZERO n \<longleftrightarrow> n = 0"
  "bit ALLOC_HUGE n \<longleftrightarrow> n = 1"
  "bit ALLOC n \<longleftrightarrow> n = 4"
  "bit POISON_AFTER_FREE n \<longleftrightarrow> n = 5"
  using bit_exp32 [of 0 n] bit_exp32 [of 1 n] bit_exp32 [of 4 n] bit_exp32 [of 5 n]
  by (simp_all add: ALLOC_ZERO_def ALLOC_HUGE_def ALLOC_def POISON_AFTER_FREE_def)

lemma ALLOC_neq0: "ALLOC \<noteq> 0"
  by (simp add: ALLOC_def)

lemmas flag_bits = alloc_flag_tests bit_alloc_flags bit_or_iff bit_xor_iff bit_and_iff

lemma page2kva_ok: "p < npages s \<Longrightarrow> npages s \<le> 1048576 \<Longrightarrow> page2kva p s = Inr p"
  by (simp add: page2kva_def KADDR_def)

section \<open>The invariant of the free list\<close>

definition pfl_shape :: "'z pm_state_scheme \<Rightarrow> nat list \<Rightarrow> bool" where
  "pfl_shape s xs \<longleftrightarrow>
     llist (plink s) (page_free_list s) xs \<and>
     (\<forall>i \<in> set xs. i < npages s) \<and>
     (\<forall>i < npages s. i \<notin> set xs \<longrightarrow> pp_link (pages s i) = None) \<and>
     free_pages_count s = of_nat (length xs) \<and>
     npages s \<le> 1048576"

definition pfl_ok :: "'z pm_state_scheme \<Rightarrow> nat list \<Rightarrow> bool" where
  "pfl_ok s xs \<longleftrightarrow>
     pfl_shape s xs \<and> (\<forall>i \<in> set xs. pp_ref (pages s i) = 0 \<and> page_flags (pages s i) = 0)"

lemma pfl_okD:
  assumes "pfl_ok s xs"
  shows "llist (plink s) (page_free_list s) xs" and "distinct xs"
    and "\<And>i. i \<in> set xs \<Longrightarrow> i < npages s" and "\<And>i. i \<in> set xs \<Longrightarrow> pp_ref (pages s i) = 0"
    and "\<And>i. i \<in> set xs \<Longrightarrow> page_flags (pages s i) = 0"
    and "\<And>i. i < npages s \<Longrightarrow> i \<notin> set xs \<Longrightarrow> pp_link (pages s i) = None"
    and "free_pages_count s = of_nat (length xs)" and "npages s \<le> 1048576"
    and "length xs \<le> npages s"
proof -
  from assms show ll: "llist (plink s) (page_free_list s) xs"
    and b: "\<And>i. i \<in> set xs \<Longrightarrow> i < npages s"
    and "\<And>i. i \<in> set xs \<Longrightarrow> pp_ref (pages s i) = 0"
    and "\<And>i. i \<in> set xs \<Longrightarrow> page_flags (pages s i) = 0"
    and "\<And>i. i < npages s \<Longrightarrow> i \<notin> set xs \<Longrightarrow> pp_link (pages s i) = None"
    and "free_pages_count s = of_nat (length xs)" and "npages s \<le> 1048576"
    unfolding pfl_ok_def pfl_shape_def by auto
  from ll show "distinct xs" by (rule llist_distinct)
  from ll b show "length xs \<le> npages s" by (auto intro: llist_bounded_length)
qed

lemma pfl_ok_free_list: "pfl_ok s xs \<Longrightarrow> page_free_list s = (case xs of [] \<Rightarrow> None | x # _ \<Rightarrow> Some x)"
  by (cases xs) (auto simp: pfl_ok_def pfl_shape_def)

lemma pfl_ok_length_pos:
  assumes "pfl_ok s xs" and "xs \<noteq> []"
  shows "0 < free_pages_count s"
proof -
  have "length xs \<le> 1048576" using pfl_okD(8,9) [OF assms(1)] by linarith
  then have "unat (of_nat (length xs) :: u32) = length xs"
    by (simp only: unat_of_nat) simp
  then have "(of_nat (length xs) :: u32) \<noteq> 0" using assms(2) by (metis length_0_conv unat_0)
  then show ?thesis using pfl_okD(7) [OF assms(1)] by (simp add: word_neq_0_conv)
qed

text \<open>
  The invariant only looks at the links, counts and flags of the pages, so filling a page,
  or changing fields of a page outside the list, keeps it.
\<close>

lemma pfl_ok_memset [simp]: "pfl_ok (memset_page fr w s) xs = pfl_ok s xs"
  by (simp add: pfl_ok_def pfl_shape_def)

lemma pfl_ok_upd_outside:
  assumes "pfl_ok s xs" and "p \<notin> set xs" and "pp_link (f (pages s p)) = pp_link (pages s p)"
  shows "pfl_ok (upd_page p f s) xs"
proof -
  have "plink (upd_page p f s) = plink s" using assms(3) by auto
  with assms show ?thesis by (auto simp: pfl_ok_def pfl_shape_def)
qed

section \<open>Taking and returning one page\<close>

lemma dec_free_count_ok:
  assumes "free_pages_count s = of_nat (Suc n)" and "n < 1048576"
  shows "dec_free_count s = Inr ((), s\<lparr>free_pages_count := of_nat n\<rparr>)"
proof -
  have "unat (of_nat (Suc n) :: u32) = Suc n"
    using assms(2) by (simp only: unat_of_nat) simp
  then have "0 < (of_nat (Suc n) :: u32)" by (metis unat_gt_0 word_neq_0_conv zero_less_Suc)
  with assms(1) show ?thesis by (simp add: dec_free_count_def)
qed

text \<open>What a client may assume of two states that differ only in the allocator's own fields.\<close>

definition pm_rest_eq :: "'z pm_state_scheme \<Rightarrow> 'z pm_state_scheme \<Rightarrow> bool" where
  "pm_rest_eq s s' \<longleftrightarrow>
     npages s' = npages s \<and> npages_basemem s' = npages_basemem s \<and>
     PREMAPPED_FLAG s' = PREMAPPED_FLAG s \<and> kern_end s' = kern_end s \<and>
     nextfree s' = nextfree s \<and> pm_state.more s' = pm_state.more s"

lemma pm_rest_eq_refl [simp]: "pm_rest_eq s s"
  by (simp add: pm_rest_eq_def)

lemma pm_rest_eq_trans: "pm_rest_eq s t \<Longrightarrow> pm_rest_eq t u \<Longrightarrow> pm_rest_eq s u"
  by (simp add: pm_rest_eq_def)

lemma pm_rest_eq_upd [simp]:
  "pm_rest_eq s (upd_page p f t) = pm_rest_eq s t"
  "pm_rest_eq s (memset_page fr w t) = pm_rest_eq s t"
  "pm_rest_eq s (add_head_pfl p t) = pm_rest_eq s t"
  "pm_rest_eq s (t\<lparr>page_free_list := h\<rparr>) = pm_rest_eq s t"
  "pm_rest_eq s (t\<lparr>free_pages_count := c\<rparr>) = pm_rest_eq s t"
  by (simp_all add: pm_rest_eq_def)

lemma remove_head_pfl_ok:
  assumes "pfl_ok s (x # xs)"
  obtains s' where "remove_head_pfl s = Inr (Some x, s')" and "pfl_ok s' xs"
    and "pages s' = (pages s)(x := (pages s x)\<lparr>pp_link := None\<rparr>)"
    and "pmem s' = pmem s" and "pm_rest_eq s s'"
proof -
  note ok = pfl_okD [OF assms]
  let ?s1 = "upd_page x (\<lambda>p. p\<lparr>pp_link := None\<rparr>) (s\<lparr>page_free_list := pp_link (pages s x)\<rparr>)"
  let ?s2 = "?s1\<lparr>free_pages_count := of_nat (length xs)\<rparr>"
  have "dec_free_count ?s1 = Inr ((), ?s2)"
    using ok by (intro dec_free_count_ok) auto
  then have "remove_head_pfl s = Inr (Some x, ?s2)"
    using ok by (simp add: remove_head_pfl_def Let_def)
  moreover have "llist (plink ?s2) (pp_link (pages s x)) xs = llist (plink s) (pp_link (pages s x)) xs"
    using ok(2) by (intro llist_local) auto
  then have "pfl_ok ?s2 xs"
    using assms by (auto simp: pfl_ok_def pfl_shape_def)
  ultimately show ?thesis by (intro that [of ?s2]) auto
qed

lemma zero_fill_ok:
  assumes "p < npages s" and "npages s \<le> 1048576"
  shows "zero_fill fl p s = Inr ((), if fl AND ALLOC_ZERO = 0 then s else memset_page p 0 s)"
  using assms by (simp add: zero_fill_def page2kva_ok)

lemma poison_mark_ok:
  assumes "page_flags (pages s p) AND POISON_AFTER_FREE = 0"
  shows "poison_mark fl p s =
    Inr ((), upd_page p (\<lambda>q. q\<lparr>page_flags := page_flags q OR (fl AND POISON_AFTER_FREE)\<rparr>) s)"
proof -
  have *: "fl AND POISON_AFTER_FREE = (if fl AND POISON_AFTER_FREE = 0 then 0 else POISON_AFTER_FREE)"
    by (rule word_eqI32) (auto simp: flag_bits)
  show ?thesis
  proof (cases "fl AND POISON_AFTER_FREE = 0")
    case True
    then show ?thesis by (simp add: poison_mark_def upd_page_def)
  next
    case False
    with * have "fl AND POISON_AFTER_FREE = POISON_AFTER_FREE" by simp
    with False assms show ?thesis by (simp add: poison_mark_def)
  qed
qed

lemma page_alloc_ok:
  assumes ok: "pfl_ok s (x # xs)" and pre: "\<not> PREMAPPED_FLAG s" and fl: "fl AND ALLOC_HUGE = 0"
  obtains s' where "page_alloc fl s = Inr (Some x, s')" and "pfl_ok s' xs"
    and "pages s' = (pages s)(x := (pages s x)
           \<lparr>pp_link := None, page_flags := (fl AND POISON_AFTER_FREE) OR ALLOC\<rparr>)"
    and "pmem s' = (if fl AND ALLOC_ZERO = 0 then pmem s else (pmem s)(x := (\<lambda>_. 0)))"
    and "pm_rest_eq s s'"
proof -
  note D = pfl_okD [OF ok]
  obtain t where t: "remove_head_pfl s = Inr (Some x, t)" "pfl_ok t xs"
    and tp: "pages t = (pages s)(x := (pages s x)\<lparr>pp_link := None\<rparr>)"
    and tm: "pmem t = pmem s" and tr: "pm_rest_eq s t"
    using remove_head_pfl_ok [OF ok] by blast
  have np: "npages t = npages s" using tr by (simp add: pm_rest_eq_def)
  have fx: "page_flags (pages t x) = 0" using D tp by simp
  let ?u = "upd_page x (\<lambda>q. q\<lparr>page_flags := page_flags q OR (fl AND POISON_AFTER_FREE)\<rparr>) t"
  let ?v = "upd_page x (\<lambda>q. q\<lparr>page_flags := page_flags q OR ALLOC\<rparr>) ?u"
  let ?w = "if fl AND ALLOC_ZERO = 0 then ?v else memset_page x 0 ?v"
  have "zero_fill fl x ?v = Inr ((), ?w)" using D np by (intro zero_fill_ok) auto
  then have "page_alloc fl s = Inr (Some x, ?w)"
    using D fl pre t fx by (simp add: page_alloc_def page_alloc_single_def poison_mark_ok)
  moreover have "pfl_ok ?v xs"
    using t(2) D(2) by (intro pfl_ok_upd_outside) auto
  then have "pfl_ok ?w xs" by simp
  ultimately show ?thesis
    using tp tm tr fx by (intro that [of ?w]) auto
qed

lemma page_alloc_empty:
  assumes "pfl_ok s []"
  shows "page_alloc fl s = Inr (None, s)"
  using pfl_ok_free_list [OF assms] by (simp add: page_alloc_def)

lemma add_head_pfl_ok:
  assumes ok: "pfl_ok s xs" and p: "p < npages s" "p \<notin> set xs"
  shows "pfl_ok (add_head_pfl p s) (p # xs)"
proof -
  have "llist (plink (add_head_pfl p s)) (page_free_list s) xs = llist (plink s) (page_free_list s) xs"
    using p by (intro llist_local) auto
  then show ?thesis using ok p by (auto simp: pfl_ok_def pfl_shape_def)
qed

lemma unpoison_ok:
  assumes "p < npages s" and "npages s \<le> 1048576"
  obtains s' where "unpoison p s = Inr ((), s')"
    and "pages s' = (pages s)(p := (pages s p)\<lparr>page_flags := page_flags (pages s p) AND NOT POISON_AFTER_FREE\<rparr>)"
    and "pmem s' = (if page_flags (pages s p) AND POISON_AFTER_FREE = 0 then pmem s
                    else (pmem s)(p := (\<lambda>_. 0x01010101)))"
    and "pm_rest_eq s s'" and "page_free_list s' = page_free_list s"
    and "free_pages_count s' = free_pages_count s"
proof (cases "page_flags (pages s p) AND POISON_AFTER_FREE = 0")
  case True
  then have "page_flags (pages s p) AND NOT POISON_AFTER_FREE = page_flags (pages s p)"
    by (intro word_eqI32) (auto simp: flag_bits bit_not_iff)
  with True show ?thesis by (intro that [of s]) (auto simp: unpoison_def)
next
  case False
  then have "page_flags (pages s p) XOR POISON_AFTER_FREE = page_flags (pages s p) AND NOT POISON_AFTER_FREE"
    by (intro word_eqI32) (auto simp: flag_bits bit_not_iff)
  with False assms show ?thesis
    by (intro that [of "upd_page p (\<lambda>q. q\<lparr>page_flags := page_flags q XOR POISON_AFTER_FREE\<rparr>)
           (memset_page p 0x01010101 s)"])
      (auto simp: unpoison_def poison_page_def page2kva_ok)
qed

lemma page_free_ok:
  assumes ok: "pfl_ok s xs" and p: "p < npages s" "p \<notin> set xs"
    and ref: "pp_ref (pages s p) = 0"
    and al: "page_flags (pages s p) AND ALLOC \<noteq> 0" and hu: "page_flags (pages s p) AND ALLOC_HUGE = 0"
  obtains s' where "page_free p s = Inr ((), s')" and "pfl_ok s' (p # xs)"
    and "pages s' = (pages s)(p := (pages s p)\<lparr>pp_link := page_free_list s, page_flags := 0\<rparr>)"
    and "pmem s' = (if page_flags (pages s p) AND POISON_AFTER_FREE = 0 then pmem s
                    else (pmem s)(p := (\<lambda>_. 0x01010101)))"
    and "pm_rest_eq s s'"
proof -
  note D = pfl_okD [OF ok]
  obtain t where t: "unpoison p s = Inr ((), t)"
    and tp: "pages t = (pages s)(p := (pages s p)\<lparr>page_flags := page_flags (pages s p) AND NOT POISON_AFTER_FREE\<rparr>)"
    and tm: "pmem t = (if page_flags (pages s p) AND POISON_AFTER_FREE = 0 then pmem s
                    else (pmem s)(p := (\<lambda>_. 0x01010101)))"
    and tr: "pm_rest_eq s t" "page_free_list t = page_free_list s" "free_pages_count t = free_pages_count s"
    using unpoison_ok [OF p(1) D(8)] by blast
  let ?w = "add_head_pfl p (upd_page p (\<lambda>q. q\<lparr>page_flags := page_flags q XOR ALLOC\<rparr>) t)"
  have "page_flags (pages t p) AND ALLOC \<noteq> 0"
    using al tp by (simp add: flag_bits bit_not_iff)
  then have "page_free p s = Inr ((), ?w)"
    using D(6) p ref hu t by (simp add: page_free_def)
  moreover have "pfl_ok t xs"
  proof -
    have "plink t = plink s" using tp by auto
    then show ?thesis using ok tp tr p by (auto simp: pfl_ok_def pfl_shape_def pm_rest_eq_def)
  qed
  then have "pfl_ok (upd_page p (\<lambda>q. q\<lparr>page_flags := page_flags q XOR ALLOC\<rparr>) t) xs"
    using p by (intro pfl_ok_upd_outside) auto
  then have "pfl_ok ?w (p # xs)"
    using p tr by (intro add_head_pfl_ok) (auto simp: pm_rest_eq_def)
  ultimately show ?thesis
    using tp tm tr ref by (intro that [of ?w]) auto
qed

lemma page_free_twice:
  assumes ok: "pfl_ok s xs" and p: "p \<in> set xs"
  shows "\<exists>m. page_free p s = Inl (Panic m)"
proof -
  note D = pfl_okD [OF ok]
  have "unpoison p s = Inr ((), s)" using D p by (simp add: unpoison_def)
  then show ?thesis using D p by (simp add: page_free_def)
qed

lemma page_free_referenced:
  "pp_ref (pages s p) \<noteq> 0 \<Longrightarrow> \<exists>m. page_free p s = Inl (Panic m)"
  by (simp add: page_free_def)

section \<open>Taking a page out of the middle\<close>

lemma pfl_shapeD:
  assumes "pfl_shape s xs"
  shows "llist (plink s) (page_free_list s) xs" and "distinct xs"
    and "\<And>i. i \<in> set xs \<Longrightarrow> i < npages s"
    and "\<And>i. i < npages s \<Longrightarrow> i \<notin> set xs \<Longrightarrow> pp_link (pages s i) = None"
    and "free_pages_count s = of_nat (length xs)" and "npages s \<le> 1048576"
    and "length xs \<le> npages s"
proof -
  from assms show ll: "llist (plink s) (page_free_list s) xs"
    and b: "\<And>i. i \<in> set xs \<Longrightarrow> i < npages s"
    and "\<And>i. i < npages s \<Longrightarrow> i \<notin> set xs \<Longrightarrow> pp_link (pages s i) = None"
    and "free_pages_count s = of_nat (length xs)" and "npages s \<le> 1048576"
    unfolding pfl_shape_def by auto
  from ll show "distinct xs" by (rule llist_distinct)
  from ll b show "length xs \<le> npages s" by (auto intro: llist_bounded_length)
qed

text \<open>Two states whose pages differ in the link field only.\<close>

definition links_only :: "'z pm_state_scheme \<Rightarrow> 'z pm_state_scheme \<Rightarrow> bool" where
  "links_only s s' \<longleftrightarrow>
     pm_rest_eq s s' \<and> pmem s' = pmem s \<and>
     (\<forall>j. lru_link (pages s' j) = lru_link (pages s j) \<and> pp_ref (pages s' j) = pp_ref (pages s j) \<and>
          page_flags (pages s' j) = page_flags (pages s j))"

lemma remove_element_pfl_ok:
  assumes sh: "pfl_shape s xs"
  obtains s' where "remove_element_pfl i s = Inr ((), s')" and "pfl_shape s' (remove1 i xs)"
    and "links_only s s'"
proof -
  note D = pfl_shapeD [OF sh]
  have fuel: "length xs < Suc (npages s)" using D(7) by simp
  consider (none) "i \<notin> set xs" | (head) ys where "xs = i # ys"
    | (mid) us b vs where "xs = us @ b # i # vs"
  proof (cases "i \<in> set xs")
    case True
    then obtain us vs where xs: "xs = us @ i # vs" by (meson split_list)
    show thesis
    proof (cases us rule: rev_cases)
      case Nil
      with xs head show thesis by simp
    next
      case (snoc ws b)
      with xs mid show thesis by simp
    qed
  qed (use none in blast)
  then show ?thesis
  proof cases
    case none
    then have "page_free_list s \<noteq> Some i" using D(1) by (auto dest: llist_head_in)
    moreover have "seek (Suc (npages s)) (plink s) (\<lambda>c. c = i) None (page_free_list s)
        = Some (if xs = [] then None else Some (last xs), None)"
      using D(1) fuel none by (intro seek_none) auto
    ultimately have "remove_element_pfl i s = Inr ((), s)"
      by (simp add: remove_element_pfl_def)
    with none sh show ?thesis by (intro that [of s]) (auto simp: links_only_def remove1_idem)
  next
    case (head ys)
    let ?t = "upd_page i (\<lambda>p. p\<lparr>pp_link := None\<rparr>) (s\<lparr>page_free_list := pp_link (pages s i)\<rparr>)"
    let ?u = "?t\<lparr>free_pages_count := of_nat (length ys)\<rparr>"
    have "dec_free_count ?t = Inr ((), ?u)"
      using D head by (intro dec_free_count_ok) auto
    then have "remove_element_pfl i s = Inr ((), ?u)"
      using D(1) head by (simp add: remove_element_pfl_def Let_def)
    moreover have "llist (plink ?u) (pp_link (pages s i)) ys = llist (plink s) (pp_link (pages s i)) ys"
      using D(2) head by (intro llist_local) auto
    then have "pfl_shape ?u ys" using sh head by (auto simp: pfl_shape_def)
    ultimately show ?thesis using head by (intro that [of ?u]) (auto simp: links_only_def)
  next
    case (mid us b vs)
    let ?t = "upd_page i (\<lambda>p. p\<lparr>pp_link := None\<rparr>)
      (upd_page b (\<lambda>p. p\<lparr>pp_link := pp_link (pages s i)\<rparr>) s)"
    let ?u = "?t\<lparr>free_pages_count := of_nat (length (us @ b # vs))\<rparr>"
    have dist: "distinct (us @ b # i # vs)" using D(2) mid by simp
    have nh: "page_free_list s \<noteq> Some i"
      using D(1) mid dist by (cases us) auto
    have "seek (Suc (npages s)) (plink s) (\<lambda>c. c = i) None (page_free_list s) = Some (Some b, Some i)"
      using D(1) fuel mid dist by (intro seek_hit_prev [where us = us and vs = vs]) auto
    moreover have "dec_free_count ?t = Inr ((), ?u)"
      using D mid by (intro dec_free_count_ok) auto
    ultimately have "remove_element_pfl i s = Inr ((), ?u)"
      using nh by (simp add: remove_element_pfl_def Let_def)
    moreover have "llist (plink ?u) (page_free_list s) (us @ b # vs)
        = llist ((plink s)(b := plink s i, i := None)) (page_free_list s) (us @ b # vs)"
      by (rule llist_local) auto
    then have "llist (plink ?u) (page_free_list s) (us @ b # vs)"
      using llist_unlink [of "plink s" _ us b i vs] D(1) mid by simp
    then have "pfl_shape ?u (us @ b # vs)"
      using sh mid by (auto simp: pfl_shape_def)
    moreover have "remove1 i xs = us @ b # vs"
      using dist mid by (simp add: remove1_append)
    ultimately show ?thesis by (intro that [of ?u]) (auto simp: links_only_def)
  qed
qed

declare huge_scan.simps(2) [simp del] huge_search.simps(2) [simp del] huge_claim.simps(2) [simp del]
  free_huge_check.simps(2) [simp del] free_huge_put.simps(2) [simp del]

section \<open>The interface of the allocator\<close>

text \<open>
  What the rest of the kernel relies on: \<open>ok s xs\<close> says that \<open>xs\<close> are the free frames of \<open>s\<close>
  in the order in which they will be handed out, \<open>held s p\<close> that frame \<open>p\<close> has been handed
  out as a single page and is not referenced.
\<close>

fun alloc_many :: "('s \<Rightarrow> ('s, nat option) kres) \<Rightarrow> nat \<Rightarrow> 's \<Rightarrow> ('s, nat list) kres" where
  "alloc_many alloc 0 s = Inr ([], s)"
| "alloc_many alloc (Suc n) s =
     rbind (alloc s) (\<lambda>(r, s).
     case r of
       None \<Rightarrow> Inr ([], s)
     | Some p \<Rightarrow> rbind (alloc_many alloc n s) (\<lambda>(ps, s). Inr (p # ps, s)))"

fun release_many :: "(nat \<Rightarrow> 's \<Rightarrow> ('s, unit) kres) \<Rightarrow> nat list \<Rightarrow> 's \<Rightarrow> ('s, unit) kres" where
  "release_many release [] s = Inr ((), s)"
| "release_many release (p # ps) s = rbind (release p s) (\<lambda>(_, s). release_many release ps s)"

locale frame_allocator =
  fixes alloc :: "'s \<Rightarrow> ('s, nat option) kres"
    and release :: "nat \<Rightarrow> 's \<Rightarrow> ('s, unit) kres"
    and ok :: "'s \<Rightarrow> nat list \<Rightarrow> bool"
    and held :: "'s \<Rightarrow> nat \<Rightarrow> bool"
  assumes alloc_Nil: "ok s [] \<Longrightarrow> alloc s = Inr (None, s)"
    and alloc_Cons: "ok s (x # xs) \<Longrightarrow>
          \<exists>s'. alloc s = Inr (Some x, s') \<and> ok s' xs \<and> held s' x \<and> (\<forall>y. held s y \<longrightarrow> held s' y)"
    and release_held: "ok s xs \<Longrightarrow> held s p \<Longrightarrow>
          \<exists>s'. release p s = Inr ((), s') \<and> ok s' (p # xs) \<and> (\<forall>y. y \<noteq> p \<longrightarrow> held s y \<longrightarrow> held s' y)"
    and release_again: "ok s xs \<Longrightarrow> p \<in> set xs \<Longrightarrow> \<exists>m. release p s = Inl (Panic m)"
    and held_not_free: "ok s xs \<Longrightarrow> held s p \<Longrightarrow> p \<notin> set xs"
    and ok_distinct: "ok s xs \<Longrightarrow> distinct xs"
begin

lemma many_ok:
  assumes "ok s xs"
  shows "\<exists>s'. alloc_many alloc n s = Inr (take n xs, s') \<and> ok s' (drop n xs) \<and>
    (\<forall>p \<in> set (take n xs). held s' p) \<and> (\<forall>y. held s y \<longrightarrow> held s' y)"
  using assms
proof (induction n arbitrary: s xs)
  case 0
  then show ?case by simp
next
  case (Suc n)
  show ?case
  proof (cases xs)
    case Nil
    with Suc.prems show ?thesis using alloc_Nil [of s] by simp
  next
    case (Cons x ys)
    with Suc.prems obtain t where t: "alloc s = Inr (Some x, t)" "ok t ys" "held t x"
      "\<forall>y. held s y \<longrightarrow> held t y"
      using alloc_Cons by blast
    with Suc.IH [OF t(2)] Cons show ?thesis by fastforce
  qed
qed

lemma release_many_ok:
  assumes "ok s xs" and "\<forall>p \<in> set ps. held s p" and "distinct ps"
  shows "\<exists>s'. release_many release ps s = Inr ((), s') \<and> ok s' (rev ps @ xs)"
  using assms
proof (induction ps arbitrary: s xs)
  case Nil
  then show ?case by simp
next
  case (Cons p ps)
  then obtain t where t: "release p s = Inr ((), t)" "ok t (p # xs)"
    "\<forall>y. y \<noteq> p \<longrightarrow> held s y \<longrightarrow> held t y"
    using release_held by (metis list.set_intros(1))
  have "\<forall>q \<in> set ps. held t q" using Cons.prems t(3) by auto
  from Cons.IH [OF t(2) this] Cons.prems t(1) show ?case by auto
qed

text \<open>Taking \<open>n\<close> frames and giving them back in reverse restores the free list.\<close>

lemma round_trip:
  assumes "ok s xs"
  shows "\<exists>s' s''. alloc_many alloc n s = Inr (take n xs, s') \<and>
    release_many release (rev (take n xs)) s' = Inr ((), s'') \<and> ok s'' xs"
proof -
  obtain s' where s': "alloc_many alloc n s = Inr (take n xs, s')" "ok s' (drop n xs)"
    "\<forall>p \<in> set (take n xs). held s' p"
    using many_ok [OF assms] by blast
  have "distinct (rev (take n xs))" using ok_distinct [OF assms] by simp
  with release_many_ok [OF s'(2), of "rev (take n xs)"] s' show ?thesis by auto
qed

text \<open>No frame is handed out twice, and none that somebody holds.\<close>

lemma many_fresh:
  assumes "ok s xs" and "alloc_many alloc n s = Inr (ps, s')"
  shows "distinct ps" and "\<And>p. p \<in> set ps \<Longrightarrow> \<not> held s p" and "length ps = min n (length xs)"
proof -
  have ps: "ps = take n xs" using many_ok [OF assms(1), of n] assms(2) by auto
  show "distinct ps" using ok_distinct [OF assms(1)] ps by simp
  show "\<not> held s p" if "p \<in> set ps" for p
    using held_not_free [OF assms(1)] that ps by (meson in_set_takeD)
  show "length ps = min n (length xs)" using ps by simp
qed

end

definition pfl_normal :: "'z pm_state_scheme \<Rightarrow> nat list \<Rightarrow> bool" where
  "pfl_normal s xs \<longleftrightarrow> pfl_ok s xs \<and> \<not> PREMAPPED_FLAG s"

definition page_held :: "'z pm_state_scheme \<Rightarrow> nat \<Rightarrow> bool" where
  "page_held s p \<longleftrightarrow> p < npages s \<and> pp_ref (pages s p) = 0 \<and>
     page_flags (pages s p) AND ALLOC \<noteq> 0 \<and> page_flags (pages s p) AND ALLOC_HUGE = 0"

lemma page_held_not_free: "pfl_ok s xs \<Longrightarrow> page_held s p \<Longrightarrow> p \<notin> set xs"
  using pfl_okD(5) [of s xs p] by (auto simp: page_held_def)

lemma page_alloc_held:
  assumes ok: "pfl_normal s (x # xs)" and fl: "fl AND ALLOC_HUGE = 0"
  shows "\<exists>s'. page_alloc fl s = Inr (Some x, s') \<and> pfl_normal s' xs \<and> page_held s' x \<and>
    (\<forall>y. page_held s y \<longrightarrow> page_held s' y)"
proof -
  have ok': "pfl_ok s (x # xs)" and pre: "\<not> PREMAPPED_FLAG s" using ok by (auto simp: pfl_normal_def)
  note D = pfl_okD [OF ok']
  obtain t where t: "page_alloc fl s = Inr (Some x, t)" "pfl_ok t xs"
    "pages t = (pages s)(x := (pages s x)\<lparr>pp_link := None, page_flags := (fl AND POISON_AFTER_FREE) OR ALLOC\<rparr>)"
    "pm_rest_eq s t"
    using page_alloc_ok [OF ok' pre fl] by blast
  have "page_held t x" using D(3,4) t(3,4) ALLOC_neq0 by (simp add: page_held_def pm_rest_eq_def flag_bits)
  moreover have "page_held t y" if "page_held s y" for y
    using that page_held_not_free [OF ok' that] t(3,4) by (simp add: page_held_def pm_rest_eq_def)
  moreover have "pfl_normal t xs" using t(2,4) pre by (simp add: pfl_normal_def pm_rest_eq_def)
  ultimately show ?thesis using t(1) by blast
qed

lemma page_free_held:
  assumes ok: "pfl_normal s xs" and h: "page_held s p"
  shows "\<exists>s'. page_free p s = Inr ((), s') \<and> pfl_normal s' (p # xs) \<and>
    (\<forall>y. y \<noteq> p \<longrightarrow> page_held s y \<longrightarrow> page_held s' y)"
proof -
  have ok': "pfl_ok s xs" and pre: "\<not> PREMAPPED_FLAG s" using ok by (auto simp: pfl_normal_def)
  have nf: "p \<notin> set xs" using page_held_not_free [OF ok' h] .
  obtain t where t: "page_free p s = Inr ((), t)" "pfl_ok t (p # xs)"
    "pages t = (pages s)(p := (pages s p)\<lparr>pp_link := page_free_list s, page_flags := 0\<rparr>)" "pm_rest_eq s t"
    using page_free_ok [OF ok' _ nf] h unfolding page_held_def by blast
  then have "pfl_normal t (p # xs)" using pre by (simp add: pfl_normal_def pm_rest_eq_def)
  with t show ?thesis by (auto simp: page_held_def pm_rest_eq_def)
qed

interpretation pfl: frame_allocator "page_alloc 0" page_free pfl_normal page_held
proof unfold_locales
  fix s :: "'z pm_state_scheme" and x xs p
  show "pfl_normal s [] \<Longrightarrow> page_alloc 0 s = Inr (None, s)"
    by (simp add: pfl_normal_def page_alloc_empty)
  show "pfl_normal s (x # xs) \<Longrightarrow> \<exists>s'. page_alloc 0 s = Inr (Some x, s') \<and> pfl_normal s' xs \<and>
      page_held s' x \<and> (\<forall>y. page_held s y \<longrightarrow> page_held s' y)"
    by (rule page_alloc_held) simp_all
  show "pfl_normal s xs \<Longrightarrow> page_held s p \<Longrightarrow> \<exists>s'. page_free p s = Inr ((), s') \<and> pfl_normal s' (p # xs) \<and>
      (\<forall>y. y \<noteq> p \<longrightarrow> page_held s y \<longrightarrow> page_held s' y)"
    by (rule page_free_held)
  show "pfl_normal s xs \<Longrightarrow> p \<in> set xs \<Longrightarrow> \<exists>m. page_free p s = Inl (Panic m)"
    unfolding pfl_normal_def by (blast intro: page_free_twice)
  show "pfl_normal s xs \<Longrightarrow> page_held s p \<Longrightarrow> p \<notin> set xs"
    unfolding pfl_normal_def by (blast dest: page_held_not_free)
  show "pfl_normal s xs \<Longrightarrow> distinct xs"
    unfolding pfl_normal_def by (blast dest: pfl_okD(2))
qed

section \<open>The boot allocator\<close>

lemma boot_alloc_0: "nextfree s \<noteq> 0 \<Longrightarrow> boot_alloc 0 s = Inr (nextfree s, s)"
  by (simp add: boot_alloc_def)

lemma boot_alloc_first:
  "nextfree s = 0 \<Longrightarrow> boot_alloc 0 s = Inr (ROUNDUP (kern_end s) PGSIZE, s\<lparr>nextfree := ROUNDUP (kern_end s) PGSIZE\<rparr>)"
  by (simp add: boot_alloc_def)

text \<open>
  A request that does not divide the page size gets enough whole pages: the next request
  starts behind it.  A request that divides it (say 64 bytes) is given no page at all, because
  the code tests \<open>PGSIZE % n\<close> where \<open>n % PGSIZE\<close> is meant.
\<close>

lemma boot_alloc_reserves:
  assumes nf: "nextfree s \<noteq> 0" and n: "n \<noteq> 0" "PGSIZE mod n \<noteq> 0"
    and room: "unat (nextfree s) + unat n + 4096 < 4294967296"
    and r: "boot_alloc n s = Inr (r, s')"
  shows "r = nextfree s" and "unat r + unat n < unat (nextfree s')"
    and "nextfree s mod PGSIZE = 0 \<Longrightarrow> nextfree s' mod PGSIZE = 0"
proof -
  have s': "s' = s\<lparr>nextfree := nextfree s + PGSIZE * (n div PGSIZE + 1)\<rparr>" and "r = nextfree s"
    using r nf n by (auto simp: boot_alloc_def Let_def split: if_splits)
  then show "r = nextfree s" by simp
  have "unat (n div PGSIZE + 1) = unat n div 4096 + 1"
    using room by (simp add: unat_word_ariths unat_div)
  then have "unat (PGSIZE * (n div PGSIZE + 1)) = 4096 * (unat n div 4096 + 1)"
    using room by (simp add: unat_word_ariths)
  then have *: "unat (nextfree s') = unat (nextfree s) + 4096 * (unat n div 4096 + 1)"
    using room s' by (simp add: unat_word_ariths)
  then show "unat r + unat n < unat (nextfree s')" using \<open>r = nextfree s\<close> by simp
  assume "nextfree s mod PGSIZE = 0"
  then have "unat (nextfree s) mod 4096 = 0" by (metis unat_mod4096 unat_0)
  then have "unat (nextfree s' mod PGSIZE) = 0" unfolding unat_mod4096 * by (simp add: mod_add_eq [symmetric])
  then show "nextfree s' mod PGSIZE = 0" by (simp add: unat_eq_0)
qed

lemma boot_alloc_divisor:
  assumes "nextfree s \<noteq> 0" and "n \<noteq> 0" and "n < PGSIZE" and "PGSIZE mod n = 0"
    and "nextfree s \<le> of_nat (npages s) * PGSIZE + KERNBASE"
  shows "boot_alloc n s = Inr (nextfree s, s)"
proof -
  have "unat n < 4096" using assms(3) by (simp add: word_less_nat_alt)
  then have "n div PGSIZE = 0" by (simp add: unat_eq_0 [symmetric] unat_div)
  with assms show ?thesis by (simp add: boot_alloc_def Let_def not_less)
qed

section \<open>Properties\<close>

text \<open>Four frames, of which 3 and 2 are free and 0 is allocated; memory is filled with ones.\<close>

definition sample_pm :: pm_state where
  "sample_pm = \<lparr>npages = 4, npages_basemem = 4, PREMAPPED_FLAG = False, kern_end = 0xF0110000, nextfree = 0xF0120000,
     pages = (\<lambda>i. \<lparr>pp_link = (if i = 3 then Some 2 else None), lru_link = None, pp_ref = (if i = 1 then 1 else 0),
       page_flags = (if i < 2 then ALLOC else 0)\<rparr>),
     page_free_list = Some 3, free_pages_count = 2, pmem = (\<lambda>_ _. 0xFFFFFFFF)\<rparr>"

lemma sample_pm_ok: "pfl_ok sample_pm [3, 2]"
proof -
  have "pp_link (pages sample_pm i) = None" if "i \<noteq> 3" for i using that by (simp add: sample_pm_def)
  then show ?thesis
    by (auto simp: pfl_ok_def pfl_shape_def sample_pm_def ALLOC_def)
qed

lemma sample_pm_fields:
  "\<not> PREMAPPED_FLAG sample_pm" "npages sample_pm = 4" "nextfree sample_pm = 0xF0120000"
  "page_flags (pages sample_pm 0) = ALLOC" "pp_ref (pages sample_pm 0) = 0" "pp_ref (pages sample_pm 1) = 1"
  by (simp_all add: sample_pm_def)

text \<open>
  C6: \<open>page_alloc\<close> of a single page hands out the first page of the free list: the list loses
  exactly that page and stays well formed with its counter, the page is marked allocated, its
  memory is zero when \<open>ALLOC_ZERO\<close> was asked for, no other page or frame changes, and with an
  empty list the answer is NULL and the state is unchanged.
\<close>

theorem page_alloc_single_page:
  assumes "pfl_ok s xs" and "\<not> PREMAPPED_FLAG s" and "fl AND ALLOC_HUGE = 0"
  shows "case xs of
      [] \<Rightarrow> page_alloc fl s = Inr (None, s)
    | x # ys \<Rightarrow> \<exists>s'. page_alloc fl s = Inr (Some x, s') \<and> pfl_ok s' ys \<and>
        page_flags (pages s' x) AND ALLOC \<noteq> 0 \<and> pp_ref (pages s' x) = 0 \<and>
        (fl AND ALLOC_ZERO \<noteq> 0 \<longrightarrow> pmem s' x = (\<lambda>_. 0)) \<and>
        (\<forall>j. j \<noteq> x \<longrightarrow> pages s' j = pages s j \<and> pmem s' j = pmem s j)"
proof (cases xs)
  case Nil
  then show ?thesis using page_alloc_empty [of s fl] assms(1) by simp
next
  case (Cons x ys)
  obtain s' where "page_alloc fl s = Inr (Some x, s')" "pfl_ok s' ys"
    "pages s' = (pages s)(x := (pages s x)\<lparr>pp_link := None, page_flags := (fl AND POISON_AFTER_FREE) OR ALLOC\<rparr>)"
    "pmem s' = (if fl AND ALLOC_ZERO = 0 then pmem s else (pmem s)(x := (\<lambda>_. 0)))"
    using page_alloc_ok [OF assms(1) [unfolded Cons] assms(2,3)] by blast
  then show ?thesis using Cons ALLOC_neq0 pfl_okD(4) [OF assms(1), of x] by (auto simp: flag_bits)
qed

theorem page_alloc_single_page_witness:
  "\<exists>s'. page_alloc ALLOC_ZERO sample_pm = Inr (Some 3, s') \<and> pfl_ok s' [2] \<and> pmem s' 3 = (\<lambda>_. 0)"
  using page_alloc_single_page [OF sample_pm_ok sample_pm_fields(1), of ALLOC_ZERO]
  by (auto simp: ALLOC_ZERO_def ALLOC_HUGE_def)

text \<open>
  C5: taking any number of pages with \<open>page_alloc\<close> yields distinct pages, the first ones of the
  free list, and \<open>page_free\<close> of all of them in reverse order restores the free list exactly.
\<close>

theorem page_alloc_free_round_trip:
  assumes "pfl_normal s xs"
  shows "\<exists>s' s''. alloc_many (page_alloc 0) n s = Inr (take n xs, s') \<and> distinct (take n xs) \<and>
    release_many page_free (rev (take n xs)) s' = Inr ((), s'') \<and> pfl_normal s'' xs"
  using pfl.round_trip [OF assms, of n] pfl.ok_distinct [OF assms] by (metis distinct_take)

theorem page_alloc_free_round_trip_witness:
  "\<exists>s' s''. alloc_many (page_alloc 0) 2 sample_pm = Inr ([3, 2], s') \<and>
    release_many page_free [2, 3] s' = Inr ((), s'') \<and> pfl_normal s'' [3, 2]"
  using page_alloc_free_round_trip [of sample_pm "[3, 2]" 2] sample_pm_ok sample_pm_fields(1)
  by (auto simp: pfl_normal_def numeral_2_eq_2)

text \<open>
  \<open>page_free\<close> stops the kernel instead of corrupting the free list when the page is still
  referenced or already free; a page that is allocated and unreferenced goes to the head of the list.
\<close>

lemma page_free_guarded:
  assumes "pfl_ok s xs" and "p < npages s"
  shows "(pp_ref (pages s p) \<noteq> 0 \<longrightarrow> (\<exists>m. page_free p s = Inl (Panic m))) \<and>
    (p \<in> set xs \<longrightarrow> (\<exists>m. page_free p s = Inl (Panic m))) \<and>
    (page_held s p \<longrightarrow> (\<exists>s'. page_free p s = Inr ((), s') \<and> pfl_ok s' (p # xs)))"
  using page_free_referenced [of s p] page_free_twice [OF assms(1), of p] page_held_not_free [OF assms(1), of p]
    page_free_ok [OF assms(1), of p]
  unfolding page_held_def by blast

text \<open>
  \<open>boot_alloc\<close> with a size that does not divide the page size returns the start of a region
  that the next request begins behind, page aligned, so the regions do not overlap; a size that
  divides the page size reserves nothing.
\<close>

lemma boot_alloc_regions:
  assumes "nextfree s \<noteq> 0" and "n \<noteq> 0" and "unat (nextfree s) + unat n + 4096 < 4294967296"
    and "boot_alloc n s = Inr (r, s')" and "nextfree s mod PGSIZE = 0"
  shows "r = nextfree s \<and> (PGSIZE mod n \<noteq> 0 \<longrightarrow> unat r + unat n < unat (nextfree s') \<and> nextfree s' mod PGSIZE = 0) \<and>
    (PGSIZE mod n = 0 \<and> n < PGSIZE \<longrightarrow> nextfree s' = nextfree s)"
proof -
  have "n div PGSIZE = 0" if "n < PGSIZE"
  proof -
    have "unat n < 4096" using that by (simp add: word_less_nat_alt)
    then show ?thesis by (simp add: unat_eq_0 [symmetric] unat_div)
  qed
  moreover have "r = nextfree s" using assms by (auto simp: boot_alloc_def Let_def split: if_splits)
  ultimately show ?thesis
    using boot_alloc_reserves [OF assms(1,2) _ assms(3,4)] assms
    by (auto simp: boot_alloc_def Let_def split: if_splits)
qed

end
