(* ===== verification/Lru.thy ===== *)
theory Lru
  imports PageAlloc
begin

text \<open>
  The page lists of \<^verbatim>\<open>kern/pmap.c\<close> that order the user pages by use: an active and an inactive
  list, each with a head, a tail and a counter, chained through \<open>lru_link\<close>.

  \<open>lru_ok s as is\<close> is the invariant: the two chains are \<open>as\<close> and \<open>is\<close>, they share no page,
  the tails point to their last elements and the counters are their lengths.  The insertions,
  the removals at either end and the removal of an inner element keep it; the removal of the
  first or the last element of a list by \<open>lru_remove_el\<close> does not, and \<open>lru_ta_insert\<close> puts its
  page on the other list.  The locale \<open>two_lists\<close> is what the balancing loop of \<open>lru_manager\<close>
  in \<^verbatim>\<open>kern/mm_pres.c\<close> needs.
\<close>

section \<open>State\<close>

record lru =
  h_active :: "nat option"
  t_active :: "nat option"
  h_inactive :: "nat option"
  t_inactive :: "nat option"
  h_zswap :: "nat option"
  t_zswap :: "nat option"

record lru_state = pm_state +
  lru_lists :: lru
  lru_active_count :: u32
  lru_inactive_count :: u32

abbreviation llink :: "'z pm_state_scheme \<Rightarrow> nat \<Rightarrow> nat option" where
  "llink s \<equiv> (\<lambda>i. lru_link (pages s i))"

definition set_lru_link :: "nat \<Rightarrow> nat option \<Rightarrow> 'z pm_state_scheme \<Rightarrow> 'z pm_state_scheme" where
  "set_lru_link i v s = upd_page i (\<lambda>p. p\<lparr>lru_link := v\<rparr>) s"

text \<open>A list is passed as the pair of its head and tail; the callers store the new pair.\<close>

type_synonym lru_ends = "nat option \<times> nat option"

section \<open>Operations\<close>

definition lru_insert_head :: "nat option \<Rightarrow> lru_ends \<Rightarrow> 'z pm_state_scheme \<Rightarrow> ('z pm_state_scheme, lru_ends) kres" where
  "lru_insert_head pp ht s =
     (case pp of
        None \<Rightarrow> Inr (ht, s)
      | Some p \<Rightarrow>
          let (head, tail) = ht;
              tail = (if head = None then Some p else tail);
              s = set_lru_link p head s in
          Inr ((Some p, tail), s))"

definition lru_insert_tail :: "nat option \<Rightarrow> lru_ends \<Rightarrow> 'z pm_state_scheme \<Rightarrow> ('z pm_state_scheme, lru_ends) kres" where
  "lru_insert_tail pp ht s =
     (case pp of
        None \<Rightarrow> Inr (ht, s)
      | Some p \<Rightarrow>
          let (head, tail) = ht in
          case tail of
            None \<Rightarrow> Inr ((Some p, Some p), set_lru_link p None s)
          | Some t \<Rightarrow>
              if lru_link (pages s t) \<noteq> None then Inl (AssertFail ''(*tail)->lru_link == NULL'')
              else Inr ((head, Some p), set_lru_link p None (set_lru_link t (Some p) s)))"

definition lru_remove_head :: "lru_ends \<Rightarrow> 'z pm_state_scheme \<Rightarrow> ('z pm_state_scheme, nat option \<times> lru_ends) kres" where
  "lru_remove_head ht s =
     (let (head, tail) = ht;
          tail = (if head = tail then None else tail) in
      case head of
        None \<Rightarrow> Inl NullDeref
      | Some p \<Rightarrow> Inr ((Some p, (lru_link (pages s p), tail)), s))"

definition lru_remove_tail :: "lru_ends \<Rightarrow> 'z pm_state_scheme \<Rightarrow> ('z pm_state_scheme, nat option \<times> lru_ends) kres" where
  "lru_remove_tail ht s =
     (let (head, tail) = ht;
          head = (if head = tail then None else head) in
      case seek (Suc (npages s)) (llink s) (\<lambda>p. lru_link (pages s p) = None) head head of
        None \<Rightarrow> Inl Diverge
      | Some (old_p, None) \<Rightarrow> Inr ((tail, (head, old_p)), s)
      | Some (None, Some p) \<Rightarrow> Inl NullDeref
      | Some (Some old_p, Some p) \<Rightarrow> Inr ((tail, (head, Some old_p)), set_lru_link old_p None s))"

definition lru_remove_el :: "nat option \<Rightarrow> lru_ends \<Rightarrow> 'z pm_state_scheme \<Rightarrow> ('z pm_state_scheme, bool) kres" where
  "lru_remove_el pp ht s =
     (case pp of
        None \<Rightarrow> Inr (False, s)
      | Some q \<Rightarrow>
          let (head, tail) = ht in
          case seek (Suc (npages s)) (llink s) (\<lambda>p. p = q) head head of
            None \<Rightarrow> Inl Diverge
          | Some (old_p, None) \<Rightarrow> Inr (False, s)
          | Some (None, Some p) \<Rightarrow> Inl NullDeref
          | Some (Some old_p, Some p) \<Rightarrow> Inr (True, set_lru_link old_p (lru_link (pages s p)) s))"

text \<open>The wrappers for the two lists.\<close>

abbreviation active :: "'z lru_state_scheme \<Rightarrow> lru_ends" where
  "active s \<equiv> (h_active (lru_lists s), t_active (lru_lists s))"

abbreviation inactive :: "'z lru_state_scheme \<Rightarrow> lru_ends" where
  "inactive s \<equiv> (h_inactive (lru_lists s), t_inactive (lru_lists s))"

definition set_active :: "lru_ends \<Rightarrow> 'z lru_state_scheme \<Rightarrow> 'z lru_state_scheme" where
  "set_active ht s = s\<lparr>lru_lists := (lru_lists s)\<lparr>h_active := fst ht, t_active := snd ht\<rparr>\<rparr>"

definition set_inactive :: "lru_ends \<Rightarrow> 'z lru_state_scheme \<Rightarrow> 'z lru_state_scheme" where
  "set_inactive ht s = s\<lparr>lru_lists := (lru_lists s)\<lparr>h_inactive := fst ht, t_inactive := snd ht\<rparr>\<rparr>"

definition lru_ha_insert :: "nat option \<Rightarrow> 'z lru_state_scheme \<Rightarrow> ('z lru_state_scheme, unit) kres" where
  "lru_ha_insert pp s =
     rbind (lru_insert_head pp (active s) s) (\<lambda>(ht, s).
     Inr ((), set_active ht s\<lparr>lru_active_count := lru_active_count s + 1\<rparr>))"

definition lru_hi_insert :: "nat option \<Rightarrow> 'z lru_state_scheme \<Rightarrow> ('z lru_state_scheme, unit) kres" where
  "lru_hi_insert pp s =
     rbind (lru_insert_head pp (inactive s) s) (\<lambda>(ht, s).
     Inr ((), set_inactive ht s\<lparr>lru_inactive_count := lru_inactive_count s + 1\<rparr>))"

text \<open>\<open>lru_ta_insert\<close> works on the inactive list and counts on the active one.\<close>

definition lru_ta_insert :: "nat option \<Rightarrow> 'z lru_state_scheme \<Rightarrow> ('z lru_state_scheme, unit) kres" where
  "lru_ta_insert pp s =
     rbind (lru_insert_tail pp (inactive s) s) (\<lambda>(ht, s).
     Inr ((), set_inactive ht s\<lparr>lru_active_count := lru_active_count s + 1\<rparr>))"

definition lru_ti_insert :: "nat option \<Rightarrow> 'z lru_state_scheme \<Rightarrow> ('z lru_state_scheme, unit) kres" where
  "lru_ti_insert pp s =
     rbind (lru_insert_tail pp (inactive s) s) (\<lambda>(ht, s).
     Inr ((), set_inactive ht s\<lparr>lru_inactive_count := lru_inactive_count s + 1\<rparr>))"

definition lru_ha_remove :: "'z lru_state_scheme \<Rightarrow> ('z lru_state_scheme, nat option) kres" where
  "lru_ha_remove s =
     rbind (lru_remove_head (active s) s) (\<lambda>((pp, ht), s).
     Inr (pp, set_active ht s\<lparr>lru_active_count := lru_active_count s - 1\<rparr>))"

definition lru_hi_remove :: "'z lru_state_scheme \<Rightarrow> ('z lru_state_scheme, nat option) kres" where
  "lru_hi_remove s =
     rbind (lru_remove_head (inactive s) s) (\<lambda>((pp, ht), s).
     Inr (pp, set_inactive ht s\<lparr>lru_inactive_count := lru_inactive_count s - 1\<rparr>))"

definition lru_ta_remove :: "'z lru_state_scheme \<Rightarrow> ('z lru_state_scheme, nat option) kres" where
  "lru_ta_remove s =
     (let s = s\<lparr>lru_active_count := lru_active_count s - 1\<rparr> in
      rbind (lru_remove_tail (active s) s) (\<lambda>((pp, ht), s). Inr (pp, set_active ht s)))"

definition lru_ti_remove :: "'z lru_state_scheme \<Rightarrow> ('z lru_state_scheme, nat option) kres" where
  "lru_ti_remove s =
     (let s = s\<lparr>lru_inactive_count := lru_inactive_count s - 1\<rparr> in
      rbind (lru_remove_tail (inactive s) s) (\<lambda>((pp, ht), s). Inr (pp, set_inactive ht s)))"

definition lru_remove_el_list :: "nat option \<Rightarrow> 'z lru_state_scheme \<Rightarrow> ('z lru_state_scheme, bool) kres" where
  "lru_remove_el_list pp s =
     (if pp = None then Inr (False, s)
      else
        rbind (lru_remove_el pp (active s) s) (\<lambda>(r, s).
        if r then Inr (True, s\<lparr>lru_active_count := lru_active_count s - 1\<rparr>)
        else
          rbind (lru_remove_el pp (inactive s) s) (\<lambda>(r, s).
          if r then Inr (True, s\<lparr>lru_inactive_count := lru_inactive_count s - 1\<rparr>)
          else Inr (False, s))))"

text \<open>
  \<open>RESPGS\<close> is 2 (page 0 and one page for the 100 tasklets of 36 bytes) and \<open>CPR_LRU_SZ\<close> is 1, so
  the loop of \<open>lru_init\<close> runs once.
\<close>

definition RESPGS :: nat where "RESPGS = 1 + unat (ROUNDUP (100 * 36) PGSIZE div PGSIZE)"
definition CPR_LRU_SZ :: nat where "CPR_LRU_SZ = 1"

fun lru_init_loop :: "nat \<Rightarrow> nat \<Rightarrow> 'z lru_state_scheme \<Rightarrow> 'z lru_state_scheme" where
  "lru_init_loop i 0 s = s"
| "lru_init_loop i (Suc n) s =
     (let s = (if i = RESPGS then s\<lparr>lru_lists := (lru_lists s)\<lparr>t_zswap := Some i\<rparr>\<rparr> else s);
          s = set_lru_link i (h_zswap (lru_lists s)) s;
          s = s\<lparr>lru_lists := (lru_lists s)\<lparr>h_zswap := Some i\<rparr>\<rparr> in
      lru_init_loop (Suc i) n s)"

definition lru_init :: "'z lru_state_scheme \<Rightarrow> 'z lru_state_scheme" where
  "lru_init s =
     lru_init_loop RESPGS CPR_LRU_SZ
       (s\<lparr>lru_lists := \<lparr>h_active = None, t_active = None, h_inactive = None, t_inactive = None,
          h_zswap = None, t_zswap = None\<rparr>\<rparr>)"

section \<open>The invariant\<close>

definition lru_seq :: "'z pm_state_scheme \<Rightarrow> lru_ends \<Rightarrow> nat list \<Rightarrow> bool" where
  "lru_seq s ht xs \<longleftrightarrow>
     llist (llink s) (fst ht) xs \<and> snd ht = (if xs = [] then None else Some (last xs)) \<and>
     (\<forall>i \<in> set xs. i < npages s)"

definition lru_ok :: "'z lru_state_scheme \<Rightarrow> nat list \<Rightarrow> nat list \<Rightarrow> bool" where
  "lru_ok s as bs \<longleftrightarrow>
     lru_seq s (active s) as \<and> lru_seq s (inactive s) bs \<and> set as \<inter> set bs = {} \<and>
     lru_active_count s = of_nat (length as) \<and> lru_inactive_count s = of_nat (length bs)"

lemma set_lru_link_simps [simp]:
  "npages (set_lru_link i v s) = npages s"
  "pmem (set_lru_link i v s) = pmem s"
  "page_free_list (set_lru_link i v s) = page_free_list s"
  "free_pages_count (set_lru_link i v s) = free_pages_count s"
  "pm_state.more (set_lru_link i v s) = pm_state.more s"
  "pages (set_lru_link i v s) = (pages s)(i := (pages s i)\<lparr>lru_link := v\<rparr>)"
  by (simp_all add: set_lru_link_def)

lemma set_lru_link_ext [simp]:
  "lru_lists (set_lru_link i v (s :: 'z lru_state_scheme)) = lru_lists s"
  "lru_active_count (set_lru_link i v s) = lru_active_count s"
  "lru_inactive_count (set_lru_link i v s) = lru_inactive_count s"
  by (simp_all add: set_lru_link_def upd_page_def)

lemma llink_set [simp]: "llink (set_lru_link i v s) = (llink s)(i := v)"
  by auto

lemma set_ends_simps [simp]:
  "pages (set_active ht s) = pages s" "pages (set_inactive ht s) = pages s"
  "npages (set_active ht s) = npages s" "npages (set_inactive ht s) = npages s"
  "active (set_active ht s) = ht" "inactive (set_active ht s) = inactive s"
  "active (set_inactive ht s) = active s" "inactive (set_inactive ht s) = ht"
  "lru_active_count (set_active ht s) = lru_active_count s"
  "lru_inactive_count (set_active ht s) = lru_inactive_count s"
  "lru_active_count (set_inactive ht s) = lru_active_count s"
  "lru_inactive_count (set_inactive ht s) = lru_inactive_count s"
  by (auto simp: set_active_def set_inactive_def)

text \<open>A list is untouched by a write to the link of a page outside it.\<close>

lemma lru_seq_frame: "i \<notin> set xs \<Longrightarrow> lru_seq (set_lru_link i v s) ht xs = lru_seq s ht xs"
  by (simp add: lru_seq_def del: set_lru_link_simps(6) add: llink_set)

lemma lru_seq_ends [simp]:
  "lru_seq (set_active e s) ht xs = lru_seq s ht xs"
  "lru_seq (set_inactive e s) ht xs = lru_seq s ht xs"
  "lru_seq (s\<lparr>lru_active_count := n\<rparr>) ht xs = lru_seq s ht xs"
  "lru_seq (s\<lparr>lru_inactive_count := n\<rparr>) ht xs = lru_seq s ht xs"
  by (simp_all add: lru_seq_def)

lemma lru_seqD:
  assumes "lru_seq s ht xs"
  shows "llist (llink s) (fst ht) xs" and "snd ht = (if xs = [] then None else Some (last xs))"
    and "\<And>i. i \<in> set xs \<Longrightarrow> i < npages s" and "distinct xs" and "length xs < Suc (npages s)"
proof -
  from assms show ll: "llist (llink s) (fst ht) xs"
    and "snd ht = (if xs = [] then None else Some (last xs))"
    and b: "\<And>i. i \<in> set xs \<Longrightarrow> i < npages s"
    unfolding lru_seq_def by auto
  from ll show "distinct xs" by (rule llist_distinct)
  from ll b show "length xs < Suc (npages s)" by (auto simp: less_Suc_eq_le intro: llist_bounded_length)
qed

section \<open>One list\<close>

lemma lru_insert_head_ok:
  assumes "lru_seq s ht xs" and "p \<notin> set xs" and "p < npages s"
  shows "\<exists>ht'. lru_insert_head (Some p) ht s = Inr (ht', set_lru_link p (fst ht) s) \<and>
    lru_seq (set_lru_link p (fst ht) s) ht' (p # xs)"
proof -
  obtain h t where ht: "ht = (h, t)" by (cases ht)
  have "h = None \<longleftrightarrow> xs = []" using lru_seqD(1) [OF assms(1)] ht by (cases xs) auto
  with assms ht show ?thesis
    by (auto simp: lru_insert_head_def Let_def lru_seq_def simp del: set_lru_link_simps(6))
qed

lemma lru_insert_tail_ok:
  assumes "lru_seq s ht xs" and "p \<notin> set xs" and "p < npages s"
  shows "\<exists>ht' s'. lru_insert_tail (Some p) ht s = Inr (ht', s') \<and> lru_seq s' ht' (xs @ [p]) \<and>
    s' = set_lru_link p None (if xs = [] then s else set_lru_link (last xs) (Some p) s)"
proof (cases xs rule: rev_cases)
  case Nil
  with assms show ?thesis
    by (cases ht) (auto simp: lru_insert_tail_def lru_seq_def)
next
  case (snoc us b)
  note D = lru_seqD [OF assms(1)]
  have "lru_link (pages s b) = None" using llist_last_link [OF D(1)] snoc by simp
  moreover have "llist ((llink s)(b := Some p, p := None)) (fst ht) (us @ [b, p])"
    using llist_snoc [of "llink s" "fst ht" us b p] D(1) assms(2) snoc by simp
  ultimately show ?thesis
    using assms D snoc
    by (cases ht) (auto simp: lru_insert_tail_def lru_seq_def simp del: set_lru_link_simps(6))
qed

lemma lru_remove_head_ok:
  assumes "lru_seq s ht (p # xs)"
  shows "\<exists>ht'. lru_remove_head ht s = Inr ((Some p, ht'), s) \<and> lru_seq s ht' xs"
proof -
  obtain h t where ht: "ht = (h, t)" by (cases ht)
  note D = lru_seqD [OF assms]
  have h: "h = Some p" and t: "t = Some (last (p # xs))" using D(1,2) ht by auto
  have "h = t \<longleftrightarrow> xs = []" using h t D(4) last_in_set [of xs] by auto
  with D ht h t show ?thesis by (auto simp: lru_remove_head_def lru_seq_def)
qed

lemma lru_remove_head_empty: "lru_seq s ht [] \<Longrightarrow> lru_remove_head ht s = Inl NullDeref"
  by (cases ht) (auto simp: lru_remove_head_def lru_seq_def)

lemma lru_remove_tail_ok:
  assumes "lru_seq s ht (xs @ [p])"
  shows "\<exists>ht' s'. lru_remove_tail ht s = Inr ((Some p, ht'), s') \<and> lru_seq s' ht' xs \<and>
    s' = (if xs = [] then s else set_lru_link (last xs) None s)"
proof -
  obtain h t where ht: "ht = (h, t)" by (cases ht)
  note D = lru_seqD [OF assms]
  have t: "t = Some p" using D(2) ht by simp
  show ?thesis
  proof (cases xs rule: rev_cases)
    case Nil
    with D(1) ht t show ?thesis by (auto simp: lru_remove_tail_def lru_seq_def seek_empty)
  next
    case (snoc us b)
    have ll: "llist (llink s) h (us @ [b, p])" using D(1) ht snoc by simp
    have "h \<noteq> t" using ll t D(4) snoc by (cases us) auto
    moreover have "seek (Suc (npages s)) (llink s) (\<lambda>c. lru_link (pages s c) = None) h h = Some (Some b, Some p)"
      using ll D(5) snoc by (intro seek_last) auto
    ultimately have "lru_remove_tail ht s = Inr ((Some p, (h, Some b)), set_lru_link b None s)"
      using ht t by (simp add: lru_remove_tail_def)
    moreover have "llist (llink (set_lru_link b None s)) h (us @ [b])"
      using llist_unlink_keep [of "llink s" h us b p "[]"] llist_last_link [OF ll] ll
      by (simp del: set_lru_link_simps(6))
    ultimately show ?thesis using D snoc by (auto simp: lru_seq_def simp del: set_lru_link_simps(6))
  qed
qed

text \<open>
  \<open>lru_remove_el\<close> takes an inner element out.  Applied to the first element it changes nothing
  and still reports success; applied to the last one it leaves the tail pointing at the page
  it removed.
\<close>

lemma lru_remove_el_absent:
  assumes "lru_seq s ht xs" and "p \<notin> set xs"
  shows "lru_remove_el (Some p) ht s = Inr (False, s)"
proof -
  note D = lru_seqD [OF assms(1)]
  have "seek (Suc (npages s)) (llink s) (\<lambda>c. c = p) (fst ht) (fst ht) =
      Some (if xs = [] then fst ht else Some (last xs), None)"
    using D assms(2) by (intro seek_none) auto
  then show ?thesis by (cases ht) (simp add: lru_remove_el_def split: option.splits)
qed

lemma lru_remove_el_head:
  assumes "lru_seq s ht (p # xs)"
  shows "lru_remove_el (Some p) ht s = Inr (True, s)"
proof -
  have "fst ht = Some p" using lru_seqD(1) [OF assms] by simp
  then show ?thesis by (cases ht) (simp add: lru_remove_el_def set_lru_link_def upd_page_def seek_here)
qed

lemma lru_remove_el_inner:
  assumes "lru_seq s ht (us @ b # p # vs)"
  shows "lru_remove_el (Some p) ht s = Inr (True, set_lru_link b (lru_link (pages s p)) s)"
    and "llist (llink (set_lru_link b (lru_link (pages s p)) s)) (fst ht) (us @ b # vs)"
    and "vs \<noteq> [] \<Longrightarrow> lru_seq (set_lru_link b (lru_link (pages s p)) s) ht (us @ b # vs)"
proof -
  note D = lru_seqD [OF assms]
  have "seek (Suc (npages s)) (llink s) (\<lambda>c. c = p) (fst ht) (fst ht) = Some (Some b, Some p)"
    using D by (intro seek_hit_prev [where us = us and vs = vs]) auto
  then show "lru_remove_el (Some p) ht s = Inr (True, set_lru_link b (lru_link (pages s p)) s)"
    by (cases ht) (simp add: lru_remove_el_def)
  show ll: "llist (llink (set_lru_link b (lru_link (pages s p)) s)) (fst ht) (us @ b # vs)"
    using llist_unlink_keep [OF D(1)] by (simp del: set_lru_link_simps(6))
  show "lru_seq (set_lru_link b (lru_link (pages s p)) s) ht (us @ b # vs)" if "vs \<noteq> []"
    using ll D that by (auto simp: lru_seq_def simp del: set_lru_link_simps(6) split: if_splits)
qed

section \<open>Both lists\<close>

text \<open>The list routines change link fields, ends and counters, nothing else.\<close>

definition lru_frame :: "'z lru_state_scheme \<Rightarrow> 'z lru_state_scheme \<Rightarrow> bool" where
  "lru_frame s s' \<longleftrightarrow>
     npages s' = npages s \<and> npages_basemem s' = npages_basemem s \<and>
     PREMAPPED_FLAG s' = PREMAPPED_FLAG s \<and> kern_end s' = kern_end s \<and>
     nextfree s' = nextfree s \<and> lru_state.more s' = lru_state.more s \<and>
     pmem s' = pmem s \<and> page_free_list s' = page_free_list s \<and> free_pages_count s' = free_pages_count s \<and>
     (\<forall>i. pp_link (pages s' i) = pp_link (pages s i) \<and> pp_ref (pages s' i) = pp_ref (pages s i) \<and>
          page_flags (pages s' i) = page_flags (pages s i))"

lemma lru_frame_refl [simp]: "lru_frame s s"
  by (simp add: lru_frame_def)

lemma lru_frame_trans: "lru_frame s t \<Longrightarrow> lru_frame t u \<Longrightarrow> lru_frame s u"
  by (simp add: lru_frame_def)

lemma lru_frame_upd [simp]:
  "lru_frame s (set_lru_link i v t) = lru_frame s t"
  "lru_frame s (set_active ht t) = lru_frame s t"
  "lru_frame s (set_inactive ht t) = lru_frame s t"
  "lru_frame s (t\<lparr>lru_active_count := n\<rparr>) = lru_frame s t"
  "lru_frame s (t\<lparr>lru_inactive_count := n\<rparr>) = lru_frame s t"
  by (auto simp: lru_frame_def set_lru_link_def upd_page_def set_active_def set_inactive_def)

lemma lru_frame_pfl_ok:
  assumes "lru_frame s s'" and "pfl_ok s xs"
  shows "pfl_ok s' xs"
proof -
  have "plink s' = plink s" using assms(1) by (auto simp: lru_frame_def)
  with assms show ?thesis by (auto simp: lru_frame_def pfl_ok_def pfl_shape_def)
qed

lemma lru_ha_insert_ok:
  assumes ok: "lru_ok s as bs" and p: "p < npages s" "p \<notin> set as" "p \<notin> set bs"
  shows "\<exists>s'. lru_ha_insert (Some p) s = Inr ((), s') \<and> lru_ok s' (p # as) bs \<and> lru_frame s s'"
proof -
  let ?t = "set_lru_link p (h_active (lru_lists s)) s"
  obtain ht' where ht': "lru_insert_head (Some p) (active s) s = Inr (ht', ?t)" "lru_seq ?t ht' (p # as)"
    using lru_insert_head_ok [of s "active s" as p] ok p by (auto simp: lru_ok_def simp del: set_lru_link_simps(6))
  then have "lru_seq ?t (inactive s) bs" using ok p by (auto simp: lru_ok_def lru_seq_frame)
  with ok p ht' show ?thesis
    by (auto simp: lru_ha_insert_def lru_ok_def simp del: set_lru_link_simps(6))
qed

lemma lru_hi_insert_ok:
  assumes ok: "lru_ok s as bs" and p: "p < npages s" "p \<notin> set as" "p \<notin> set bs"
  shows "\<exists>s'. lru_hi_insert (Some p) s = Inr ((), s') \<and> lru_ok s' as (p # bs) \<and> lru_frame s s'"
proof -
  let ?t = "set_lru_link p (h_inactive (lru_lists s)) s"
  obtain ht' where ht': "lru_insert_head (Some p) (inactive s) s = Inr (ht', ?t)" "lru_seq ?t ht' (p # bs)"
    using lru_insert_head_ok [of s "inactive s" bs p] ok p by (auto simp: lru_ok_def simp del: set_lru_link_simps(6))
  then have "lru_seq ?t (active s) as" using ok p by (auto simp: lru_ok_def lru_seq_frame)
  with ok p ht' show ?thesis
    by (auto simp: lru_hi_insert_def lru_ok_def simp del: set_lru_link_simps(6))
qed

lemma lru_ti_insert_ok:
  assumes ok: "lru_ok s as bs" and p: "p < npages s" "p \<notin> set as" "p \<notin> set bs"
  shows "\<exists>s'. lru_ti_insert (Some p) s = Inr ((), s') \<and> lru_ok s' as (bs @ [p]) \<and> lru_frame s s'"
proof -
  let ?u = "if bs = [] then s else set_lru_link (last bs) (Some p) s"
  obtain ht' where ht': "lru_insert_tail (Some p) (inactive s) s = Inr (ht', set_lru_link p None ?u)"
    "lru_seq (set_lru_link p None ?u) ht' (bs @ [p])"
    using lru_insert_tail_ok [of s "inactive s" bs p] ok p by (auto simp: lru_ok_def)
  have "last bs \<notin> set as" if "bs \<noteq> []" using ok that last_in_set [OF that] by (auto simp: lru_ok_def)
  then have "lru_seq (set_lru_link p None ?u) (active s) as"
    using ok p by (simp add: lru_ok_def lru_seq_frame)
  with ok p ht' show ?thesis
    by (auto simp: lru_ti_insert_def lru_ok_def simp del: set_lru_link_simps(6))
qed

lemma lru_hi_remove_ok:
  assumes "lru_ok s as (p # bs)"
  shows "\<exists>s'. lru_hi_remove s = Inr (Some p, s') \<and> lru_ok s' as bs \<and> lru_frame s s'"
proof -
  obtain ht' where "lru_remove_head (inactive s) s = Inr ((Some p, ht'), s)" "lru_seq s ht' bs"
    using lru_remove_head_ok [of s "inactive s" p bs] assms by (auto simp: lru_ok_def)
  with assms show ?thesis by (auto simp: lru_hi_remove_def lru_ok_def)
qed

lemma lru_ha_remove_ok:
  assumes "lru_ok s (p # as) bs"
  shows "\<exists>s'. lru_ha_remove s = Inr (Some p, s') \<and> lru_ok s' as bs \<and> lru_frame s s'"
proof -
  obtain ht' where "lru_remove_head (active s) s = Inr ((Some p, ht'), s)" "lru_seq s ht' as"
    using lru_remove_head_ok [of s "active s" p as] assms by (auto simp: lru_ok_def)
  with assms show ?thesis by (auto simp: lru_ha_remove_def lru_ok_def)
qed

lemma lru_hi_remove_empty:
  assumes "lru_ok s as []"
  shows "lru_hi_remove s = Inl NullDeref"
  using lru_remove_head_empty [of s "inactive s"] assms by (simp add: lru_hi_remove_def lru_ok_def)

lemma lru_ta_remove_ok:
  assumes ok: "lru_ok s (as @ [p]) bs"
  shows "\<exists>s'. lru_ta_remove s = Inr (Some p, s') \<and> lru_ok s' as bs \<and> lru_frame s s'"
proof -
  let ?t = "s\<lparr>lru_active_count := lru_active_count s - 1\<rparr>"
  let ?u = "if as = [] then ?t else set_lru_link (last as) None ?t"
  have "lru_seq ?t (active s) (as @ [p])" using ok by (simp add: lru_ok_def)
  then obtain ht' where ht': "lru_remove_tail (active s) ?t = Inr ((Some p, ht'), ?u)" "lru_seq ?u ht' as"
    using lru_remove_tail_ok [of ?t "active s" as p] by auto
  have "last as \<notin> set bs" if "as \<noteq> []" using ok last_in_set [OF that] by (auto simp: lru_ok_def)
  then have "lru_seq ?u (inactive s) bs" using ok by (simp add: lru_ok_def lru_seq_frame)
  with ok ht' show ?thesis
    by (auto simp: lru_ta_remove_def Let_def lru_ok_def simp del: set_lru_link_simps(6))
qed

lemma lru_remove_el_list_inner:
  assumes ok: "lru_ok s (us @ b # p # vs) bs" and "vs \<noteq> []"
  shows "\<exists>s'. lru_remove_el_list (Some p) s = Inr (True, s') \<and> lru_ok s' (us @ b # vs) bs \<and> lru_frame s s'"
proof -
  let ?t = "set_lru_link b (lru_link (pages s p)) s"
  have sq: "lru_seq s (active s) (us @ b # p # vs)" using ok by (simp add: lru_ok_def)
  note R = lru_remove_el_inner [OF sq]
  have "lru_seq ?t (inactive s) bs" using ok by (auto simp: lru_ok_def lru_seq_frame)
  then have "lru_ok (?t\<lparr>lru_active_count := lru_active_count ?t - 1\<rparr>) (us @ b # vs) bs"
    using ok R(3) [OF assms(2)] by (auto simp: lru_ok_def simp del: set_lru_link_simps(6))
  then show ?thesis using R(1) by (auto simp: lru_remove_el_list_def simp del: set_lru_link_simps(6))
qed

lemma lru_remove_el_list_inner_inactive:
  assumes ok: "lru_ok s as (us @ b # p # vs)" and "vs \<noteq> []"
  shows "\<exists>s'. lru_remove_el_list (Some p) s = Inr (True, s') \<and> lru_ok s' as (us @ b # vs) \<and> lru_frame s s'"
proof -
  let ?t = "set_lru_link b (lru_link (pages s p)) s"
  have sq: "lru_seq s (inactive s) (us @ b # p # vs)" using ok by (simp add: lru_ok_def)
  note R = lru_remove_el_inner [OF sq]
  have "p \<notin> set as" using ok by (auto simp: lru_ok_def)
  then have a: "lru_remove_el (Some p) (active s) s = Inr (False, s)"
    using ok by (intro lru_remove_el_absent) (auto simp: lru_ok_def)
  have "lru_seq ?t (active s) as" using ok by (auto simp: lru_ok_def lru_seq_frame)
  then have "lru_ok (?t\<lparr>lru_inactive_count := lru_inactive_count ?t - 1\<rparr>) as (us @ b # vs)"
    using ok R(3) [OF assms(2)] by (auto simp: lru_ok_def simp del: set_lru_link_simps(6))
  then show ?thesis using R(1) a by (auto simp: lru_remove_el_list_def simp del: set_lru_link_simps(6))
qed

lemma lru_remove_el_list_absent:
  assumes "lru_ok s as bs" and "p \<notin> set as" and "p \<notin> set bs"
  shows "lru_remove_el_list (Some p) s = Inr (False, s)"
proof -
  have "lru_remove_el (Some p) (active s) s = Inr (False, s)"
    and "lru_remove_el (Some p) (inactive s) s = Inr (False, s)"
    using assms by (auto intro!: lru_remove_el_absent simp: lru_ok_def)
  then show ?thesis by (simp add: lru_remove_el_list_def)
qed

text \<open>The first page of the active list: the count drops but the page stays.\<close>

lemma lru_remove_el_list_head:
  assumes "lru_ok s (p # as) bs"
  shows "lru_remove_el_list (Some p) s = Inr (True, s\<lparr>lru_active_count := of_nat (length as)\<rparr>)"
proof -
  have "lru_remove_el (Some p) (active s) s = Inr (True, s)"
    using assms by (intro lru_remove_el_head) (auto simp: lru_ok_def)
  then show ?thesis using assms by (simp add: lru_remove_el_list_def lru_ok_def)
qed

text \<open>The allocator does not touch the lists.\<close>

lemma lru_fields_pm:
  assumes "pm_rest_eq s s'"
  shows "lru_lists s' = lru_lists s" and "lru_active_count s' = lru_active_count s"
    and "lru_inactive_count s' = lru_inactive_count s"
  using assms by (auto simp: pm_rest_eq_def) (metis lru_state.ext_inject lru_state.surjective pm_state.select_convs(10))+

lemma lru_ok_pm:
  assumes "lru_ok s as bs" and "pm_rest_eq s s'" and "\<And>i. lru_link (pages s' i) = lru_link (pages s i)"
  shows "lru_ok s' as bs"
proof -
  have "lru_seq s' ht xs = lru_seq s ht xs" for ht xs
    using assms(2,3) by (simp add: lru_seq_def pm_rest_eq_def)
  then show ?thesis using assms(1) lru_fields_pm [OF assms(2)] by (simp add: lru_ok_def)
qed

section \<open>Balancing\<close>

text \<open>
  The loop of \<open>lru_manager\<close>: while the first list is longer than the second, move its last
  element to the end of the second.  Each round lowers the first counter by one, so as many
  rounds as the counter says, and one more for the last test, are enough.
\<close>

fun balance :: "('s \<Rightarrow> ('s, nat option) kres) \<Rightarrow> (nat option \<Rightarrow> 's \<Rightarrow> ('s, unit) kres)
    \<Rightarrow> ('s \<Rightarrow> u32) \<Rightarrow> ('s \<Rightarrow> u32) \<Rightarrow> nat \<Rightarrow> 's \<Rightarrow> ('s, unit) kres" where
  "balance pop put na nb 0 s = Inl Diverge"
| "balance pop put na nb (Suc fuel) s =
     (if nb s < na s then
        rbind (pop s) (\<lambda>(p, s). rbind (put p s) (\<lambda>(_, s). balance pop put na nb fuel s))
      else Inr ((), s))"

locale two_lists =
  fixes pop :: "'s \<Rightarrow> ('s, nat option) kres"
    and put :: "nat option \<Rightarrow> 's \<Rightarrow> ('s, unit) kres"
    and na :: "'s \<Rightarrow> u32"
    and nb :: "'s \<Rightarrow> u32"
    and inv :: "'s \<Rightarrow> nat list \<Rightarrow> nat list \<Rightarrow> bool"
    and fits :: "'s \<Rightarrow> nat \<Rightarrow> bool"
    and keep :: "'s \<Rightarrow> 's \<Rightarrow> bool"
  assumes pop_last: "inv s (as @ [p]) bs \<Longrightarrow>
          \<exists>s'. pop s = Inr (Some p, s') \<and> inv s' as bs \<and> fits s' p \<and> keep s s'"
    and put_last: "inv s as bs \<Longrightarrow> fits s p \<Longrightarrow> p \<notin> set as \<Longrightarrow> p \<notin> set bs \<Longrightarrow>
          \<exists>s'. put (Some p) s = Inr ((), s') \<and> inv s' as (bs @ [p]) \<and> keep s s'"
    and counts: "inv s as bs \<Longrightarrow> na s = of_nat (length as) \<and> nb s = of_nat (length bs)"
    and small: "inv s as bs \<Longrightarrow> distinct (as @ bs) \<and> length as + length bs \<le> 1048576"
    and keep_refl: "keep s s"
    and keep_trans: "keep s t \<Longrightarrow> keep t u \<Longrightarrow> keep s u"
begin

lemma counts_less: "inv s as bs \<Longrightarrow> nb s < na s \<longleftrightarrow> length bs < length as"
proof -
  assume i: "inv s as bs"
  then have "length as < 4294967296" and "length bs < 4294967296" using small [OF i] by simp_all
  then have "unat (of_nat (length as) :: u32) = length as" and "unat (of_nat (length bs) :: u32) = length bs"
    by (simp_all only: unat_of_nat) simp_all
  then show ?thesis using counts [OF i] by (simp add: word_less_nat_alt)
qed

lemma balance_ok:
  assumes "inv s as bs" and "length as < fuel" and "k = length as - (length as - length bs + 1) div 2"
  shows "\<exists>s'. balance pop put na nb fuel s = Inr ((), s') \<and> keep s s' \<and>
    inv s' (take k as) (bs @ rev (drop k as))"
  using assms
proof (induction fuel arbitrary: s as bs)
  case 0
  then show ?case by simp
next
  case (Suc fuel)
  show ?case
  proof (cases "length bs < length as")
    case False
    with Suc.prems show ?thesis using counts_less [OF Suc.prems(1)] keep_refl by simp
  next
    case True
    then obtain cs p where as: "as = cs @ [p]" by (cases as rule: rev_cases) auto
    have p: "p \<notin> set cs" "p \<notin> set bs" using small [OF Suc.prems(1)] as by auto
    obtain t where t: "pop s = Inr (Some p, t)" "inv t cs bs" "fits t p" "keep s t"
      using pop_last Suc.prems(1) as by blast
    obtain u where u: "put (Some p) t = Inr ((), u)" "inv u cs (bs @ [p])" "keep t u"
      using put_last [OF t(2,3) p] by blast
    have "Suc a - (Suc a - b + 1) div 2 = a - (a - Suc b + 1) div 2" if "b < Suc a" for a b :: nat
    proof -
      from that obtain c where "a = b + c" by (metis less_Suc_eq_le le_Suc_ex)
      then show ?thesis by (cases c) auto
    qed
    then have k: "k = length cs - (length cs - length (bs @ [p]) + 1) div 2" and "k \<le> length cs"
      using Suc.prems(3) True as by auto
    obtain v where v: "balance pop put na nb fuel u = Inr ((), v)" "keep u v"
      "inv v (take k cs) ((bs @ [p]) @ rev (drop k cs))"
      using Suc.IH [OF u(2) _ k] Suc.prems(2) as by auto
    have "keep s v" using keep_trans t(4) u(3) v(2) by blast
    moreover have "take k as = take k cs" and "rev (drop k as) = p # rev (drop k cs)"
      using as \<open>k \<le> length cs\<close> by auto
    ultimately show ?thesis using t(1) u(1) v True counts_less [OF Suc.prems(1)] by simp
  qed
qed

end

definition lru_bounded :: "'z lru_state_scheme \<Rightarrow> nat list \<Rightarrow> nat list \<Rightarrow> bool" where
  "lru_bounded s as bs \<longleftrightarrow> lru_ok s as bs \<and> npages s \<le> 1048576"

lemma lru_bounded_small:
  assumes "lru_bounded s as bs"
  shows "distinct (as @ bs)" and "length as + length bs \<le> 1048576"
proof -
  have sq: "lru_seq s (active s) as" "lru_seq s (inactive s) bs" and dj: "set as \<inter> set bs = {}"
    using assms by (auto simp: lru_bounded_def lru_ok_def)
  then show d: "distinct (as @ bs)" using lru_seqD(4) [OF sq(1)] lru_seqD(4) [OF sq(2)] by simp
  have "length (as @ bs) \<le> npages s"
    using d lru_seqD(3) [OF sq(1)] lru_seqD(3) [OF sq(2)] by (intro distinct_bounded_length) auto
  then show "length as + length bs \<le> 1048576" using assms by (simp add: lru_bounded_def)
qed

lemma lru_frame_npages: "lru_frame s s' \<Longrightarrow> npages s' = npages s"
  by (simp add: lru_frame_def)

interpretation lru2: two_lists lru_ta_remove lru_ti_insert lru_active_count lru_inactive_count
  lru_bounded "\<lambda>s p. p < npages s" lru_frame
proof unfold_locales
  fix s t u :: "'z lru_state_scheme" and as bs p
  show "\<exists>s'. lru_ta_remove s = Inr (Some p, s') \<and> lru_bounded s' as bs \<and> p < npages s' \<and> lru_frame s s'"
    if "lru_bounded s (as @ [p]) bs"
  proof -
    have "p < npages s" using that by (auto simp: lru_bounded_def lru_ok_def lru_seq_def)
    then show ?thesis
      using lru_ta_remove_ok [of s as p bs] that by (auto simp: lru_bounded_def lru_frame_def)
  qed
  show "\<exists>s'. lru_ti_insert (Some p) s = Inr ((), s') \<and> lru_bounded s' as (bs @ [p]) \<and> lru_frame s s'"
    if "lru_bounded s as bs" "p < npages s" "p \<notin> set as" "p \<notin> set bs"
    using lru_ti_insert_ok [of s as bs p] that by (auto simp: lru_bounded_def lru_frame_def)
  show "lru_bounded s as bs \<Longrightarrow>
      lru_active_count s = of_nat (length as) \<and> lru_inactive_count s = of_nat (length bs)"
    by (simp add: lru_bounded_def lru_ok_def)
  show "lru_bounded s as bs \<Longrightarrow> distinct (as @ bs) \<and> length as + length bs \<le> 1048576"
    using lru_bounded_small by blast
  show "lru_frame s s" by simp
  show "lru_frame s t \<Longrightarrow> lru_frame t u \<Longrightarrow> lru_frame s u" by (rule lru_frame_trans)
qed

section \<open>Chains without the bookkeeping\<close>

text \<open>
  Because \<open>lru_remove_el\<close> may leave a stale tail or counter, the callers can only rely on the two
  chains being finite and disjoint.  That much every removal keeps.
\<close>

definition lru_chains :: "'z lru_state_scheme \<Rightarrow> bool" where
  "lru_chains s \<longleftrightarrow> (\<exists>as bs. llist (llink s) (h_active (lru_lists s)) as \<and> llist (llink s) (h_inactive (lru_lists s)) bs \<and>
     set as \<inter> set bs = {} \<and> (\<forall>i \<in> set as \<union> set bs. i < npages s))"

lemma lru_ok_chains: "lru_ok s as bs \<Longrightarrow> lru_chains s"
  by (auto simp: lru_ok_def lru_chains_def lru_seq_def)

lemma lru_chains_pm:
  assumes "lru_chains s" and "pm_rest_eq s s'" and "\<And>i. lru_link (pages s' i) = lru_link (pages s i)"
  shows "lru_chains s'"
proof -
  have "llink s' = llink s" using assms(3) by auto
  then show ?thesis using assms(1,2) lru_fields_pm [OF assms(2)] by (simp add: lru_chains_def pm_rest_eq_def)
qed

lemma lru_remove_el_chain:
  assumes ll: "llist (llink s) h xs" and b: "\<forall>i \<in> set xs. i < npages s"
  shows "\<exists>r s'. lru_remove_el (Some p) (h, t) s = Inr (r, s') \<and>
    (s' = s \<or> (\<exists>c v. c \<in> set xs \<and> s' = set_lru_link c v s)) \<and> (\<exists>ys. llist (llink s') h ys \<and> set ys \<subseteq> set xs)"
proof -
  have len: "length xs < Suc (npages s)" using llist_bounded_length [OF ll b] by simp
  consider (none) "p \<notin> set xs" | (head) ys where "xs = p # ys" | (inner) us c vs where "xs = us @ c # p # vs"
  proof (cases "p \<in> set xs")
    case True
    then obtain us vs where xs: "xs = us @ p # vs" by (meson split_list)
    show thesis
    proof (cases us rule: rev_cases)
      case Nil
      with xs head show thesis by simp
    next
      case (snoc ws c)
      with xs inner show thesis by simp
    qed
  qed (use none in blast)
  then show ?thesis
  proof cases
    case none
    then have "seek (Suc (npages s)) (llink s) (\<lambda>c. c = p) h h = Some (if xs = [] then h else Some (last xs), None)"
      using ll len by (intro seek_none) auto
    then have "lru_remove_el (Some p) (h, t) s = Inr (False, s)"
      by (simp add: lru_remove_el_def split: option.splits)
    then show ?thesis using ll by blast
  next
    case (head ys)
    then have "lru_remove_el (Some p) (h, t) s = Inr (True, s)"
      using ll by (simp add: lru_remove_el_def set_lru_link_def upd_page_def seek_here)
    then show ?thesis using ll by blast
  next
    case (inner us c vs)
    have "distinct (us @ c # p # vs)" using llist_distinct [OF ll] inner by simp
    then have "seek (Suc (npages s)) (llink s) (\<lambda>c. c = p) h h = Some (Some c, Some p)"
      using ll len inner by (intro seek_hit_prev [where us = us and vs = vs]) auto
    then have "lru_remove_el (Some p) (h, t) s = Inr (True, set_lru_link c (lru_link (pages s p)) s)"
      by (simp add: lru_remove_el_def)
    moreover have "llist (llink (set_lru_link c (lru_link (pages s p)) s)) h (us @ c # vs)"
      using llist_unlink_keep [of "llink s" h us c p vs] ll inner by (simp del: set_lru_link_simps(6))
    moreover have "set (us @ c # vs) \<subseteq> set xs" and "c \<in> set xs" using inner by auto
    ultimately show ?thesis by blast
  qed
qed

lemma llist_outside_upd:
  assumes "llist (llink s) h xs" and "c \<notin> set xs"
  shows "llist (llink (set_lru_link c v s)) h xs"
  using assms by (simp del: set_lru_link_simps(6))

lemma lru_remove_el_list_total:
  assumes "lru_chains s"
  shows "\<exists>r s'. lru_remove_el_list (Some p) s = Inr (r, s') \<and> lru_chains s' \<and> lru_frame s s'"
proof -
  obtain as bs where A: "llist (llink s) (h_active (lru_lists s)) as" and B: "llist (llink s) (h_inactive (lru_lists s)) bs"
    and dj: "set as \<inter> set bs = {}" and ab: "\<forall>i \<in> set as. i < npages s" and bb: "\<forall>i \<in> set bs. i < npages s"
    using assms unfolding lru_chains_def by blast
  obtain r t ys where t: "lru_remove_el (Some p) (active s) s = Inr (r, t)"
    "t = s \<or> (\<exists>c v. c \<in> set as \<and> t = set_lru_link c v s)" "llist (llink t) (h_active (lru_lists s)) ys" "set ys \<subseteq> set as"
    using lru_remove_el_chain [OF A ab] by blast
  have fr: "lru_frame s t" and same: "lru_lists t = lru_lists s" "npages t = npages s" using t(2) by auto
  have B': "llist (llink t) (h_inactive (lru_lists s)) bs" using t(2) B dj llist_outside_upd by blast
  show ?thesis
  proof (cases r)
    case True
    let ?u = "t\<lparr>lru_active_count := lru_active_count t - 1\<rparr>"
    have "lru_chains ?u"
      unfolding lru_chains_def using t(3,4) B' dj ab bb same by (intro exI [of _ ys] exI [of _ bs]) auto
    moreover have "lru_remove_el_list (Some p) s = Inr (True, ?u)" using t(1) True by (simp add: lru_remove_el_list_def)
    ultimately show ?thesis using fr by auto
  next
    case False
    have bt: "\<forall>i \<in> set bs. i < npages t" using bb same by simp
    obtain q u zs where u: "lru_remove_el (Some p) (inactive t) t = Inr (q, u)"
      "u = t \<or> (\<exists>c v. c \<in> set bs \<and> u = set_lru_link c v t)" "llist (llink u) (h_inactive (lru_lists s)) zs" "set zs \<subseteq> set bs"
      using lru_remove_el_chain [OF B' bt] same by metis
    have fr2: "lru_frame t u" and same2: "lru_lists u = lru_lists t" "npages u = npages t" using u(2) by auto
    have "set ys \<inter> set bs = {}" using dj t(4) by blast
    then have Y: "llist (llink u) (h_active (lru_lists s)) ys" using u(2) t(3) llist_outside_upd by blast
    have chain: "lru_chains (u\<lparr>lru_inactive_count := n\<rparr>)" for n
      unfolding lru_chains_def using Y u(3,4) t(4) dj ab bb same same2 by (intro exI [of _ ys] exI [of _ zs]) auto
    moreover have "lru_chains u"
      unfolding lru_chains_def using Y u(3,4) t(4) dj ab bb same same2 by (intro exI [of _ ys] exI [of _ zs]) auto
    moreover have "lru_frame s u" using fr fr2 by (rule lru_frame_trans)
    moreover have "lru_remove_el_list (Some p) s =
        (if q then Inr (True, u\<lparr>lru_inactive_count := lru_inactive_count u - 1\<rparr>) else Inr (False, u))"
      using t(1) u(1) False by (simp add: lru_remove_el_list_def)
    ultimately show ?thesis by (cases q) auto
  qed
qed

text \<open>
  The consequence of leaving the first page in place: when that page is freed, allocated
  again and inserted at the head, its link points to itself, and the next search for a page
  that is not on the list does not end.
\<close>

lemma lru_reinsert_head_loops:
  assumes ok: "lru_ok s (p # as) bs" and q: "q \<noteq> p"
  shows "\<exists>t u. lru_remove_el_list (Some p) s = Inr (True, t) \<and> lru_ha_insert (Some p) t = Inr ((), u) \<and>
    lru_link (pages u p) = Some p \<and> lru_remove_el_list (Some q) u = Inl Diverge"
proof -
  let ?t = "s\<lparr>lru_active_count := of_nat (length as)\<rparr>"
  have h: "h_active (lru_lists s) = Some p" using ok by (simp add: lru_ok_def lru_seq_def)
  let ?v = "set_lru_link p (Some p) ?t"
  let ?u = "set_active (Some p, t_active (lru_lists s)) ?v\<lparr>lru_active_count := lru_active_count ?v + 1\<rparr>"
  have r: "lru_remove_el_list (Some p) s = Inr (True, ?t)" using lru_remove_el_list_head [OF ok] .
  have i: "lru_ha_insert (Some p) ?t = Inr ((), ?u)"
    using h by (simp add: lru_ha_insert_def lru_insert_head_def Let_def)
  have self: "lru_link (pages ?u p) = Some p" by simp
  have "seek n (llink ?u) (\<lambda>c. c = q) old (Some p) = None" for n old
  proof (induction n arbitrary: old)
    case (Suc n)
    then show ?case using self q by (simp add: seek.simps)
  qed simp
  then have "lru_remove_el (Some q) (active ?u) ?u = Inl Diverge"
    by (simp add: lru_remove_el_def set_active_def)
  then have "lru_remove_el_list (Some q) ?u = Inl Diverge" by (simp add: lru_remove_el_list_def)
  with r i self show ?thesis by blast
qed

section \<open>Properties\<close>

text \<open>Three pages on the active list, none on the inactive one.\<close>

definition sample_lru :: lru_state where
  "sample_lru = \<lparr>npages = 4, npages_basemem = 0, PREMAPPED_FLAG = False, kern_end = 0, nextfree = 0,
     pages = (\<lambda>i. \<lparr>pp_link = None, lru_link = (if i = 1 then Some 2 else if i = 2 then Some 3 else None),
       pp_ref = 1, page_flags = ALLOC\<rparr>),
     page_free_list = None, free_pages_count = 0, pmem = (\<lambda>_ _. 0),
     lru_lists = \<lparr>h_active = Some 1, t_active = Some 3, h_inactive = None, t_inactive = None, h_zswap = None, t_zswap = None\<rparr>,
     lru_active_count = 3, lru_inactive_count = 0\<rparr>"

lemma sample_lru_ok: "lru_ok sample_lru [1, 2, 3] []"
  by (simp add: lru_ok_def lru_seq_def sample_lru_def)

text \<open>
  C28: the balancing loop of \<open>lru_manager\<close> terminates on well-formed lists and moves exactly the last
  half of the surplus of the active list, oldest first, to the end of the inactive list; both lists
  and their counters stay well formed and no page is lost.
\<close>

theorem lru_balance_moves_half:
  assumes "lru_ok s as bs" and "npages s \<le> 1048576"
  shows "\<exists>s' k. k = length as - (length as - length bs + 1) div 2 \<and>
    balance lru_ta_remove lru_ti_insert lru_active_count lru_inactive_count (Suc (length as)) s = Inr ((), s') \<and>
    lru_ok s' (take k as) (bs @ rev (drop k as)) \<and> lru_frame s s'"
  using lru2.balance_ok [of s as bs "Suc (length as)"] assms by (auto simp: lru_bounded_def)

theorem lru_balance_moves_half_witness:
  "\<exists>s'. balance lru_ta_remove lru_ti_insert lru_active_count lru_inactive_count (Suc (Suc (Suc (Suc 0)))) sample_lru = Inr ((), s') \<and>
    lru_ok s' [1] [3, 2]"
proof -
  have "npages sample_lru \<le> 1048576" by (simp add: sample_lru_def)
  from lru_balance_moves_half [OF sample_lru_ok this] show ?thesis
    by (auto simp del: balance.simps)
qed

text \<open>
  C38: \<open>lru_remove_el_list\<close> returns for every page on every pair of finite disjoint lists, keeps them
  finite and disjoint, and changes nothing of the allocator; but it leaves the first page of the active
  list where it is, and inserting that page again makes a cycle on which the next removal of another
  page does not end.
\<close>

theorem lru_remove_el_list_outcomes:
  "(lru_chains s \<longrightarrow> (\<exists>r s'. lru_remove_el_list (Some p) s = Inr (r, s') \<and> lru_chains s' \<and> lru_frame s s')) \<and>
   (lru_ok s (p # as) bs \<and> q \<noteq> p \<longrightarrow>
     (\<exists>t u. lru_remove_el_list (Some p) s = Inr (True, t) \<and> lru_ha_insert (Some p) t = Inr ((), u) \<and>
       lru_link (pages u p) = Some p \<and> lru_remove_el_list (Some q) u = Inl Diverge))"
  using lru_remove_el_list_total [of s p] lru_reinsert_head_loops [of s p as bs q] by blast

theorem lru_remove_el_list_outcomes_witness:
  "\<exists>t u. lru_remove_el_list (Some 1) sample_lru = Inr (True, t) \<and> lru_ha_insert (Some 1) t = Inr ((), u) \<and>
     lru_remove_el_list (Some 7) u = Inl Diverge"
  using lru_remove_el_list_outcomes [of sample_lru 1 "[2, 3]" "[]" 7] sample_lru_ok by auto

end
