(* ===== verification/Tasklet.thy ===== *)
theory Tasklet
  imports Lru
begin

text \<open>
  The tasklets of \<^verbatim>\<open>kern/pmap.c\<close> and \<^verbatim>\<open>inc/env.h\<close>: a pool of 100 work descriptors, each either on
  the free list \<open>t_flist\<close> or on the work list \<open>t_list\<close>, both chained through \<open>t_next\<close>.  The
  descriptors live in physical page 1; they are kept here as an array of their own.

  \<open>task_ok s ws fs\<close> is the invariant (the two chains are \<open>ws\<close> and \<open>fs\<close>, they are disjoint, and
  descriptor \<open>i\<close> has the identifier \<open>i\<close>).  The locale \<open>task_pool\<close> is what the memory-pressure
  code and the kernel threads rely on: descriptors are taken from the front of the free list,
  work is appended, and a finished descriptor goes back to the end of the free list.
\<close>

section \<open>State\<close>

datatype task_fun = F_none | F_page_in | F_page_out

datatype task_status = T_FREE | T_WORK | T_WORKING

record tasklet =
  t_id :: nat
  fptr :: task_fun
  t_count :: u32
  t_state :: task_status
  t_next :: "nat option"
  sector_start :: u32
  t_pi :: "nat option"
  fault_addr :: u32
  requestor_env :: "nat option"

record task_state = lru_state +
  tasklets :: "nat \<Rightarrow> tasklet"
  t_list :: "nat option"
  t_flist :: "nat option"

abbreviation NTASKS :: nat where "NTASKS \<equiv> 100"

definition upd_task :: "nat \<Rightarrow> (tasklet \<Rightarrow> tasklet) \<Rightarrow> 'z task_state_scheme \<Rightarrow> 'z task_state_scheme" where
  "upd_task i f s = s\<lparr>tasklets := (tasklets s)(i := f (tasklets s i))\<rparr>"

abbreviation tnext :: "'z task_state_scheme \<Rightarrow> nat \<Rightarrow> nat option" where
  "tnext s \<equiv> (\<lambda>i. t_next (tasklets s i))"

section \<open>Operations\<close>

text \<open>
  The loop of \<open>task_add\<close> visits the appended descriptor once more before it stops, and then
  writes its link twice; the second write is the one that counts.
\<close>

fun task_add_loop :: "nat \<Rightarrow> nat \<Rightarrow> nat option \<Rightarrow> 'z task_state_scheme \<Rightarrow> ('z task_state_scheme, unit) kres" where
  "task_add_loop 0 t t_s s = Inl Diverge"
| "task_add_loop (Suc fuel) t t_s s =
     (case t_s of
        None \<Rightarrow> Inr ((), s)
      | Some c \<Rightarrow>
          let s = (if t_next (tasklets s c) = None
                   then upd_task t (\<lambda>x. x\<lparr>t_next := None\<rparr>) (upd_task c (\<lambda>x. x\<lparr>t_next := Some t\<rparr>) s)
                   else s) in
          task_add_loop fuel t (t_next (tasklets s c)) s)"

definition task_add :: "nat \<Rightarrow> nat option \<Rightarrow> bool \<Rightarrow> 'z task_state_scheme \<Rightarrow> ('z task_state_scheme, nat option) kres" where
  "task_add t lst free s =
     (let t_s = lst;
          s = (if free then upd_task t (\<lambda>x. x\<lparr>fptr := F_none, t_state := T_FREE, t_count := 0\<rparr>) s else s);
          (lst, s) = (if lst = None then (Some t, upd_task t (\<lambda>x. x\<lparr>t_next := None\<rparr>) s) else (lst, s)) in
      rbind (task_add_loop (NTASKS + 2) t t_s s) (\<lambda>(_, s). Inr (lst, s)))"

definition task_get :: "nat option \<Rightarrow> 'z task_state_scheme \<Rightarrow> nat option \<times> nat option" where
  "task_get lst s =
     (case lst of None \<Rightarrow> (None, None) | Some t_s \<Rightarrow> (Some t_s, t_next (tasklets s t_s)))"

definition task_get_free :: "'z task_state_scheme \<Rightarrow> nat option \<times> 'z task_state_scheme" where
  "task_get_free s = (let (r, lst) = task_get (t_flist s) s in (r, s\<lparr>t_flist := lst\<rparr>))"

definition task_add_alloc :: "nat \<Rightarrow> 'z task_state_scheme \<Rightarrow> ('z task_state_scheme, unit) kres" where
  "task_add_alloc ts s =
     rbind (task_add ts (t_list s) False s) (\<lambda>(lst, s). Inr ((), s\<lparr>t_list := lst\<rparr>))"

definition task_free :: "nat \<Rightarrow> 'z task_state_scheme \<Rightarrow> ('z task_state_scheme, bool) kres" where
  "task_free ident s =
     (case seek (NTASKS + 2) (tnext s) (\<lambda>c. t_id (tasklets s c) = ident) (t_list s) (t_list s) of
        None \<Rightarrow> Inl Diverge
      | Some (old_ts, None) \<Rightarrow> Inr (False, s)
      | Some (None, Some ts) \<Rightarrow> Inl NullDeref
      | Some (Some old_ts, Some ts) \<Rightarrow>
          let s = upd_task old_ts (\<lambda>x. x\<lparr>t_next := t_next (tasklets s ts)\<rparr>) s;
              s = (if t_list s = Some ts then s\<lparr>t_list := t_next (tasklets s ts)\<rparr> else s) in
          rbind (task_add ts (t_flist s) True s) (\<lambda>(lst, s). Inr (True, s\<lparr>t_flist := lst\<rparr>)))"

fun task_init_loop :: "nat \<Rightarrow> nat \<Rightarrow> 'z task_state_scheme \<Rightarrow> 'z task_state_scheme" where
  "task_init_loop idx 0 s = s"
| "task_init_loop idx (Suc n) s =
     task_init_loop (Suc idx) n
       (upd_task idx (\<lambda>x. x\<lparr>t_id := idx, fptr := F_none, t_state := T_FREE, sector_start := 0,
          t_pi := None, fault_addr := 0, requestor_env := None, t_count := 0,
          t_next := (if idx = NTASKS - 1 then None else Some (idx + 1))\<rparr>) s)"

definition task_init :: "nat \<Rightarrow> 'z task_state_scheme \<Rightarrow> ('z task_state_scheme, unit) kres" where
  "task_init pp s =
     rbind (page2kva pp s) (\<lambda>_. Inr ((), task_init_loop 0 NTASKS (s\<lparr>t_flist := Some 0, t_list := None\<rparr>)))"

section \<open>The invariant\<close>

definition task_ok :: "'z task_state_scheme \<Rightarrow> nat list \<Rightarrow> nat list \<Rightarrow> bool" where
  "task_ok s ws fs \<longleftrightarrow>
     llist (tnext s) (t_list s) ws \<and> llist (tnext s) (t_flist s) fs \<and> set ws \<inter> set fs = {} \<and>
     (\<forall>i \<in> set ws \<union> set fs. i < NTASKS) \<and> (\<forall>i < NTASKS. t_id (tasklets s i) = i)"

lemma upd_task_simps [simp]:
  "tasklets (upd_task i f s) = (tasklets s)(i := f (tasklets s i))"
  "t_list (upd_task i f s) = t_list s" "t_flist (upd_task i f s) = t_flist s"
  "task_state.more (upd_task i f s) = task_state.more s"
  "pages (upd_task i f s) = pages s" "npages (upd_task i f s) = npages s"
  by (simp_all add: upd_task_def)

text \<open>The routines of this component change descriptors and the two list heads only.\<close>

definition task_frame :: "'z task_state_scheme \<Rightarrow> 'z task_state_scheme \<Rightarrow> bool" where
  "task_frame s s' \<longleftrightarrow> s'\<lparr>tasklets := tasklets s, t_list := t_list s, t_flist := t_flist s\<rparr> = s"

lemma task_frame_refl [simp]: "task_frame s s"
  by (simp add: task_frame_def)

lemma task_frame_upd [simp]:
  "task_frame s (upd_task i f t) = task_frame s t"
  "task_frame s (t\<lparr>t_list := l\<rparr>) = task_frame s t"
  "task_frame s (t\<lparr>t_flist := l\<rparr>) = task_frame s t"
  by (simp_all add: task_frame_def upd_task_def)

lemma task_frame_eq:
  "task_frame s s' \<Longrightarrow> s' = s\<lparr>tasklets := tasklets s', t_list := t_list s', t_flist := t_flist s'\<rparr>"
  unfolding task_frame_def by (cases s; cases s') auto

lemma task_frame_trans: "task_frame s t \<Longrightarrow> task_frame t u \<Longrightarrow> task_frame s u"
  unfolding task_frame_def by (cases s; cases t; cases u) auto

lemma task_add_loop_skip:
  assumes "llist (tnext s) p (us @ [b])" and "length us < fuel"
  shows "task_add_loop fuel t p s = task_add_loop (fuel - length us) t (Some b) s"
  using assms
proof (induction us arbitrary: p fuel)
  case Nil
  then show ?case by simp
next
  case (Cons u us)
  then obtain k where k: "fuel = Suc k" "length us < k" by (cases fuel) auto
  have p: "p = Some u" and ll: "llist (tnext s) (tnext s u) (us @ [b])" using Cons.prems by auto
  then obtain v where "tnext s u = Some v" by (cases us) auto
  with Cons.IH [OF ll k(2)] k p show ?case by simp
qed

lemma task_add_loop_last:
  assumes "t_next (tasklets s b) = None" and "t \<noteq> b"
  shows "task_add_loop (Suc (Suc (Suc k))) t (Some b) s =
    Inr ((), upd_task t (\<lambda>x. x\<lparr>t_next := None\<rparr>) (upd_task b (\<lambda>x. x\<lparr>t_next := Some t\<rparr>) s))"
  using assms by (simp add: upd_task_def fun_upd_twist)

lemma task_add_ok:
  assumes ll: "llist (tnext s) lst xs" and t: "t \<notin> set xs" and len: "length xs \<le> NTASKS"
  shows "\<exists>s'. task_add t lst fr s = Inr (Some (hd (xs @ [t])), s') \<and> llist (tnext s') (Some (hd (xs @ [t]))) (xs @ [t]) \<and>
    task_frame s s' \<and> t_list s' = t_list s \<and> t_flist s' = t_flist s \<and>
    (\<forall>i. i \<noteq> t \<longrightarrow> i \<notin> set xs \<longrightarrow> tasklets s' i = tasklets s i) \<and>
    (\<forall>i. (tasklets s' i)\<lparr>t_next := None\<rparr> = (if fr \<and> i = t
        then (tasklets s i)\<lparr>fptr := F_none, t_state := T_FREE, t_count := 0, t_next := None\<rparr>
        else (tasklets s i)\<lparr>t_next := None\<rparr>))"
proof -
  define s0 where "s0 = (if fr then upd_task t (\<lambda>x. x\<lparr>fptr := F_none, t_state := T_FREE, t_count := 0\<rparr>) s else s)"
  have nx: "tnext s0 = tnext s" by (auto simp: s0_def)
  show ?thesis
  proof (cases xs rule: rev_cases)
    case Nil
    then show ?thesis using ll
      by (auto simp: task_add_def Let_def numeral_eq_Suc upd_task_def task_frame_def)
  next
    case (snoc us b)
    have ll0: "llist (tnext s0) lst (us @ [b])" using ll snoc nx by simp
    have ne: "lst \<noteq> None" using ll snoc by (cases us) auto
    have hd: "lst = Some (hd (xs @ [t]))" using ll snoc by (cases us) auto
    have b: "tnext s0 b = None" using llist_last_link [OF ll0] by simp
    have tb: "t \<noteq> b" using t snoc by auto
    let ?s = "upd_task t (\<lambda>x. x\<lparr>t_next := None\<rparr>) (upd_task b (\<lambda>x. x\<lparr>t_next := Some t\<rparr>) s0)"
    define k where "k = NTASKS - Suc (length us)"
    have k: "NTASKS + 2 - length us = Suc (Suc (Suc k))" using len snoc by (simp add: k_def)
    have "task_add_loop (NTASKS + 2) t lst s0 = Inr ((), ?s)"
      using task_add_loop_skip [OF ll0, of "NTASKS + 2" t] task_add_loop_last [of s0 b t k] b tb k len snoc
      by (simp del: task_add_loop.simps)
    then have "task_add t lst fr s = Inr (Some (hd (xs @ [t])), ?s)"
      using ne hd by (simp add: task_add_def Let_def s0_def del: task_add_loop.simps)
    moreover have "llist (tnext ?s) lst (us @ [b, t])"
    proof -
      have "llist ((tnext s0)(b := Some t, t := None)) lst (us @ [b, t])"
        using llist_snoc [OF ll0] t snoc by simp
      moreover have "tnext ?s = (tnext s0)(b := Some t, t := None)" by auto
      ultimately show ?thesis by simp
    qed
    ultimately show ?thesis using snoc hd
      by (intro exI [of _ ?s]) (auto simp: s0_def upd_task_def task_frame_def)
  qed
qed

lemma task_okD:
  assumes "task_ok s ws fs"
  shows "llist (tnext s) (t_list s) ws" and "llist (tnext s) (t_flist s) fs" and "set ws \<inter> set fs = {}"
    and "\<And>i. i \<in> set ws \<Longrightarrow> i < NTASKS" and "\<And>i. i \<in> set fs \<Longrightarrow> i < NTASKS"
    and "\<And>i. i < NTASKS \<Longrightarrow> t_id (tasklets s i) = i"
    and "length ws \<le> NTASKS" and "length fs \<le> NTASKS" and "distinct ws" and "distinct fs"
  using assms unfolding task_ok_def by (auto intro: llist_bounded_length llist_distinct)

lemma t_id_next: "(x :: tasklet)\<lparr>t_next := None\<rparr> = y\<lparr>t_next := None\<rparr> \<Longrightarrow> t_id x = t_id y"
  by (cases x; cases y) auto

lemma task_get_free_ok:
  assumes "task_ok s ws (t # fs)"
  shows "task_get_free s = (Some t, s\<lparr>t_flist := tnext s t\<rparr>)" and "task_ok (s\<lparr>t_flist := tnext s t\<rparr>) ws fs"
    and "t < NTASKS" and "t \<notin> set ws" and "t \<notin> set fs"
  using assms task_okD(10) [OF assms]
  by (auto simp: task_get_free_def task_get_def task_ok_def)

lemma task_get_free_empty: "task_ok s ws [] \<Longrightarrow> task_get_free s = (None, s)"
  by (auto simp: task_get_free_def task_get_def task_ok_def)

lemma task_add_alloc_ok:
  assumes ok: "task_ok s ws fs" and t: "t < NTASKS" "t \<notin> set ws" "t \<notin> set fs"
  shows "\<exists>s'. task_add_alloc t s = Inr ((), s') \<and> task_ok s' (ws @ [t]) fs \<and> task_frame s s' \<and>
    (\<forall>i. (tasklets s' i)\<lparr>t_next := None\<rparr> = (tasklets s i)\<lparr>t_next := None\<rparr>)"
proof -
  note D = task_okD [OF ok]
  obtain u where u: "task_add t (t_list s) False s = Inr (Some (hd (ws @ [t])), u)"
    "llist (tnext u) (Some (hd (ws @ [t]))) (ws @ [t])" "task_frame s u" "t_list u = t_list s" "t_flist u = t_flist s"
    "\<forall>i. i \<noteq> t \<longrightarrow> i \<notin> set ws \<longrightarrow> tasklets u i = tasklets s i"
    "\<forall>i. (tasklets u i)\<lparr>t_next := None\<rparr> = (tasklets s i)\<lparr>t_next := None\<rparr>"
    using task_add_ok [OF D(1) t(2) D(7), of False] by auto
  have "llist (tnext u) (t_flist s) fs = llist (tnext s) (t_flist s) fs"
    using u(6) t(3) D(3) by (intro llist_local) auto
  moreover have "t_id (tasklets u i) = i" if "i < NTASKS" for i
    using t_id_next u(7) D(6) [OF that] by metis
  ultimately have "task_ok (u\<lparr>t_list := Some (hd (ws @ [t]))\<rparr>) (ws @ [t]) fs"
    using u(2,5) D t by (auto simp: task_ok_def)
  then show ?thesis using u(1,3,7) by (auto simp: task_add_alloc_def)
qed

text \<open>Taking one descriptor out of the work list, first or inner.\<close>

lemma task_free_ok:
  assumes ok: "task_ok s (us @ t # vs) fs"
  shows "\<exists>s'. task_free t s = Inr (True, s') \<and> task_ok s' (us @ vs) (fs @ [t]) \<and> task_frame s s' \<and>
    t_state (tasklets s' t) = T_FREE \<and> fptr (tasklets s' t) = F_none \<and>
    (\<forall>i. i \<noteq> t \<longrightarrow> (tasklets s' i)\<lparr>t_next := None\<rparr> = (tasklets s i)\<lparr>t_next := None\<rparr>)"
proof -
  note D = task_okD [OF ok]
  have ident: "t_id (tasklets s i) = t \<longleftrightarrow> i = t" if "i \<in> set (us @ t # vs)" for i
    using D(4,6) that by metis
  have t: "t < NTASKS" "t \<notin> set fs" "t \<notin> set us" "t \<notin> set vs" using D(3,4,9) by auto
  define old where "old = (if us = [] then t else last us)"
  have sk: "seek (NTASKS + 2) (tnext s) (\<lambda>c. t_id (tasklets s c) = t) (t_list s) (t_list s) = Some (Some old, Some t)"
  proof -
    have "seek (NTASKS + 2) (tnext s) (\<lambda>c. t_id (tasklets s c) = t) (t_list s) (t_list s) =
        Some (if us = [] then t_list s else Some (last us), Some t)"
      using D(1,7) ident t by (intro seek_hit [where vs = vs]) auto
    then show ?thesis using D(1) by (auto simp: old_def)
  qed
  let ?u = "upd_task old (\<lambda>x. x\<lparr>t_next := t_next (tasklets s t)\<rparr>) s"
  let ?v = "if t_list s = Some t then ?u\<lparr>t_list := tnext ?u t\<rparr> else ?u"
  have nx: "tnext ?v = (tnext s)(old := tnext s t)" by auto
  have old: "old \<notin> set fs" using D(3) t last_in_set [of us] by (auto simp: old_def disjoint_iff)
  have w: "llist (tnext ?v) (t_list ?v) (us @ vs)"
  proof (cases us rule: rev_cases)
    case Nil
    then have "t_list s = Some t" "old = t" "llist (tnext s) (tnext s t) vs" using D(1) by (auto simp: old_def)
    then show ?thesis using nx Nil by (simp add: fun_upd_idem)
  next
    case (snoc ws b)
    then have ll: "llist (tnext s) (t_list s) (ws @ b # t # vs)" and "old = b" using D(1) by (auto simp: old_def)
    moreover have "t_list s \<noteq> Some t" using ll t snoc by (cases ws) auto
    ultimately show ?thesis using nx snoc llist_unlink_keep [OF ll] by simp
  qed
  have f: "llist (tnext ?v) (t_flist ?v) fs" using D(2) old nx by simp
  obtain s' where s': "task_add t (t_flist ?v) True ?v = Inr (Some (hd (fs @ [t])), s')"
    "llist (tnext s') (Some (hd (fs @ [t]))) (fs @ [t])" "task_frame ?v s'" "t_list s' = t_list ?v"
    "\<forall>i. i \<noteq> t \<longrightarrow> i \<notin> set fs \<longrightarrow> tasklets s' i = tasklets ?v i"
    "\<forall>i. (tasklets s' i)\<lparr>t_next := None\<rparr> = (if i = t
        then (tasklets ?v i)\<lparr>fptr := F_none, t_state := T_FREE, t_count := 0, t_next := None\<rparr>
        else (tasklets ?v i)\<lparr>t_next := None\<rparr>)"
    using task_add_ok [OF f t(2) D(8), of True] by auto
  have tv: "(tasklets ?v i)\<lparr>t_next := None\<rparr> = (tasklets s i)\<lparr>t_next := None\<rparr>" for i by simp
  have "llist (tnext s') (t_list ?v) (us @ vs) = llist (tnext ?v) (t_list ?v) (us @ vs)"
    using s'(5) t D(3) by (intro llist_local) auto
  moreover have "t_id (tasklets s' i) = i" if "i < NTASKS" for i
  proof -
    have "t_id (tasklets ?v i) = i" using D(6) [OF that] by auto
    then show ?thesis using arg_cong [OF spec [OF s'(6), of i], of t_id] by (simp split: if_splits)
  qed
  ultimately have "task_ok (s'\<lparr>t_flist := Some (hd (fs @ [t]))\<rparr>) (us @ vs) (fs @ [t])"
    using s'(2,4) w D t by (auto simp: task_ok_def)
  moreover have "task_free t s = Inr (True, s'\<lparr>t_flist := Some (hd (fs @ [t]))\<rparr>)"
    using sk s'(1) by (simp add: task_free_def Let_def)
  moreover have "task_frame s s'" using s'(3) task_frame_trans [of s ?v s'] by simp
  moreover have "t_state (tasklets s' t) = T_FREE" "fptr (tasklets s' t) = F_none"
    using arg_cong [OF spec [OF s'(6), of t], of t_state] arg_cong [OF spec [OF s'(6), of t], of fptr]
    by simp_all
  moreover have "(tasklets s' i)\<lparr>t_next := None\<rparr> = (tasklets s i)\<lparr>t_next := None\<rparr>" if "i \<noteq> t" for i
    using s'(6) tv [of i] that by simp
  ultimately show ?thesis by simp
qed

section \<open>The pool as an interface\<close>

text \<open>\<open>submit\<close> is the pattern of the clients: take a descriptor, fill it in, queue it.\<close>

definition submit :: "('s \<Rightarrow> nat option \<times> 's) \<Rightarrow> (nat \<Rightarrow> 's \<Rightarrow> ('s, unit) kres) \<Rightarrow> (nat \<Rightarrow> 's \<Rightarrow> 's)
    \<Rightarrow> 's \<Rightarrow> ('s, nat option) kres" where
  "submit get add fill s =
     (case get s of
        (None, s) \<Rightarrow> Inr (None, s)
      | (Some t, s) \<Rightarrow> rbind (add t (fill t s)) (\<lambda>(_, s). Inr (Some t, s)))"

fun submit_many :: "('s \<Rightarrow> nat option \<times> 's) \<Rightarrow> (nat \<Rightarrow> 's \<Rightarrow> ('s, unit) kres) \<Rightarrow> (nat \<Rightarrow> 's \<Rightarrow> 's) list
    \<Rightarrow> 's \<Rightarrow> ('s, nat option list) kres" where
  "submit_many get add [] s = Inr ([], s)"
| "submit_many get add (f # fs) s =
     rbind (submit get add f s) (\<lambda>(r, s).
     rbind (submit_many get add fs s) (\<lambda>(rs, s). Inr (r # rs, s)))"

locale task_pool =
  fixes get :: "'s \<Rightarrow> nat option \<times> 's"
    and add :: "nat \<Rightarrow> 's \<Rightarrow> ('s, unit) kres"
    and finish :: "nat \<Rightarrow> 's \<Rightarrow> ('s, bool) kres"
    and inv :: "'s \<Rightarrow> nat list \<Rightarrow> nat list \<Rightarrow> bool"
    and legal :: "(nat \<Rightarrow> 's \<Rightarrow> 's) \<Rightarrow> bool"
  assumes get_Nil: "inv s ws [] \<Longrightarrow> get s = (None, s)"
    and get_add: "inv s ws (t # fs) \<Longrightarrow> legal f \<Longrightarrow>
          \<exists>u s'. get s = (Some t, u) \<and> add t (f t u) = Inr ((), s') \<and> inv s' (ws @ [t]) fs"
    and finish_ok: "inv s (us @ t # vs) fs \<Longrightarrow> \<exists>s'. finish t s = Inr (True, s') \<and> inv s' (us @ vs) (fs @ [t])"
begin

text \<open>Work is queued in the order it is submitted, on the descriptors in free-list order.\<close>

lemma submit_many_ok:
  assumes "inv s ws fs" and "\<forall>f \<in> set js. legal f"
  shows "\<exists>s'. submit_many get add js s =
      Inr (map Some (take (length js) fs) @ replicate (length js - length fs) None, s') \<and>
    inv s' (ws @ take (length js) fs) (drop (length js) fs)"
  using assms
proof (induction js arbitrary: s ws fs)
  case Nil
  then show ?case by simp
next
  case (Cons f js)
  show ?case
  proof (cases fs)
    case Nil
    with Cons.prems Cons.IH [of s ws "[]"] show ?thesis
      using get_Nil [of s ws] by (auto simp: submit_def)
  next
    case (Cons t gs)
    then obtain u s' where u: "get s = (Some t, u)" "add t (f t u) = Inr ((), s')" "inv s' (ws @ [t]) gs"
      using get_add [of s ws t gs f] \<open>inv s ws fs\<close> Cons.prems by auto
    with Cons.IH [OF u(3)] Cons.prems Cons show ?thesis by (fastforce simp: submit_def)
  qed
qed

text \<open>A submitted job that finishes first gives its descriptor back at the end of the free list.\<close>

lemma submit_finish:
  assumes "inv s ws (t # fs)" and "legal f"
  shows "\<exists>s' s''. submit get add f s = Inr (Some t, s') \<and> finish t s' = Inr (True, s'') \<and> inv s'' ws (fs @ [t])"
proof -
  obtain u s' where "get s = (Some t, u)" "add t (f t u) = Inr ((), s')" "inv s' (ws @ [t]) fs"
    using get_add [OF assms] by blast
  with finish_ok [of s' ws t "[]" fs] show ?thesis by (auto simp: submit_def)
qed

end

definition fills :: "(nat \<Rightarrow> 'z task_state_scheme \<Rightarrow> 'z task_state_scheme) \<Rightarrow> bool" where
  "fills f \<longleftrightarrow> (\<exists>g. (\<forall>x. t_id (g x) = t_id x \<and> t_next (g x) = t_next x) \<and> f = (\<lambda>t. upd_task t g))"

lemma task_ok_fill:
  assumes "task_ok s ws fs" and "fills f"
  shows "task_ok (f t s) ws fs"
proof -
  obtain g where g: "\<And>x. t_id (g x) = t_id x" "\<And>x. t_next (g x) = t_next x" "f = (\<lambda>t. upd_task t g)"
    using assms(2) by (auto simp: fills_def)
  have "tnext (f t s) = tnext s" using g by auto
  with g assms(1) show ?thesis by (auto simp: task_ok_def)
qed

interpretation tp: task_pool task_get_free task_add_alloc task_free task_ok fills
proof unfold_locales
  fix s :: "'z task_state_scheme" and ws fs us vs t and f :: "nat \<Rightarrow> 'z task_state_scheme \<Rightarrow> 'z task_state_scheme"
  show "task_ok s ws [] \<Longrightarrow> task_get_free s = (None, s)" by (rule task_get_free_empty)
  show "\<exists>u s'. task_get_free s = (Some t, u) \<and> task_add_alloc t (f t u) = Inr ((), s') \<and> task_ok s' (ws @ [t]) fs"
    if "task_ok s ws (t # fs)" "fills f"
    using task_get_free_ok [OF that(1)] task_ok_fill [OF task_get_free_ok(2) [OF that(1)] that(2)]
      task_add_alloc_ok by blast
  show "\<exists>s'. task_free t s = Inr (True, s') \<and> task_ok s' (us @ vs) (fs @ [t])" if "task_ok s (us @ t # vs) fs"
    using task_free_ok [OF that] by blast
qed

section \<open>The pool after \<open>task_init\<close>\<close>

lemma task_init_loop_frame:
  "t_flist (task_init_loop idx n s) = t_flist s \<and> t_list (task_init_loop idx n s) = t_list s \<and>
   (\<forall>i. i < idx \<or> idx + n \<le> i \<longrightarrow> tasklets (task_init_loop idx n s) i = tasklets s i)"
  by (induction n arbitrary: idx s) auto

lemma task_init_loop_entry:
  "idx \<le> i \<Longrightarrow> i < idx + n \<Longrightarrow>
     t_next (tasklets (task_init_loop idx n s) i) = (if i = NTASKS - 1 then None else Some (i + 1)) \<and>
     t_id (tasklets (task_init_loop idx n s) i) = i \<and> t_state (tasklets (task_init_loop idx n s) i) = T_FREE"
proof (induction n arbitrary: idx s)
  case 0
  then show ?case by simp
next
  case (Suc n)
  show ?case
  proof (cases "i = idx")
    case True
    have "tasklets (task_init_loop (Suc idx) n u) idx = tasklets u idx" for u :: "'a task_state_scheme"
      using task_init_loop_frame [of "Suc idx" n u] by simp
    then show ?thesis using True by simp
  next
    case False
    then show ?thesis using Suc by simp
  qed
qed

lemma task_init_ok:
  assumes "pp < npages s" and "npages s \<le> 1048576"
  shows "\<exists>s'. task_init pp s = Inr ((), s') \<and> task_ok s' [] [0..<NTASKS]"
proof -
  let ?s = "task_init_loop 0 NTASKS (s\<lparr>t_flist := Some 0, t_list := None\<rparr>)"
  have "tnext ?s i = (if i = NTASKS - 1 then None else Some (i + 1))" if "i < NTASKS" for i
    using task_init_loop_entry [of 0 i NTASKS "s\<lparr>t_flist := Some 0, t_list := None\<rparr>"] that by auto
  then have "llist (tnext ?s) (Some 0) [0..<NTASKS]" by (intro llist_upt) auto
  moreover have "t_id (tasklets ?s i) = i" if "i < NTASKS" for i
    using task_init_loop_entry [of 0 i NTASKS] that by auto
  moreover have "t_flist ?s = Some 0" "t_list ?s = None"
    using task_init_loop_frame [of 0 NTASKS "s\<lparr>t_flist := Some 0, t_list := None\<rparr>"] by auto
  ultimately have "task_ok ?s [] [0..<NTASKS]"
    by (simp add: task_ok_def del: task_init_loop.simps upt_Suc)
  then show ?thesis using assms page2kva_ok [of pp s] by (simp add: task_init_def del: task_init_loop.simps)
qed

section \<open>Properties\<close>

definition sample_task :: task_state where
  "sample_task = \<lparr>npages = 1, npages_basemem = 0, PREMAPPED_FLAG = False, kern_end = 0, nextfree = 0,
     pages = (\<lambda>i. \<lparr>pp_link = None, lru_link = None, pp_ref = 0, page_flags = 0\<rparr>),
     page_free_list = None, free_pages_count = 0, pmem = (\<lambda>_ _. 0),
     lru_lists = \<lparr>h_active = None, t_active = None, h_inactive = None, t_inactive = None, h_zswap = None, t_zswap = None\<rparr>,
     lru_active_count = 0, lru_inactive_count = 0,
     tasklets = (\<lambda>i. \<lparr>t_id = 0, fptr = F_none, t_count = 0, t_state = T_FREE, t_next = None, sector_start = 0,
       t_pi = None, fault_addr = 0, requestor_env = None\<rparr>),
     t_list = None, t_flist = None\<rparr>"

text \<open>
  C29: after \<open>task_init\<close> all descriptors are free; work queued with \<open>task_get_free\<close> and \<open>task_add_alloc\<close>
  occupies the descriptors in order and stands on the work list in the order of submission, a request
  beyond the last descriptor gets none, and \<open>task_free\<close> of any queued descriptor returns it.
\<close>

theorem task_pool_fifo:
  assumes "pp < npages s" and "npages s \<le> 1048576" and "\<forall>f \<in> set js. fills f"
  shows "\<exists>t u. task_init pp s = Inr ((), t) \<and>
    submit_many task_get_free task_add_alloc js t =
      Inr (map Some (take (length js) [0..<NTASKS]) @ replicate (length js - NTASKS) None, u) \<and>
    task_ok u (take (length js) [0..<NTASKS]) (drop (length js) [0..<NTASKS]) \<and>
    (\<forall>i < min (length js) NTASKS. \<exists>v. task_free i u = Inr (True, v) \<and>
       task_ok v (remove1 i (take (length js) [0..<NTASKS])) (drop (length js) [0..<NTASKS] @ [i]))"
proof -
  obtain t where t: "task_init pp s = Inr ((), t)" "task_ok t [] [0..<NTASKS]" using task_init_ok [OF assms(1,2)] by blast
  obtain u where u: "submit_many task_get_free task_add_alloc js t =
      Inr (map Some (take (length js) [0..<NTASKS]) @ replicate (length js - NTASKS) None, u)"
    "task_ok u (take (length js) [0..<NTASKS]) (drop (length js) [0..<NTASKS])"
    using tp.submit_many_ok [OF t(2) assms(3)] by (auto simp del: upt_Suc)
  have "\<exists>v. task_free i u = Inr (True, v) \<and>
       task_ok v (remove1 i (take (length js) [0..<NTASKS])) (drop (length js) [0..<NTASKS] @ [i])"
    if "i < min (length js) NTASKS" for i
  proof -
    have "i \<in> set (take (length js) [0..<NTASKS])" using that by (auto simp: set_conv_nth simp del: upt_Suc intro!: exI [of _ i])
    then obtain us vs where uv: "take (length js) [0..<NTASKS] = us @ i # vs" by (meson split_list)
    then have "distinct (us @ i # vs)" by (metis distinct_take distinct_upt)
    then have "remove1 i (us @ i # vs) = us @ vs" by (simp add: remove1_append)
    then show ?thesis using tp.finish_ok [of u us i vs] u(2) uv by (auto simp del: upt_Suc)
  qed
  then show ?thesis using t(1) u by blast
qed

theorem task_pool_fifo_witness:
  "\<exists>t u. task_init 0 sample_task = Inr ((), t) \<and>
    submit_many task_get_free task_add_alloc [\<lambda>i. upd_task i (\<lambda>x. x\<lparr>fptr := F_page_in\<rparr>)] t = Inr ([Some 0], u)"
proof -
  have f: "fills (\<lambda>i. upd_task i (\<lambda>x. x\<lparr>fptr := F_page_in\<rparr>))"
    unfolding fills_def by (intro exI [of _ "\<lambda>x. x\<lparr>fptr := F_page_in\<rparr>"]) simp
  have "[0..<NTASKS] = 0 # [1..<NTASKS]" by (simp add: upt_conv_Cons del: upt_Suc)
  moreover have "npages sample_task = 1" by (simp add: sample_task_def)
  ultimately show ?thesis using task_pool_fifo [of 0 sample_task "[\<lambda>i. upd_task i (\<lambda>x. x\<lparr>fptr := F_page_in\<rparr>)]"] f
    by (auto simp del: upt_Suc submit_many.simps)
qed

end
