(* ===== verification/VmaList.thy ===== *)
theory VmaList
  imports Mmu
begin

text \<open>
  The lists of virtual memory areas of \<^verbatim>\<open>kern/vma.c\<close>.  Each environment owns 105 descriptors
  (\<open>struct vma\<close> of \<^verbatim>\<open>inc/env.h\<close>), chained into a list of allocated areas that is kept in
  the order of their addresses and a list of unused ones.  The record \<open>vma_space\<close> holds that
  part of \<open>struct env\<close>; the record of environments extends it.

  \<open>vma_ok e as fs\<close> is the invariant: the chains are \<open>as\<close> and \<open>fs\<close>, together they are the whole
  array, unused descriptors are blank, allocated ones describe non-empty ranges that do
  not wrap and are sorted and disjoint.  The operations keep it, \<open>vma_lookup\<close> finds the area of
  an address, and the locale \<open>area_map\<close> states what the fault handler and the system calls use.
\<close>

section \<open>State\<close>

datatype vma_type = VMA_UNUSED | VMA_ANON | VMA_BINARY

record vma =
  v_type :: vma_type
  v_va :: u32
  v_len :: u32
  v_perm :: u32
  vma_link :: "nat option"
  cpy_src :: u32
  src_sz :: u32
  cpy_dst :: u32
  hps :: bool

record vma_space =
  vmas :: "nat \<Rightarrow> vma"
  free_vma_list :: "nat option"
  alloc_vma_list :: "nat option"

abbreviation NVMA :: nat where "NVMA \<equiv> 105"

abbreviation vlink :: "'z vma_space_scheme \<Rightarrow> nat \<Rightarrow> nat option" where
  "vlink e \<equiv> (\<lambda>i. vma_link (vmas e i))"

definition upd_vma :: "nat \<Rightarrow> (vma \<Rightarrow> vma) \<Rightarrow> 'z vma_space_scheme \<Rightarrow> 'z vma_space_scheme" where
  "upd_vma i f e = e\<lparr>vmas := (vmas e)(i := f (vmas e i))\<rparr>"

definition blank :: "vma \<Rightarrow> vma" where
  "blank v = v\<lparr>v_type := VMA_UNUSED, v_va := 0, v_len := 0, v_perm := 0, cpy_src := 0, src_sz := 0, cpy_dst := 0\<rparr>"

section \<open>Operations\<close>

fun vma_proc_init_loop :: "nat \<Rightarrow> 'z vma_space_scheme \<Rightarrow> 'z vma_space_scheme" where
  "vma_proc_init_loop 0 e = e"
| "vma_proc_init_loop (Suc i) e =
     vma_proc_init_loop i
       ((upd_vma i (\<lambda>v. (blank v)\<lparr>hps := False, vma_link := free_vma_list e\<rparr>) e)\<lparr>free_vma_list := Some i\<rparr>)"

definition vma_proc_init :: "'z vma_space_scheme \<Rightarrow> 'z vma_space_scheme" where
  "vma_proc_init e = vma_proc_init_loop NVMA (e\<lparr>free_vma_list := None, alloc_vma_list := None\<rparr>)"

definition vma_consistency_check :: "vma \<Rightarrow> vma_type \<Rightarrow> bool" where
  "vma_consistency_check v type =
     (if v_type v \<noteq> type then False
      else case v_type v of
        VMA_BINARY \<Rightarrow> \<not> (v_va v = 0 \<or> v_len v \<le> 0 \<or> cpy_src v = 0 \<or> src_sz v = 0)
      | VMA_ANON \<Rightarrow> \<not> (v_len v \<le> 0 \<or> cpy_src v \<noteq> 0 \<or> src_sz v \<noteq> 0 \<or> cpy_dst v \<noteq> 0)
      | VMA_UNUSED \<Rightarrow> \<not> (v_va v \<noteq> 0 \<or> v_len v \<noteq> 0 \<or> cpy_src v \<noteq> 0 \<or> src_sz v \<noteq> 0 \<or> cpy_dst v \<noteq> 0 \<or> v_perm v \<noteq> 0))"

definition vma_remove_head :: "nat option \<Rightarrow> 'z vma_space_scheme \<Rightarrow> (nat option \<times> nat option) \<times> 'z vma_space_scheme" where
  "vma_remove_head lst e =
     (case lst of
        None \<Rightarrow> ((None, None), e)
      | Some el \<Rightarrow> ((Some el, vma_link (vmas e el)), upd_vma el (\<lambda>v. v\<lparr>vma_link := None\<rparr>) e))"

definition vma_insert :: "nat \<Rightarrow> nat option \<Rightarrow> bool \<Rightarrow> 'z vma_space_scheme \<Rightarrow> 's stop + (nat option \<times> 'z vma_space_scheme)" where
  "vma_insert el lst ordered e =
     (let ordered = (case lst of None \<Rightarrow> False | Some h \<Rightarrow> if v_va (vmas e el) < v_va (vmas e h) then False else ordered) in
      if ordered then
        case seek (NVMA + 1) (vlink e) (\<lambda>c. v_va (vmas e el) < v_va (vmas e c)) lst lst of
          None \<Rightarrow> Inl Diverge
        | Some (None, _) \<Rightarrow> Inl NullDeref
        | Some (Some vma_old, _) \<Rightarrow>
            Inr (lst, upd_vma vma_old (\<lambda>v. v\<lparr>vma_link := Some el\<rparr>)
                        (upd_vma el (\<lambda>v. v\<lparr>vma_link := vma_link (vmas e vma_old)\<rparr>) e))
      else Inr (Some el, upd_vma el (\<lambda>v. v\<lparr>vma_link := lst\<rparr>) e))"

text \<open>
  \<open>vma_new\<close> applies the consistency check to the descriptor before it tests whether there is
  one, so the return value 0 for an empty free list is never reached.
\<close>

definition vma_new :: "u32 \<Rightarrow> u32 \<Rightarrow> vma_type \<Rightarrow> u32 \<Rightarrow> u32 \<Rightarrow> u32 \<Rightarrow> u32 \<Rightarrow> 'z vma_space_scheme
    \<Rightarrow> 's stop + ((int \<times> nat option) \<times> 'z vma_space_scheme)" where
  "vma_new a l type src filesize dst prm e =
     (let l = ROUNDUP l PGSIZE in
      if type = VMA_BINARY \<and> (src = 0 \<or> filesize = 0) then Inr ((-1, None), e)
      else if a mod PGSIZE \<noteq> 0 then Inr ((-1, None), e)
      else
        let ((new, fl), e) = vma_remove_head (free_vma_list e) e;
            e = e\<lparr>free_vma_list := fl\<rparr> in
        case new of
          None \<Rightarrow> Inl NullDeref
        | Some n \<Rightarrow>
            if \<not> vma_consistency_check (vmas e n) VMA_UNUSED
            then Inl (Panic ''[KERN]vma_new: vma consistency check failed'')
            else
              let e = upd_vma n (\<lambda>v. v\<lparr>v_type := type, v_va := a, v_len := l, v_perm := prm,
                        cpy_src := (if type = VMA_BINARY then src else cpy_src v),
                        src_sz := filesize, cpy_dst := dst\<rparr>) e in
              rbind (vma_insert n (alloc_vma_list e) True e) (\<lambda>(lst, e).
              Inr ((1, Some n), e\<lparr>alloc_vma_list := lst\<rparr>)))"

definition vma_lookup :: "u32 \<Rightarrow> 'z vma_space_scheme \<Rightarrow> 's stop + nat option" where
  "vma_lookup a e =
     (case seek (NVMA + 1) (vlink e) (\<lambda>c. v_va (vmas e c) \<le> a \<and> a < v_va (vmas e c) + v_len (vmas e c)) None (alloc_vma_list e) of
        None \<Rightarrow> Inl Diverge
      | Some (_, r) \<Rightarrow> Inr r)"

definition vma_size_check :: "u32 \<Rightarrow> u32 \<Rightarrow> vma \<Rightarrow> bool" where
  "vma_size_check a sz v = (\<not> (v_va v + v_len v < a + sz \<and> v_va v \<le> a))"

text \<open>
  The two halves of \<open>vma_remove_alloced\<close>: the search for a descriptor with the address and length
  of \<open>vmad\<close>, and what is done with the one found (the caller unmaps the pages in between).
  The field \<open>hps\<close> keeps its value.
\<close>

definition vma_find_alloced :: "nat \<Rightarrow> 'z vma_space_scheme \<Rightarrow> 's stop + (nat option \<times> nat option)" where
  "vma_find_alloced vmad e =
     (case seek (NVMA + 1) (vlink e)
             (\<lambda>c. v_va (vmas e c) = v_va (vmas e vmad) \<and> v_len (vmas e c) = v_len (vmas e vmad))
             (alloc_vma_list e) (alloc_vma_list e) of
        None \<Rightarrow> Inl Diverge
      | Some r \<Rightarrow> Inr r)"

definition vma_unlink :: "nat \<Rightarrow> nat \<Rightarrow> 'z vma_space_scheme \<Rightarrow> 'z vma_space_scheme" where
  "vma_unlink previous_vma vma_i e =
     (let e = (if alloc_vma_list e = Some vma_i then e\<lparr>alloc_vma_list := vma_link (vmas e vma_i)\<rparr> else e);
          e = upd_vma previous_vma (\<lambda>v. v\<lparr>vma_link := vma_link (vmas e vma_i)\<rparr>) e;
          e = upd_vma vma_i blank e;
          e = upd_vma vma_i (\<lambda>v. v\<lparr>vma_link := free_vma_list e\<rparr>) e in
      e\<lparr>free_vma_list := Some vma_i\<rparr>)"

text \<open>\<open>vma_remove_alloced\<close> with \<open>destroy_pages\<close> zero, the form \<open>vma_merge\<close> uses.\<close>

definition vma_drop :: "nat \<Rightarrow> 'z vma_space_scheme \<Rightarrow> 's stop + (bool \<times> 'z vma_space_scheme)" where
  "vma_drop vmad e =
     rbind (vma_find_alloced vmad e) (\<lambda>(previous_vma, vma_i).
     case vma_i of
       None \<Rightarrow> Inr (False, e)
     | Some i \<Rightarrow>
         (case previous_vma of None \<Rightarrow> Inl NullDeref | Some p \<Rightarrow> Inr (True, vma_unlink p i e)))"

section \<open>The invariant\<close>

definition inside :: "u32 \<Rightarrow> vma \<Rightarrow> bool" where
  "inside a v \<longleftrightarrow> unat (v_va v) \<le> unat a \<and> unat a < unat (v_va v) + unat (v_len v)"

definition area_ok :: "vma \<Rightarrow> bool" where
  "area_ok v \<longleftrightarrow> v_type v \<noteq> VMA_UNUSED \<and> 0 < unat (v_len v) \<and> unat (v_va v) + unat (v_len v) < 4294967296"

definition blank_vma :: "vma \<Rightarrow> bool" where
  "blank_vma v \<longleftrightarrow> v_type v = VMA_UNUSED \<and> v_va v = 0 \<and> v_len v = 0 \<and> v_perm v = 0 \<and> cpy_src v = 0 \<and>
     src_sz v = 0 \<and> cpy_dst v = 0"

definition before :: "vma \<Rightarrow> vma \<Rightarrow> bool" where
  "before v w \<longleftrightarrow> unat (v_va v) + unat (v_len v) \<le> unat (v_va w)"

definition vma_ok :: "'z vma_space_scheme \<Rightarrow> nat list \<Rightarrow> nat list \<Rightarrow> bool" where
  "vma_ok e as fs \<longleftrightarrow>
     llist (vlink e) (alloc_vma_list e) as \<and> llist (vlink e) (free_vma_list e) fs \<and>
     set as \<inter> set fs = {} \<and> set as \<union> set fs = {..<NVMA} \<and>
     (\<forall>i \<in> set fs. blank_vma (vmas e i)) \<and> (\<forall>i \<in> set as. area_ok (vmas e i)) \<and>
     sorted_wrt (\<lambda>i j. before (vmas e i) (vmas e j)) as"

lemma upd_vma_simps [simp]:
  "vmas (upd_vma i f e) = (vmas e)(i := f (vmas e i))"
  "free_vma_list (upd_vma i f e) = free_vma_list e"
  "alloc_vma_list (upd_vma i f e) = alloc_vma_list e"
  "vma_space.more (upd_vma i f e) = vma_space.more e"
  by (simp_all add: upd_vma_def)

lemma blank_simps [simp]:
  "vma_link (blank v) = vma_link v" "hps (blank v) = hps v"
  by (simp_all add: blank_def)

lemma blank_vma_blank [simp]: "blank_vma ((blank v)\<lparr>vma_link := l\<rparr>)" "blank_vma (blank v)"
  "blank_vma ((blank v)\<lparr>hps := h\<rparr>)"
  by (simp_all add: blank_vma_def blank_def)

lemma vma_link_only [simp]:
  "inside a (v\<lparr>vma_link := l\<rparr>) = inside a v" "area_ok (v\<lparr>vma_link := l\<rparr>) = area_ok v"
  "blank_vma (v\<lparr>vma_link := l\<rparr>) = blank_vma v"
  "before (v\<lparr>vma_link := l\<rparr>) w = before v w" "before w (v\<lparr>vma_link := l\<rparr>) = before w v"
  by (simp_all add: inside_def area_ok_def blank_vma_def before_def)

lemma vma_okD:
  assumes "vma_ok e as fs"
  shows "llist (vlink e) (alloc_vma_list e) as" and "llist (vlink e) (free_vma_list e) fs"
    and "set as \<inter> set fs = {}" and "set as \<union> set fs = {..<NVMA}"
    and "\<And>i. i \<in> set fs \<Longrightarrow> blank_vma (vmas e i)" and "\<And>i. i \<in> set as \<Longrightarrow> area_ok (vmas e i)"
    and "sorted_wrt (\<lambda>i j. before (vmas e i) (vmas e j)) as"
    and "distinct as" and "distinct fs" and "length as \<le> NVMA" and "length fs \<le> NVMA"
proof -
  from assms show a: "llist (vlink e) (alloc_vma_list e) as" and f: "llist (vlink e) (free_vma_list e) fs"
    and "set as \<inter> set fs = {}" and u: "set as \<union> set fs = {..<NVMA}"
    and "\<And>i. i \<in> set fs \<Longrightarrow> blank_vma (vmas e i)" and "\<And>i. i \<in> set as \<Longrightarrow> area_ok (vmas e i)"
    and "sorted_wrt (\<lambda>i j. before (vmas e i) (vmas e j)) as"
    unfolding vma_ok_def by auto
  show "distinct as" "distinct fs" using a f by (auto intro: llist_distinct)
  show "length as \<le> NVMA" by (rule llist_bounded_length [OF a]) (use u in auto)
  show "length fs \<le> NVMA" by (rule llist_bounded_length [OF f]) (use u in auto)
qed

section \<open>Initialisation and lookup\<close>

lemma vma_proc_init_loop_ok:
  assumes "llist (vlink e) (free_vma_list e) [n..<m]" and "n \<le> m" and "\<forall>i \<in> {n..<m}. blank_vma (vmas e i)"
  shows "llist (vlink (vma_proc_init_loop n e)) (free_vma_list (vma_proc_init_loop n e)) [0..<m] \<and>
    (\<forall>i < m. blank_vma (vmas (vma_proc_init_loop n e) i)) \<and>
    alloc_vma_list (vma_proc_init_loop n e) = alloc_vma_list e \<and>
    vma_space.more (vma_proc_init_loop n e) = vma_space.more e"
  using assms
proof (induction n arbitrary: e)
  case 0
  then show ?case by simp
next
  case (Suc n)
  let ?e = "(upd_vma n (\<lambda>v. (blank v)\<lparr>hps := False, vma_link := free_vma_list e\<rparr>) e)\<lparr>free_vma_list := Some n\<rparr>"
  have u: "[n..<m] = n # [Suc n..<m]" using Suc.prems(2) by (simp add: upt_conv_Cons)
  have "llist (vlink ?e) (free_vma_list e) [Suc n..<m] = llist (vlink e) (free_vma_list e) [Suc n..<m]"
    by (rule llist_local) auto
  then have "llist (vlink ?e) (free_vma_list ?e) [n..<m]" unfolding u using Suc.prems(1) by simp
  moreover have "\<forall>i \<in> {n..<m}. blank_vma (vmas ?e i)" using Suc.prems(3) by auto
  ultimately show ?case using Suc.IH [of ?e] Suc.prems(2) by simp
qed

lemma vma_proc_init_ok: "vma_ok (vma_proc_init e) [] [0..<NVMA]"
proof -
  let ?e = "e\<lparr>free_vma_list := None, alloc_vma_list := None\<rparr>"
  have "llist (vlink ?e) (free_vma_list ?e) [NVMA..<NVMA]" by simp
  from vma_proc_init_loop_ok [OF this] show ?thesis
    unfolding vma_ok_def vma_proc_init_def
    by (simp only: list.set set_upt sorted_wrt.simps) (auto simp del: vma_proc_init_loop.simps upt_Suc)
qed

lemma contains_inside:
  assumes "area_ok v"
  shows "v_va v \<le> a \<and> a < v_va v + v_len v \<longleftrightarrow> inside a v"
proof -
  have "unat (v_va v + v_len v) = unat (v_va v) + unat (v_len v)"
    using assms by (simp add: area_ok_def unat_word_ariths)
  then show ?thesis by (simp add: inside_def word_le_nat_alt word_less_nat_alt)
qed

lemma areas_unique:
  assumes ok: "vma_ok e as fs" and i: "i \<in> set as" "inside a (vmas e i)" and j: "j \<in> set as" "inside a (vmas e j)"
  shows "i = j"
proof (rule ccontr)
  assume "i \<noteq> j"
  then have "before (vmas e i) (vmas e j) \<or> before (vmas e j) (vmas e i)"
    using sorted_wrt_related [OF vma_okD(7) [OF ok] i(1) j(1)] by simp
  then show False using i(2) j(2) unfolding before_def inside_def by linarith
qed

lemma vma_lookup_Some:
  assumes ok: "vma_ok e as fs" and i: "i \<in> set as" "inside a (vmas e i)"
  shows "vma_lookup a e = Inr (Some i)"
proof -
  note D = vma_okD [OF ok]
  obtain us vs where as: "as = us @ i # vs" using i(1) by (meson split_list)
  let ?P = "\<lambda>c. v_va (vmas e c) \<le> a \<and> a < v_va (vmas e c) + v_len (vmas e c)"
  have P: "?P c \<longleftrightarrow> inside a (vmas e c)" if "c \<in> set as" for c
    using contains_inside [OF D(6) [OF that]] .
  have "\<not> ?P u" if "u \<in> set us" for u
  proof -
    have u: "u \<noteq> i" "u \<in> set as" using D(8) as that by auto
    then have "\<not> inside a (vmas e u)" using areas_unique [OF ok u(2) _ i] by blast
    then show ?thesis using P [OF u(2)] by blast
  qed
  then have "seek (NVMA + 1) (vlink e) ?P None (alloc_vma_list e) = Some (if us = [] then None else Some (last us), Some i)"
    using D(1,10) as P [OF i(1)] i(2) by (intro seek_hit [where vs = vs]) auto
  then show ?thesis by (simp add: vma_lookup_def)
qed

lemma vma_lookup_None:
  assumes ok: "vma_ok e as fs" and "\<forall>i \<in> set as. \<not> inside a (vmas e i)"
  shows "vma_lookup a e = Inr None"
proof -
  note D = vma_okD [OF ok]
  let ?P = "\<lambda>c. v_va (vmas e c) \<le> a \<and> a < v_va (vmas e c) + v_len (vmas e c)"
  have "\<not> ?P c" if "c \<in> set as" for c
    using contains_inside [OF D(6) [OF that]] assms(2) that by blast
  then have "seek (NVMA + 1) (vlink e) ?P None (alloc_vma_list e) = Some (if as = [] then None else Some (last as), None)"
    using D(1,10) by (intro seek_none) auto
  then show ?thesis by (simp add: vma_lookup_def)
qed

section \<open>Insertion\<close>

definition insert_pos :: "'z vma_space_scheme \<Rightarrow> u32 \<Rightarrow> nat \<Rightarrow> nat list \<Rightarrow> nat list" where
  "insert_pos e a n as =
     takeWhile (\<lambda>c. v_va (vmas e c) \<le> a) as @ n # dropWhile (\<lambda>c. v_va (vmas e c) \<le> a) as"

lemma set_insert_pos [simp]: "set (insert_pos e a n as) = insert n (set as)"
proof -
  have "set as = set (takeWhile (\<lambda>c. v_va (vmas e c) \<le> a) as) \<union> set (dropWhile (\<lambda>c. v_va (vmas e c) \<le> a) as)"
    by (metis set_append takeWhile_dropWhile_id)
  then show ?thesis by (auto simp: insert_pos_def)
qed

lemma vma_insert_ok:
  assumes ll: "llist (vlink e) lst as" and el: "el \<notin> set as" and len: "length as \<le> NVMA"
  shows "\<exists>lst' e'. vma_insert el lst True e = Inr (lst', e') \<and>
    llist (vlink e') lst' (insert_pos e (v_va (vmas e el)) el as) \<and>
    free_vma_list e' = free_vma_list e \<and> alloc_vma_list e' = alloc_vma_list e \<and>
    vma_space.more e' = vma_space.more e \<and>
    (\<forall>i. (vmas e' i)\<lparr>vma_link := None\<rparr> = (vmas e i)\<lparr>vma_link := None\<rparr>) \<and>
    (\<forall>i. i \<noteq> el \<longrightarrow> i \<notin> set as \<longrightarrow> vmas e' i = vmas e i)"
proof -
  let ?a = "v_va (vmas e el)"
  define us vs where "us = takeWhile (\<lambda>c. v_va (vmas e c) \<le> ?a) as" and "vs = dropWhile (\<lambda>c. v_va (vmas e c) \<le> ?a) as"
  have as: "as = us @ vs" and ins: "insert_pos e ?a el as = us @ el # vs"
    by (simp_all add: us_def vs_def insert_pos_def)
  have uP: "\<And>u. u \<in> set us \<Longrightarrow> \<not> ?a < v_va (vmas e u)" unfolding us_def by (auto dest: set_takeWhileD)
  have vP: "?a < v_va (vmas e v)" if "vs = v # ws" for v ws
    using that hd_dropWhile [of "\<lambda>c. v_va (vmas e c) \<le> ?a" as] unfolding vs_def by auto
  show ?thesis
  proof (cases us rule: rev_cases)
    case Nil
    let ?e = "upd_vma el (\<lambda>v. v\<lparr>vma_link := lst\<rparr>) e"
    have "vma_insert el lst True e = Inr (Some el, ?e)"
      using ll as Nil vP by (cases vs) (auto simp: vma_insert_def)
    moreover have "llist (vlink ?e) lst as = llist (vlink e) lst as" using el by (intro llist_local) auto
    ultimately show ?thesis unfolding ins using ll as Nil
      by (intro exI [of _ "Some el"] exI [of _ ?e]) auto
  next
    case (snoc ws b)
    let ?e = "upd_vma b (\<lambda>v. v\<lparr>vma_link := Some el\<rparr>) (upd_vma el (\<lambda>v. v\<lparr>vma_link := vma_link (vmas e b)\<rparr>) e)"
    have bel: "b \<noteq> el" using el as snoc by auto
    obtain h where h: "lst = Some h" "h \<in> set us" using ll as snoc by (cases ws) auto
    have "\<exists>r. seek (NVMA + 1) (vlink e) (\<lambda>c. ?a < v_va (vmas e c)) lst lst = Some (Some b, r)"
    proof (cases vs)
      case Nil
      then show ?thesis using seek_none [of "vlink e" lst as "NVMA + 1" "\<lambda>c. ?a < v_va (vmas e c)" lst] ll as snoc uP len
        by auto
    next
      case (Cons v vs')
      then show ?thesis using seek_hit [of "vlink e" lst us v vs' "NVMA + 1" "\<lambda>c. ?a < v_va (vmas e c)" lst]
          ll as snoc uP vP len by auto
    qed
    then have "vma_insert el lst True e = Inr (lst, ?e)"
      using h uP by (auto simp: vma_insert_def)
    moreover have "llist (vlink ?e) lst (ws @ b # el # vs)"
    proof -
      have "llist (vlink e) lst (ws @ b # vs)" using ll as snoc by simp
      moreover have "el \<notin> set (ws @ b # vs)" using el as snoc by simp
      ultimately have "llist ((vlink e)(el := vlink e b, b := Some el)) lst (ws @ b # el # vs)"
        by (rule llist_insert_after)
      moreover have "vlink ?e = (vlink e)(el := vlink e b, b := Some el)" using bel by auto
      ultimately show ?thesis by simp
    qed
    ultimately show ?thesis unfolding ins using snoc as bel
      by (intro exI [of _ lst] exI [of _ ?e]) auto
  qed
qed

text \<open>Two areas do not meet.\<close>

definition apart :: "vma \<Rightarrow> vma \<Rightarrow> bool" where
  "apart v w \<longleftrightarrow> before v w \<or> before w v"

lemma sorted_insert_pos:
  assumes so: "sorted_wrt (\<lambda>i j. before (vmas e i) (vmas e j)) as"
    and ap: "\<And>i. i \<in> set as \<Longrightarrow> apart (vmas e i) w" and ok: "\<And>i. i \<in> set as \<Longrightarrow> area_ok (vmas e i)"
    and w: "0 < unat (v_len w)" and n: "n \<notin> set as"
    and same: "\<And>i. i \<in> set as \<Longrightarrow> v_va (vmas e' i) = v_va (vmas e i) \<and> v_len (vmas e' i) = v_len (vmas e i)"
    and new: "v_va (vmas e' n) = v_va w \<and> v_len (vmas e' n) = v_len w"
  shows "sorted_wrt (\<lambda>i j. before (vmas e' i) (vmas e' j)) (insert_pos e (v_va w) n as)"
proof -
  define us vs where "us = takeWhile (\<lambda>c. v_va (vmas e c) \<le> v_va w) as" and "vs = dropWhile (\<lambda>c. v_va (vmas e c) \<le> v_va w) as"
  have as: "as = us @ vs" by (simp add: us_def vs_def)
  have bf: "before (vmas e' i) (vmas e' j) = before (vmas e i) (vmas e j)" if "i \<in> set as" "j \<in> set as" for i j
    using same that by (simp add: before_def)
  have u: "before (vmas e i) w" if "i \<in> set us" for i
  proof -
    have "v_va (vmas e i) \<le> v_va w" and i: "i \<in> set as" using that as unfolding us_def by (auto dest: set_takeWhileD)
    then show ?thesis using ap [OF i] ok [OF i] w
      by (auto simp: apart_def before_def area_ok_def word_le_nat_alt)
  qed
  have v: "before w (vmas e i)" if iv: "i \<in> set vs" for i
  proof -
    obtain h vs' where vs: "vs = h # vs'" using iv by (cases vs) auto
    have h: "\<not> v_va (vmas e h) \<le> v_va w" using vs hd_dropWhile [of "\<lambda>c. v_va (vmas e c) \<le> v_va w" as] unfolding vs_def by auto
    have "i = h \<or> before (vmas e h) (vmas e i)" using so as vs iv by (auto simp: sorted_wrt_append)
    then have "unat (v_va w) < unat (v_va (vmas e i))"
      using h unfolding before_def word_le_nat_alt by auto
    moreover have "i \<in> set as" using iv as by simp
    ultimately show ?thesis using ap [of i] by (auto simp: apart_def before_def)
  qed
  have "sorted_wrt (\<lambda>i j. before (vmas e' i) (vmas e' j)) as"
    using so bf by (metis (mono_tags, lifting) sorted_wrt_mono_rel)
  moreover have "before (vmas e' i) (vmas e' n)" if "i \<in> set us" for i
    using u [OF that] same [of i] new that as by (simp add: before_def)
  moreover have "before (vmas e' n) (vmas e' i)" if "i \<in> set vs" for i
    using v [OF that] same [of i] new that as by (simp add: before_def)
  ultimately show ?thesis
    unfolding insert_pos_def us_def [symmetric] vs_def [symmetric] using as by (auto simp: sorted_wrt_append)
qed

lemma vma_new_ok:
  assumes ok: "vma_ok e as (n # fs)" and type: "type \<noteq> VMA_UNUSED"
    and bin: "type = VMA_BINARY \<longrightarrow> src \<noteq> 0 \<and> filesize \<noteq> 0" and al: "a mod PGSIZE = 0"
    and L: "L = ROUNDUP l PGSIZE" "0 < unat L" "unat a + unat L < 4294967296"
    and ap: "\<And>i. i \<in> set as \<Longrightarrow> unat (v_va (vmas e i)) + unat (v_len (vmas e i)) \<le> unat a \<or> unat a + unat L \<le> unat (v_va (vmas e i))"
  shows "\<exists>e'. vma_new a l type src filesize dst prm e = (Inr ((1, Some n), e') :: 's stop + _) \<and>
    vma_ok e' (insert_pos e a n as) fs \<and> vma_space.more e' = vma_space.more e \<and>
    (vmas e' n)\<lparr>vma_link := None\<rparr> = \<lparr>v_type = type, v_va = a, v_len = L, v_perm = prm, vma_link = None,
       cpy_src = (if type = VMA_BINARY then src else 0), src_sz = filesize, cpy_dst = dst, hps = hps (vmas e n)\<rparr> \<and>
    (\<forall>i. i \<noteq> n \<longrightarrow> (vmas e' i)\<lparr>vma_link := None\<rparr> = (vmas e i)\<lparr>vma_link := None\<rparr>)"
proof -
  note D = vma_okD [OF ok]
  define w where "w = \<lparr>v_type = type, v_va = a, v_len = L, v_perm = prm, vma_link = None,
       cpy_src = (if type = VMA_BINARY then src else 0), src_sz = filesize, cpy_dst = dst, hps = hps (vmas e n)\<rparr>"
  have n: "n \<notin> set as" "n \<notin> set fs" "blank_vma (vmas e n)" using D(3,5,9) by auto
  let ?e0 = "(upd_vma n (\<lambda>v. w) e)\<lparr>free_vma_list := vlink e n\<rparr>"
  have c: "vma_consistency_check ((vmas e n)\<lparr>vma_link := None\<rparr>) VMA_UNUSED" "cpy_src (vmas e n) = 0"
    using n(3) by (auto simp: vma_consistency_check_def blank_vma_def)
  have "llist (vlink ?e0) (alloc_vma_list e) as = llist (vlink e) (alloc_vma_list e) as"
    using n(1) by (intro llist_local) auto
  then have ll: "llist (vlink ?e0) (alloc_vma_list ?e0) as" using D(1) by simp
  obtain lst' e1 where I: "vma_insert n (alloc_vma_list ?e0) True ?e0 = (Inr (lst', e1) :: 's stop + _)"
    "llist (vlink e1) lst' (insert_pos ?e0 (v_va (vmas ?e0 n)) n as)" "free_vma_list e1 = free_vma_list ?e0"
    "vma_space.more e1 = vma_space.more ?e0" "\<forall>i. (vmas e1 i)\<lparr>vma_link := None\<rparr> = (vmas ?e0 i)\<lparr>vma_link := None\<rparr>"
    "\<forall>i. i \<noteq> n \<longrightarrow> i \<notin> set as \<longrightarrow> vmas e1 i = vmas ?e0 i"
    using vma_insert_ok [OF ll n(1) D(10)] by blast
  have ip: "insert_pos ?e0 (v_va (vmas ?e0 n)) n as = insert_pos e a n as"
    unfolding insert_pos_def using n(1)
    by (auto simp: w_def intro!: arg_cong2 [of _ _ _ _ "(@)"] takeWhile_cong dropWhile_cong)
  have en: "(vmas e1 n)\<lparr>vma_link := None\<rparr> = w" using I(5) by (simp add: w_def)
  have ei: "(vmas e1 i)\<lparr>vma_link := None\<rparr> = (vmas e i)\<lparr>vma_link := None\<rparr>" if "i \<noteq> n" for i
    using I(5) that by simp
  have fld: "v_va (vmas e1 i) = v_va (vmas e i) \<and> v_len (vmas e1 i) = v_len (vmas e i) \<and> v_type (vmas e1 i) = v_type (vmas e i)"
    if "i \<noteq> n" for i
    using ei [OF that] by (cases "vmas e1 i"; cases "vmas e i") auto
  have fn: "v_va (vmas e1 n) = a \<and> v_len (vmas e1 n) = L \<and> v_type (vmas e1 n) = type"
    using en unfolding w_def by (cases "vmas e1 n") auto
  have "vma_new a l type src filesize dst prm e = (Inr ((1, Some n), e1\<lparr>alloc_vma_list := lst'\<rparr>) :: 's stop + _)"
  proof -
    have "upd_vma n (\<lambda>v. v\<lparr>v_type := type, v_va := a, v_len := L, v_perm := prm,
            cpy_src := (if type = VMA_BINARY then src else cpy_src v), src_sz := filesize, cpy_dst := dst\<rparr>)
          ((upd_vma n (\<lambda>v. v\<lparr>vma_link := None\<rparr>) e)\<lparr>free_vma_list := vlink e n\<rparr>) = ?e0"
      using c(2) by (cases "vmas e n") (auto simp: upd_vma_def w_def)
    then show ?thesis using I(1) D(2) c(1) bin al L(1)
      by (auto simp: vma_new_def Let_def vma_remove_head_def)
  qed
  moreover have "vma_ok (e1\<lparr>alloc_vma_list := lst'\<rparr>) (insert_pos e a n as) fs"
    unfolding vma_ok_def
  proof (intro conjI ballI)
    show "llist (vlink (e1\<lparr>alloc_vma_list := lst'\<rparr>)) (alloc_vma_list (e1\<lparr>alloc_vma_list := lst'\<rparr>)) (insert_pos e a n as)"
      using I(2) ip by simp
    have "llist (vlink e1) (vlink e n) fs = llist (vlink e) (vlink e n) fs"
    proof (rule llist_local)
      fix i assume "i \<in> set fs"
      then have "i \<noteq> n" "i \<notin> set as" using n(2) D(3) by auto
      then show "vlink e1 i = vlink e i" using I(6) by simp
    qed
    then show "llist (vlink (e1\<lparr>alloc_vma_list := lst'\<rparr>)) (free_vma_list (e1\<lparr>alloc_vma_list := lst'\<rparr>)) fs"
      using I(3) D(2) by simp
    show "set (insert_pos e a n as) \<inter> set fs = {}" using D(3) n by auto
    show "set (insert_pos e a n as) \<union> set fs = {..<NVMA}" using D(4) by auto
    show "blank_vma (vmas (e1\<lparr>alloc_vma_list := lst'\<rparr>) i)" if "i \<in> set fs" for i
    proof -
      have "i \<noteq> n" "i \<notin> set as" using n(2) D(3) that by auto
      then show ?thesis using I(6) D(5) that by simp
    qed
    show "area_ok (vmas (e1\<lparr>alloc_vma_list := lst'\<rparr>) i)" if "i \<in> set (insert_pos e a n as)" for i
      using that fld [of i] fn type L D(6) [of i] by (cases "i = n") (auto simp: area_ok_def)
    show "sorted_wrt (\<lambda>i j. before (vmas (e1\<lparr>alloc_vma_list := lst'\<rparr>) i) (vmas (e1\<lparr>alloc_vma_list := lst'\<rparr>) j)) (insert_pos e a n as)"
    proof -
      have wv: "v_va w = a" "v_len w = L" by (simp_all add: w_def)
      have "v_va (vmas e1 i) = v_va (vmas e i) \<and> v_len (vmas e1 i) = v_len (vmas e i)" if "i \<in> set as" for i
        using fld [of i] n(1) that by auto
      moreover have "apart (vmas e i) w" if "i \<in> set as" for i
        using ap [OF that] by (simp add: apart_def before_def wv)
      ultimately show ?thesis
        using sorted_insert_pos [OF D(7), of w n e1] D(6) n(1) fn L(2) wv by simp
    qed
  qed
  moreover have "vma_space.more (e1\<lparr>alloc_vma_list := lst'\<rparr>) = vma_space.more e" using I(4) by simp
  ultimately show ?thesis using en ei unfolding w_def by (intro exI [of _ "e1\<lparr>alloc_vma_list := lst'\<rparr>"]) simp
qed

text \<open>Without a free descriptor the check reads through the null pointer.\<close>

lemma vma_new_exhausted:
  assumes "vma_ok e as []" and "a mod PGSIZE = 0" and "type \<noteq> VMA_BINARY"
  shows "vma_new a l type src filesize dst prm e = Inl NullDeref"
  using assms vma_okD(2) [OF assms(1)] by (simp add: vma_new_def vma_remove_head_def Let_def)

section \<open>Removal\<close>

lemma vma_find_alloced_ok:
  assumes ok: "vma_ok e (us @ i # vs) fs"
  shows "vma_find_alloced i e = Inr (Some (if us = [] then i else last us), Some i)"
proof -
  note D = vma_okD [OF ok]
  let ?P = "\<lambda>c. v_va (vmas e c) = v_va (vmas e i) \<and> v_len (vmas e c) = v_len (vmas e i)"
  have self: "inside (v_va (vmas e i)) (vmas e i)" using D(6) [of i] by (simp add: inside_def area_ok_def)
  have "\<not> ?P u" if "u \<in> set us" for u
  proof
    assume "?P u"
    then have "inside (v_va (vmas e i)) (vmas e u)" using self by (simp add: inside_def)
    then have "u = i" using areas_unique [OF ok _ _ _ self] that by simp
    then show False using D(8) that by simp
  qed
  then have "seek (NVMA + 1) (vlink e) ?P (alloc_vma_list e) (alloc_vma_list e) =
      Some (if us = [] then alloc_vma_list e else Some (last us), Some i)"
    using D(1,10) by (intro seek_hit [where vs = vs]) auto
  then show ?thesis using D(1) by (auto simp: vma_find_alloced_def)
qed

lemma vma_unlink_ok:
  assumes ok: "vma_ok e (us @ i # vs) fs" and p: "p = (if us = [] then i else last us)"
  shows "vma_ok (vma_unlink p i e) (us @ vs) (i # fs)" and "vma_space.more (vma_unlink p i e) = vma_space.more e"
    and "\<And>j. j \<noteq> i \<Longrightarrow> (vmas (vma_unlink p i e) j)\<lparr>vma_link := None\<rparr> = (vmas e j)\<lparr>vma_link := None\<rparr>"
    and "vmas (vma_unlink p i e) i = (blank (vmas e i))\<lparr>vma_link := free_vma_list e\<rparr>"
proof -
  note D = vma_okD [OF ok]
  let ?e = "vma_unlink p i e"
  have i: "i \<notin> set us" "i \<notin> set vs" "i \<notin> set fs" using D(3,8) by auto
  have pi: "p = i \<longleftrightarrow> us = []" using p i(1) last_in_set [of us] by auto
  have pf: "p \<notin> set fs" using p D(3) last_in_set [of us] by (auto simp: disjoint_iff)
  have hd: "alloc_vma_list e = Some i \<longleftrightarrow> us = []" using D(1) i(1) by (cases us) auto
  show more: "vma_space.more ?e = vma_space.more e" by (simp add: vma_unlink_def Let_def)
  have self: "vmas ?e i = (blank (vmas e i))\<lparr>vma_link := free_vma_list e\<rparr>"
    using pi by (auto simp: vma_unlink_def Let_def)
  then show "vmas ?e i = (blank (vmas e i))\<lparr>vma_link := free_vma_list e\<rparr>" .
  have oth: "vmas ?e j = (if j = p then (vmas e j)\<lparr>vma_link := vlink e i\<rparr> else vmas e j)" if "j \<noteq> i" for j
    using that by (auto simp: vma_unlink_def Let_def)
  then show "(vmas ?e j)\<lparr>vma_link := None\<rparr> = (vmas e j)\<lparr>vma_link := None\<rparr>" if "j \<noteq> i" for j using that by simp
  have al: "alloc_vma_list ?e = (if us = [] then vlink e i else alloc_vma_list e)"
    using hd by (simp add: vma_unlink_def Let_def)
  have a: "llist (vlink ?e) (alloc_vma_list ?e) (us @ vs)"
  proof (cases us rule: rev_cases)
    case Nil
    have "llist (vlink ?e) (vlink e i) vs = llist (vlink e) (vlink e i) vs"
      using i oth pi Nil by (intro llist_local) (metis (no_types, lifting))
    then show ?thesis using D(1) Nil al by simp
  next
    case (snoc ws b)
    then have ll: "llist (vlink e) (alloc_vma_list e) (ws @ b # i # vs)" and b: "p = b" using D(1) p by auto
    have "llist (vlink ?e) (alloc_vma_list e) (ws @ b # vs)
        = llist ((vlink e)(b := vlink e i)) (alloc_vma_list e) (ws @ b # vs)"
    proof (rule llist_local)
      fix j assume "j \<in> set (ws @ b # vs)"
      then have "j \<noteq> i" using i snoc by auto
      then show "vlink ?e j = ((vlink e)(b := vlink e i)) j" using oth [of j] b by simp
    qed
    then show ?thesis using llist_unlink_keep [OF ll] snoc al by simp
  qed
  have "llist (vlink ?e) (free_vma_list e) fs = llist (vlink e) (free_vma_list e) fs"
  proof (rule llist_local)
    fix j assume "j \<in> set fs"
    then have "j \<noteq> i" "j \<noteq> p" using i(3) pf by auto
    then show "vlink ?e j = vlink e j" using oth [of j] by simp
  qed
  moreover have "free_vma_list ?e = Some i" by (simp add: vma_unlink_def Let_def)
  ultimately have f: "llist (vlink ?e) (free_vma_list ?e) (i # fs)" using D(2) self by simp
  have same: "v_va (vmas ?e j) = v_va (vmas e j) \<and> v_len (vmas ?e j) = v_len (vmas e j)" if "j \<noteq> i" for j
    using oth [OF that] by simp
  have "sorted_wrt (\<lambda>x y. before (vmas e x) (vmas e y)) (us @ vs)"
    using D(7) by (auto simp: sorted_wrt_append)
  then have so: "sorted_wrt (\<lambda>x y. before (vmas ?e x) (vmas ?e y)) (us @ vs)"
  proof (rule sorted_wrt_mono_rel [rotated])
    fix x y assume "x \<in> set (us @ vs)" "y \<in> set (us @ vs)" and b: "before (vmas e x) (vmas e y)"
    then have "x \<noteq> i" "y \<noteq> i" using i by auto
    then show "before (vmas ?e x) (vmas ?e y)" using b same [of x] same [of y] by (simp add: before_def)
  qed
  show "vma_ok ?e (us @ vs) (i # fs)"
    unfolding vma_ok_def
  proof (intro conjI ballI)
    show "set (us @ vs) \<inter> set (i # fs) = {}" using D(3) i by auto
    show "set (us @ vs) \<union> set (i # fs) = {..<NVMA}" using D(4) by auto
    show "blank_vma (vmas ?e j)" if "j \<in> set (i # fs)" for j
      using that self oth [of j] D(5) pf by (cases "j = i") auto
    show "area_ok (vmas ?e j)" if "j \<in> set (us @ vs)" for j
      using that oth [of j] D(6) [of j] i by (cases "j = i") auto
  qed (fact a f so)+
qed

lemma vma_drop_ok:
  assumes ok: "vma_ok e (us @ i # vs) fs"
  shows "\<exists>p. vma_drop i e = Inr (True, vma_unlink p i e) \<and> p = (if us = [] then i else last us)"
  by (simp add: vma_drop_def vma_find_alloced_ok [OF ok])

section \<open>Areas as an interface\<close>

locale area_map =
  fixes look :: "u32 \<Rightarrow> 'e \<Rightarrow> 'x + nat option"
    and create :: "u32 \<Rightarrow> u32 \<Rightarrow> 'e \<Rightarrow> 'x + (nat \<times> 'e)"
    and remove :: "nat \<Rightarrow> 'e \<Rightarrow> 'x + (bool \<times> 'e)"
    and inv :: "'e \<Rightarrow> bool"
    and room :: "'e \<Rightarrow> bool"
    and cells :: "'e \<Rightarrow> nat \<Rightarrow> nat set option"
    and fit :: "u32 \<Rightarrow> u32 \<Rightarrow> bool"
  assumes look_Some: "inv e \<Longrightarrow> cells e i = Some A \<Longrightarrow> unat a \<in> A \<Longrightarrow> look a e = Inr (Some i)"
    and look_None: "inv e \<Longrightarrow> (\<And>i A. cells e i = Some A \<Longrightarrow> unat a \<notin> A) \<Longrightarrow> look a e = Inr None"
    and create_ok: "inv e \<Longrightarrow> room e \<Longrightarrow> fit a l \<Longrightarrow>
          (\<forall>i A. cells e i = Some A \<longrightarrow> A \<inter> {unat a..<unat a + unat l} = {}) \<Longrightarrow>
          \<exists>n e'. create a l e = Inr (n, e') \<and> inv e' \<and> cells e n = None \<and>
                 cells e' = (cells e)(n \<mapsto> {unat a..<unat a + unat l})"
    and remove_ok: "inv e \<Longrightarrow> cells e i = Some A \<Longrightarrow>
          \<exists>e'. remove i e = Inr (True, e') \<and> inv e' \<and> cells e' = (cells e)(i := None)"
begin

text \<open>The lookup is determined by the cells.\<close>

lemma look_cong:
  assumes "inv e" and "inv e'" and "\<And>i. (\<exists>A. cells e i = Some A \<and> unat a \<in> A) = (\<exists>A. cells e' i = Some A \<and> unat a \<in> A)"
  shows "look a e = look a e'"
proof (cases "\<exists>i A. cells e i = Some A \<and> unat a \<in> A")
  case True
  then obtain i A where "cells e i = Some A" "unat a \<in> A" by blast
  moreover from this assms(3) obtain B where "cells e' i = Some B" "unat a \<in> B" by blast
  ultimately show ?thesis using look_Some assms(1,2) by metis
next
  case False
  then show ?thesis using look_None [OF assms(1)] look_None [OF assms(2)] assms(3) by (metis (no_types))
qed

lemma create_look:
  assumes inv: "inv e" "room e" "fit a l"
    and free: "\<forall>i A. cells e i = Some A \<longrightarrow> A \<inter> {unat a..<unat a + unat l} = {}"
  shows "\<exists>n e'. create a l e = Inr (n, e') \<and> inv e' \<and>
    (\<forall>b. look b e' = (if unat a \<le> unat b \<and> unat b < unat a + unat l then Inr (Some n) else look b e))"
proof -
  obtain n e' where c: "create a l e = Inr (n, e')" "inv e'" "cells e n = None"
    "cells e' = (cells e)(n \<mapsto> {unat a..<unat a + unat l})"
    using create_ok [OF inv free] by blast
  have "look b e' = (if unat a \<le> unat b \<and> unat b < unat a + unat l then Inr (Some n) else look b e)" for b
  proof (cases "unat a \<le> unat b \<and> unat b < unat a + unat l")
    case True
    then show ?thesis using look_Some [OF c(2), of n _ b] c(4) by simp
  next
    case False
    then have "look b e = look b e'" using c(3,4) by (intro look_cong [OF inv(1) c(2)]) auto
    then show ?thesis using False by auto
  qed
  then show ?thesis using c(1,2) by blast
qed

lemma create_remove:
  assumes inv: "inv e" "room e" "fit a l"
    and free: "\<forall>i A. cells e i = Some A \<longrightarrow> A \<inter> {unat a..<unat a + unat l} = {}"
  shows "\<exists>n e' e''. create a l e = Inr (n, e') \<and> remove n e' = Inr (True, e'') \<and> inv e'' \<and> (\<forall>b. look b e'' = look b e)"
proof -
  obtain n e' where c: "create a l e = Inr (n, e')" "inv e'" "cells e n = None"
    "cells e' = (cells e)(n \<mapsto> {unat a..<unat a + unat l})"
    using create_ok [OF inv free] by blast
  then obtain e'' where r: "remove n e' = Inr (True, e'')" "inv e''" "cells e'' = (cells e')(n := None)"
    using remove_ok [OF c(2), of n] by auto
  have "cells e'' = cells e" using r(3) c(3,4) by (auto simp: fun_eq_iff)
  then have "look b e'' = look b e" for b using look_cong [OF r(2) inv(1)] by simp
  then show ?thesis using c(1) r(1,2) by blast
qed

end

definition vma_inv :: "'z vma_space_scheme \<Rightarrow> bool" where
  "vma_inv e \<longleftrightarrow> (\<exists>as fs. vma_ok e as fs)"

definition vma_room :: "'z vma_space_scheme \<Rightarrow> bool" where
  "vma_room e \<longleftrightarrow> free_vma_list e \<noteq> None"

definition vma_cells :: "'z vma_space_scheme \<Rightarrow> nat \<Rightarrow> nat set option" where
  "vma_cells e i =
     (if i < NVMA \<and> v_type (vmas e i) \<noteq> VMA_UNUSED
      then Some {unat (v_va (vmas e i))..<unat (v_va (vmas e i)) + unat (v_len (vmas e i))} else None)"

definition vma_fit :: "u32 \<Rightarrow> u32 \<Rightarrow> bool" where
  "vma_fit a l \<longleftrightarrow> a mod PGSIZE = 0 \<and> l mod PGSIZE = 0 \<and> 0 < unat l \<and> unat a + unat l < 4294967296"

definition vma_create_anon :: "u32 \<Rightarrow> u32 \<Rightarrow> u32 \<Rightarrow> 'z vma_space_scheme \<Rightarrow> 's stop + (nat \<times> 'z vma_space_scheme)" where
  "vma_create_anon prm a l e =
     rbind (vma_new a l VMA_ANON 0 0 0 prm e) (\<lambda>((r, n), e).
     case n of None \<Rightarrow> Inl NullDeref | Some n \<Rightarrow> Inr (n, e))"

lemma vma_cells_alloc:
  assumes "vma_ok e as fs"
  shows "vma_cells e i =
    (if i \<in> set as then Some {unat (v_va (vmas e i))..<unat (v_va (vmas e i)) + unat (v_len (vmas e i))} else None)"
proof -
  note D = vma_okD [OF assms]
  have "i \<in> set as \<longleftrightarrow> i < NVMA \<and> v_type (vmas e i) \<noteq> VMA_UNUSED"
    using D(3-6) by (auto simp: area_ok_def blank_vma_def)
  then show ?thesis by (simp add: vma_cells_def)
qed

lemma ROUNDUP_aligned:
  assumes "l mod PGSIZE = 0" and "unat l \<le> 4294963200"
  shows "ROUNDUP l PGSIZE = l"
proof -
  have "unat l mod 4096 = 0" using assms(1) by (metis unat_mod4096 unat_0)
  then obtain k where "unat l = 4096 * k" by (auto elim: dvdE)
  then have "unat (ROUNDUP l PGSIZE) = unat l" using ROUNDUP_PGSIZE [OF assms(2)] by simp
  then show ?thesis by (simp add: word_unat_eq_iff)
qed

lemma vma_fit_ROUNDUP:
  assumes "vma_fit a l"
  shows "ROUNDUP l PGSIZE = l"
proof (rule ROUNDUP_aligned)
  show l: "l mod PGSIZE = 0" using assms by (simp add: vma_fit_def)
  have "unat l mod 4096 = 0" using l by (metis unat_mod4096 unat_0)
  then obtain k where "unat l = 4096 * k" by (auto elim: dvdE)
  moreover have "unat l < 4294967296" using assms by (simp add: vma_fit_def)
  ultimately show "unat l \<le> 4294963200" by simp
qed

lemma vma_create_anon_ok:
  assumes inv: "vma_inv e" and room: "vma_room e" and fit: "vma_fit a l"
    and free: "\<forall>i A. vma_cells e i = Some A \<longrightarrow> A \<inter> {unat a..<unat a + unat l} = {}"
  shows "\<exists>n e'. vma_create_anon prm a l e = (Inr (n, e') :: 's stop + _) \<and> vma_inv e' \<and> vma_cells e n = None \<and>
    vma_cells e' = (vma_cells e)(n \<mapsto> {unat a..<unat a + unat l})"
proof -
  obtain as gs where ok0: "vma_ok e as gs" using inv by (auto simp: vma_inv_def)
  then obtain n fs where ok: "vma_ok e as (n # fs)"
    using room vma_okD(2) [OF ok0] by (cases gs) (auto simp: vma_room_def)
  note D = vma_okD [OF ok]
  have lL: "l = ROUNDUP l PGSIZE" using vma_fit_ROUNDUP [OF fit] by simp
  have l0: "0 < unat l" "unat a + unat l < 4294967296" "a mod PGSIZE = 0" using fit by (auto simp: vma_fit_def)
  have ap: "unat (v_va (vmas e i)) + unat (v_len (vmas e i)) \<le> unat a \<or> unat a + unat l \<le> unat (v_va (vmas e i))"
    if "i \<in> set as" for i
  proof -
    have "vma_cells e i = Some {unat (v_va (vmas e i))..<unat (v_va (vmas e i)) + unat (v_len (vmas e i))}"
      using vma_cells_alloc [OF ok, of i] that by simp
    then have "{unat (v_va (vmas e i))..<unat (v_va (vmas e i)) + unat (v_len (vmas e i))} \<inter> {unat a..<unat a + unat l} = {}"
      using free by blast
    then have "max (unat (v_va (vmas e i))) (unat a) \<notin>
        {unat (v_va (vmas e i))..<unat (v_va (vmas e i)) + unat (v_len (vmas e i))} \<inter> {unat a..<unat a + unat l}" by simp
    moreover have "0 < unat (v_len (vmas e i))" using D(6) [OF that] by (simp add: area_ok_def)
    ultimately show ?thesis using l0(1) by (auto simp: max_def split: if_splits)
  qed
  obtain e' where e': "vma_new a l VMA_ANON 0 0 0 prm e = (Inr ((1, Some n), e') :: 's stop + _)"
    "vma_ok e' (insert_pos e a n as) fs"
    "(vmas e' n)\<lparr>vma_link := None\<rparr> = \<lparr>v_type = VMA_ANON, v_va = a, v_len = l, v_perm = prm, vma_link = None,
       cpy_src = 0, src_sz = 0, cpy_dst = 0, hps = hps (vmas e n)\<rparr>"
    "\<forall>i. i \<noteq> n \<longrightarrow> (vmas e' i)\<lparr>vma_link := None\<rparr> = (vmas e i)\<lparr>vma_link := None\<rparr>"
    using vma_new_ok [OF ok, of VMA_ANON 0 0 a l l 0 prm] lL l0 ap by auto
  have n: "n \<notin> set as" using D(3) by auto
  have "v_va (vmas e' n) = a \<and> v_len (vmas e' n) = l" using e'(3) by (cases "vmas e' n") auto
  moreover have "v_va (vmas e' i) = v_va (vmas e i) \<and> v_len (vmas e' i) = v_len (vmas e i)" if "i \<noteq> n" for i
    using e'(4) that by (cases "vmas e' i"; cases "vmas e i") force
  ultimately have "vma_cells e' = (vma_cells e)(n \<mapsto> {unat a..<unat a + unat l})"
    unfolding vma_cells_alloc [OF e'(2)] vma_cells_alloc [OF ok] fun_eq_iff by auto
  moreover have "vma_cells e n = None" using vma_cells_alloc [OF ok, of n] n by simp
  ultimately show ?thesis using e'(1,2) by (auto simp: vma_create_anon_def vma_inv_def)
qed

lemma vma_drop_cells:
  assumes inv: "vma_inv e" and c: "vma_cells e i = Some A"
  shows "\<exists>e'. vma_drop i e = (Inr (True, e') :: 's stop + _) \<and> vma_inv e' \<and> vma_cells e' = (vma_cells e)(i := None)"
proof -
  obtain as fs where ok0: "vma_ok e as fs" using inv by (auto simp: vma_inv_def)
  then have "i \<in> set as" using c vma_cells_alloc [OF ok0, of i] by (auto split: if_splits)
  then obtain us vs where as: "as = us @ i # vs" by (meson split_list)
  then have ok: "vma_ok e (us @ i # vs) fs" using ok0 by simp
  obtain p where p: "vma_drop i e = (Inr (True, vma_unlink p i e) :: 's stop + _)" "p = (if us = [] then i else last us)"
    using vma_drop_ok [OF ok] by blast
  note U = vma_unlink_ok [OF ok p(2)]
  have i: "i \<notin> set us" "i \<notin> set vs" using vma_okD(8) [OF ok] by auto
  have "v_va (vmas (vma_unlink p i e) j) = v_va (vmas e j) \<and> v_len (vmas (vma_unlink p i e) j) = v_len (vmas e j)" if "j \<noteq> i" for j
    using U(3) [OF that] by (cases "vmas (vma_unlink p i e) j"; cases "vmas e j") auto
  then have "vma_cells (vma_unlink p i e) = (vma_cells e)(i := None)"
    unfolding vma_cells_alloc [OF U(1)] vma_cells_alloc [OF ok] fun_eq_iff using i by auto
  then show ?thesis using p(1) U(1) by (auto simp: vma_inv_def)
qed

interpretation vm: area_map vma_lookup "vma_create_anon prm" vma_drop vma_inv vma_room vma_cells vma_fit
proof unfold_locales
  fix e :: "'z vma_space_scheme" and i A a l
  show "vma_lookup a e = Inr (Some i)" if inv: "vma_inv e" and c: "vma_cells e i = Some A" "unat a \<in> A"
  proof -
    obtain as fs where ok: "vma_ok e as fs" using inv by (auto simp: vma_inv_def)
    have "i \<in> set as" and "inside a (vmas e i)"
      using c vma_cells_alloc [OF ok, of i] by (auto simp: inside_def split: if_splits)
    then show ?thesis by (rule vma_lookup_Some [OF ok])
  qed
  show "vma_lookup a e = Inr None" if inv: "vma_inv e" and c: "\<And>i A. vma_cells e i = Some A \<Longrightarrow> unat a \<notin> A"
  proof -
    obtain as fs where ok: "vma_ok e as fs" using inv by (auto simp: vma_inv_def)
    have "\<not> inside a (vmas e i)" if "i \<in> set as" for i
      using that c [of i] vma_cells_alloc [OF ok, of i] by (auto simp: inside_def)
    then show ?thesis by (intro vma_lookup_None [OF ok]) auto
  qed
qed (rule vma_create_anon_ok vma_drop_cells; assumption)+

section \<open>Properties\<close>

definition sample_space :: vma_space where
  "sample_space = \<lparr>vmas = (\<lambda>_. \<lparr>v_type = VMA_UNUSED, v_va = 0, v_len = 0, v_perm = 0, vma_link = None,
     cpy_src = 0, src_sz = 0, cpy_dst = 0, hps = False\<rparr>), free_vma_list = None, alloc_vma_list = None\<rparr>"

text \<open>
  C9: \<open>vma_proc_init\<close> gives an address space with no area; creating an anonymous area, of whole pages, in free space with \<open>vma_new\<close>
  makes \<open>vma_lookup\<close> find it at exactly its addresses and leaves every other lookup as it was, keeping
  the allocated list sorted and disjoint; unlinking the area again restores every lookup.
\<close>

theorem vma_create_lookup_remove:
  assumes "vma_inv e" and "vma_room e" and "vma_fit a l"
    and "\<forall>i A. vma_cells e i = Some A \<longrightarrow> A \<inter> {unat a..<unat a + unat l} = {}"
  shows "vma_inv (vma_proc_init e) \<and> vma_lookup b (vma_proc_init e) = (Inr None :: 's stop + _) \<and>
    (\<exists>n e' e''. vma_create_anon prm a l e = (Inr (n, e') :: 's stop + _) \<and> vma_inv e' \<and>
      vma_lookup b e' = (if unat a \<le> unat b \<and> unat b < unat a + unat l then Inr (Some n) else vma_lookup b e :: 's stop + _) \<and>
      vma_drop n e' = (Inr (True, e'') :: 's stop + _) \<and> vma_inv e'' \<and>
      vma_lookup b e'' = (vma_lookup b e :: 's stop + _))"
proof -
  have i: "vma_inv (vma_proc_init e)" using vma_proc_init_ok by (auto simp: vma_inv_def)
  moreover have "vma_lookup b (vma_proc_init e) = (Inr None :: 's stop + _)"
    using vma_lookup_None [OF vma_proc_init_ok, of b] by simp
  moreover obtain n e' where c: "vma_create_anon prm a l e = (Inr (n, e') :: 's stop + _)" "vma_inv e'"
    "\<forall>b. vma_lookup b e' = (if unat a \<le> unat b \<and> unat b < unat a + unat l then Inr (Some n) else vma_lookup b e :: 's stop + _)"
    using vm.create_look [OF assms, where 'b = 's and prm = prm] by blast
  moreover obtain n' f e'' where "vma_create_anon prm a l e = (Inr (n', f) :: 's stop + _)"
    "vma_drop n' f = (Inr (True, e'') :: 's stop + _)" "vma_inv e''" "\<forall>b. vma_lookup b e'' = (vma_lookup b e :: 's stop + _)"
    using vm.create_remove [OF assms, where 'b = 's and prm = prm] by blast
  ultimately show ?thesis by auto
qed

theorem vma_create_lookup_remove_witness:
  "\<exists>n e'. vma_create_anon PTE_W 0x1000 0x2000 (vma_proc_init sample_space) = (Inr (n, e') :: nat stop + _) \<and>
     vma_lookup 0x2FFF e' = (Inr (Some n) :: nat stop + _)"
proof -
  let ?e = "vma_proc_init sample_space"
  have ok: "vma_ok ?e [] [0..<NVMA]" by (rule vma_proc_init_ok)
  have "vma_inv ?e" using ok by (auto simp: vma_inv_def)
  moreover have "vma_room ?e" using vma_okD(2) [OF ok] by (cases "free_vma_list ?e") (auto simp: vma_room_def simp del: upt_Suc)
  moreover have "vma_cells ?e i = None" for i using vma_cells_alloc [OF ok] by simp
  ultimately show ?thesis
    using vma_create_lookup_remove [where e = ?e and a = "0x1000" and l = "0x2000" and b = "0x2FFF" and prm = PTE_W and 's = nat]
    by (auto simp: vma_fit_def)
qed

end
