(* ===== verification/Bitmap.thy ===== *)
theory Bitmap
  imports Mmu
begin

text \<open>
  The bit maps of \<^verbatim>\<open>kern/bitmap.c\<close>.  Two of them exist in the kernel: \<open>swap_map\<close>, one bit per
  disk sector, and \<open>drc_map\<close>, one bit per environment that waits for memory.  An array of
  \<open>char\<close> is a list of bytes; an access outside the array is \<open>OutOfBounds\<close>.

  The locale \<open>bit_set\<close> is the contract the users of the maps rely on, over the set of the
  indices whose bit is 1; \<open>toggle_run\<close> is the pattern of the swapping code, one toggle per
  sector of a page.  \<open>first_clear\<close> is the loop of \<open>find_swap_spot\<close> in \<^verbatim>\<open>kern/mm_pres.c\<close>.
\<close>

section \<open>Operations\<close>

definition toggle_bit :: "u8 list \<Rightarrow> nat \<Rightarrow> 's stop + u8 list" where
  "toggle_bit array index =
     (if index div 8 < length array
      then Inr (array[index div 8 := array ! (index div 8) XOR push_bit (index mod 8) 1])
      else Inl OutOfBounds)"

definition get_bit :: "u8 list \<Rightarrow> nat \<Rightarrow> 's stop + u8" where
  "get_bit array index =
     (if index div 8 < length array
      then Inr (1 AND drop_bit (index mod 8) (array ! (index div 8)))
      else Inl OutOfBounds)"

definition ARRAY_SIZE :: "nat \<Rightarrow> nat" where
  "ARRAY_SIZE x = x div 8 + (if x mod 8 \<noteq> 0 then 1 else 0)"

abbreviation SIZE_SWAP_MAP :: nat where "SIZE_SWAP_MAP \<equiv> 262144"

fun first_clear :: "u8 list \<Rightarrow> nat \<Rightarrow> nat \<Rightarrow> 's stop + u32" where
  "first_clear array i 0 = Inr 0"
| "first_clear array i (Suc n) =
     rbind (get_bit array i) (\<lambda>b. if b = 0 then Inr (of_nat i) else first_clear array (Suc i) n)"

definition find_swap_spot :: "u8 list \<Rightarrow> 's stop + u32" where
  "find_swap_spot swap_map = first_clear swap_map 1 (SIZE_SWAP_MAP - 1)"

text \<open>\<open>n\<close> toggles at successive indices, as a page's sectors are accounted.\<close>

fun toggle_run :: "('a \<Rightarrow> nat \<Rightarrow> 'e + 'a) \<Rightarrow> 'a \<Rightarrow> nat \<Rightarrow> nat \<Rightarrow> 'e + 'a" where
  "toggle_run tog a i 0 = Inr a"
| "toggle_run tog a i (Suc n) = rbind (tog a i) (\<lambda>a. toggle_run tog a (Suc i) n)"

section \<open>The contract\<close>

lemma interval_Suc: "{i..<i + Suc n} = insert i {Suc i..<Suc i + n}"
  by auto

locale bit_set =
  fixes get :: "'a \<Rightarrow> nat \<Rightarrow> 'e + u8"
    and tog :: "'a \<Rightarrow> nat \<Rightarrow> 'e + 'a"
    and abs :: "'a \<Rightarrow> nat set"
    and cap :: "'a \<Rightarrow> nat"
  assumes get_abs: "i < cap a \<Longrightarrow> get a i = Inr (if i \<in> abs a then 1 else 0)"
    and tog_abs: "i < cap a \<Longrightarrow> \<exists>a'. tog a i = Inr a' \<and> cap a' = cap a \<and>
          abs a' = (if i \<in> abs a then abs a - {i} else insert i (abs a))"
    and abs_cap: "abs a \<subseteq> {..<cap a}"
begin

lemma run_set:
  assumes "i + n \<le> cap a" and "{i..<i + n} \<inter> abs a = {}"
  shows "\<exists>a'. toggle_run tog a i n = Inr a' \<and> cap a' = cap a \<and> abs a' = abs a \<union> {i..<i + n}"
  using assms
proof (induction n arbitrary: i a)
  case 0
  then show ?case by simp
next
  case (Suc n)
  then have i: "i < cap a" "i \<notin> abs a" by (auto simp: disjoint_iff)
  then obtain b where b: "tog a i = Inr b" "cap b = cap a" "abs b = insert i (abs a)"
    using tog_abs [of i a] by auto
  have "Suc i + n \<le> cap b" and "{Suc i..<Suc i + n} \<inter> abs b = {}"
    using Suc.prems b by (auto simp: disjoint_iff)
  from Suc.IH [OF this] obtain c where
    "toggle_run tog b (Suc i) n = Inr c" "cap c = cap b" "abs c = abs b \<union> {Suc i..<Suc i + n}"
    by blast
  moreover have "abs b \<union> {Suc i..<Suc i + n} = abs a \<union> {i..<i + Suc n}"
    unfolding b(3) interval_Suc by blast
  ultimately show ?case using b by simp
qed

lemma run_clear:
  assumes "i + n \<le> cap a" and "{i..<i + n} \<subseteq> abs a"
  shows "\<exists>a'. toggle_run tog a i n = Inr a' \<and> cap a' = cap a \<and> abs a' = abs a - {i..<i + n}"
  using assms
proof (induction n arbitrary: i a)
  case 0
  then show ?case by simp
next
  case (Suc n)
  have "i \<in> {i..<i + Suc n}" by simp
  then have i: "i < cap a" "i \<in> abs a" using Suc.prems by (simp, blast)
  then obtain b where b: "tog a i = Inr b" "cap b = cap a" "abs b = abs a - {i}"
    using tog_abs [of i a] by auto
  have "{Suc i..<Suc i + n} \<subseteq> {i..<i + Suc n} - {i}" by auto
  then have "Suc i + n \<le> cap b" and "{Suc i..<Suc i + n} \<subseteq> abs b"
    using Suc.prems b by (simp, blast)
  from Suc.IH [OF this] obtain c where
    "toggle_run tog b (Suc i) n = Inr c" "cap c = cap b" "abs c = abs b - {Suc i..<Suc i + n}"
    by blast
  moreover have "abs b - {Suc i..<Suc i + n} = abs a - {i..<i + Suc n}"
    unfolding b(3) interval_Suc by blast
  ultimately show ?case using b by simp
qed

text \<open>A page that is written out and read back leaves the map as it was.\<close>

lemma run_round_trip:
  assumes "i + n \<le> cap a" and "{i..<i + n} \<inter> abs a = {}"
  shows "\<exists>a' a''. toggle_run tog a i n = Inr a' \<and> toggle_run tog a' i n = Inr a'' \<and> abs a'' = abs a"
proof -
  obtain b where b: "toggle_run tog a i n = Inr b" "cap b = cap a" "abs b = abs a \<union> {i..<i + n}"
    using run_set [OF assms] by blast
  then obtain c where "toggle_run tog b i n = Inr c" "abs c = abs b - {i..<i + n}"
    using run_clear [of i n b] assms(1) by auto
  moreover have "abs b - {i..<i + n} = abs a" using b(3) assms(2) by auto
  ultimately show ?thesis using b(1) by auto
qed

end

section \<open>The byte arrays keep it\<close>

definition bits :: "u8 list \<Rightarrow> nat set" where
  "bits array = {i. i < 8 * length array \<and> bit (array ! (i div 8)) (i mod 8)}"

lemma bit_toggle: "bit (x XOR 2 ^ k :: u8) n \<longleftrightarrow> (if n = k \<and> k < 8 then \<not> bit x n else bit x n)"
  by (auto simp: bit_xor_iff bit_exp_iff)

lemma get_bit_bits:
  assumes "i < 8 * length a"
  shows "get_bit a i = Inr (if i \<in> bits a then 1 else 0)"
proof -
  have "(1 :: u8) AND drop_bit k x = (if bit x k then 1 else 0)" for k x
    unfolding one_and_eq by (simp add: mod2_eq_if even_drop_bit_iff_not_bit)
  moreover have "i div 8 < length a" using assms by (simp add: less_mult_imp_div_less mult.commute)
  ultimately show ?thesis using assms by (simp add: get_bit_def bits_def)
qed

lemma toggle_bit_bits:
  assumes "i < 8 * length a"
  shows "\<exists>a'. toggle_bit a i = Inr a' \<and> length a' = length a \<and>
    bits a' = (if i \<in> bits a then bits a - {i} else insert i (bits a))"
proof -
  let ?a = "a[i div 8 := a ! (i div 8) XOR 2 ^ (i mod 8)]"
  have i: "i div 8 < length a" using assms by (simp add: less_mult_imp_div_less mult.commute)
  have *: "j \<in> bits ?a \<longleftrightarrow> (if j = i then i \<notin> bits a else j \<in> bits a)" for j
  proof (cases "j div 8 = i div 8")
    case True
    then have "j mod 8 = i mod 8 \<longleftrightarrow> j = i" by (metis div_mult_mod_eq)
    then show ?thesis using True i assms by (auto simp: bits_def bit_toggle)
  next
    case False
    then show ?thesis by (auto simp: bits_def nth_list_update)
  qed
  have "bits ?a = (if i \<in> bits a then bits a - {i} else insert i (bits a))"
    by (rule set_eqI) (simp add: *)
  then show ?thesis using i by (simp add: toggle_bit_def)
qed

interpretation bm: bit_set get_bit toggle_bit bits "\<lambda>a. 8 * length a"
proof unfold_locales
  fix i and a :: "u8 list"
  show "i < 8 * length a \<Longrightarrow> get_bit a i = Inr (if i \<in> bits a then 1 else 0)"
    by (rule get_bit_bits)
  show "i < 8 * length a \<Longrightarrow> \<exists>a'. toggle_bit a i = Inr a' \<and> 8 * length a' = 8 * length a \<and>
      bits a' = (if i \<in> bits a then bits a - {i} else insert i (bits a))"
    using toggle_bit_bits [of i a] by auto
  show "bits a \<subseteq> {..<8 * length a}" by (auto simp: bits_def)
qed

section \<open>The search for a free sector\<close>

lemma first_clear_eq:
  assumes "i + n \<le> 8 * length a"
  shows "first_clear a i n =
    Inr (case filter (\<lambda>k. k \<notin> bits a) [i..<i + n] of [] \<Rightarrow> 0 | k # _ \<Rightarrow> of_nat k)"
  using assms
proof (induction n arbitrary: i)
  case 0
  then show ?case by simp
next
  case (Suc n)
  have u: "[i..<i + Suc n] = i # [Suc i..<Suc i + n]"
    using upt_conv_Cons [of i "i + Suc n"] by simp
  show ?case unfolding u using Suc.IH [of "Suc i"] Suc.prems by (simp add: get_bit_bits del: upt_Suc)
qed

lemma find_swap_spot_ok:
  assumes len: "length a = ARRAY_SIZE SIZE_SWAP_MAP"
    and k: "0 < k" "k < SIZE_SWAP_MAP" "k \<notin> bits a" and below: "\<And>j. 0 < j \<Longrightarrow> j < k \<Longrightarrow> j \<in> bits a"
  shows "find_swap_spot a = Inr (of_nat k)"
proof -
  have "[1..<SIZE_SWAP_MAP] = [1..<k] @ [k..<SIZE_SWAP_MAP]"
    using upt_add_eq_append [of 1 k "SIZE_SWAP_MAP - k"] k by simp
  moreover have "filter (\<lambda>j. j \<notin> bits a) [1..<k] = []" using below by (auto simp: filter_empty_conv)
  moreover have "[k..<SIZE_SWAP_MAP] = k # [Suc k..<SIZE_SWAP_MAP]" using k by (intro upt_conv_Cons)
  ultimately have "filter (\<lambda>j. j \<notin> bits a) [1..<SIZE_SWAP_MAP] = k # filter (\<lambda>j. j \<notin> bits a) [Suc k..<SIZE_SWAP_MAP]"
    using k(3) by simp
  then show ?thesis
    using first_clear_eq [of 1 "SIZE_SWAP_MAP - 1" a] len by (simp add: find_swap_spot_def ARRAY_SIZE_def)
qed

section \<open>Properties\<close>

text \<open>
  the search of \<open>find_swap_spot\<close> returns the first clear bit above 0; toggling the eight bits of a
  page from there with \<open>toggle_bit\<close> marks exactly those eight sectors, and toggling them again gives
  the old map back, so writing a page out and reading it in leaves no sector behind.
\<close>

lemma swap_map_round_trip:
  assumes "length a = ARRAY_SIZE SIZE_SWAP_MAP" and "0 < k" and "k + 8 \<le> SIZE_SWAP_MAP"
    and "{k..<k + 8} \<inter> bits a = {}" and "\<forall>j. 0 < j \<and> j < k \<longrightarrow> j \<in> bits a"
  shows "\<exists>a' a''. find_swap_spot a = (Inr (of_nat k) :: 's stop + _) \<and> toggle_run toggle_bit a k 8 = (Inr a' :: 's stop + _) \<and>
    bits a' = bits a \<union> {k..<k + 8} \<and> toggle_run toggle_bit a' k 8 = (Inr a'' :: 's stop + _) \<and> bits a'' = bits a"
proof -
  have "k \<notin> bits a" using assms(4) by (auto simp: disjoint_iff)
  then have "find_swap_spot a = (Inr (of_nat k) :: 's stop + _)" using assms(1-3,5) by (intro find_swap_spot_ok) auto
  moreover have len: "k + 8 \<le> 8 * length a" using assms(1,3) by (simp add: ARRAY_SIZE_def)
  obtain a' where a': "toggle_run toggle_bit a k 8 = (Inr a' :: 's stop + _)" "bits a' = bits a \<union> {k..<k + 8}"
    using bm.run_set [OF len assms(4), where 'a = 's] by blast
  moreover obtain b where "toggle_run toggle_bit a' k 8 = (Inr b :: 's stop + _)" "bits b = bits a"
    using bm.run_round_trip [OF len assms(4), where 'a = 's] a'(1) by auto
  ultimately show ?thesis by blast
qed

end
