(* ===== verification/Spinlock.thy ===== *)
theory Spinlock
  imports Mmu
begin

text \<open>
  The spin locks of \<^verbatim>\<open>kern/spinlock.c\<close> with \<open>DEBUG_SPINLOCK_1\<close> on and the big kernel lock off,
  as \<^verbatim>\<open>kern/spinlock.h\<close> configures them.

  First \<open>spin_lock\<close> and \<open>spin_unlock\<close> as one CPU sees them: taking a lock it already holds and
  releasing one it does not hold are panics, and a lock another CPU holds blocks the caller.
  The rest of the kernel model uses these.  Then the same two routines as the atomic steps
  several CPUs interleave (\<open>lock_step\<close>): the test for a lock already held, one \<open>xchg\<close> per round
  of the spin loop, the write of the owner, and for the release the write of the owner and the
  closing \<open>xchg\<close>.  The invariant of the reachable states gives mutual exclusion, and that
  neither panic of the lock routines can be reached by CPUs that pair their calls.  The test \<open>holding\<close> reads two fields of the
  lock in one step; no other CPU writes this CPU's number into the lock, so that the answer is the same when they are read one
  after the other.
\<close>

section \<open>The routines\<close>

record spinlock =
  locked :: u32
  lk_cpu :: "nat option"

definition holding :: "nat \<Rightarrow> spinlock \<Rightarrow> bool" where
  "holding thiscpu lk \<longleftrightarrow> locked lk \<noteq> 0 \<and> lk_cpu lk = Some thiscpu"

definition spin_initlock :: "spinlock" where
  "spin_initlock = \<lparr>locked = 0, lk_cpu = None\<rparr>"

definition spin_lock :: "nat \<Rightarrow> spinlock \<Rightarrow> 's stop + spinlock" where
  "spin_lock thiscpu lk =
     (if holding thiscpu lk then Inl (Panic ''cannot acquire: already holding'')
      else if locked lk \<noteq> 0 then Inl Blocked
      else Inr (lk\<lparr>locked := 1, lk_cpu := Some thiscpu\<rparr>))"

definition spin_unlock :: "nat \<Rightarrow> spinlock \<Rightarrow> 's stop + spinlock" where
  "spin_unlock thiscpu lk =
     (if \<not> holding thiscpu lk then Inl (Panic ''spin_unlock'')
      else Inr (lk\<lparr>locked := 0, lk_cpu := None\<rparr>))"

lemma spin_lock_free: "locked lk = 0 \<Longrightarrow> spin_lock c lk = Inr \<lparr>locked = 1, lk_cpu = Some c\<rparr>"
  by (cases lk) (simp add: spin_lock_def holding_def)

lemma spin_unlock_held: "holding c lk \<Longrightarrow> spin_unlock c lk = Inr spin_initlock"
  by (cases lk) (simp add: spin_unlock_def spin_initlock_def)

lemma holding_after_lock [simp]: "holding c \<lparr>locked = 1, lk_cpu = Some d\<rparr> \<longleftrightarrow> c = d"
  by (auto simp: holding_def)

lemma spin_initlock_simps [simp]: "locked spin_initlock = 0" "\<not> holding c spin_initlock"
  by (simp_all add: spin_initlock_def holding_def)

section \<open>Several CPUs\<close>

datatype lock_pc = Outside | Spinning | Acquired | Critical | Releasing | Panicked

record lock_sys =
  lk :: spinlock
  pc :: "nat \<Rightarrow> lock_pc"

definition goto :: "nat \<Rightarrow> lock_pc \<Rightarrow> lock_sys \<Rightarrow> lock_sys" where
  "goto c p s = s\<lparr>pc := (pc s)(c := p)\<rparr>"

inductive lock_step :: "lock_sys \<Rightarrow> lock_sys \<Rightarrow> bool" where
  enter: "pc s c = Outside \<Longrightarrow> \<not> holding c (lk s) \<Longrightarrow> lock_step s (goto c Spinning s)"
| enter_panic: "pc s c = Outside \<Longrightarrow> holding c (lk s) \<Longrightarrow> lock_step s (goto c Panicked s)"
| spin: "pc s c = Spinning \<Longrightarrow> locked (lk s) \<noteq> 0 \<Longrightarrow> lock_step s (s\<lparr>lk := (lk s)\<lparr>locked := 1\<rparr>\<rparr>)"
| win: "pc s c = Spinning \<Longrightarrow> locked (lk s) = 0 \<Longrightarrow> lock_step s (goto c Acquired (s\<lparr>lk := (lk s)\<lparr>locked := 1\<rparr>\<rparr>))"
| own: "pc s c = Acquired \<Longrightarrow> lock_step s (goto c Critical (s\<lparr>lk := (lk s)\<lparr>lk_cpu := Some c\<rparr>\<rparr>))"
| disown: "pc s c = Critical \<Longrightarrow> holding c (lk s) \<Longrightarrow>
    lock_step s (goto c Releasing (s\<lparr>lk := (lk s)\<lparr>lk_cpu := None\<rparr>\<rparr>))"
| disown_panic: "pc s c = Critical \<Longrightarrow> \<not> holding c (lk s) \<Longrightarrow> lock_step s (goto c Panicked s)"
| release: "pc s c = Releasing \<Longrightarrow> lock_step s (goto c Outside (s\<lparr>lk := (lk s)\<lparr>locked := 0\<rparr>\<rparr>))"

definition lock_start :: "lock_sys" where
  "lock_start = \<lparr>lk = spin_initlock, pc = (\<lambda>_. Outside)\<rparr>"

inductive lock_reach :: "lock_sys \<Rightarrow> bool" where
  start: "lock_reach lock_start"
| step: "lock_reach s \<Longrightarrow> lock_step s t \<Longrightarrow> lock_reach t"

inductive_cases lock_stepE: "lock_step s t"

definition inside_lock :: "lock_pc \<Rightarrow> bool" where
  "inside_lock p \<longleftrightarrow> p = Acquired \<or> p = Critical \<or> p = Releasing"

definition lock_inv :: "lock_sys \<Rightarrow> bool" where
  "lock_inv s \<longleftrightarrow>
     (locked (lk s) = 0 \<or> locked (lk s) = 1) \<and>
     (locked (lk s) = 0 \<longrightarrow> (\<forall>c. \<not> inside_lock (pc s c))) \<and>
     (locked (lk s) = 1 \<longrightarrow> (\<exists>c. inside_lock (pc s c))) \<and>
     (\<forall>c d. inside_lock (pc s c) \<longrightarrow> inside_lock (pc s d) \<longrightarrow> c = d) \<and>
     (\<forall>c. pc s c = Critical \<longleftrightarrow> lk_cpu (lk s) = Some c) \<and>
     (\<forall>c. pc s c \<noteq> Panicked)"

lemma goto_simps [simp]:
  "lk (goto c p s) = lk s" "pc (goto c p s) d = (if d = c then p else pc s d)"
  by (simp_all add: goto_def)

lemma inside_lock_simps [simp]:
  "\<not> inside_lock Outside" "\<not> inside_lock Spinning" "\<not> inside_lock Panicked"
  "inside_lock Acquired" "inside_lock Critical" "inside_lock Releasing"
  by (simp_all add: inside_lock_def)

lemma lock_inv_start: "lock_inv lock_start"
  by (simp add: lock_inv_def lock_start_def spin_initlock_def)

lemma lock_inv_unlocked:
  assumes "lock_inv s" and "inside_lock (pc s c)"
  shows "locked (lk s) = 1"
  using assms unfolding lock_inv_def by blast

lemma lock_inv_step:
  assumes "lock_step s t" and inv: "lock_inv s"
  shows "lock_inv t"
  using assms(1)
proof (cases rule: lock_step.cases)
  case (enter c)
  then have "inside_lock (pc t d) = inside_lock (pc s d)" "(pc t d = Critical) = (pc s d = Critical)"
    "(pc t d = Panicked) = (pc s d = Panicked)" "lk t = lk s" for d
    by auto
  then show ?thesis using inv unfolding lock_inv_def by simp
next
  case (enter_panic c)
  then have "pc s c = Critical" using inv unfolding lock_inv_def holding_def by blast
  with enter_panic show ?thesis by simp
next
  case (spin c)
  then have "s\<lparr>lk := (lk s)\<lparr>locked := 1\<rparr>\<rparr> = s"
    using inv by (cases s; cases "lk s") (auto simp: lock_inv_def)
  with spin inv show ?thesis by simp
next
  case (win c)
  then have o: "\<not> inside_lock (pc s d)" for d using inv unfolding lock_inv_def by blast
  then have "lk_cpu (lk s) \<noteq> Some d" for d using inv unfolding lock_inv_def by (metis inside_lock_simps(5))
  with win o inv show ?thesis by (auto simp: lock_inv_def)
next
  case (own c)
  then have l: "locked (lk s) = 1" using lock_inv_unlocked [OF inv, of c] by simp
  have u: "inside_lock (pc s d) \<Longrightarrow> d = c" for d using inv own(2) unfolding lock_inv_def by (metis inside_lock_simps(4))
  then have "pc s d \<noteq> Critical" if "d \<noteq> c" for d using that by (metis inside_lock_simps(5))
  with own l u inv show ?thesis by (auto simp: lock_inv_def)
next
  case (disown c)
  then have l: "locked (lk s) = 1" using lock_inv_unlocked [OF inv, of c] by simp
  have u: "inside_lock (pc s d) \<Longrightarrow> d = c" for d using inv disown(2) unfolding lock_inv_def by (metis inside_lock_simps(5))
  then have "pc s d \<noteq> Critical" if "d \<noteq> c" for d using that by (metis inside_lock_simps(5))
  with disown l u inv show ?thesis by (auto simp: lock_inv_def)
next
  case (disown_panic c)
  then have "locked (lk s) = 1" using lock_inv_unlocked [OF inv, of c] by simp
  then have "holding c (lk s)" using inv disown_panic(2) by (auto simp: lock_inv_def holding_def)
  with disown_panic show ?thesis by simp
next
  case (release c)
  have u: "inside_lock (pc s d) \<Longrightarrow> d = c" for d using inv release(2) unfolding lock_inv_def by (metis inside_lock_simps(6))
  have "lk_cpu (lk s) \<noteq> Some d" for d
  proof
    assume d: "lk_cpu (lk s) = Some d"
    then have "pc s d = Critical" using inv unfolding lock_inv_def by blast
    then show False using u [of d] release(2) by simp
  qed
  moreover have "pc s d \<noteq> Critical" for d using u [of d] release(2) by auto
  ultimately show ?thesis using release u inv by (auto simp: lock_inv_def)
qed

lemma lock_reach_inv: "lock_reach s \<Longrightarrow> lock_inv s"
  by (induction rule: lock_reach.induct) (auto intro: lock_inv_start lock_inv_step)

text \<open>What one CPU does when the lock is free is the sequential \<open>spin_lock\<close>.\<close>

lemma lock_steps_sequential:
  assumes "pc s c = Outside" and "locked (lk s) = 0"
  shows "\<exists>t u v. lock_step s t \<and> lock_step t u \<and> lock_step u v \<and> pc v c = Critical \<and>
    (spin_lock c (lk s) :: 's stop + spinlock) = Inr (lk v)"
proof -
  let ?t = "goto c Spinning s"
  let ?u = "goto c Acquired (?t\<lparr>lk := (lk ?t)\<lparr>locked := 1\<rparr>\<rparr>)"
  let ?v = "goto c Critical (?u\<lparr>lk := (lk ?u)\<lparr>lk_cpu := Some c\<rparr>\<rparr>)"
  have "lock_step s ?t" using assms by (intro lock_step.enter) (auto simp: holding_def)
  moreover have "lock_step ?t ?u" using assms by (intro lock_step.win) auto
  moreover have "lock_step ?u ?v" by (intro lock_step.own) auto
  moreover have "pc ?v c = Critical" by simp
  moreover have "(spin_lock c (lk s) :: 's stop + spinlock) = Inr (lk ?v)"
    using assms by (simp add: spin_lock_def holding_def)
  ultimately show ?thesis by blast
qed

section \<open>Properties\<close>

text \<open>
  C4: under every interleaving of any number of CPUs that take and release a lock, at most one CPU is
  between \<open>spin_lock\<close> and \<open>spin_unlock\<close>, the lock word says whether one is, the recorded owner is the CPU
  in the critical section, and neither routine's check ever panics.
\<close>

theorem spin_lock_mutual_exclusion:
  assumes "lock_reach s"
  shows "(inside_lock (pc s c) \<and> inside_lock (pc s d) \<longrightarrow> c = d) \<and>
    (locked (lk s) = 0 \<longleftrightarrow> (\<forall>c. \<not> inside_lock (pc s c))) \<and>
    (pc s c = Critical \<longleftrightarrow> holding c (lk s)) \<and> pc s c \<noteq> Panicked"
proof -
  have i: "lock_inv s" using lock_reach_inv [OF assms] .
  then have "pc s c = Critical \<longleftrightarrow> holding c (lk s)"
    using lock_inv_unlocked [OF i, of c] unfolding holding_def lock_inv_def by (metis inside_lock_simps(5) zero_neq_one)
  then show ?thesis using i unfolding lock_inv_def by (metis zero_neq_one)
qed

theorem spin_lock_mutual_exclusion_witness:
  "\<exists>s. lock_reach s \<and> pc s 0 = Critical \<and> holding 0 (lk s) \<and> pc s 1 = Outside"
proof -
  let ?t = "goto 0 Spinning lock_start"
  let ?u = "goto 0 Acquired (?t\<lparr>lk := (lk ?t)\<lparr>locked := 1\<rparr>\<rparr>)"
  let ?v = "goto 0 Critical (?u\<lparr>lk := (lk ?u)\<lparr>lk_cpu := Some 0\<rparr>\<rparr>)"
  have "lock_step lock_start ?t" by (intro lock_step.enter) (simp_all add: lock_start_def)
  moreover have "lock_step ?t ?u" by (intro lock_step.win) (simp_all add: lock_start_def)
  moreover have "lock_step ?u ?v" by (intro lock_step.own) simp
  ultimately have "lock_reach ?v" by (meson lock_reach.intros)
  moreover have "pc ?v 0 = Critical" "pc ?v 1 = Outside" by (simp_all add: lock_start_def)
  ultimately show ?thesis using spin_lock_mutual_exclusion [of ?v 0 0] by blast
qed

end
