(* ===== verification/Console.thy ===== *)
theory Console
  imports Mmu
begin

text \<open>
  The console of \<^verbatim>\<open>kern/console.c\<close>: the circular input buffer with its two producers (the serial
  port and the keyboard, whose scan codes are decoded with the key maps of the source), and the
  output to the serial port, the parallel port and the text-mode display.

  The bytes a device will deliver are a list in the state (its data-ready bit is set as long as the
  list is not empty); the bytes sent to the two ports are collected in lists.  The polling loops
  that wait for a transmitter have no effect on the state; they and the initialisation of the devices
  are the theory \<open>ConsoleInit\<close>.

  The buffer is a queue of at most 511 characters (the locale \<open>byte_queue\<close>); one character more
  makes it look empty.  The display never writes outside its 2000 cells.
\<close>

section \<open>State\<close>

abbreviation CONSBUFSIZE :: nat where "CONSBUFSIZE \<equiv> 512"
abbreviation CRT_COLS :: nat where "CRT_COLS \<equiv> 80"
abbreviation CRT_SIZE :: nat where "CRT_SIZE \<equiv> 2000"

record cons_state =
  cbuf :: "u8 list"
  rpos :: nat
  wpos :: nat
  serial_exists :: bool
  serial_in :: "u8 list"
  kbd_in :: "u8 list"
  shift :: u32
  reboots :: nat
  crt_buf :: "u16 list"
  crt_pos :: nat
  serial_out :: "u8 list"
  lpt_out :: "u8 list"

section \<open>Keyboard\<close>

definition SHIFT :: u32 where "SHIFT = 1"
definition CTL :: u32 where "CTL = 2"
definition ALT :: u32 where "ALT = 4"
definition CAPSLOCK :: u32 where "CAPSLOCK = 8"
definition NUMLOCK :: u32 where "NUMLOCK = 16"
definition SCROLLLOCK :: u32 where "SCROLLLOCK = 32"
definition E0ESC :: u32 where "E0ESC = 64"

definition shiftcode :: "u8 \<Rightarrow> u32" where
  "shiftcode d =
     (if d = 0x1D \<or> d = 0x9D then CTL else if d = 0x2A \<or> d = 0x36 then SHIFT
      else if d = 0x38 \<or> d = 0xB8 then ALT else 0)"

definition togglecode :: "u8 \<Rightarrow> u32" where
  "togglecode d =
     (if d = 0x3A then CAPSLOCK else if d = 0x45 then NUMLOCK else if d = 0x46 then SCROLLLOCK else 0)"

text \<open>The entries of the three maps with designated indices; \<open>home\<close> is the index of \<open>KEY_HOME\<close>.\<close>

definition extkey :: "u8 \<Rightarrow> u8 \<Rightarrow> u8" where
  "extkey home d =
     (if d = home then 0xE0 else if d = 0xC8 then 0xE2 else if d = 0xC9 then 0xE6 else if d = 0xCB then 0xE4
      else if d = 0xCD then 0xE5 else if d = 0xCF then 0xE1 else if d = 0xD0 then 0xE3
      else if d = 0xD1 then 0xE7 else if d = 0xD2 then 0xE8 else if d = 0xD3 then 0xE9 else 0)"

definition normalmap :: "u8 \<Rightarrow> u8" where
  "normalmap d =
     (if unat d < 88 then
        [0, 27, 49, 50, 51, 52, 53, 54, 55, 56, 57, 48, 45, 61, 8, 9,
         113, 119, 101, 114, 116, 121, 117, 105, 111, 112, 91, 93, 10, 0, 97, 115,
         100, 102, 103, 104, 106, 107, 108, 59, 39, 96, 0, 92, 122, 120, 99, 118,
         98, 110, 109, 44, 46, 47, 0, 42, 0, 32, 0, 0, 0, 0, 0, 0,
         0, 0, 0, 0, 0, 0, 0, 55, 56, 57, 45, 52, 53, 54, 43, 49,
         50, 51, 48, 46, 0, 0, 0, 0] ! unat d
      else if d = 0x9C then 10 else if d = 0xB5 then 47 else extkey 0xC7 d)"

definition shiftmap :: "u8 \<Rightarrow> u8" where
  "shiftmap d =
     (if unat d < 88 then
        [0, 27, 33, 64, 35, 36, 37, 94, 38, 42, 40, 41, 95, 43, 8, 9,
         81, 87, 69, 82, 84, 89, 85, 73, 79, 80, 123, 125, 10, 0, 65, 83,
         68, 70, 71, 72, 74, 75, 76, 58, 34, 126, 0, 124, 90, 88, 67, 86,
         66, 78, 77, 60, 62, 63, 0, 42, 0, 32, 0, 0, 0, 0, 0, 0,
         0, 0, 0, 0, 0, 0, 0, 55, 56, 57, 45, 52, 53, 54, 43, 49,
         50, 51, 48, 46, 0, 0, 0, 0] ! unat d
      else if d = 0x9C then 10 else if d = 0xB5 then 47 else extkey 0xC7 d)"

definition ctlmap :: "u8 \<Rightarrow> u8" where
  "ctlmap d =
     (if unat d < 56 then
        [0, 0, 0, 0, 0, 0, 0, 0, 0, 0, 0, 0, 0, 0, 0, 0,
         17, 23, 5, 18, 20, 25, 21, 9, 15, 16, 0, 0, 13, 0, 1, 19,
         4, 6, 7, 8, 10, 11, 12, 0, 0, 0, 0, 28, 26, 24, 3, 22,
         2, 14, 13, 0, 0, 239, 0, 0] ! unat d
      else if d = 0xB5 then 239 else extkey 0x97 d)"

definition charcode :: "u32 \<Rightarrow> u8 \<Rightarrow> u8" where
  "charcode sh d =
     (let k = sh AND (CTL OR SHIFT) in
      if k = 0 then normalmap d else if k = 1 then shiftmap d else ctlmap d)"

definition KEY_DEL :: u8 where "KEY_DEL = 0xE9"

text \<open>\<open>None\<close> is the return value \<open>-1\<close>.\<close>

definition kbd_proc_data :: "cons_state \<Rightarrow> u8 option \<times> cons_state" where
  "kbd_proc_data s =
     (case kbd_in s of
        [] \<Rightarrow> (None, s)
      | data # rest \<Rightarrow>
          let s = s\<lparr>kbd_in := rest\<rparr> in
          if data = 0xE0 then (Some 0, s\<lparr>shift := shift s OR E0ESC\<rparr>)
          else if data AND 0x80 \<noteq> 0 then
            let data = (if shift s AND E0ESC \<noteq> 0 then data else data AND 0x7F) in
            (Some 0, s\<lparr>shift := shift s AND NOT (shiftcode data OR E0ESC)\<rparr>)
          else
            let (data, s) = (if shift s AND E0ESC \<noteq> 0 then (data OR 0x80, s\<lparr>shift := shift s AND NOT E0ESC\<rparr>)
                             else (data, s));
                s = s\<lparr>shift := (shift s OR shiftcode data) XOR togglecode data\<rparr>;
                c = charcode (shift s) data;
                c = (if shift s AND CAPSLOCK \<noteq> 0 then
                       if 97 \<le> c \<and> c \<le> 122 then c - 32
                       else if 65 \<le> c \<and> c \<le> 90 then c + 32 else c
                     else c);
                s = (if NOT (shift s) AND (CTL OR ALT) = 0 \<and> c = KEY_DEL
                     then s\<lparr>reboots := reboots s + 1\<rparr> else s) in
            (Some c, s))"

definition serial_proc_data :: "cons_state \<Rightarrow> u8 option \<times> cons_state" where
  "serial_proc_data s =
     (case serial_in s of [] \<Rightarrow> (None, s) | c # rest \<Rightarrow> (Some c, s\<lparr>serial_in := rest\<rparr>))"

section \<open>The input buffer\<close>

definition cons_put :: "u8 \<Rightarrow> cons_state \<Rightarrow> 'e stop + cons_state" where
  "cons_put c s =
     (if length (cbuf s) \<le> wpos s then Inl OutOfBounds
      else
        let s = s\<lparr>cbuf := (cbuf s)[wpos s := c], wpos := wpos s + 1\<rparr> in
        Inr (if wpos s = CONSBUFSIZE then s\<lparr>wpos := 0\<rparr> else s))"

text \<open>Every round takes one byte from the device, so the number of pending bytes bounds the loop.\<close>

fun cons_intr_loop :: "nat \<Rightarrow> (cons_state \<Rightarrow> u8 option \<times> cons_state) \<Rightarrow> cons_state \<Rightarrow> 'e stop + cons_state" where
  "cons_intr_loop 0 proc s = Inl Diverge"
| "cons_intr_loop (Suc fuel) proc s =
     (case proc s of
        (None, s) \<Rightarrow> Inr s
      | (Some c, s) \<Rightarrow>
          if c = 0 then cons_intr_loop fuel proc s
          else rbind (cons_put c s) (\<lambda>s. cons_intr_loop fuel proc s))"

definition cons_intr :: "(cons_state \<Rightarrow> u8 option \<times> cons_state) \<Rightarrow> cons_state \<Rightarrow> 'e stop + cons_state" where
  "cons_intr proc s = cons_intr_loop (Suc (length (serial_in s) + length (kbd_in s))) proc s"

definition serial_intr :: "cons_state \<Rightarrow> 'e stop + cons_state" where
  "serial_intr s = (if serial_exists s then cons_intr serial_proc_data s else Inr s)"

definition kbd_intr :: "cons_state \<Rightarrow> 'e stop + cons_state" where
  "kbd_intr s = cons_intr kbd_proc_data s"

definition cons_take :: "cons_state \<Rightarrow> 'e stop + (u8 \<times> cons_state)" where
  "cons_take s =
     (if rpos s \<noteq> wpos s then
        if length (cbuf s) \<le> rpos s then Inl OutOfBounds
        else
          let c = cbuf s ! rpos s;
              s = s\<lparr>rpos := rpos s + 1\<rparr> in
          Inr (c, if rpos s = CONSBUFSIZE then s\<lparr>rpos := 0\<rparr> else s)
      else Inr (0, s))"

definition cons_getc :: "cons_state \<Rightarrow> 'e stop + (u8 \<times> cons_state)" where
  "cons_getc s = rbind (serial_intr s) (\<lambda>s. rbind (kbd_intr s) (\<lambda>s. cons_take s))"

section \<open>Output\<close>

definition scroll :: "cons_state \<Rightarrow> cons_state" where
  "scroll s =
     (if CRT_SIZE \<le> crt_pos s
      then s\<lparr>crt_buf := drop CRT_COLS (crt_buf s) @ replicate CRT_COLS 0x0720, crt_pos := crt_pos s - CRT_COLS\<rparr>
      else s)"

text \<open>The cases of \<open>cga_putc\<close> other than the tabulator.\<close>

definition cga_plain :: "u32 \<Rightarrow> cons_state \<Rightarrow> 'e stop + cons_state" where
  "cga_plain c s =
     (let c = (if c AND NOT 0xFF = 0 then c OR 0x0700 else c);
          k = c AND 0xFF in
      if k = 8 then
        if 0 < crt_pos s then
          if length (crt_buf s) \<le> crt_pos s - 1 then Inl OutOfBounds
          else Inr (scroll (s\<lparr>crt_pos := crt_pos s - 1,
                 crt_buf := (crt_buf s)[crt_pos s - 1 := ucast (c AND NOT 0xFF OR 0x20)]\<rparr>))
        else Inr (scroll s)
      else if k = 10 then
        Inr (scroll (s\<lparr>crt_pos := crt_pos s + CRT_COLS - (crt_pos s + CRT_COLS) mod CRT_COLS\<rparr>))
      else if k = 13 then Inr (scroll (s\<lparr>crt_pos := crt_pos s - crt_pos s mod CRT_COLS\<rparr>))
      else if length (crt_buf s) \<le> crt_pos s then Inl OutOfBounds
      else Inr (scroll (s\<lparr>crt_buf := (crt_buf s)[crt_pos s := ucast c], crt_pos := crt_pos s + 1\<rparr>)))"

definition port_putc :: "u32 \<Rightarrow> cons_state \<Rightarrow> cons_state" where
  "port_putc c s = s\<lparr>serial_out := serial_out s @ [ucast c], lpt_out := lpt_out s @ [ucast c]\<rparr>"

text \<open>A tabulator prints five blanks through \<open>cons_putc\<close> before its own scroll test.\<close>

fun blanks :: "nat \<Rightarrow> cons_state \<Rightarrow> 'e stop + cons_state" where
  "blanks 0 s = Inr (scroll s)"
| "blanks (Suc n) s = rbind (cga_plain 32 (port_putc 32 s)) (\<lambda>s. blanks n s)"

definition cga_putc :: "u32 \<Rightarrow> cons_state \<Rightarrow> 'e stop + cons_state" where
  "cga_putc c s = (if c AND 0xFF = 9 then blanks 5 s else cga_plain c s)"

definition cons_putc :: "u32 \<Rightarrow> cons_state \<Rightarrow> 'e stop + cons_state" where
  "cons_putc c s = cga_putc c (port_putc c s)"

section \<open>The buffer is a queue\<close>

definition cons_ok :: "cons_state \<Rightarrow> bool" where
  "cons_ok s \<longleftrightarrow> length (cbuf s) = CONSBUFSIZE \<and> rpos s < CONSBUFSIZE \<and> wpos s < CONSBUFSIZE"

definition pending :: "cons_state \<Rightarrow> u8 list" where
  "pending s = map (\<lambda>k. cbuf s ! ((rpos s + k) mod CONSBUFSIZE)) [0..<(wpos s + CONSBUFSIZE - rpos s) mod CONSBUFSIZE]"

lemma length_pending: "length (pending s) = (wpos s + CONSBUFSIZE - rpos s) mod CONSBUFSIZE"
  by (simp add: pending_def)

fun put_all :: "(u8 \<Rightarrow> 's \<Rightarrow> 'e + 's) \<Rightarrow> u8 list \<Rightarrow> 's \<Rightarrow> 'e + 's" where
  "put_all put [] s = Inr s"
| "put_all put (c # cs) s = rbind (put c s) (\<lambda>s. put_all put cs s)"

fun get_all :: "('s \<Rightarrow> 'e + (u8 \<times> 's)) \<Rightarrow> nat \<Rightarrow> 's \<Rightarrow> 'e + (u8 list \<times> 's)" where
  "get_all get 0 s = Inr ([], s)"
| "get_all get (Suc n) s = rbind (get s) (\<lambda>(c, s). rbind (get_all get n s) (\<lambda>(cs, s). Inr (c # cs, s)))"

locale byte_queue =
  fixes put :: "u8 \<Rightarrow> 's \<Rightarrow> 'e + 's"
    and get :: "'s \<Rightarrow> 'e + (u8 \<times> 's)"
    and ok :: "'s \<Rightarrow> bool"
    and q :: "'s \<Rightarrow> u8 list"
    and cap :: nat
  assumes put_ok: "ok s \<Longrightarrow> length (q s) < cap \<Longrightarrow> \<exists>s'. put c s = Inr s' \<and> ok s' \<and> q s' = q s @ [c]"
    and get_Nil: "ok s \<Longrightarrow> q s = [] \<Longrightarrow> get s = Inr (0, s)"
    and get_Cons: "ok s \<Longrightarrow> q s = c # cs \<Longrightarrow> \<exists>s'. get s = Inr (c, s') \<and> ok s' \<and> q s' = cs"
begin

lemma put_all_ok:
  assumes "ok s" and "length (q s) + length cs \<le> cap"
  shows "\<exists>s'. put_all put cs s = Inr s' \<and> ok s' \<and> q s' = q s @ cs"
  using assms
proof (induction cs arbitrary: s)
  case Nil
  then show ?case by simp
next
  case (Cons c cs)
  then obtain t where t: "put c s = Inr t" "ok t" "q t = q s @ [c]" using put_ok [of s c] by auto
  with Cons.IH [of t] Cons.prems show ?case by auto
qed

lemma get_all_ok:
  assumes "ok s" and "n \<le> length (q s)"
  shows "\<exists>s'. get_all get n s = Inr (take n (q s), s') \<and> ok s' \<and> q s' = drop n (q s)"
  using assms
proof (induction n arbitrary: s)
  case 0
  then show ?case by simp
next
  case (Suc n)
  then obtain c cs where c: "q s = c # cs" by (cases "q s") auto
  then obtain t where t: "get s = Inr (c, t)" "ok t" "q t = cs" using get_Cons Suc.prems(1) by blast
  with Suc.IH [of t] Suc.prems c show ?case by auto
qed

text \<open>What was put into an empty queue comes out in the same order.\<close>

lemma fifo:
  assumes "ok s" and "q s = []" and "length cs \<le> cap"
  shows "\<exists>s' s''. put_all put cs s = Inr s' \<and> get_all get (length cs) s' = Inr (cs, s'') \<and> q s'' = []"
proof -
  obtain s' where s': "put_all put cs s = Inr s'" "ok s'" "q s' = cs" using put_all_ok [of s cs] assms by auto
  then show ?thesis using get_all_ok [of s' "length cs"] by auto
qed

end

lemma ring_index:
  assumes "r < 512" and "w < (512 :: nat)"
  shows "(r + (w + 512 - r) mod 512) mod 512 = w"
  using assms by (simp add: mod_if)

lemma ring_inj:
  assumes "r < (512 :: nat)" and "(r + k) mod 512 = (r + n) mod 512" and "k < 512" and "n < 512"
  shows "k = n"
  using assms by (simp add: mod_if split: if_splits)

lemma cons_put_ok:
  assumes ok: "cons_ok s" and room: "length (pending s) < 511"
  shows "\<exists>s'. cons_put c s = Inr s' \<and> cons_ok s' \<and> pending s' = pending s @ [c]"
proof -
  let ?n = "(wpos s + 512 - rpos s) mod 512"
  let ?w = "if wpos s + 1 = 512 then 0 else wpos s + 1"
  let ?s = "s\<lparr>cbuf := (cbuf s)[wpos s := c], wpos := ?w\<rparr>"
  have rw: "rpos s < 512" "wpos s < 512" and len: "length (cbuf s) = 512" using ok by (auto simp: cons_ok_def)
  have n: "?n < 511" using room by (simp add: length_pending)
  have w: "(rpos s + ?n) mod 512 = wpos s" using ring_index [OF rw] .
  have n': "(?w + 512 - rpos s) mod 512 = Suc ?n" using rw n by (auto simp: mod_if split: if_splits)
  have "cons_put c s = Inr ?s" using rw len by (simp add: cons_put_def Let_def)
  moreover have "cons_ok ?s" using rw len by (simp add: cons_ok_def)
  moreover have "pending ?s = pending s @ [c]"
  proof -
    have "(cbuf s)[wpos s := c] ! ((rpos s + k) mod 512) = cbuf s ! ((rpos s + k) mod 512)" if "k < ?n" for k
    proof -
      have "(rpos s + k) mod 512 \<noteq> wpos s"
      proof
        assume "(rpos s + k) mod 512 = wpos s"
        then have "k = ?n" using ring_inj [OF rw(1), of k ?n] w that n by simp
        with that show False by simp
      qed
      then show ?thesis by simp
    qed
    moreover have "(cbuf s)[wpos s := c] ! ((rpos s + ?n) mod 512) = c" using w rw(2) len by simp
    ultimately show ?thesis unfolding pending_def using n' by simp
  qed
  ultimately show ?thesis by blast
qed

lemma cons_take_Nil:
  assumes "cons_ok s" and "pending s = []"
  shows "cons_take s = Inr (0, s)"
proof -
  have "(wpos s + 512 - rpos s) mod 512 = 0" using assms(2) length_pending [of s] by simp
  then have "rpos s = wpos s" using assms(1) by (simp add: cons_ok_def mod_if split: if_splits)
  then show ?thesis by (simp add: cons_take_def)
qed

lemma cons_take_Cons:
  assumes ok: "cons_ok s" and p: "pending s = c # cs"
  shows "\<exists>s'. cons_take s = Inr (c, s') \<and> cons_ok s' \<and> pending s' = cs"
proof -
  let ?n = "(wpos s + 512 - rpos s) mod 512"
  let ?r = "if rpos s + 1 = 512 then 0 else rpos s + 1"
  let ?s = "s\<lparr>rpos := ?r\<rparr>"
  have rw: "rpos s < 512" "wpos s < 512" and len: "length (cbuf s) = 512" using ok by (auto simp: cons_ok_def)
  obtain m where m: "?n = Suc m" using p length_pending [of s] by (cases ?n) auto
  have ne: "rpos s \<noteq> wpos s" using m by auto
  have n': "(wpos s + 512 - ?r) mod 512 = m" using rw m by (auto simp: mod_if split: if_splits)
  have idx: "(?r + k) mod 512 = (rpos s + Suc k) mod 512" for k by (simp add: mod_if)
  have all: "c # cs = cbuf s ! rpos s # map (\<lambda>k. cbuf s ! ((rpos s + Suc k) mod 512)) [0..<m]"
    using p rw(1) unfolding pending_def m upt_rec [of 0 "Suc m"] by (simp add: map_Suc_upt [symmetric] comp_def del: upt_Suc)
  have "cons_take s = Inr (c, ?s)" using ne rw len all by (simp add: cons_take_def Let_def)
  moreover have "cons_ok ?s" using rw len by (simp add: cons_ok_def)
  moreover have "pending ?s = cs" using all n' idx unfolding pending_def by simp
  ultimately show ?thesis by blast
qed

interpretation cq: byte_queue cons_put cons_take cons_ok pending 511
proof unfold_locales
  fix s c cs
  show "cons_ok s \<Longrightarrow> length (pending s) < 511 \<Longrightarrow> \<exists>s'. cons_put c s = Inr s' \<and> cons_ok s' \<and> pending s' = pending s @ [c]"
    by (rule cons_put_ok)
  show "cons_ok s \<Longrightarrow> pending s = [] \<Longrightarrow> cons_take s = Inr (0, s)" by (rule cons_take_Nil)
  show "cons_ok s \<Longrightarrow> pending s = c # cs \<Longrightarrow> \<exists>s'. cons_take s = Inr (c, s') \<and> cons_ok s' \<and> pending s' = cs"
    by (rule cons_take_Cons)
qed

text \<open>The 512th unread character is stored, and with it all of them disappear.\<close>

lemma cons_put_overrun:
  assumes ok: "cons_ok s" and full: "length (pending s) = 511"
  shows "\<exists>s'. cons_put c s = Inr s' \<and> cons_ok s' \<and> pending s' = []"
proof -
  let ?w = "if wpos s + 1 = 512 then 0 else wpos s + 1"
  let ?s = "s\<lparr>cbuf := (cbuf s)[wpos s := c], wpos := ?w\<rparr>"
  have rw: "rpos s < 512" "wpos s < 512" and len: "length (cbuf s) = 512" using ok by (auto simp: cons_ok_def)
  have "(wpos s + 512 - rpos s) mod 512 = 511" using full by (simp add: length_pending)
  then have "(?w + 512 - rpos s) mod 512 = 0" using rw by (auto simp: mod_if split: if_splits)
  then have "pending ?s = []" by (simp add: pending_def)
  moreover have "cons_put c s = Inr ?s" using rw len by (simp add: cons_put_def Let_def)
  moreover have "cons_ok ?s" using rw len by (simp add: cons_ok_def)
  ultimately show ?thesis by blast
qed

section \<open>The display\<close>

definition crt_ok :: "cons_state \<Rightarrow> bool" where
  "crt_ok s \<longleftrightarrow> length (crt_buf s) = CRT_SIZE \<and> crt_pos s < CRT_SIZE"

lemma scroll_ok: "length (crt_buf s) = CRT_SIZE \<Longrightarrow> crt_pos s \<le> CRT_SIZE + 79 \<Longrightarrow> crt_ok (scroll s)"
  by (auto simp: scroll_def crt_ok_def)

lemma cga_plain_ok:
  assumes "crt_ok s"
  shows "\<exists>s'. cga_plain c s = Inr s' \<and> crt_ok s'"
proof -
  have "crt_pos s + 80 - (crt_pos s + 80) mod 80 \<le> CRT_SIZE + 79"
    by (rule order_trans [OF diff_le_self]) (use assms in \<open>simp add: crt_ok_def\<close>)
  then show ?thesis using assms unfolding cga_plain_def Let_def
    by (auto simp: crt_ok_def intro!: scroll_ok [unfolded crt_ok_def])
qed

lemma port_putc_crt [simp]: "crt_ok (port_putc c s) = crt_ok s"
  by (simp add: port_putc_def crt_ok_def)

lemma blanks_ok: "crt_ok s \<Longrightarrow> \<exists>s'. (blanks n s :: 'e stop + _) = Inr s' \<and> crt_ok s'"
proof (induction n arbitrary: s)
  case 0
  then show ?case using scroll_ok [of s] by (simp add: crt_ok_def)
next
  case (Suc n)
  obtain t where "(cga_plain 32 (port_putc 32 s) :: 'e stop + _) = Inr t" "crt_ok t"
    using cga_plain_ok [of "port_putc 32 s" 32] Suc.prems by auto
  with Suc.IH [of t] show ?case by simp
qed

lemma cons_putc_ok:
  assumes "crt_ok s"
  shows "\<exists>s'. (cons_putc c s :: 'a stop + _) = Inr s' \<and> crt_ok s'"
proof (cases "c AND 0xFF = 9")
  case True
  then have "(cons_putc c s :: 'a stop + _) = blanks 5 (port_putc c s)"
    by (simp add: cons_putc_def cga_putc_def)
  with blanks_ok [of "port_putc c s" 5] assms show ?thesis by (metis port_putc_crt)
next
  case False
  then have "(cons_putc c s :: 'a stop + _) = cga_plain c (port_putc c s)"
    by (simp add: cons_putc_def cga_putc_def)
  with cga_plain_ok [of "port_putc c s" c] assms show ?thesis by (metis port_putc_crt)
qed

section \<open>Properties\<close>

definition sample_cons :: cons_state where
  "sample_cons = \<lparr>cbuf = replicate 512 0, rpos = 0, wpos = 0, serial_exists = False, serial_in = [], kbd_in = [],
     shift = 0, reboots = 0, crt_buf = replicate 2000 0, crt_pos = 0, serial_out = [], lpt_out = []\<rparr>"

text \<open>
  C39: up to 511 input characters stored by \<open>cons_intr\<close> come out of \<open>cons_getc\<close>'s buffer in the order in
  which they arrived; the 512th unread character empties the buffer.
\<close>

theorem console_ring_fifo:
  assumes "cons_ok s" and "pending s = []"
  shows "(length cs \<le> 511 \<longrightarrow> (\<exists>s' s''. put_all cons_put cs s = (Inr s' :: 's stop + _) \<and> get_all cons_take (length cs) s' = (Inr (cs, s'') :: 's stop + _))) \<and>
    (length cs = 511 \<longrightarrow> (\<exists>s' s''. put_all cons_put cs s = (Inr s' :: 's stop + _) \<and> cons_put c s' = (Inr s'' :: 's stop + _) \<and> pending s'' = []))"
proof -
  have "\<exists>s' s''. put_all cons_put cs s = (Inr s' :: 's stop + _) \<and> cons_put c s' = (Inr s'' :: 's stop + _) \<and> pending s'' = []" if "length cs = 511"
  proof -
    obtain s' where "put_all cons_put cs s = (Inr s' :: 's stop + _)" "cons_ok s'" "pending s' = cs"
      using cq.put_all_ok [OF assms(1), of cs] assms(2) \<open>length cs = 511\<close> by auto
    then show ?thesis using cons_put_overrun [of s' c] that by auto
  qed
  then show ?thesis using cq.fifo [OF assms, of cs] by blast
qed

theorem console_ring_fifo_witness:
  "\<exists>s' s''. put_all cons_put [0x68, 0x69] sample_cons = (Inr s' :: nat stop + _) \<and> get_all cons_take 2 s' = (Inr ([0x68, 0x69], s'') :: nat stop + _)"
  using console_ring_fifo [of sample_cons "[0x68, 0x69]", where 's = nat]
  by (simp add: sample_cons_def cons_ok_def pending_def numeral_2_eq_2)

end
