(* ===== verification/Ide.thy ===== *)
theory Ide
  imports Mmu
begin

text \<open>
  The polling disk driver of \<^verbatim>\<open>kern/ide.c\<close>.  The state holds the registers of the controller as
  the driver programs them, the command in progress, and the contents of the two drives.

  The device follows the ATA rules for programmed transfers.  A write of the command register starts a command with
  what the other registers hold at that moment: the drive that bit 4 of the drive register selects, the 28-bit
  sector address, and the number of sectors (a count register of 0 means 256; an identification is one sector).
  A transfer of 128 words through the data port then moves one sector on, in the direction of the command only:
  words written to the port reach the disk after \<open>IDE_COM_WRITE\<close> and as long as sectors are left, and are lost
  otherwise; words read from it are those of the disk after \<open>IDE_COM_READ\<close>, the identification after
  \<open>IDE_COM_IDENTIFY\<close>, and ones on a bus that no drive answers on otherwise.  The status register is an input: a
  driver loop that waits for a drive that is not ready does not return (\<open>Blocked\<close>).
\<close>

section \<open>Registers and disk\<close>

abbreviation SECTWORDS :: nat where "SECTWORDS \<equiv> 128"

record ide_state =
  ide_status :: u8
  diskno :: nat
  disk_sectors :: u32
  r_seccnt :: u8
  r_lba_lo :: u8
  r_lba_mid :: u8
  r_lba_hi :: u8
  r_drive :: u8
  r_command :: u8
  cur_drive :: nat
  cur_sector :: nat
  secs_left :: nat
  disk :: "nat \<Rightarrow> nat \<Rightarrow> nat \<Rightarrow> u32"
  ident :: "nat \<Rightarrow> nat \<Rightarrow> u32"

definition IDE_BSY :: u8 where "IDE_BSY = 0x80"
definition IDE_RDY :: u8 where "IDE_RDY = 0x40"
definition IDE_DF :: u8 where "IDE_DF = 0x20"
definition IDE_ERR :: u8 where "IDE_ERR = 0x01"
definition IDE_COM_READ :: u8 where "IDE_COM_READ = 0x20"
definition IDE_COM_WRITE :: u8 where "IDE_COM_WRITE = 0x30"
definition IDE_COM_IDENTIFY :: u8 where "IDE_COM_IDENTIFY = 0xEC"

definition lba :: "ide_state \<Rightarrow> nat" where
  "lba d = unat (r_lba_lo d) + 256 * unat (r_lba_mid d) + 65536 * unat (r_lba_hi d)
     + 16777216 * unat (r_drive d AND 0x0F)"

definition sectors_of :: "u8 \<Rightarrow> u8 \<Rightarrow> nat" where
  "sectors_of c cnt =
     (if c = IDE_COM_IDENTIFY then 1
      else if c = IDE_COM_READ \<or> c = IDE_COM_WRITE then if cnt = 0 then 256 else unat cnt
      else 0)"

definition set_command :: "u8 \<Rightarrow> ide_state \<Rightarrow> ide_state" where
  "set_command c d =
     d\<lparr>r_command := c, cur_drive := (if bit (r_drive d) 4 then 1 else 0), cur_sector := lba d,
       secs_left := sectors_of c (r_seccnt d)\<rparr>"

section \<open>The driver\<close>

definition ide_is_ready :: "ide_state \<Rightarrow> bool" where
  "ide_is_ready d \<longleftrightarrow> ide_status d AND (IDE_BSY OR IDE_RDY) = IDE_RDY"

definition ide_wait_ready :: "bool \<Rightarrow> ide_state \<Rightarrow> 's stop + int" where
  "ide_wait_ready check_error d =
     (if \<not> ide_is_ready d then Inl Blocked
      else if check_error \<and> ide_status d AND (IDE_DF OR IDE_ERR) \<noteq> 0 then Inr (-1) else Inr 0)"

definition ide_set_disk :: "nat \<Rightarrow> ide_state \<Rightarrow> 's stop + ide_state" where
  "ide_set_disk n d =
     (if n \<noteq> 0 \<and> n \<noteq> 1 then Inl (Panic ''bad disk number'') else Inr (d\<lparr>diskno := n\<rparr>))"

definition ide_start_readwrite :: "u32 \<Rightarrow> nat \<Rightarrow> bool \<Rightarrow> ide_state \<Rightarrow> 's stop + ide_state" where
  "ide_start_readwrite secno nsectors iswrite d =
     (if 256 < nsectors then Inl (AssertFail ''nsectors <= 256'')
      else
        rbind (ide_wait_ready False d) (\<lambda>_.
        Inr (set_command (if iswrite then IDE_COM_WRITE else IDE_COM_READ)
          (d\<lparr>r_seccnt := of_nat nsectors, r_lba_lo := ucast (secno AND 0xFF),
             r_lba_mid := ucast (drop_bit 8 secno AND 0xFF),
             r_lba_hi := ucast (drop_bit 16 secno AND 0xFF),
             r_drive := ucast (0xE0 OR push_bit 4 (of_nat (diskno d) AND 1) OR (drop_bit 24 secno AND 0x0F))\<rparr>))))"

definition ide_read_sector :: "ide_state \<Rightarrow> (nat \<Rightarrow> u32) \<times> ide_state" where
  "ide_read_sector d =
     (if secs_left d = 0 then ((\<lambda>_. 0xFFFFFFFF), d)
      else if r_command d = IDE_COM_IDENTIFY then (ident d (cur_drive d), d\<lparr>secs_left := secs_left d - 1\<rparr>)
      else if r_command d = IDE_COM_READ then
        (disk d (cur_drive d) (cur_sector d), d\<lparr>cur_sector := cur_sector d + 1, secs_left := secs_left d - 1\<rparr>)
      else ((\<lambda>_. 0xFFFFFFFF), d))"

definition put_sector :: "nat \<Rightarrow> nat \<Rightarrow> (nat \<Rightarrow> u32) \<Rightarrow> (nat \<Rightarrow> nat \<Rightarrow> nat \<Rightarrow> u32) \<Rightarrow> nat \<Rightarrow> nat \<Rightarrow> nat \<Rightarrow> u32" where
  "put_sector v x w dk = (\<lambda>v' x' k. if v' = v \<and> x' = x \<and> k < SECTWORDS then w k else dk v' x' k)"

definition ide_write_sector :: "(nat \<Rightarrow> u32) \<Rightarrow> ide_state \<Rightarrow> ide_state" where
  "ide_write_sector w d =
     (if secs_left d \<noteq> 0 \<and> r_command d = IDE_COM_WRITE then
        d\<lparr>disk := put_sector (cur_drive d) (cur_sector d) w (disk d), cur_sector := cur_sector d + 1,
          secs_left := secs_left d - 1\<rparr>
      else d)"

text \<open>\<open>info[60]\<close> and \<open>info[61]\<close> are the 30th 32-bit word of the identification sector.\<close>

definition ide_identify :: "ide_state \<Rightarrow> 's stop + ide_state" where
  "ide_identify d =
     rbind (ide_wait_ready False d) (\<lambda>_.
     let d = set_command IDE_COM_IDENTIFY
           (d\<lparr>r_seccnt := 0, r_lba_lo := 0, r_lba_mid := 0, r_lba_hi := 0,
              r_drive := ucast (0xA0 OR push_bit 4 (of_nat (diskno d) AND 1 :: u32))\<rparr>) in
     rbind (ide_wait_ready True d) (\<lambda>r.
     if r \<noteq> 0 then Inl (Panic ''Error during IDENTIFY of IDE disk'')
     else let (info, d) = ide_read_sector d in Inr (d\<lparr>disk_sectors := info 30\<rparr>)))"

definition ide_num_sectors :: "ide_state \<Rightarrow> u32" where
  "ide_num_sectors d = disk_sectors d"

text \<open>
  Disk 1 answers to its own status register: \<open>st1 x\<close> is what the \<open>x\<close>th poll of it reads.  Outside the probe the selected
  disk is the one whose status is \<open>ide_status\<close>.
\<close>

fun ide_probe_loop :: "nat \<Rightarrow> nat \<Rightarrow> (nat \<Rightarrow> u8) \<Rightarrow> nat" where
  "ide_probe_loop 0 x st1 = x"
| "ide_probe_loop (Suc n) x st1 =
     (if st1 x AND (IDE_BSY OR IDE_DF OR IDE_ERR) \<noteq> 0 then ide_probe_loop n (Suc x) st1 else x)"

definition ide_probe_disk1 :: "(nat \<Rightarrow> u8) \<Rightarrow> ide_state \<Rightarrow> 's stop + bool \<times> ide_state" where
  "ide_probe_disk1 st1 d =
     rbind (ide_wait_ready False d) (\<lambda>_.
     let d = d\<lparr>r_drive := 0xE0 OR push_bit 4 1\<rparr>;
         x = ide_probe_loop 1000 0 st1;
         d = d\<lparr>r_drive := 0xE0 OR push_bit 4 0\<rparr> in
     Inr (x < 1000, d))"

definition ide_init :: "(nat \<Rightarrow> u8) \<Rightarrow> ide_state \<Rightarrow> 's stop + int \<times> ide_state" where
  "ide_init st1 d =
     rbind (ide_probe_disk1 st1 d) (\<lambda>(found, d).
     if \<not> found then Inl (Panic ''IDE: Could not find disk 1!'')
     else
       rbind (ide_set_disk 1 d) (\<lambda>d.
       rbind (ide_identify d) (\<lambda>d. Inr (0, d))))"

section \<open>Transfers\<close>

fun write_run :: "(nat \<Rightarrow> nat \<Rightarrow> u32) \<Rightarrow> nat \<Rightarrow> nat \<Rightarrow> ide_state \<Rightarrow> ide_state" where
  "write_run w i 0 d = d"
| "write_run w i (Suc n) d = write_run w (Suc i) n (ide_write_sector (w i) d)"

fun read_run :: "nat \<Rightarrow> ide_state \<Rightarrow> (nat \<Rightarrow> u32) list \<times> ide_state" where
  "read_run 0 d = ([], d)"
| "read_run (Suc n) d =
     (let (x, d) = ide_read_sector d; (xs, d) = read_run n d in (x # xs, d))"

lemma unat_ucast8: "unat (ucast (x :: u32) :: u8) = unat x mod 256"
  by (simp add: unsigned_ucast_eq take_bit_eq_mod)

lemma byte_of: "unat (ucast (drop_bit k x AND 0xFF :: u32) :: u8) = unat x div 2 ^ k mod 256"
proof -
  have "unat (drop_bit k x AND 0xFF :: u32) = unat x div 2 ^ k mod 256"
  proof -
    have "(drop_bit k x AND 0xFF :: u32) = take_bit 8 (drop_bit k x)"
      by (simp add: take_bit_eq_mask mask_eq_exp_minus_1)
    then have "unat (drop_bit k x AND 0xFF :: u32) = take_bit 8 (drop_bit k (unat x))"
      by (simp only: unsigned_take_bit_eq unat_drop_bit_eq)
    then show ?thesis by (simp add: take_bit_eq_mod drop_bit_eq_div)
  qed
  then show ?thesis by (simp add: unat_ucast8)
qed

text \<open>The drive register carries the top four bits of the sector number and the number of the drive.\<close>

lemma low4: "(0x0F :: u32) = mask 4" "(0x0F :: u8) = mask 4" by (simp_all add: mask_eq_exp_minus_1)

lemma drive_low:
  "unat ((ucast (0xE0 OR push_bit 4 (d AND 1) OR (drop_bit 24 x AND 0x0F) :: u32) :: u8) AND 0x0F)
     = unat (x :: u32) div 16777216 mod 16"
proof -
  have e: "(0xE0 OR push_bit 4 (d AND 1) OR z :: u32) = push_bit 4 (0xE OR (d AND 1)) OR z" for z
    by (simp add: push_bit_or or.assoc)
  have "(ucast (push_bit 4 y OR (drop_bit 24 x AND 0x0F) :: u32) :: u8) AND 0x0F = ucast (take_bit 4 (drop_bit 24 x))"
    for y :: u32
    unfolding low4 by (rule bit_word_eqI) (auto simp: bit_and_iff bit_or_iff bit_mask_iff bit_ucast_iff bit_push_bit_iff
        bit_take_bit_iff)
  then have "unat ((ucast (0xE0 OR push_bit 4 (d AND 1) OR (drop_bit 24 x AND 0x0F) :: u32) :: u8) AND 0x0F)
      = unat (take_bit 4 (drop_bit 24 x)) mod 256"
    unfolding e unat_ucast8 [symmetric] by (rule arg_cong)
  also have "unat (take_bit 4 (drop_bit 24 x)) = take_bit 4 (drop_bit 24 (unat x))"
    by (simp only: unsigned_take_bit_eq unat_drop_bit_eq)
  also have "take_bit 4 (drop_bit 24 (unat x)) mod 256 = unat x div 16777216 mod 16"
    by (simp add: take_bit_eq_mod drop_bit_eq_div)
  finally show ?thesis .
qed

lemma drive_bit:
  "bit (ucast (0xE0 OR push_bit 4 (of_nat n AND 1) OR (drop_bit 24 x AND 0x0F) :: u32) :: u8) 4 \<longleftrightarrow> odd n"
proof -
  have "\<not> bit (0xE0 :: u32) 4" by code_simp
  then show ?thesis unfolding low4
    by (simp add: bit_ucast_iff bit_or_iff bit_push_bit_iff bit_and_iff bit_mask_iff bit_0 even_of_nat_iff)
qed

lemma sector_parts:
  assumes "(x :: nat) < 268435456"
  shows "x mod 256 + 256 * (x div 256 mod 256) + 65536 * (x div 65536 mod 256) + 16777216 * (x div 16777216 mod 16) = x"
proof -
  have "x div 65536 = x div 256 div 256" "x div 16777216 = x div 65536 div 256" by (simp_all add: div_mult2_eq)
  moreover have "x div 16777216 mod 16 = x div 16777216" using assms by simp
  moreover have "x div 65536 = 256 * (x div 65536 div 256) + x div 65536 mod 256" by simp
  moreover have "x div 256 = 256 * (x div 256 div 256) + x div 256 mod 256" by simp
  moreover have "x = 256 * (x div 256) + x mod 256" by simp
  ultimately show ?thesis by linarith
qed

lemma sectors_of_count:
  assumes "n \<le> 256" and "c = IDE_COM_READ \<or> c = IDE_COM_WRITE"
  shows "sectors_of c (of_nat n) = (if n = 0 then 256 else n)"
proof -
  have c: "c \<noteq> IDE_COM_IDENTIFY" using assms(2) by (auto simp: IDE_COM_WRITE_def IDE_COM_READ_def IDE_COM_IDENTIFY_def)
  show ?thesis
  proof (cases "n = 256")
    case True
    then have "(of_nat n :: u8) = 0" by simp
    then show ?thesis using True c assms(2) by (simp add: sectors_of_def)
  next
    case False
    then have "unat (of_nat n :: u8) = n" using assms(1) by (simp add: unat_of_nat take_bit_nat_eq_self)
    moreover from this have "(of_nat n :: u8) = 0 \<longleftrightarrow> n = 0" by (metis unat_eq_0)
    ultimately show ?thesis using c assms(2) by (simp add: sectors_of_def)
  qed
qed

text \<open>
  A started transfer: the four address registers together hold the sector number, the drive is the one selected by
  \<open>ide_set_disk\<close>, and the command has the direction asked for.
\<close>

lemma start_sector:
  assumes "unat secno < 268435456" and "n \<le> 256" and "ide_is_ready d"
  obtains d' where "(ide_start_readwrite secno n iswrite d :: 's stop + _) = Inr d'" "cur_sector d' = unat secno"
    "cur_drive d' = diskno d mod 2" "secs_left d' = (if n = 0 then 256 else n)" "disk d' = disk d"
    "ide_status d' = ide_status d" "diskno d' = diskno d"
    "r_command d' = (if iswrite then IDE_COM_WRITE else IDE_COM_READ)"
proof -
  let ?d = "d\<lparr>r_seccnt := of_nat n, r_lba_lo := ucast (secno AND 0xFF),
             r_lba_mid := ucast (drop_bit 8 secno AND 0xFF), r_lba_hi := ucast (drop_bit 16 secno AND 0xFF),
             r_drive := ucast (0xE0 OR push_bit 4 (of_nat (diskno d) AND 1) OR (drop_bit 24 secno AND 0x0F))\<rparr>"
  let ?c = "if iswrite then IDE_COM_WRITE else IDE_COM_READ"
  have l: "lba ?d = unat secno"
    using byte_of [of 0 secno] byte_of [of 8 secno] byte_of [of 16 secno] sector_parts [OF assms(1)]
      drive_low [of "of_nat (diskno d)" secno]
    by (simp add: lba_def)
  have "(if bit (r_drive ?d) 4 then 1 else 0) = diskno d mod 2"
    using drive_bit [of "diskno d" secno] by (simp add: mod2_eq_if)
  then have "set_command ?c ?d = ?d\<lparr>r_command := ?c, cur_drive := diskno d mod 2, cur_sector := unat secno,
      secs_left := if n = 0 then 256 else n\<rparr>"
    unfolding set_command_def l by (simp add: sectors_of_count [OF assms(2)])
  then show ?thesis using that [of "set_command ?c ?d"] assms(2,3)
    by (simp add: ide_start_readwrite_def ide_wait_ready_def)
qed

lemma write_run_disk:
  assumes "r_command d = IDE_COM_WRITE" and "n \<le> secs_left d"
  shows "disk (write_run w i n d) v s k =
     (if v = cur_drive d \<and> cur_sector d \<le> s \<and> s < cur_sector d + n \<and> k < SECTWORDS
      then w (i + (s - cur_sector d)) k else disk d v s k)"
  using assms
proof (induction n arbitrary: i d)
  case 0
  then show ?case by auto
next
  case (Suc n)
  let ?d = "ide_write_sector (w i) d"
  have f: "disk ?d = put_sector (cur_drive d) (cur_sector d) (w i) (disk d)" "cur_sector ?d = Suc (cur_sector d)"
    "cur_drive ?d = cur_drive d" "r_command ?d = IDE_COM_WRITE" "n \<le> secs_left ?d"
    using Suc.prems by (simp_all add: ide_write_sector_def)
  have "Suc i + (s - Suc (cur_sector d)) = i + (s - cur_sector d)" if "cur_sector d < s" using that by simp
  then show ?case using Suc.IH [OF f(4,5), of "Suc i"] f(1,2,3) by (auto simp: put_sector_def)
qed

lemma read_run_ok:
  assumes "r_command d = IDE_COM_READ" and "n \<le> secs_left d"
  shows "fst (read_run n d) = map (\<lambda>j. disk d (cur_drive d) (cur_sector d + j)) [0..<n]"
  using assms
proof (induction n arbitrary: d)
  case 0
  then show ?case by simp
next
  case (Suc n)
  let ?d = "d\<lparr>cur_sector := Suc (cur_sector d), secs_left := secs_left d - 1\<rparr>"
  have r: "ide_read_sector d = (disk d (cur_drive d) (cur_sector d), ?d)"
    using Suc.prems by (simp add: ide_read_sector_def IDE_COM_READ_def IDE_COM_IDENTIFY_def)
  have "fst (read_run n ?d) = map (\<lambda>j. disk d (cur_drive d) (Suc (cur_sector d) + j)) [0..<n]"
    using Suc.IH [of ?d] Suc.prems by simp
  moreover have "map (\<lambda>j. disk d (cur_drive d) (cur_sector d + j)) [0..<Suc n]
      = disk d (cur_drive d) (cur_sector d) # map (\<lambda>j. disk d (cur_drive d) (Suc (cur_sector d) + j)) [0..<n]"
    unfolding upt_rec [of 0 "Suc n"] by (simp add: map_Suc_upt [symmetric] comp_def del: upt_Suc)
  ultimately show ?case using r by (cases "read_run n ?d") (simp del: upt_Suc)
qed

lemma write_run_other:
  "ide_status (write_run w i n d) = ide_status d \<and> diskno (write_run w i n d) = diskno d"
  by (induction n arbitrary: i d) (simp_all add: ide_write_sector_def)

section \<open>Properties\<close>

definition sample_ide :: ide_state where
  "sample_ide = \<lparr>ide_status = 0x40, diskno = 1, disk_sectors = 0, r_seccnt = 0, r_lba_lo = 0, r_lba_mid = 0, r_lba_hi = 0,
     r_drive = 0, r_command = 0, cur_drive = 0, cur_sector = 0, secs_left = 0, disk = (\<lambda>_ _ _. 0), ident = (\<lambda>_ _. 0)\<rparr>"

text \<open>
  C33: What is written to the disk is what is read from it.  For a sector number of at most 28 bits, all that the address
  registers hold, and up to 256 sectors on a disk that is ready: \<open>ide_start_readwrite\<close> for writing, with the sectors put
  through the data port, stores them on the selected drive at that sector number and changes no other sector and not the
  other drive; \<open>ide_start_readwrite\<close> for reading from the same number then returns exactly these sectors through the
  data port and leaves the contents of both drives alone.
\<close>

theorem ide_write_read:
  assumes "unat secno < 268435456" and "n \<le> 256" and "ide_is_ready d"
  shows "\<exists>d1 d2. ide_start_readwrite secno n True d = (Inr d1 :: 's stop + _) \<and>
    (\<forall>v s k. disk (write_run w 0 n d1) v s k =
       (if v = diskno d mod 2 \<and> unat secno \<le> s \<and> s < unat secno + n \<and> k < SECTWORDS then w (s - unat secno) k
        else disk d v s k)) \<and>
    ide_start_readwrite secno n False (write_run w 0 n d1) = (Inr d2 :: 's stop + _) \<and>
    disk d2 = disk (write_run w 0 n d1) \<and>
    length (fst (read_run n d2)) = n \<and>
    (\<forall>j < n. \<forall>k < SECTWORDS. (fst (read_run n d2) ! j) k = w j k)"
proof -
  obtain d1 where d1: "ide_start_readwrite secno n True d = (Inr d1 :: 's stop + _)" "cur_sector d1 = unat secno"
    "cur_drive d1 = diskno d mod 2" "n \<le> secs_left d1" "disk d1 = disk d" "ide_status d1 = ide_status d" "diskno d1 = diskno d"
    "r_command d1 = IDE_COM_WRITE"
    using start_sector [OF assms, of True] by (metis assms(2) le_refl)
  let ?d = "write_run w 0 n d1"
  note wr = write_run_disk [OF d1(8,4), of w 0, unfolded d1(2,3,5)]
  have "ide_is_ready ?d" using assms(3) d1(6) write_run_other by (simp add: ide_is_ready_def)
  then obtain d2 where d2: "ide_start_readwrite secno n False ?d = (Inr d2 :: 's stop + _)" "cur_sector d2 = unat secno"
    "cur_drive d2 = diskno d mod 2" "n \<le> secs_left d2" "disk d2 = disk ?d" "r_command d2 = IDE_COM_READ"
    using start_sector [OF assms(1,2), of ?d False] write_run_other d1(7) by (metis assms(2) le_refl)
  have "fst (read_run n d2) = map (\<lambda>j. disk ?d (diskno d mod 2) (unat secno + j)) [0..<n]"
    using read_run_ok [OF d2(6,4)] d2(2,3,5) by simp
  then show ?thesis using d1(1) d2(1,5) wr by auto
qed

theorem ide_write_read_witness:
  "\<exists>d1 d2. ide_start_readwrite 41 8 True sample_ide = (Inr d1 :: nat stop + _) \<and>
    disk (write_run (\<lambda>j k. of_nat j) 0 8 d1) 1 48 0 = 7 \<and> disk (write_run (\<lambda>j k. of_nat j) 0 8 d1) 0 48 0 = 0 \<and>
    ide_start_readwrite 41 8 False (write_run (\<lambda>j k. of_nat j) 0 8 d1) = (Inr d2 :: nat stop + _) \<and>
    (fst (read_run 8 d2) ! 7) 0 = 7"
  using ide_write_read [of 41 8 sample_ide "\<lambda>j k. of_nat j", where 's = nat]
  by (auto simp: sample_ide_def ide_is_ready_def IDE_BSY_def IDE_RDY_def)

section \<open>Finding the disk\<close>

lemma ide_probe_loop_found:
  "ide_probe_loop n x st1 < x + n \<longleftrightarrow> (\<exists>i < n. st1 (x + i) AND (IDE_BSY OR IDE_DF OR IDE_ERR) = 0)"
proof (induction n arbitrary: x)
  case 0
  then show ?case by simp
next
  case (Suc n)
  show ?case
  proof (cases "st1 x AND (IDE_BSY OR IDE_DF OR IDE_ERR) = 0")
    case True
    then show ?thesis by (auto intro: exI [of _ 0])
  next
    case False
    then have "(\<exists>i < Suc n. st1 (x + i) AND (IDE_BSY OR IDE_DF OR IDE_ERR) = 0) \<longleftrightarrow>
        (\<exists>i < n. st1 (Suc x + i) AND (IDE_BSY OR IDE_DF OR IDE_ERR) = 0)"
      unfolding less_Suc_eq_0_disj by auto
    then show ?thesis using Suc.IH [of "Suc x"] False by simp
  qed
qed

text \<open>
  \<open>ide_init\<close> ends, for a disk that is ready, in one of three ways: disk 1 never answers, the identification reports an
  error, or disk 1 is selected and its size known.
\<close>

lemma ide_init_cases:
  assumes "ide_is_ready d"
  shows "(ide_init st1 d :: 's stop + _) =
    (if \<forall>i < 1000. st1 i AND (IDE_BSY OR IDE_DF OR IDE_ERR) \<noteq> 0 then Inl (Panic ''IDE: Could not find disk 1!'')
     else if ide_status d AND (IDE_DF OR IDE_ERR) \<noteq> 0 then Inl (Panic ''Error during IDENTIFY of IDE disk'')
     else Inr (0, (set_command IDE_COM_IDENTIFY
       (d\<lparr>diskno := 1, r_seccnt := 0, r_lba_lo := 0, r_lba_mid := 0, r_lba_hi := 0, r_drive := 0xB0\<rparr>))
         \<lparr>secs_left := 0, disk_sectors := ident d 1 30\<rparr>))"
proof -
  have "ide_probe_loop 1000 0 st1 < 1000 \<longleftrightarrow> (\<exists>i < 1000. st1 i AND (IDE_BSY OR IDE_DF OR IDE_ERR) = 0)"
    using ide_probe_loop_found [of 1000 0 st1] by simp
  moreover have "(ide_set_disk 1 e :: 's stop + _) = Inr (e\<lparr>diskno := 1\<rparr>)" for e by (simp add: ide_set_disk_def)
  ultimately show ?thesis using assms
    by (simp add: ide_init_def ide_probe_disk1_def ide_identify_def ide_wait_ready_def ide_is_ready_def Let_def
        set_command_def ide_read_sector_def sectors_of_def lba_def)
qed

end
