(* ===== verification/KState.thy ===== *)
theory KState
  imports Tasklet VmaList Bitmap Spinlock Console Ide
begin

text \<open>
  The state of the whole kernel: the environments (\<open>struct env\<close> of \<^verbatim>\<open>inc/env.h\<close>, with the saved
  registers of \<^verbatim>\<open>inc/trap.h\<close>), the per-CPU variables of \<^verbatim>\<open>kern/cpu.h\<close>, the four locks of
  \<^verbatim>\<open>kern/spinlock.c\<close>, the two bit maps, the disk and the console, on top of the page allocator, the
  page lists and the tasklets.

  One CPU, number \<open>cpunum\<close>, executes kernel code; the other CPUs appear through the environments
  they run and the locks they hold.  A page directory is named by the frame it occupies, so the
  pointer \<open>env_pgdir\<close> is a frame number or \<open>None\<close>.  Output of \<open>cprintf\<close> is not modelled.
\<close>

section \<open>Environments\<close>

record pushregs =
  reg_edi :: u32
  reg_esi :: u32
  reg_ebp :: u32
  reg_oesp :: u32
  reg_ebx :: u32
  reg_edx :: u32
  reg_ecx :: u32
  reg_eax :: u32

record trapframe =
  tf_regs :: pushregs
  tf_es :: u16
  tf_ds :: u16
  tf_trapno :: u32
  tf_err :: u32
  tf_eip :: u32
  tf_cs :: u16
  tf_eflags :: u32
  tf_esp :: u32
  tf_ss :: u16

definition zero_tf :: trapframe where
  "zero_tf = \<lparr>tf_regs = \<lparr>reg_edi = 0, reg_esi = 0, reg_ebp = 0, reg_oesp = 0, reg_ebx = 0, reg_edx = 0,
     reg_ecx = 0, reg_eax = 0\<rparr>, tf_es = 0, tf_ds = 0, tf_trapno = 0, tf_err = 0, tf_eip = 0, tf_cs = 0,
     tf_eflags = 0, tf_esp = 0, tf_ss = 0\<rparr>"

datatype env_type = ENV_TYPE_USER | ENV_TYPE_IDLE | ENV_TYPE_KERNEL

datatype env_status = ENV_FREE | ENV_DYING | ENV_RUNNABLE | ENV_RUNNING | ENV_SLEEPING | ENV_NOT_RUNNABLE

record env = vma_space +
  env_tf :: trapframe
  env_link :: "nat option"
  env_id :: u32
  env_parent_id :: u32
  env_type :: env_type
  env_status :: env_status
  env_runs :: u32
  env_cpunum :: nat
  env_alloc_pages :: u32
  env_pgdir :: "nat option"
  env_vmas :: u32
  time_slice :: u64
  wait_id :: u32

abbreviation NENV :: nat where "NENV \<equiv> 1024"
abbreviation NKTHREADS :: nat where "NKTHREADS \<equiv> 2"

definition ENVX :: "u32 \<Rightarrow> nat" where
  "ENVX envid = unat (envid AND 0x3FF)"

lemma ENVX_bound [simp]: "ENVX x < NENV"
proof -
  have "unat (x AND 0x3FF) \<le> unat (0x3FF :: u32)" by (rule word_and_le1 [THEN word_le_nat_alt [THEN iffD1]])
  then show ?thesis by (simp add: ENVX_def)
qed

definition E_BAD_ENV :: int where "E_BAD_ENV = 2"
definition E_NO_MEM :: int where "E_NO_MEM = 4"
definition E_NO_FREE_ENV :: int where "E_NO_FREE_ENV = 5"
definition E_FAULT :: int where "E_FAULT = 6"
definition E_NO_SYS :: int where "E_NO_SYS = 7"

section \<open>The kernel state\<close>

datatype klock = PAGEALLOC_LOCK | ENV_LOCK | CONSOLE_LOCK | TASK_LOCK

record kstate = task_state +
  envs :: "nat \<Rightarrow> env"
  envs_base :: u32
  env_free_list :: "nat option"
  cpunum :: nat
  cpu_env :: "nat \<Rightarrow> nat option"
  cpu_halted :: "nat \<Rightarrow> bool"
  locks :: "klock \<Rightarrow> spinlock"
  kern_pgdir :: nat
  cr3 :: nat
  cr2 :: u32
  tsc :: u64
  invlpg_log :: "u32 list"
  swap_map :: "u8 list"
  drc_map :: "u8 list"
  ide :: ide_state
  cons :: cons_state
  lru_check :: u64
  last_tick :: u64
  ktf :: trapframe
  kesp :: "nat \<Rightarrow> u32"
  mmio_base :: u32
  user_mem_check_addr :: u32

definition upd_env :: "nat \<Rightarrow> (env \<Rightarrow> env) \<Rightarrow> kstate \<Rightarrow> kstate" where
  "upd_env i f s = s\<lparr>envs := (envs s)(i := f (envs s i))\<rparr>"

definition curenv :: "kstate \<Rightarrow> nat option" where
  "curenv s = cpu_env s (cpunum s)"

definition set_curenv :: "nat option \<Rightarrow> kstate \<Rightarrow> kstate" where
  "set_curenv e s = s\<lparr>cpu_env := (cpu_env s)(cpunum s := e)\<rparr>"

text \<open>\<open>curenv->f\<close>: a null dereference when no environment is current.\<close>

definition with_curenv :: "kstate \<Rightarrow> (nat \<Rightarrow> kstate stop + 'a) \<Rightarrow> kstate stop + 'a" where
  "with_curenv s f = (case curenv s of None \<Rightarrow> Inl NullDeref | Some c \<Rightarrow> f c)"

text \<open>A word of physical memory, as the kernel reads and writes page-table entries.\<close>

definition write_mem :: "nat \<Rightarrow> nat \<Rightarrow> u32 \<Rightarrow> 'z pm_state_scheme \<Rightarrow> 'z pm_state_scheme" where
  "write_mem fr k w s = s\<lparr>pmem := (pmem s)(fr := (pmem s fr)(k := w))\<rparr>"

section \<open>Locks\<close>

definition lock :: "klock \<Rightarrow> kstate \<Rightarrow> (kstate, unit) kres" where
  "lock l s = rbind (spin_lock (cpunum s) (locks s l)) (\<lambda>k. Inr ((), s\<lparr>locks := (locks s)(l := k)\<rparr>))"

definition unlock :: "klock \<Rightarrow> kstate \<Rightarrow> (kstate, unit) kres" where
  "unlock l s = rbind (spin_unlock (cpunum s) (locks s l)) (\<lambda>k. Inr ((), s\<lparr>locks := (locks s)(l := k)\<rparr>))"

definition holds :: "klock \<Rightarrow> kstate \<Rightarrow> bool" where
  "holds l s = holding (cpunum s) (locks s l)"

definition assert_lock :: "klock \<Rightarrow> kstate \<Rightarrow> kstate stop + unit" where
  "assert_lock l s = (if holds l s then Inr () else Inl (AssertFail ''lock is held by this CPU''))"

lemma lock_free:
  assumes "locked (locks s l) = 0"
  shows "lock l s = Inr ((), s\<lparr>locks := (locks s)(l := \<lparr>locked = 1, lk_cpu = Some (cpunum s)\<rparr>)\<rparr>)"
  using spin_lock_free [OF assms] by (simp add: lock_def spin_lock_free [OF assms])

lemma unlock_held:
  assumes "holds l s"
  shows "unlock l s = Inr ((), s\<lparr>locks := (locks s)(l := spin_initlock)\<rparr>)"
  using assms by (simp add: unlock_def holds_def spin_unlock_held)

text \<open>\<open>lock\<close> followed by \<open>unlock\<close> leaves the lock as it was and the critical section in between.\<close>

lemma lock_twice: "holds l s \<Longrightarrow> \<exists>m. lock l s = Inl (Panic m)"
  by (simp add: lock_def holds_def spin_lock_def)

lemma unlock_not_held: "\<not> holds l s \<Longrightarrow> unlock l s = Inl (Panic ''spin_unlock'')"
  by (simp add: unlock_def holds_def spin_unlock_def)

section \<open>Simplification rules\<close>

lemma upd_env_simps [simp]:
  "envs (upd_env i f s) = (envs s)(i := f (envs s i))"
  "pages (upd_env i f s) = pages s" "npages (upd_env i f s) = npages s" "pmem (upd_env i f s) = pmem s"
  "page_free_list (upd_env i f s) = page_free_list s" "free_pages_count (upd_env i f s) = free_pages_count s"
  "cpunum (upd_env i f s) = cpunum s" "cpu_env (upd_env i f s) = cpu_env s" "locks (upd_env i f s) = locks s"
  "env_free_list (upd_env i f s) = env_free_list s" "kern_pgdir (upd_env i f s) = kern_pgdir s"
  "curenv (upd_env i f s) = curenv s" "holds l (upd_env i f s) = holds l s"
  by (simp_all add: upd_env_def curenv_def holds_def)

lemma write_mem_simps [simp]:
  "pmem (write_mem fr k w s) = (pmem s)(fr := (pmem s fr)(k := w))"
  "pages (write_mem fr k w s) = pages s" "npages (write_mem fr k w s) = npages s"
  "page_free_list (write_mem fr k w s) = page_free_list s"
  "free_pages_count (write_mem fr k w s) = free_pages_count s"
  "PREMAPPED_FLAG (write_mem fr k w s) = PREMAPPED_FLAG s"
  "pm_state.more (write_mem fr k w s) = pm_state.more s"
  by (simp_all add: write_mem_def)

lemma write_mem_pfl_ok [simp]: "pfl_ok (write_mem fr k w s) xs = pfl_ok s xs"
  by (simp add: pfl_ok_def pfl_shape_def)

lemma upd_env_pfl_ok [simp]: "pfl_ok (upd_env i f s) xs = pfl_ok s xs"
  by (simp add: pfl_ok_def pfl_shape_def)

lemma set_curenv_simps [simp]:
  "curenv (set_curenv e s) = e" "envs (set_curenv e s) = envs s" "locks (set_curenv e s) = locks s"
  "cpunum (set_curenv e s) = cpunum s" "holds l (set_curenv e s) = holds l s"
  by (simp_all add: set_curenv_def curenv_def holds_def)

lemma upd_env_rest [simp]:
  "envs_base (upd_env i f s) = envs_base s" "cr3 (upd_env i f s) = cr3 s" "cr2 (upd_env i f s) = cr2 s"
  "tsc (upd_env i f s) = tsc s" "invlpg_log (upd_env i f s) = invlpg_log s" "swap_map (upd_env i f s) = swap_map s"
  "drc_map (upd_env i f s) = drc_map s" "ide (upd_env i f s) = ide s" "cons (upd_env i f s) = cons s"
  "lru_check (upd_env i f s) = lru_check s" "last_tick (upd_env i f s) = last_tick s" "ktf (upd_env i f s) = ktf s"
  "kesp (upd_env i f s) = kesp s" "cpu_halted (upd_env i f s) = cpu_halted s" "mmio_base (upd_env i f s) = mmio_base s"
  "user_mem_check_addr (upd_env i f s) = user_mem_check_addr s" "t_list (upd_env i f s) = t_list s" "t_flist (upd_env i f s) = t_flist s"
  "tasklets (upd_env i f s) = tasklets s" "lru_lists (upd_env i f s) = lru_lists s" "lru_active_count (upd_env i f s) = lru_active_count s"
  "lru_inactive_count (upd_env i f s) = lru_inactive_count s" "PREMAPPED_FLAG (upd_env i f s) = PREMAPPED_FLAG s"
  by (simp_all add: upd_env_def)

lemma set_curenv_rest [simp]:
  "envs_base (set_curenv e s) = envs_base s" "cr3 (set_curenv e s) = cr3 s" "cr2 (set_curenv e s) = cr2 s"
  "tsc (set_curenv e s) = tsc s" "invlpg_log (set_curenv e s) = invlpg_log s" "swap_map (set_curenv e s) = swap_map s"
  "drc_map (set_curenv e s) = drc_map s" "ide (set_curenv e s) = ide s" "cons (set_curenv e s) = cons s"
  "lru_check (set_curenv e s) = lru_check s" "last_tick (set_curenv e s) = last_tick s" "ktf (set_curenv e s) = ktf s"
  "kesp (set_curenv e s) = kesp s" "cpu_halted (set_curenv e s) = cpu_halted s" "mmio_base (set_curenv e s) = mmio_base s"
  "user_mem_check_addr (set_curenv e s) = user_mem_check_addr s" "t_list (set_curenv e s) = t_list s" "t_flist (set_curenv e s) = t_flist s"
  "tasklets (set_curenv e s) = tasklets s" "lru_lists (set_curenv e s) = lru_lists s" "lru_active_count (set_curenv e s) = lru_active_count s"
  "lru_inactive_count (set_curenv e s) = lru_inactive_count s" "PREMAPPED_FLAG (set_curenv e s) = PREMAPPED_FLAG s"
  by (simp_all add: set_curenv_def)

lemma curenv_upd [simp]:
  "curenv (s\<lparr>envs := v_envs\<rparr>) = curenv s" "curenv (s\<lparr>env_free_list := v_env_free_list\<rparr>) = curenv s" "curenv (s\<lparr>cr3 := v_cr3\<rparr>) = curenv s"
  "curenv (s\<lparr>cr2 := v_cr2\<rparr>) = curenv s" "curenv (s\<lparr>tsc := v_tsc\<rparr>) = curenv s" "curenv (s\<lparr>invlpg_log := v_invlpg_log\<rparr>) = curenv s"
  "curenv (s\<lparr>swap_map := v_swap_map\<rparr>) = curenv s" "curenv (s\<lparr>drc_map := v_drc_map\<rparr>) = curenv s" "curenv (s\<lparr>ide := v_ide\<rparr>) = curenv s"
  "curenv (s\<lparr>cons := v_cons\<rparr>) = curenv s" "curenv (s\<lparr>lru_check := v_lru_check\<rparr>) = curenv s" "curenv (s\<lparr>last_tick := v_last_tick\<rparr>) = curenv s"
  "curenv (s\<lparr>ktf := v_ktf\<rparr>) = curenv s" "curenv (s\<lparr>kesp := v_kesp\<rparr>) = curenv s" "curenv (s\<lparr>cpu_halted := v_cpu_halted\<rparr>) = curenv s"
  "curenv (s\<lparr>mmio_base := v_mmio_base\<rparr>) = curenv s" "curenv (s\<lparr>user_mem_check_addr := v_user_mem_check_addr\<rparr>) = curenv s" "curenv (s\<lparr>t_list := v_t_list\<rparr>) = curenv s"
  "curenv (s\<lparr>t_flist := v_t_flist\<rparr>) = curenv s" "curenv (s\<lparr>tasklets := v_tasklets\<rparr>) = curenv s" "curenv (s\<lparr>pmem := v_pmem\<rparr>) = curenv s"
  "curenv (s\<lparr>pages := v_pages\<rparr>) = curenv s" "curenv (s\<lparr>page_free_list := v_page_free_list\<rparr>) = curenv s" "curenv (s\<lparr>free_pages_count := v_free_pages_count\<rparr>) = curenv s"
  "curenv (s\<lparr>lru_lists := v_lru_lists\<rparr>) = curenv s" "curenv (s\<lparr>lru_active_count := v_lru_active_count\<rparr>) = curenv s" "curenv (s\<lparr>lru_inactive_count := v_lru_inactive_count\<rparr>) = curenv s"
  "curenv (s\<lparr>locks := v_locks\<rparr>) = curenv s"
  by (simp_all add: curenv_def)

lemma holds_upd [simp]:
  "holds l (s\<lparr>envs := v_envs\<rparr>) = holds l s" "holds l (s\<lparr>env_free_list := v_env_free_list\<rparr>) = holds l s" "holds l (s\<lparr>cr3 := v_cr3\<rparr>) = holds l s"
  "holds l (s\<lparr>cr2 := v_cr2\<rparr>) = holds l s" "holds l (s\<lparr>tsc := v_tsc\<rparr>) = holds l s" "holds l (s\<lparr>invlpg_log := v_invlpg_log\<rparr>) = holds l s"
  "holds l (s\<lparr>swap_map := v_swap_map\<rparr>) = holds l s" "holds l (s\<lparr>drc_map := v_drc_map\<rparr>) = holds l s" "holds l (s\<lparr>ide := v_ide\<rparr>) = holds l s"
  "holds l (s\<lparr>cons := v_cons\<rparr>) = holds l s" "holds l (s\<lparr>lru_check := v_lru_check\<rparr>) = holds l s" "holds l (s\<lparr>last_tick := v_last_tick\<rparr>) = holds l s"
  "holds l (s\<lparr>ktf := v_ktf\<rparr>) = holds l s" "holds l (s\<lparr>kesp := v_kesp\<rparr>) = holds l s" "holds l (s\<lparr>cpu_halted := v_cpu_halted\<rparr>) = holds l s"
  "holds l (s\<lparr>mmio_base := v_mmio_base\<rparr>) = holds l s" "holds l (s\<lparr>user_mem_check_addr := v_user_mem_check_addr\<rparr>) = holds l s" "holds l (s\<lparr>t_list := v_t_list\<rparr>) = holds l s"
  "holds l (s\<lparr>t_flist := v_t_flist\<rparr>) = holds l s" "holds l (s\<lparr>tasklets := v_tasklets\<rparr>) = holds l s" "holds l (s\<lparr>pmem := v_pmem\<rparr>) = holds l s"
  "holds l (s\<lparr>pages := v_pages\<rparr>) = holds l s" "holds l (s\<lparr>page_free_list := v_page_free_list\<rparr>) = holds l s" "holds l (s\<lparr>free_pages_count := v_free_pages_count\<rparr>) = holds l s"
  "holds l (s\<lparr>lru_lists := v_lru_lists\<rparr>) = holds l s" "holds l (s\<lparr>lru_active_count := v_lru_active_count\<rparr>) = holds l s" "holds l (s\<lparr>lru_inactive_count := v_lru_inactive_count\<rparr>) = holds l s"
  "holds l (s\<lparr>cpu_env := v_cpu_env\<rparr>) = holds l s"
  by (simp_all add: holds_def)

lemma holding_simps [simp]:
  "\<not> holding c spin_initlock" "holding c \<lparr>locked = 1, lk_cpu = Some d\<rparr> = (d = c)"
  by (auto simp: holding_def spin_initlock_def)

lemma assert_lock_held [simp]: "holds l s \<Longrightarrow> assert_lock l s = Inr ()"
  by (simp add: assert_lock_def)

lemma with_curenv_Some [simp]: "curenv s = Some c \<Longrightarrow> with_curenv s f = f c"
  by (simp add: with_curenv_def)

lemma holds_locks [simp]: "holds l (s\<lparr>locks := f\<rparr>) = holding (cpunum s) (f l)"
  by (simp add: holds_def)

section \<open>A small state\<close>

text \<open>
  Eight frames, of which 3 and 2 are free and frame 1 holds an empty page directory; no
  environment is in use.  The examples of the later theories are variations of it.
\<close>

definition blank_env :: env where
  "blank_env = \<lparr>vmas = (\<lambda>_. \<lparr>v_type = VMA_UNUSED, v_va = 0, v_len = 0, v_perm = 0, vma_link = None,
     cpy_src = 0, src_sz = 0, cpy_dst = 0, hps = False\<rparr>), free_vma_list = None, alloc_vma_list = None,
     env_tf = zero_tf, env_link = None, env_id = 0, env_parent_id = 0, env_type = ENV_TYPE_USER, env_status = ENV_FREE,
     env_runs = 0, env_cpunum = 0, env_alloc_pages = 0, env_pgdir = None, env_vmas = 0, time_slice = 0, wait_id = 0\<rparr>"

definition sample_k :: kstate where
  "sample_k = \<lparr>npages = 8, npages_basemem = 8, PREMAPPED_FLAG = False, kern_end = 0, nextfree = 0xF0400000,
     pages = (\<lambda>i. \<lparr>pp_link = (if i = 3 then Some 2 else None), lru_link = None, pp_ref = (if i = 1 then 1 else 0),
       page_flags = (if i = 2 \<or> i = 3 then 0 else ALLOC)\<rparr>),
     page_free_list = Some 3, free_pages_count = 2, pmem = (\<lambda>_ _. 0),
     lru_lists = \<lparr>h_active = None, t_active = None, h_inactive = None, t_inactive = None, h_zswap = None, t_zswap = None\<rparr>,
     lru_active_count = 0, lru_inactive_count = 0,
     tasklets = (\<lambda>i. \<lparr>t_id = 0, fptr = F_none, t_count = 0, t_state = T_FREE, t_next = None, sector_start = 0,
       t_pi = None, fault_addr = 0, requestor_env = None\<rparr>),
     t_list = None, t_flist = None,
     envs = (\<lambda>_. blank_env), envs_base = 0xF0200000, env_free_list = Some 0, cpunum = 0, cpu_env = (\<lambda>_. None),
     cpu_halted = (\<lambda>_. False), locks = (\<lambda>_. spin_initlock), kern_pgdir = 1, cr3 = 1, cr2 = 0, tsc = 0, invlpg_log = [],
     swap_map = replicate 32768 0, drc_map = replicate 32768 0,
     ide = \<lparr>ide_status = 0x40, diskno = 1, disk_sectors = 0, r_seccnt = 0, r_lba_lo = 0, r_lba_mid = 0, r_lba_hi = 0,
       r_drive = 0, r_command = 0, cur_drive = 0, cur_sector = 0, secs_left = 0, disk = (\<lambda>_ _ _. 0), ident = (\<lambda>_ _. 0)\<rparr>,
     cons = \<lparr>cbuf = replicate 512 0, rpos = 0, wpos = 0, serial_exists = False, serial_in = [], kbd_in = [],
       shift = 0, reboots = 0, crt_buf = replicate 2000 0, crt_pos = 0, serial_out = [], lpt_out = []\<rparr>,
     lru_check = 0, last_tick = 0, ktf = zero_tf, kesp = (\<lambda>_. 0), mmio_base = MMIOBASE, user_mem_check_addr = 0\<rparr>"

lemma sample_k_ok: "pfl_ok sample_k [3, 2]" "lru_chains sample_k"
proof -
  have "pp_link (pages sample_k i) = None" if "i \<noteq> 3" for i using that by (simp add: sample_k_def)
  then show "pfl_ok sample_k [3, 2]" by (auto simp: pfl_ok_def pfl_shape_def sample_k_def)
  show "lru_chains sample_k" unfolding lru_chains_def by (intro exI [of _ "[]"]) (simp add: sample_k_def)
qed

lemma sample_k_fields:
  "npages sample_k = 8" "\<not> PREMAPPED_FLAG sample_k" "pmem sample_k = (\<lambda>_ _. 0)" "locks sample_k = (\<lambda>_. spin_initlock)"
  "cpunum sample_k = 0" "envs sample_k = (\<lambda>_. blank_env)"
  "pages sample_k 4 = \<lparr>pp_link = None, lru_link = None, pp_ref = 0, page_flags = ALLOC\<rparr>"
  by (simp_all add: sample_k_def)

end
