(* ===== verification/HugePage.thy ===== *)
theory HugePage
  imports PageAlloc
begin

text \<open>
  The 4 MB blocks of \<^verbatim>\<open>kern/pmap.c\<close>: what \<open>find_huge_page\<close> finds, what \<open>page_alloc\<close> with
  \<open>ALLOC_HUGE\<close> does to the free list and to the 1024 pages of the block, and what \<open>page_free\<close>
  does to give the block back.
\<close>

section \<open>The search\<close>

definition block_free :: "(nat \<Rightarrow> page_info) \<Rightarrow> nat \<Rightarrow> bool" where
  "block_free pg base \<longleftrightarrow> (\<forall>k < KB. page_flags (pg (k + base)) AND ALLOC = 0)"

lemma huge_scan_eq:
  "huge_scan pg base i n count =
     (if \<forall>k < n. page_flags (pg (k + i + base)) AND ALLOC = 0 then count + n else 0)"
proof (induction n arbitrary: i count)
  case 0
  then show ?case by simp
next
  case (Suc n)
  have "(\<forall>k < Suc n. page_flags (pg (k + i + base)) AND ALLOC = 0) \<longleftrightarrow>
    page_flags (pg (i + base)) AND ALLOC = 0 \<and> (\<forall>k < n. page_flags (pg (k + Suc i + base)) AND ALLOC = 0)"
    unfolding All_less_Suc2 by simp
  then show ?case using Suc [of "Suc i" "Suc count"] by (simp add: huge_scan.simps)
qed

lemma huge_search_step:
  "huge_search pg j (Suc n) 0 =
     (if block_free pg (j * KB) then Some (j * KB) else huge_search pg (Suc j) n 0)"
  using huge_scan_eq [of pg "j * KB" 0 KB 0] by (auto simp: block_free_def huge_search.simps)

lemma huge_search_Some:
  "huge_search pg j n 0 = Some b \<Longrightarrow>
     \<exists>k. j \<le> k \<and> k < j + n \<and> b = k * KB \<and> block_free pg b \<and>
         (\<forall>k'. j \<le> k' \<longrightarrow> k' < k \<longrightarrow> \<not> block_free pg (k' * KB))"
proof (induction n arbitrary: j)
  case 0
  then show ?case by simp
next
  case (Suc n)
  show ?case
  proof (cases "block_free pg (j * KB)")
    case True
    with Suc.prems show ?thesis by (intro exI [of _ j]) (auto simp: huge_search_step)
  next
    case False
    with Suc.prems have "huge_search pg (Suc j) n 0 = Some b"
      by (simp add: huge_search_step)
    from Suc.IH [OF this] obtain k where k: "Suc j \<le> k" "k < Suc j + n" "b = k * KB" "block_free pg b"
      "\<forall>k'. Suc j \<le> k' \<longrightarrow> k' < k \<longrightarrow> \<not> block_free pg (k' * KB)" by blast
    have "\<not> block_free pg (k' * KB)" if "j \<le> k'" "k' < k" for k'
      using that False k(5) by (cases "k' = j") auto
    with k show ?thesis by (intro exI [of _ k]) auto
  qed
qed

lemma huge_search_None:
  "huge_search pg j n 0 = None \<longleftrightarrow> (\<forall>k. j \<le> k \<longrightarrow> k < j + n \<longrightarrow> \<not> block_free pg (k * KB))"
proof (induction n arbitrary: j)
  case 0
  then show ?case by simp
next
  case (Suc n)
  have "(\<forall>k. j \<le> k \<longrightarrow> k < j + Suc n \<longrightarrow> \<not> block_free pg (k * KB)) \<longleftrightarrow>
    \<not> block_free pg (j * KB) \<and> (\<forall>k. Suc j \<le> k \<longrightarrow> k < Suc j + n \<longrightarrow> \<not> block_free pg (k * KB))"
    by (metis Suc_leD Suc_le_eq add_Suc_right add_Suc le_eq_less_or_eq less_add_Suc1)
  then show ?case using Suc by (simp add: huge_search_step)
qed

text \<open>The pages of a state that carry no \<open>ALLOC\<close> mark carry no mark at all.\<close>

definition flags_clean :: "'z pm_state_scheme \<Rightarrow> bool" where
  "flags_clean s \<longleftrightarrow>
     (\<forall>i < npages s. page_flags (pages s i) AND ALLOC = 0 \<longrightarrow> page_flags (pages s i) = 0)"

lemma pfl_shape_upd_flags:
  assumes "pfl_shape s xs" and "\<And>q. pp_link (f q) = pp_link q"
  shows "pfl_shape (upd_page p f s) xs"
proof -
  have "plink (upd_page p f s) = plink s" using assms(2) by auto
  with assms show ?thesis by (auto simp: pfl_shape_def)
qed

lemma pfl_shape_memset [simp]: "pfl_shape (memset_page fr w s) xs = pfl_shape s xs"
  by (simp add: pfl_shape_def)

lemma filter_block_step:
  assumes "distinct xs"
  shows "filter (\<lambda>x. \<not> (Suc i \<le> x \<and> x < Suc i + n)) (remove1 i xs) = filter (\<lambda>x. \<not> (i \<le> x \<and> x < i + Suc n)) xs"
proof -
  have "remove1 i xs = filter (\<lambda>x. x \<noteq> i) xs"
    using assms by (simp add: distinct_remove1_removeAll removeAll_filter_not_eq eq_commute)
  then show ?thesis by (auto intro!: filter_cong)
qed

text \<open>
  One round of the loop, for a request that does not ask for poisoning: the page is unlinked
  and marked, and cleared when the request says so.
\<close>

lemma huge_claim_round:
  assumes sh: "pfl_shape s xs" and i: "i < npages s" and po: "fl AND POISON_AFTER_FREE = 0"
    and fl: "page_flags (pages s i) AND ALLOC = 0"
    and hu: "i \<noteq> b \<Longrightarrow> page_flags (pages s i) AND ALLOC_HUGE = 0"
  obtains s' where "huge_claim fl b i (Suc n) s = huge_claim fl b (Suc i) n s'"
    and "pfl_shape s' (remove1 i xs)" and "pm_rest_eq s s'"
    and "pmem s' = (if fl AND ALLOC_ZERO = 0 then pmem s else (pmem s)(i := (\<lambda>_. 0)))"
    and "\<And>j. lru_link (pages s' j) = lru_link (pages s j)"
    and "\<And>j. pp_ref (pages s' j) = pp_ref (pages s j)"
    and "\<And>j. page_flags (pages s' j) =
           (if j = i then page_flags (pages s j) OR ALLOC else page_flags (pages s j))"
proof -
  note D = pfl_shapeD [OF sh]
  let ?t = "if fl AND ALLOC_ZERO = 0 then s else memset_page i 0 s"
  let ?u = "upd_page i (\<lambda>p. p\<lparr>page_flags := page_flags p OR ALLOC\<rparr>) ?t"
  have z: "zero_fill fl i s = Inr ((), ?t)" using i D(6) by (rule zero_fill_ok)
  have "pfl_shape ?u xs" using sh by (intro pfl_shape_upd_flags) auto
  then obtain v where v: "remove_element_pfl i ?u = Inr ((), v)" "pfl_shape v (remove1 i xs)" "links_only ?u v"
    using remove_element_pfl_ok by blast
  have "huge_claim fl b i (Suc n) s = huge_claim fl b (Suc i) n v"
    using po fl hu z v(1) by (auto simp: poison_mark_def huge_claim.simps)
  then show ?thesis
    using v by (intro that [of v]) (auto simp: links_only_def pm_rest_eq_def)
qed

lemma huge_claim_ok:
  assumes "pfl_shape s xs" and "i + n \<le> npages s" and "fl AND POISON_AFTER_FREE = 0"
    and "\<forall>j. i \<le> j \<longrightarrow> j < i + n \<longrightarrow> page_flags (pages s j) AND ALLOC = 0"
    and "\<forall>j. i \<le> j \<longrightarrow> j < i + n \<longrightarrow> j \<noteq> b \<longrightarrow> page_flags (pages s j) AND ALLOC_HUGE = 0"
  obtains s' where "huge_claim fl b i n s = Inr ((), s')"
    and "pfl_shape s' (filter (\<lambda>x. \<not> (i \<le> x \<and> x < i + n)) xs)" and "pm_rest_eq s s'"
    and "\<forall>j. pmem s' j = (if fl AND ALLOC_ZERO \<noteq> 0 \<and> i \<le> j \<and> j < i + n then (\<lambda>_. 0) else pmem s j)"
    and "\<forall>j. lru_link (pages s' j) = lru_link (pages s j)"
    and "\<forall>j. pp_ref (pages s' j) = pp_ref (pages s j)"
    and "\<forall>j. page_flags (pages s' j) =
           (if i \<le> j \<and> j < i + n then page_flags (pages s j) OR ALLOC else page_flags (pages s j))"
  using assms
proof (induction n arbitrary: i s xs thesis)
  case 0
  have "filter (\<lambda>x. \<not> (i \<le> x \<and> x < i + 0)) xs = xs" by (auto intro: filter_True)
  with "0.prems"(2) show ?case by (intro "0.prems"(1) [of s]) auto
next
  case (Suc n)
  note prem = Suc.prems(2-6)
  have i: "i < npages s" using prem(2) by simp
  have al: "page_flags (pages s i) AND ALLOC = 0" using prem(4) by auto
  have hu: "i \<noteq> b \<Longrightarrow> page_flags (pages s i) AND ALLOC_HUGE = 0" using prem(5) by auto
  obtain t where t: "huge_claim fl b i (Suc n) s = huge_claim fl b (Suc i) n t"
    "pfl_shape t (remove1 i xs)" "pm_rest_eq s t"
    "pmem t = (if fl AND ALLOC_ZERO = 0 then pmem s else (pmem s)(i := (\<lambda>_. 0)))"
    "\<forall>j. lru_link (pages t j) = lru_link (pages s j)" "\<forall>j. pp_ref (pages t j) = pp_ref (pages s j)"
    "\<forall>j. page_flags (pages t j) =
           (if j = i then page_flags (pages s j) OR ALLOC else page_flags (pages s j))"
    using huge_claim_round [OF prem(1) i prem(3) al hu] by metis
  have np: "npages t = npages s" using t(3) by (simp add: pm_rest_eq_def)
  have h1: "Suc i + n \<le> npages t" using prem(2) np by simp
  have h2: "\<forall>j. Suc i \<le> j \<longrightarrow> j < Suc i + n \<longrightarrow> page_flags (pages t j) AND ALLOC = 0"
    using prem(4) t(7) by simp
  have h3: "\<forall>j. Suc i \<le> j \<longrightarrow> j < Suc i + n \<longrightarrow> j \<noteq> b \<longrightarrow> page_flags (pages t j) AND ALLOC_HUGE = 0"
    using prem(5) t(7) by simp
  obtain u where u: "huge_claim fl b (Suc i) n t = Inr ((), u)"
    "pfl_shape u (filter (\<lambda>x. \<not> (Suc i \<le> x \<and> x < Suc i + n)) (remove1 i xs))" "pm_rest_eq t u"
    "\<forall>j. pmem u j = (if fl AND ALLOC_ZERO \<noteq> 0 \<and> Suc i \<le> j \<and> j < Suc i + n then (\<lambda>_. 0) else pmem t j)"
    "\<forall>j. lru_link (pages u j) = lru_link (pages t j)" "\<forall>j. pp_ref (pages u j) = pp_ref (pages t j)"
    "\<forall>j. page_flags (pages u j) =
           (if Suc i \<le> j \<and> j < Suc i + n then page_flags (pages t j) OR ALLOC else page_flags (pages t j))"
    by (rule Suc.IH [OF _ t(2) h1 prem(3) h2 h3]) blast
  show ?case
  proof (rule Suc.prems(1) [of u])
    show "pfl_shape u (filter (\<lambda>x. \<not> (i \<le> x \<and> x < i + Suc n)) xs)"
      using u(2) filter_block_step [OF pfl_shapeD(2) [OF prem(1)]] by simp
    show "pm_rest_eq s u" using t(3) u(3) by (rule pm_rest_eq_trans)
  qed (use t u in auto)
qed

lemma find_huge_page_Some:
  assumes "find_huge_page s = Some b"
  shows "b mod KB = 0" and "b + KB \<le> npages s" and "block_free (pages s) b"
    and "\<And>c. c mod KB = 0 \<Longrightarrow> c < b \<Longrightarrow> \<not> block_free (pages s) c"
proof -
  from assms obtain k where k: "k < npages s div KB" "b = k * KB" "block_free (pages s) b"
    "\<forall>k'. k' < k \<longrightarrow> \<not> block_free (pages s) (k' * KB)"
    using huge_search_Some [of "pages s" 0 "npages s div KB" b] by (auto simp: find_huge_page_def)
  then show "b mod KB = 0" and "block_free (pages s) b" by auto
  show "b + KB \<le> npages s" using k(1,2) by linarith
  show "\<not> block_free (pages s) c" if "c mod KB = 0" "c < b" for c
    using k(2,4) that by (metis mult.commute mult_div_mod_eq add_0_right nat_mult_less_cancel_disj)
qed

lemma find_huge_page_None:
  "find_huge_page s = None \<longleftrightarrow> (\<forall>c. c mod KB = 0 \<longrightarrow> c + KB \<le> npages s \<longrightarrow> \<not> block_free (pages s) c)"
proof -
  have "(\<forall>k < npages s div KB. \<not> block_free (pages s) (k * KB)) \<longleftrightarrow>
    (\<forall>c. c mod KB = 0 \<longrightarrow> c + KB \<le> npages s \<longrightarrow> \<not> block_free (pages s) c)" (is "?L \<longleftrightarrow> ?R")
  proof
    assume L: ?L
    show ?R
    proof (intro allI impI)
      fix c assume c: "c mod KB = 0" "c + KB \<le> npages s"
      then have "c = c div KB * KB" and "c div KB < npages s div KB" by auto
      with L show "\<not> block_free (pages s) c" by metis
    qed
  next
    assume R: ?R
    show ?L
    proof (intro allI impI)
      fix k assume "k < npages s div KB"
      then have "k * KB + KB \<le> npages s" by linarith
      with R show "\<not> block_free (pages s) (k * KB)" by simp
    qed
  qed
  then show ?thesis by (simp add: find_huge_page_def huge_search_None)
qed

lemma page_alloc_huge_ok:
  assumes ok: "pfl_ok s xs" and ne: "xs \<noteq> []" and cl: "flags_clean s"
    and hu: "fl AND ALLOC_HUGE \<noteq> 0" and po: "fl AND POISON_AFTER_FREE = 0"
    and b: "find_huge_page s = Some b"
  obtains s' where "page_alloc fl s = Inr (Some b, s')"
    and "pfl_ok s' (filter (\<lambda>x. \<not> (b \<le> x \<and> x < b + KB)) xs)" and "pm_rest_eq s s'"
    and "\<And>j. pmem s' j = (if fl AND ALLOC_ZERO \<noteq> 0 \<and> b \<le> j \<and> j < b + KB then (\<lambda>_. 0) else pmem s j)"
    and "\<And>j. pp_ref (pages s' j) = pp_ref (pages s j)"
    and "\<And>j. page_flags (pages s' j) =
           (if j = b then ALLOC_HUGE OR ALLOC else if b \<le> j \<and> j < b + KB then ALLOC else page_flags (pages s j))"
proof -
  note D = pfl_okD [OF ok] and H = find_huge_page_Some [OF b]
  have z: "page_flags (pages s j) = 0" if "b \<le> j" "j < b + KB" for j
  proof -
    have "j - b < KB" and "j - b + b = j" and "j < npages s" using that H(2) by simp_all
    with H(3) have "page_flags (pages s j) AND ALLOC = 0" unfolding block_free_def by metis
    with cl \<open>j < npages s\<close> show ?thesis unfolding flags_clean_def by blast
  qed
  let ?t = "upd_page b (\<lambda>p. p\<lparr>page_flags := page_flags p OR ALLOC_HUGE\<rparr>) s"
  have sh: "pfl_shape ?t xs" using ok by (intro pfl_shape_upd_flags) (auto simp: pfl_ok_def)
  have h1: "b + KB \<le> npages ?t" using H(2) by simp
  have h2: "\<forall>j. b \<le> j \<longrightarrow> j < b + KB \<longrightarrow> page_flags (pages ?t j) AND ALLOC = 0"
    using z by (simp add: flag_bits)
  have h3: "\<forall>j. b \<le> j \<longrightarrow> j < b + KB \<longrightarrow> j \<noteq> b \<longrightarrow> page_flags (pages ?t j) AND ALLOC_HUGE = 0"
    using z by simp
  obtain u where u: "huge_claim fl b b KB ?t = Inr ((), u)"
    "pfl_shape u (filter (\<lambda>x. \<not> (b \<le> x \<and> x < b + KB)) xs)" "pm_rest_eq ?t u"
    "\<forall>j. pmem u j = (if fl AND ALLOC_ZERO \<noteq> 0 \<and> b \<le> j \<and> j < b + KB then (\<lambda>_. 0) else pmem ?t j)"
    "\<forall>j. lru_link (pages u j) = lru_link (pages ?t j)"
    "\<forall>j. pp_ref (pages u j) = pp_ref (pages ?t j)"
    "\<forall>j. page_flags (pages u j) =
           (if b \<le> j \<and> j < b + KB then page_flags (pages ?t j) OR ALLOC else page_flags (pages ?t j))"
    by (rule huge_claim_ok [OF sh h1 po h2 h3]) blast
  have fl: "page_free_list s \<noteq> None" using pfl_ok_free_list [OF ok] ne by (cases xs) auto
  have "page_alloc fl s = Inr (Some b, u)"
    using fl hu po b u(1) z [of b] by (simp add: page_alloc_def page_alloc_huge_def poison_mark_def)
  moreover have "pfl_ok u (filter (\<lambda>x. \<not> (b \<le> x \<and> x < b + KB)) xs)"
    using u(2,6,7) D(4,5) by (auto simp: pfl_ok_def)
  moreover have "pm_rest_eq s u" using u(3) by (simp add: pm_rest_eq_def)
  ultimately show ?thesis using u(4,6,7) z by (intro that [of u]) auto
qed

text \<open>A huge request that also asks for poisoning trips over the mark it has just set.\<close>

lemma page_alloc_huge_poison:
  assumes "page_free_list s \<noteq> None" and "fl AND ALLOC_HUGE \<noteq> 0" and "fl AND POISON_AFTER_FREE \<noteq> 0"
    and "find_huge_page s = Some b"
  shows "\<exists>m. page_alloc fl s = Inl (Panic m)"
proof -
  let ?f = "\<lambda>q. q\<lparr>page_flags := page_flags q OR ALLOC_HUGE\<rparr>"
  have *: "huge_claim fl b b KB (upd_page b ?f t)
      = Inl (Panic ''page_alloc huge: PAGE TO ALLOC ALREADY MARKED AS POISON_AFTER_FREE'')"
    if "page_flags (pages t b) AND POISON_AFTER_FREE \<noteq> 0" for t :: "'a pm_state_scheme"
    using assms(3) that huge_claim.simps(2) [of fl b b 1023 "upd_page b ?f t"]
    by (simp add: poison_mark_def flag_bits)
  show ?thesis
  proof (cases "poison_mark fl b s")
    case (Inl e)
    then show ?thesis
      using assms by (auto simp: page_alloc_def page_alloc_huge_def poison_mark_def split: if_splits)
  next
    case (Inr r)
    then obtain t where t: "poison_mark fl b s = Inr ((), t)" by (cases r) auto
    then have "page_flags (pages t b) AND POISON_AFTER_FREE \<noteq> 0"
      using assms(3) by (auto simp: poison_mark_def flag_bits split: if_splits)
    with * [OF this] t assms show ?thesis by (simp add: page_alloc_def page_alloc_huge_def)
  qed
qed

section \<open>Giving a block back\<close>

lemma free_huge_check_ok:
  assumes "i + n \<le> npages s"
    and "\<forall>j. i \<le> j \<longrightarrow> j < i + n \<longrightarrow> page_flags (pages s j) AND ALLOC \<noteq> 0 \<and> pp_ref (pages s j) = 0 \<and>
          pp_link (pages s j) = None"
  shows "free_huge_check i n s = Inr ()"
  using assms by (induction n arbitrary: i) (auto simp: free_huge_check.simps)

lemma pfl_ok_pages_cong:
  assumes "pfl_ok s xs" and "plink t = plink s" and "page_free_list t = page_free_list s"
    and "free_pages_count t = free_pages_count s" and "npages t = npages s"
    and "\<And>j. j \<in> set xs \<Longrightarrow> pages t j = pages s j"
  shows "pfl_ok t xs"
proof -
  have "pp_link (pages t i) = pp_link (pages s i)" for i using fun_cong [OF assms(2), of i] .
  with assms show ?thesis by (auto simp: pfl_ok_def pfl_shape_def)
qed

lemma free_huge_put_ok:
  assumes "pfl_ok s xs" and "i + n \<le> npages s" and "\<forall>j \<in> set xs. \<not> (i \<le> j \<and> j < i + n)"
  shows "\<exists>s'. free_huge_put i n s = Inr ((), s') \<and> pfl_ok s' (rev [i..<i + n] @ xs) \<and> pm_rest_eq s s' \<and>
    (\<forall>j. \<not> (i \<le> j \<and> j < i + n) \<longrightarrow> pages s' j = pages s j \<and> pmem s' j = pmem s j) \<and>
    (\<forall>j. i \<le> j \<longrightarrow> j < i + n \<longrightarrow> pmem s' j =
       (if page_flags (pages s j) AND POISON_AFTER_FREE = 0 then pmem s j else (\<lambda>_. 0x01010101)))"
  using assms
proof (induction n arbitrary: i s xs)
  case 0
  then show ?case by simp
next
  case (Suc n)
  note D = pfl_okD [OF Suc.prems(1)]
  have i: "i < npages s" "i \<notin> set xs" using Suc.prems by auto
  obtain t where t: "unpoison i s = Inr ((), t)"
    and tp: "pages t = (pages s)(i := (pages s i)\<lparr>page_flags := page_flags (pages s i) AND NOT POISON_AFTER_FREE\<rparr>)"
    and tm: "pmem t = (if page_flags (pages s i) AND POISON_AFTER_FREE = 0 then pmem s
                    else (pmem s)(i := (\<lambda>_. 0x01010101)))"
    and tr: "pm_rest_eq s t" "page_free_list t = page_free_list s" "free_pages_count t = free_pages_count s"
    using unpoison_ok [OF i(1) D(8)] by blast
  let ?v = "add_head_pfl i (upd_page i (\<lambda>p. p\<lparr>page_flags := page_flags p XOR ALLOC\<rparr>) t)"
  have np: "npages t = npages s" using tr(1) by (simp add: pm_rest_eq_def)
  have "plink t = plink s" using tp by (simp add: fun_eq_iff)
  then have "pfl_ok t xs"
    using Suc.prems(1) tr tp np i by (elim pfl_ok_pages_cong) auto
  then have "pfl_ok (upd_page i (\<lambda>p. p\<lparr>page_flags := page_flags p XOR ALLOC\<rparr>) t) xs"
    using i by (intro pfl_ok_upd_outside) auto
  then have v: "pfl_ok ?v (i # xs)"
    using i np by (intro add_head_pfl_ok) auto
  have "Suc i + n \<le> npages ?v" and "\<forall>j \<in> set (i # xs). \<not> (Suc i \<le> j \<and> j < Suc i + n)"
    using Suc.prems(2,3) np by auto
  from Suc.IH [OF v this] obtain w where w: "free_huge_put (Suc i) n ?v = Inr ((), w)"
    "pfl_ok w (rev [Suc i..<Suc i + n] @ i # xs)" "pm_rest_eq ?v w"
    "\<forall>j. \<not> (Suc i \<le> j \<and> j < Suc i + n) \<longrightarrow> pages w j = pages ?v j \<and> pmem w j = pmem ?v j"
    "\<forall>j. Suc i \<le> j \<longrightarrow> j < Suc i + n \<longrightarrow> pmem w j =
       (if page_flags (pages ?v j) AND POISON_AFTER_FREE = 0 then pmem ?v j else (\<lambda>_. 0x01010101))"
    by blast
  have "free_huge_put i (Suc n) s = Inr ((), w)" using t w(1) by (simp add: free_huge_put.simps)
  moreover have "rev [i..<i + Suc n] @ xs = rev [Suc i..<Suc i + n] @ i # xs"
    by (simp add: upt_rec [of i])
  moreover have "pm_rest_eq s w" using tr(1) w(3) by (simp add: pm_rest_eq_def)
  moreover have "pages w j = pages s j \<and> pmem w j = pmem s j" if "\<not> (i \<le> j \<and> j < i + Suc n)" for j
    using that w(4) tp tm by auto
  moreover have "pmem w j = (if page_flags (pages s j) AND POISON_AFTER_FREE = 0 then pmem s j else (\<lambda>_. 0x01010101))"
    if "i \<le> j" "j < i + Suc n" for j
  proof (cases "j = i")
    case True
    then show ?thesis using w(4) tm by simp
  next
    case False
    then show ?thesis using that w(5) tm tp by simp
  qed
  ultimately show ?case using w(2) by (intro exI [of _ w]) simp
qed

lemma page_free_huge_ok:
  assumes ok: "pfl_ok s xs" and b: "b + KB \<le> npages s" and out: "\<forall>j \<in> set xs. \<not> (b \<le> j \<and> j < b + KB)"
    and hu: "page_flags (pages s b) AND ALLOC_HUGE \<noteq> 0"
    and al: "\<forall>j. b \<le> j \<longrightarrow> j < b + KB \<longrightarrow> page_flags (pages s j) AND ALLOC \<noteq> 0 \<and> pp_ref (pages s j) = 0"
  shows "\<exists>s'. page_free b s = Inr ((), s') \<and> pfl_ok s' (rev [b..<b + KB] @ xs) \<and> pm_rest_eq s s' \<and>
    (\<forall>j. \<not> (b \<le> j \<and> j < b + KB) \<longrightarrow> pages s' j = pages s j \<and> pmem s' j = pmem s j)"
proof -
  note D = pfl_okD [OF ok]
  have bb: "b < npages s" using b by simp
  have out_b: "j \<notin> set xs" if "b \<le> j" "j < b + KB" for j using out that by blast
  have lk: "pp_link (pages s j) = None" if "b \<le> j" "j < b + KB" for j
    using D(6) [of j] out_b [OF that] that b by simp
  have fr: "frame (page2pa b) = b" using bb D(8) by simp
  have ck: "free_huge_check b KB s = Inr ()"
    using b al lk by (intro free_huge_check_ok) auto
  let ?t = "upd_page b (\<lambda>p. p\<lparr>page_flags := page_flags p XOR ALLOC_HUGE\<rparr>) s"
  have "pfl_ok ?t xs" using ok out_b [of b] by (intro pfl_ok_upd_outside) auto
  from free_huge_put_ok [OF this, of b KB] obtain w where
    w: "free_huge_put b KB ?t = Inr ((), w)" "pfl_ok w (rev [b..<b + KB] @ xs)" "pm_rest_eq ?t w"
      "\<forall>j. \<not> (b \<le> j \<and> j < b + KB) \<longrightarrow> pages w j = pages ?t j \<and> pmem w j = pmem ?t j"
    using b out by fastforce
  have "page_free b s = Inr ((), w)"
    using al lk [of b] hu fr ck w(1) by (simp add: page_free_def)
  moreover have "pm_rest_eq s w" using w(3) by (simp add: pm_rest_eq_def)
  moreover have "pages w j = pages s j \<and> pmem w j = pmem s j" if "\<not> (b \<le> j \<and> j < b + KB)" for j
    using that w(4) by auto
  ultimately show ?thesis using w(2) by blast
qed

section \<open>Properties\<close>

text \<open>A machine with one 4 MB block, all of it free, in ascending order.\<close>

definition sample_huge :: pm_state where
  "sample_huge = \<lparr>npages = 1024, npages_basemem = 0, PREMAPPED_FLAG = False, kern_end = 0, nextfree = 0,
     pages = (\<lambda>i. \<lparr>pp_link = (if i < 1023 then Some (i + 1) else None), lru_link = None, pp_ref = 0, page_flags = 0\<rparr>),
     page_free_list = Some 0, free_pages_count = 1024, pmem = (\<lambda>_ _. 0xFFFFFFFF)\<rparr>"

lemma sample_huge_ok: "pfl_ok sample_huge [0..<1024]"
proof -
  have "llist (plink sample_huge) (Some 0) [0..<1024]" by (rule llist_upt) (auto simp: sample_huge_def)
  then show ?thesis by (simp add: pfl_ok_def pfl_shape_def sample_huge_def del: upt_Suc)
qed

lemma sample_huge_fields: "flags_clean sample_huge" "npages sample_huge = 1024" "block_free (pages sample_huge) 0"
  by (simp_all add: flags_clean_def block_free_def sample_huge_def)

lemma page_alloc_huge_none:
  assumes "pfl_ok s xs" and "fl AND ALLOC_HUGE \<noteq> 0" and "find_huge_page s = None"
  shows "page_alloc fl s = Inr (None, s)"
  using assms by (cases "page_free_list s") (simp_all add: page_alloc_def page_alloc_huge_def)

text \<open>
  C7: \<open>page_alloc\<close> with \<open>ALLOC_HUGE\<close> returns the lowest 4 MB aligned block of 1024 pages none of which is
  allocated, takes exactly those pages off the free list, marks them allocated and zeroes them on
  demand; it returns NULL exactly when there is no such block; and \<open>page_free\<close> of the block puts all
  1024 pages back.  The request does not ask for poisoning, which makes it panic (lemma \<open>page_alloc_huge_poison\<close>).
\<close>

theorem page_alloc_huge_block:
  assumes "pfl_ok s xs" and "xs \<noteq> []" and "flags_clean s" and "fl AND ALLOC_HUGE \<noteq> 0"
    and "fl AND POISON_AFTER_FREE = 0" and "\<forall>j < npages s. page_flags (pages s j) = 0 \<longrightarrow> pp_ref (pages s j) = 0"
  shows "(\<forall>c. c mod 1024 = 0 \<and> c + 1024 \<le> npages s \<longrightarrow> \<not> block_free (pages s) c) \<and> page_alloc fl s = Inr (None, s) \<or>
    (\<exists>b s' s''. b mod 1024 = 0 \<and> b + 1024 \<le> npages s \<and> block_free (pages s) b \<and>
      (\<forall>c < b. c mod 1024 = 0 \<longrightarrow> \<not> block_free (pages s) c) \<and>
      page_alloc fl s = Inr (Some b, s') \<and> pfl_ok s' (filter (\<lambda>x. \<not> (b \<le> x \<and> x < b + 1024)) xs) \<and>
      (\<forall>j. b \<le> j \<and> j < b + 1024 \<longrightarrow> page_flags (pages s' j) AND ALLOC \<noteq> 0 \<and> (fl AND ALLOC_ZERO \<noteq> 0 \<longrightarrow> pmem s' j = (\<lambda>_. 0))) \<and>
      page_free b s' = Inr ((), s'') \<and>
      pfl_ok s'' (rev [b..<b + 1024] @ filter (\<lambda>x. \<not> (b \<le> x \<and> x < b + 1024)) xs))"
proof (cases "find_huge_page s")
  case None
  then have "(\<forall>c. c mod KB = 0 \<longrightarrow> c + KB \<le> npages s \<longrightarrow> \<not> block_free (pages s) c)" using find_huge_page_None [of s] by simp
  then show ?thesis using page_alloc_huge_none [OF assms(1,4) None] by (intro disjI1) simp
next
  case (Some b)
  note B = find_huge_page_Some [OF Some]
  obtain s' where s': "page_alloc fl s = Inr (Some b, s')"
    "pfl_ok s' (filter (\<lambda>x. \<not> (b \<le> x \<and> x < b + KB)) xs)" "pm_rest_eq s s'"
    "\<And>j. pmem s' j = (if fl AND ALLOC_ZERO \<noteq> 0 \<and> b \<le> j \<and> j < b + KB then (\<lambda>_. 0) else pmem s j)"
    "\<And>j. pp_ref (pages s' j) = pp_ref (pages s j)"
    "\<And>j. page_flags (pages s' j) =
           (if j = b then ALLOC_HUGE OR ALLOC else if b \<le> j \<and> j < b + KB then ALLOC else page_flags (pages s j))"
    using page_alloc_huge_ok [OF assms(1-5) Some] by blast
  have fl: "page_flags (pages s' j) AND ALLOC \<noteq> 0" if "b \<le> j" "j < b + KB" for j
    using s'(6) [of j] that ALLOC_neq0 by (auto simp: flag_bits ALLOC_def ALLOC_HUGE_def)
  have "pp_ref (pages s' j) = 0" if j: "b \<le> j" "j < b + KB" for j
  proof -
    obtain k where k: "j = b + k" using le_Suc_ex [OF j(1)] by blast
    then have "page_flags (pages s (k + b)) AND ALLOC = 0" using B(3) j(2) unfolding block_free_def by simp
    then have "page_flags (pages s j) AND ALLOC = 0" unfolding k by (simp only: add.commute)
    moreover have "j < npages s" using B(2) j by simp
    ultimately show ?thesis using assms(3,6) s'(5) j by (simp add: flags_clean_def)
  qed
  moreover have "page_flags (pages s' b) AND ALLOC_HUGE \<noteq> 0" using s'(6) [of b] by (simp add: ALLOC_HUGE_def ALLOC_def)
  ultimately obtain s'' where "page_free b s' = Inr ((), s'')"
    "pfl_ok s'' (rev [b..<b + KB] @ filter (\<lambda>x. \<not> (b \<le> x \<and> x < b + KB)) xs)"
    using page_free_huge_ok [OF s'(2), of b] fl B(2) s'(3) by (auto simp: pm_rest_eq_def)
  then show ?thesis using B s' fl by (intro disjI2 exI [of _ b] exI [of _ s'] exI [of _ s'']) (simp del: upt_Suc)
qed

theorem page_alloc_huge_block_witness:
  "\<exists>s' s''. page_alloc ALLOC_HUGE sample_huge = Inr (Some 0, s') \<and> pfl_ok s' [] \<and> page_free 0 s' = Inr ((), s'') \<and>
    pfl_ok s'' (rev [0..<1024])"
proof -
  have f: "filter (\<lambda>x. \<not> x < 1024) [0..<1024] = []" by (simp add: filter_empty_conv)
  have some: "\<not> (\<forall>c. c mod 1024 = 0 \<and> c + 1024 \<le> npages sample_huge \<longrightarrow> \<not> block_free (pages sample_huge) c)"
    using sample_huge_fields by (intro notI) (drule spec [of _ 0], simp)
  have fl: "ALLOC_HUGE AND ALLOC_HUGE \<noteq> 0" "ALLOC_HUGE AND POISON_AFTER_FREE = 0" and ne: "[0..<1024] \<noteq> []"
    by (simp_all add: ALLOC_HUGE_def POISON_AFTER_FREE_def)
  have rf: "\<forall>j < npages sample_huge. page_flags (pages sample_huge j) = 0 \<longrightarrow> pp_ref (pages sample_huge j) = 0"
    by (simp add: sample_huge_def)
  obtain b s' s'' where b: "b + 1024 \<le> npages sample_huge" "page_alloc ALLOC_HUGE sample_huge = Inr (Some b, s')"
    "pfl_ok s' (filter (\<lambda>x. \<not> (b \<le> x \<and> x < b + 1024)) [0..<1024])" "page_free b s' = Inr ((), s'')"
    "pfl_ok s'' (rev [b..<b + 1024] @ filter (\<lambda>x. \<not> (b \<le> x \<and> x < b + 1024)) [0..<1024])"
    using page_alloc_huge_block [OF sample_huge_ok ne sample_huge_fields(1) fl rf] some by auto
  then have "b = 0" using sample_huge_fields(2) by simp
  then show ?thesis using b f by (simp del: upt_Suc)
qed

end
