(* ===== verification/PageTable.thy ===== *)
theory PageTable
  imports KState HugePage
begin

text \<open>
  The page-table routines of \<^verbatim>\<open>kern/pmap.c\<close>: \<open>pgdir_walk\<close>, \<open>boot_map_region\<close>, \<open>page_insert\<close>,
  \<open>page_lookup\<close>, \<open>page_remove\<close>, \<open>tlb_invalidate\<close>, \<open>mmio_map_region\<close>, \<open>user_mem_check\<close>, the copying
  of a shared page (\<open>page_dedup\<close>) and the reverse lookups \<open>find_pte\<close>, \<open>find_pte_all\<close> and \<open>seek_pte\<close>.

  A pointer to an entry is the pair of the frame that holds it and its index.  The contents of
  page directories and page tables are words of \<open>pmem\<close>.  \<open>vmap\<close> reads a page directory the way
  the processor does; it is the abstract view in which the lemmas are stated.
\<close>

type_synonym pte_ptr = "nat \<times> nat"

definition CREATE_NORMAL :: u32 where "CREATE_NORMAL = 1"
definition CREATE_HUGE :: u32 where "CREATE_HUGE = 2"

definition rd :: "pte_ptr \<Rightarrow> 'z pm_state_scheme \<Rightarrow> u32" where
  "rd p s = pmem s (fst p) (snd p)"

definition wr :: "pte_ptr \<Rightarrow> u32 \<Rightarrow> 'z pm_state_scheme \<Rightarrow> 'z pm_state_scheme" where
  "wr p w s = write_mem (fst p) (snd p) w s"

section \<open>Walking\<close>

definition walk_entry :: "nat \<Rightarrow> u32 \<Rightarrow> u32 \<Rightarrow> u32 \<Rightarrow> kstate \<Rightarrow> (kstate, pte_ptr option) kres" where
  "walk_entry pgdir va create ptd_entry s =
     (if create AND CREATE_HUGE \<noteq> 0 \<or> ptd_entry AND PTE_PS \<noteq> 0 then Inr (Some (pgdir, pdx va), s)
      else rbind (KADDR (PTE_ADDR ptd_entry) s) (\<lambda>fr. Inr (Some (fr, ptx va), s)))"

definition pgdir_walk :: "nat option \<Rightarrow> u32 \<Rightarrow> u32 \<Rightarrow> kstate \<Rightarrow> (kstate, pte_ptr option) kres" where
  "pgdir_walk pgdir va create s =
     (case pgdir of
        None \<Rightarrow> Inl (Panic ''pgdir_walk: PAGE TABLE DIRECTORY NULL'')
      | Some pg \<Rightarrow>
          let ptd_entry = rd (pg, pdx va) s in
          if ptd_entry AND PTE_P = 0 then
            if create = 0 then Inr (None, s)
            else
              let s = (if create AND CREATE_HUGE \<noteq> 0 then wr (pg, pdx va) 0 s else s);
                  ptd_entry = rd (pg, pdx va) s in
              if create AND CREATE_NORMAL \<noteq> 0 then
                rbind (page_alloc ALLOC_ZERO s) (\<lambda>(p, s).
                case p of
                  None \<Rightarrow> Inr (None, s)
                | Some p0 \<Rightarrow>
                    let s = wr (pg, pdx va) (page2pa p0 OR PTE_P OR PTE_W OR PTE_U) s;
                        s = upd_page p0 (\<lambda>q. q\<lparr>pp_ref := pp_ref q + 1\<rparr>) s in
                    walk_entry pg va create (rd (pg, pdx va) s) s)
              else walk_entry pg va create ptd_entry s
          else walk_entry pg va create ptd_entry s)"

section \<open>Mapping\<close>

fun boot_map_loop :: "nat \<Rightarrow> nat option \<Rightarrow> u32 \<Rightarrow> u32 \<Rightarrow> u32 \<Rightarrow> kstate \<Rightarrow> (kstate, unit) kres" where
  "boot_map_loop 0 pgdir va pa perm s = Inr ((), s)"
| "boot_map_loop (Suc n) pgdir va pa perm s =
     rbind (pgdir_walk pgdir va CREATE_NORMAL s) (\<lambda>(pte, s).
     if perm AND PTE_P \<noteq> 0 then Inl (Panic ''boot_map_region: PTE_P already set in perms!'')
     else
       let pa = pa OR perm OR PTE_P in
       case pte of
         None \<Rightarrow> Inl NullDeref
       | Some p \<Rightarrow> boot_map_loop n pgdir (va + PGSIZE) (pa + PGSIZE) perm (wr p pa s))"

definition boot_map_region :: "nat option \<Rightarrow> u32 \<Rightarrow> u32 \<Rightarrow> u32 \<Rightarrow> u32 \<Rightarrow> kstate \<Rightarrow> (kstate, unit) kres" where
  "boot_map_region pgdir va sz pa perm s =
     (if pgdir = None then Inl (Panic ''boot_map_region: pgdir is NULL!'')
      else if sz mod PGSIZE \<noteq> 0 then Inl (Panic ''boot_map_region: size is not a multiple of PGSIZE!'')
      else boot_map_loop (unat (sz div PGSIZE)) pgdir va pa perm s)"

definition page_lookup :: "nat option \<Rightarrow> u32 \<Rightarrow> kstate \<Rightarrow> (kstate, nat option \<times> pte_ptr option) kres" where
  "page_lookup pgdir va s =
     (if pgdir = None then Inl (Panic ''page_lookup: pgdir is NULL!'')
      else
        rbind (pgdir_walk pgdir va 0 s) (\<lambda>(pte, s).
        case pte of
          None \<Rightarrow> Inr ((None, None), s)
        | Some p \<Rightarrow> rbind (pa2page (PTE_ADDR (rd p s)) s) (\<lambda>pp. Inr ((Some pp, Some p), s))))"

definition tlb_invalidate :: "nat option \<Rightarrow> u32 \<Rightarrow> kstate \<Rightarrow> (kstate, unit) kres" where
  "tlb_invalidate pgdir va s =
     (if pgdir = None then Inl (Panic ''pgdir_walk: PAGE TABLE DIRECTORY NULL'')
      else
        let flush = s\<lparr>invlpg_log := va # invlpg_log s\<rparr> in
        case curenv s of
          None \<Rightarrow> Inr ((), flush)
        | Some c \<Rightarrow> if env_pgdir (envs s c) = pgdir then Inr ((), flush) else Inr ((), s))"

definition page_remove :: "nat option \<Rightarrow> u32 \<Rightarrow> kstate \<Rightarrow> (kstate, unit) kres" where
  "page_remove pgdir va s =
     (if pgdir = None then Inl (Panic ''page_remove: PAGE TABLE DIRECTORY NULL'')
      else
        rbind (page_lookup pgdir va s) (\<lambda>((pp, _), s).
        case pp of
          None \<Rightarrow> Inr ((), s)
        | Some p \<Rightarrow>
            if pp_ref (pages s p) = 0 then Inl (Panic ''page_remove: PAGE REF COUNT ALREADY 0'')
            else
              let s = upd_page p (\<lambda>q. q\<lparr>pp_ref := pp_ref q - 1\<rparr>) s in
              rbind (if pp_ref (pages s p) = 0
                     then rbind (lru_remove_el_list (Some p) s) (\<lambda>(_, s). page_free p s)
                     else Inr ((), s)) (\<lambda>(_, s).
              rbind (pgdir_walk pgdir va 0 s) (\<lambda>(pte, s).
              let s = (case pte of None \<Rightarrow> s | Some e \<Rightarrow> wr e 0 s) in
              tlb_invalidate pgdir va s))))"

text \<open>The result is 0 or \<open>-E_NO_MEM\<close>.\<close>

definition page_insert :: "nat option \<Rightarrow> nat option \<Rightarrow> u32 \<Rightarrow> u32 \<Rightarrow> kstate \<Rightarrow> (kstate, int) kres" where
  "page_insert pgdir pp va perm s =
     (if pgdir = None then Inl (Panic ''pgdir_walk: PAGE TABLE DIRECTORY NULL'')
      else case pp of
        None \<Rightarrow> Inl (Panic ''pgdir_walk: PAGE_INFO IS NULL'')
      | Some p \<Rightarrow>
          if perm AND PTE_P \<noteq> 0 then Inl (Panic ''page_insert: PTE_P already set in perms!'')
          else
            rbind (if perm AND PTE_PS \<noteq> 0 then pgdir_walk pgdir va CREATE_HUGE s
                   else pgdir_walk pgdir va CREATE_NORMAL s) (\<lambda>(pte, s).
            case pte of
              None \<Rightarrow> Inr (- E_NO_MEM, s)
            | Some e \<Rightarrow>
                let re_ins_flag = (PTE_ADDR (rd e s) \<noteq> page2pa p) in
                rbind (if rd e s AND PTE_P \<noteq> 0 \<and> re_ins_flag then page_remove pgdir va s else Inr ((), s))
                  (\<lambda>(_, s).
                let s = (if re_ins_flag then upd_page p (\<lambda>q. q\<lparr>pp_ref := pp_ref q + 1\<rparr>) s else s) in
                Inr (0, wr e (page2pa p OR perm OR PTE_P) s))))"

definition mmio_map_region :: "u32 \<Rightarrow> u32 \<Rightarrow> kstate \<Rightarrow> (kstate, u32) kres" where
  "mmio_map_region pa sz s =
     (let base = mmio_base s; r_size = ROUNDUP sz PGSIZE in
      if MMIOLIM < base + r_size then Inl (Panic ''mmio_map_region(): Size will overflow MMIOLIM!'')
      else
        rbind (boot_map_region (Some (kern_pgdir s)) base r_size pa (PTE_PCD OR PTE_PWT OR PTE_W) s) (\<lambda>(_, s).
        Inr (base, s\<lparr>mmio_base := base + r_size\<rparr>)))"

section \<open>Copy on write\<close>

text \<open>\<open>CREATE_NORMAL\<close> and \<open>CREATE_HUGE\<close> are passed to \<open>page_alloc\<close>, as the source does.\<close>

definition page_dedup :: "nat \<Rightarrow> u32 \<Rightarrow> kstate \<Rightarrow> (kstate, bool) kres" where
  "page_dedup e va s =
     rbind (vma_lookup va (envs s e)) (\<lambda>v.
     rbind (assert_lock PAGEALLOC_LOCK s) (\<lambda>_.
     rbind (pgdir_walk (env_pgdir (envs s e)) va 1 s) (\<lambda>(pte, s).
     case pte of
       None \<Rightarrow> Inr (False, s)
     | Some p \<Rightarrow>
         rbind (pa2page (PTE_ADDR (rd p s)) s) (\<lambda>pg.
         if pp_ref (pages s pg) = 1 then Inr (True, wr p (rd p s OR PTE_W) s)
         else if 1 < pp_ref (pages s pg) then
           let s = upd_page pg (\<lambda>q. q\<lparr>pp_ref := pp_ref q - 1\<rparr>) s in
           rbind (page_alloc (if rd p s AND PTE_PS \<noteq> 0 then CREATE_HUGE else CREATE_NORMAL) s) (\<lambda>(pgn, s).
           case pgn of
             None \<Rightarrow> Inr (False, s)
           | Some n \<Rightarrow>
               rbind (KADDR (page2pa n) s) (\<lambda>dst.
               rbind (KADDR (page2pa pg) s) (\<lambda>src.
               let s = s\<lparr>pmem := (pmem s)(dst := pmem s src)\<rparr> in
               case v of
                 None \<Rightarrow> Inl NullDeref
               | Some i \<Rightarrow>
                   let s = wr p (page2pa n OR v_perm (vmas (envs s e) i) OR PTE_P) s in
                   Inr (True, upd_page n (\<lambda>q. q\<lparr>pp_ref := pp_ref q + 1\<rparr>) s))))
         else Inl (Panic ''[KERN PANIC]page_dedup: page info ref is 0 or less!'')))))"

section \<open>Checking user memory\<close>

fun user_mem_loop :: "nat \<Rightarrow> nat \<Rightarrow> nat option \<Rightarrow> u32 \<Rightarrow> u32 \<Rightarrow> u32 \<Rightarrow> kstate \<Rightarrow> (kstate, int) kres" where
  "user_mem_loop 0 i pgdir va low perm s = Inr (0, s)"
| "user_mem_loop (Suc n) i pgdir va low perm s =
     rbind (pgdir_walk pgdir (low + PGSIZE * of_nat i) 0 s) (\<lambda>(p, s).
     if (case p of None \<Rightarrow> True
         | Some e \<Rightarrow> rd e s AND PTE_P = 0 \<or> rd e s AND perm \<noteq> perm \<or> ULIM < low + PGSIZE * 1)
     then Inr (- E_FAULT, s\<lparr>user_mem_check_addr :=
            (if low + of_nat i * PGSIZE < va then va + PGSIZE * of_nat i else low + PGSIZE * of_nat i)\<rparr>)
     else user_mem_loop n (Suc i) pgdir va low perm s)"

definition user_mem_check :: "nat \<Rightarrow> u32 \<Rightarrow> u32 \<Rightarrow> u32 \<Rightarrow> kstate \<Rightarrow> (kstate, int) kres" where
  "user_mem_check e va sz perm s =
     (let low = ROUNDDOWN va PGSIZE;
          pnum = ROUNDUP (sz + (va - low)) PGSIZE in
      user_mem_loop (unat (pnum div PGSIZE)) 0 (env_pgdir (envs s e)) va low perm s)"

section \<open>Reverse lookup\<close>

definition scannable :: "env_status \<Rightarrow> bool" where
  "scannable st \<longleftrightarrow> st = ENV_RUNNING \<or> st = ENV_RUNNABLE \<or> st = ENV_SLEEPING"

text \<open>The loop over one table, from entry \<open>k\<close> with \<open>n\<close> entries left.\<close>

fun scan_table :: "(u32 \<Rightarrow> bool) \<Rightarrow> nat \<Rightarrow> nat \<Rightarrow> nat \<Rightarrow> kstate \<Rightarrow> nat option" where
  "scan_table P fr k 0 s = None"
| "scan_table P fr k (Suc n) s = (if P (pmem s fr k) then Some k else scan_table P fr (Suc k) n s)"

text \<open>The loop over a directory, from entry \<open>j\<close>; the result is the directory index and the entry.\<close>

fun scan_dir :: "(u32 \<Rightarrow> bool) \<Rightarrow> nat \<Rightarrow> nat \<Rightarrow> nat \<Rightarrow> kstate \<Rightarrow> kstate stop + (nat \<times> pte_ptr) option" where
  "scan_dir P pg j 0 s = Inr None"
| "scan_dir P pg j (Suc n) s =
     (if pmem s pg j AND PTE_P \<noteq> 0 then
        rbind (KADDR (PTE_ADDR (pmem s pg j)) s) (\<lambda>fr.
        case scan_table P fr 0 NPTENTRIES s of
          Some k \<Rightarrow> Inr (Some (j, (fr, k)))
        | None \<Rightarrow> scan_dir P pg (Suc j) n s)
      else scan_dir P pg (Suc j) n s)"

fun scan_envs :: "(u32 \<Rightarrow> bool) \<Rightarrow> nat \<Rightarrow> nat \<Rightarrow> kstate \<Rightarrow> kstate stop + (nat \<times> nat \<times> pte_ptr) option" where
  "scan_envs P i 0 s = Inr None"
| "scan_envs P i (Suc n) s =
     (if scannable (env_status (envs s i)) then
        case env_pgdir (envs s i) of
          None \<Rightarrow> Inl NullDeref
        | Some pg \<Rightarrow>
            rbind (scan_dir P pg 0 NPDENTRIES s) (\<lambda>r.
            case r of Some (j, p) \<Rightarrow> Inr (Some (i, j, p)) | None \<Rightarrow> scan_envs P (Suc i) n s)
      else scan_envs P (Suc i) n s)"

definition maps_pa :: "u32 \<Rightarrow> u32 \<Rightarrow> bool" where
  "maps_pa pa e \<longleftrightarrow> e AND PTE_P \<noteq> 0 \<and> PTE_ADDR e = pa"

definition find_pte :: "nat \<Rightarrow> kstate \<Rightarrow> kstate stop + pte_ptr option" where
  "find_pte p s =
     rbind (scan_envs (maps_pa (page2pa p)) NKTHREADS (NENV - NKTHREADS) s) (\<lambda>r.
     Inr (map_option (\<lambda>(i, j, e). e) r))"

text \<open>
  \<open>find_pte_all\<close> also stores the environment and the address.  Its parameter \<open>e\<close> sets the start
  index, but the loop header sets it again, so every search starts at \<open>NKTHREADS\<close>.
\<close>

definition find_pte_all :: "nat \<Rightarrow> nat option \<Rightarrow> kstate \<Rightarrow> kstate stop + (pte_ptr option \<times> nat option \<times> u32)" where
  "find_pte_all p e s =
     (let pa = page2pa p in
      rbind (scan_envs (maps_pa pa) NKTHREADS (NENV - NKTHREADS) s) (\<lambda>r.
      case r of
        None \<Rightarrow> Inr (None, e, 0)
      | Some (i, j, q) \<Rightarrow>
          Inr (Some q, Some i, push_bit 22 (of_nat j) OR push_bit 12 (of_nat (snd q)) OR (pa AND 0xfff))))"

definition seek_pte :: "u32 \<Rightarrow> nat \<Rightarrow> kstate \<Rightarrow> kstate stop + pte_ptr option" where
  "seek_pte to_find e s =
     (case env_pgdir (envs s e) of
        None \<Rightarrow> Inl NullDeref
      | Some pg \<Rightarrow>
          rbind (scan_dir (\<lambda>w. w = to_find) pg 0 NPDENTRIES s) (\<lambda>r. Inr (map_option snd r)))"

end
