(* ===== verification/VirtMap.thy ===== *)
theory VirtMap
  imports PageTable
begin

text \<open>
  What the page-table routines of \<^verbatim>\<open>kern/pmap.c\<close> do to an address space.  \<open>vmap s pg a\<close> is the
  translation the processor finds for the linear address \<open>a\<close> under the page directory in frame
  \<open>pg\<close>.  \<open>wf_pgdir s pg xs\<close> is the invariant of the user part of a directory of 4 KB pages: its
  tables are distinct frames, neither a table nor a mapped page is on the free list \<open>xs\<close>, no page
  is both, and the reference count of a page is at least the number of entries that map it.

  \<open>pgdir_walk\<close>, \<open>page_insert\<close> and \<open>page_remove\<close> keep the invariant and act on \<open>vmap\<close> as the update
  of a map at one page; the locale \<open>address_space\<close> states that contract.
\<close>

section \<open>The abstract view\<close>

definition UDIRS :: nat where "UDIRS = pdx UTOP"

lemma UDIRS_eq: "UDIRS = 955"
  by (simp add: UDIRS_def pdx_def PDX_def layout_defs)

definition pt :: "'z pm_state_scheme \<Rightarrow> nat \<Rightarrow> nat \<Rightarrow> nat option" where
  "pt s pg d = (if pmem s pg d AND PTE_P \<noteq> 0 then Some (frame (pmem s pg d)) else None)"

definition pte_at :: "'z pm_state_scheme \<Rightarrow> nat \<Rightarrow> nat \<Rightarrow> nat \<Rightarrow> u32" where
  "pte_at s pg d t = (case pt s pg d of None \<Rightarrow> 0 | Some f \<Rightarrow> pmem s f t)"

definition vmap :: "'z pm_state_scheme \<Rightarrow> nat \<Rightarrow> u32 \<Rightarrow> (nat \<times> u32) option" where
  "vmap s pg a =
     (let e = pte_at s pg (pdx a) (ptx a) in
      if e AND PTE_P = 0 then None else Some (frame e, e AND 0xFFF))"

definition mappings :: "'z pm_state_scheme \<Rightarrow> nat \<Rightarrow> nat \<Rightarrow> (nat \<times> nat) set" where
  "mappings s pg p = {(d, t). d < UDIRS \<and> t < 1024 \<and> pte_at s pg d t AND PTE_P \<noteq> 0 \<and> frame (pte_at s pg d t) = p}"

definition wf_pgdir :: "'z pm_state_scheme \<Rightarrow> nat \<Rightarrow> nat list \<Rightarrow> bool" where
  "wf_pgdir s pg xs \<longleftrightarrow>
     pfl_ok s xs \<and> \<not> PREMAPPED_FLAG s \<and> pg < npages s \<and> pg \<notin> set xs \<and>
     (\<forall>d < UDIRS. pmem s pg d AND PTE_P \<noteq> 0 \<longrightarrow> pmem s pg d AND PTE_PS = 0) \<and>
     (\<forall>d < UDIRS. \<forall>f. pt s pg d = Some f \<longrightarrow> f < npages s \<and> f \<noteq> pg \<and> f \<notin> set xs) \<and>
     (\<forall>d < UDIRS. \<forall>d' < UDIRS. \<forall>f. pt s pg d = Some f \<longrightarrow> pt s pg d' = Some f \<longrightarrow> d = d') \<and>
     (\<forall>p. mappings s pg p \<noteq> {} \<longrightarrow> p < npages s \<and> p \<notin> set xs \<and> p \<noteq> pg \<and> (\<forall>d < UDIRS. pt s pg d \<noteq> Some p) \<and>
          page_flags (pages s p) AND ALLOC \<noteq> 0 \<and> page_flags (pages s p) AND ALLOC_HUGE = 0) \<and>
     (\<forall>p. card (mappings s pg p) \<le> unat (pp_ref (pages s p)))"

lemma finite_mappings [simp]: "finite (mappings s pg p)"
  by (rule finite_subset [of _ "{..<UDIRS} \<times> {..<1024}"]) (auto simp: mappings_def)

lemma wf_pgdirD:
  assumes "wf_pgdir s pg xs"
  shows "pfl_ok s xs" and "\<not> PREMAPPED_FLAG s" and "pg < npages s" and "pg \<notin> set xs"
    and "\<And>d. d < UDIRS \<Longrightarrow> pmem s pg d AND PTE_P \<noteq> 0 \<Longrightarrow> pmem s pg d AND PTE_PS = 0"
    and "\<And>d f. d < UDIRS \<Longrightarrow> pt s pg d = Some f \<Longrightarrow> f < npages s \<and> f \<noteq> pg \<and> f \<notin> set xs"
    and "\<And>d d' f. d < UDIRS \<Longrightarrow> d' < UDIRS \<Longrightarrow> pt s pg d = Some f \<Longrightarrow> pt s pg d' = Some f \<Longrightarrow> d = d'"
    and "\<And>p. mappings s pg p \<noteq> {} \<Longrightarrow> p < npages s \<and> p \<notin> set xs \<and> p \<noteq> pg \<and> (\<forall>d < UDIRS. pt s pg d \<noteq> Some p) \<and>
          page_flags (pages s p) AND ALLOC \<noteq> 0 \<and> page_flags (pages s p) AND ALLOC_HUGE = 0"
    and "\<And>p. card (mappings s pg p) \<le> unat (pp_ref (pages s p))"
    and "npages s \<le> 1048576"
  using assms pfl_okD(8) unfolding wf_pgdir_def by blast+

text \<open>The view depends on the directory and its tables only.\<close>

lemma pte_at_cong:
  assumes "pmem s' pg = pmem s pg" and "\<And>f. pt s pg d = Some f \<Longrightarrow> pmem s' f = pmem s f"
  shows "pte_at s' pg d t = pte_at s pg d t"
  using assms by (auto simp: pte_at_def pt_def split: option.splits)

lemma mappings_cong:
  assumes "\<And>d t. d < UDIRS \<Longrightarrow> t < 1024 \<Longrightarrow> pte_at s' pg d t = pte_at s pg d t"
  shows "mappings s' pg p = mappings s pg p"
  using assms by (auto simp: mappings_def)

lemma vmap_cong: "pte_at s' pg (pdx a) (ptx a) = pte_at s pg (pdx a) (ptx a) \<Longrightarrow> vmap s' pg a = vmap s pg a"
  by (simp add: vmap_def)

section \<open>Walking\<close>

lemma flag_or_P: "(page2pa i OR PTE_P OR PTE_W OR PTE_U) AND PTE_P \<noteq> 0"
  "(page2pa i OR PTE_P OR PTE_W OR PTE_U) AND PTE_PS = 0"
  by (auto simp: flag_tests bit_or_iff mmu_bits)

lemma frame_pde: "i < 1048576 \<Longrightarrow> frame (page2pa i OR PTE_P OR PTE_W OR PTE_U) = i"
  using frame_or [of i "PTE_P OR PTE_W OR PTE_U"] by (simp add: pte_flag_defs or.assoc)

lemma walk_present:
  assumes wf: "wf_pgdir s pg xs" and d: "pdx a < UDIRS" and p: "pt s pg (pdx a) = Some f" and c: "c AND CREATE_HUGE = 0"
  shows "pgdir_walk (Some pg) a c s = Inr (Some (f, ptx a), s)"
proof -
  note D = wf_pgdirD [OF wf]
  have e: "pmem s pg (pdx a) AND PTE_P \<noteq> 0" "frame (pmem s pg (pdx a)) = f" using p by (auto simp: pt_def split: if_splits)
  have "pmem s pg (pdx a) AND PTE_PS = 0" using D(5) [OF d e(1)] .
  moreover have "f < npages s" using D(6) [OF d p] by simp
  ultimately show ?thesis using e c by (simp add: pgdir_walk_def rd_def walk_entry_def KADDR_def)
qed

lemma walk_absent:
  assumes "pt s pg (pdx a) = None"
  shows "pgdir_walk (Some pg) a 0 s = Inr (None, s)"
  using assms by (auto simp: pgdir_walk_def rd_def pt_def split: if_splits)

lemma walk_no_memory:
  assumes wf: "wf_pgdir s pg []" and "pt s pg (pdx a) = None"
  shows "pgdir_walk (Some pg) a CREATE_NORMAL s = Inr (None, s)"
  using assms(2) page_alloc_empty [OF wf_pgdirD(1) [OF wf]]
  by (auto simp: pgdir_walk_def rd_def pt_def CREATE_NORMAL_def CREATE_HUGE_def split: if_splits)

lemma wr_simps [simp]:
  "pmem (wr p w s) = (pmem s)(fst p := (pmem s (fst p))(snd p := w))"
  "pages (wr p w s) = pages s" "npages (wr p w s) = npages s" "PREMAPPED_FLAG (wr p w s) = PREMAPPED_FLAG s"
  "pm_state.more (wr p w s) = pm_state.more s" "pfl_ok (wr p w s) xs = pfl_ok s xs"
  "pm_rest_eq r (wr p w s) = pm_rest_eq r s"
  by (simp_all add: wr_def) (simp add: pm_rest_eq_def write_mem_def)

lemma walk_create:
  assumes wf: "wf_pgdir s pg (x # xs)" and d: "pdx a < UDIRS" and n: "pt s pg (pdx a) = None"
  shows "\<exists>s'. pgdir_walk (Some pg) a CREATE_NORMAL s = Inr (Some (x, ptx a), s') \<and>
    pm_rest_eq s s' \<and> pfl_ok s' xs \<and>
    pmem s' = (pmem s)(x := (\<lambda>_. 0), pg := (pmem s pg)(pdx a := page2pa x OR PTE_P OR PTE_W OR PTE_U)) \<and>
    pages s' = (pages s)(x := (pages s x)\<lparr>pp_link := None, page_flags := ALLOC, pp_ref := 1\<rparr>)"
proof -
  note D = wf_pgdirD [OF wf] and P = pfl_okD [OF wf_pgdirD(1) [OF wf]]
  have z: "ALLOC_ZERO AND ALLOC_HUGE = 0" "ALLOC_ZERO AND POISON_AFTER_FREE = 0" "ALLOC_ZERO \<noteq> 0"
    by (simp_all add: ALLOC_ZERO_def ALLOC_HUGE_def POISON_AFTER_FREE_def)
  obtain t where t: "page_alloc ALLOC_ZERO s = Inr (Some x, t)" "pfl_ok t xs"
    "pages t = (pages s)(x := (pages s x)\<lparr>pp_link := None, page_flags := (ALLOC_ZERO AND POISON_AFTER_FREE) OR ALLOC\<rparr>)"
    "pmem t = (if ALLOC_ZERO AND ALLOC_ZERO = 0 then pmem s else (pmem s)(x := (\<lambda>_. 0)))" "pm_rest_eq s t"
    using page_alloc_ok [OF D(1,2) z(1)] by blast
  have xpg: "x \<noteq> pg" "x < npages s" "x \<notin> set xs" using D(4) P(2,3) by auto
  have xb: "x < 1048576" using xpg(2) D(10) by simp
  let ?e = "page2pa x OR PTE_P OR PTE_W OR PTE_U"
  let ?u = "upd_page x (\<lambda>q. q\<lparr>pp_ref := pp_ref q + 1\<rparr>) (wr (pg, pdx a) ?e t)"
  have pr: "pp_ref (pages s x) = 0" using P(4) by simp
  have ab: "pmem s pg (pdx a) AND PTE_P = 0" using n by (auto simp: pt_def split: if_splits)
  have fr: "frame ?e = x" using frame_pde [OF xb] .
  have np: "npages t = npages s" using t(5) by (simp add: pm_rest_eq_def)
  have "pgdir_walk (Some pg) a CREATE_NORMAL s = Inr (Some (x, ptx a), ?u)"
    using ab t(1) fr xpg(2) np flag_or_P(2) [of x]
    by (simp add: pgdir_walk_def rd_def CREATE_NORMAL_def CREATE_HUGE_def walk_entry_def KADDR_def Let_def)
  moreover have "pfl_ok ?u xs" using t(2) xpg(3) by (intro pfl_ok_upd_outside) auto
  moreover have "pmem ?u = (pmem s)(x := (\<lambda>_. 0), pg := (pmem s pg)(pdx a := ?e))"
    using t(4) xpg(1) z(3) by (simp add: fun_upd_twist)
  moreover have "pages ?u = (pages s)(x := (pages s x)\<lparr>pp_link := None, page_flags := ALLOC, pp_ref := 1\<rparr>)"
    using t(3) pr z(2) by simp
  moreover have "pm_rest_eq s ?u" using t(5) by simp
  ultimately show ?thesis by blast
qed

text \<open>A new, empty table changes no translation.\<close>

lemma walk_create_view:
  assumes wf: "wf_pgdir s pg (x # xs)" and d: "pdx a < UDIRS" and n: "pt s pg (pdx a) = None"
    and m: "pmem s' = (pmem s)(x := (\<lambda>_. 0), pg := (pmem s pg)(pdx a := page2pa x OR PTE_P OR PTE_W OR PTE_U))"
  shows "\<And>d'. pt s' pg d' = (if d' = pdx a then Some x else pt s pg d')"
    and "\<And>d' t. d' < UDIRS \<Longrightarrow> pte_at s' pg d' t = pte_at s pg d' t"
proof -
  note D = wf_pgdirD [OF wf]
  have x: "x \<noteq> pg" "x < 1048576" using D(4,10) pfl_okD(3) [OF D(1), of x] by auto
  show pt: "pt s' pg d' = (if d' = pdx a then Some x else pt s pg d')" for d'
    using m x flag_or_P(1) [of x] frame_pde [OF x(2)] by (simp add: pt_def)
  show "pte_at s' pg d' t = pte_at s pg d' t" if "d' < UDIRS" for d' t
  proof (cases "d' = pdx a")
    case True
    then show ?thesis using pt n m x(1) by (simp add: pte_at_def)
  next
    case False
    then show ?thesis using pt D(6) [OF that] m by (auto simp: pte_at_def split: option.splits)
  qed
qed

lemma walk_create_wf:
  assumes wf: "wf_pgdir s pg (x # xs)" and d: "pdx a < UDIRS" and n: "pt s pg (pdx a) = None"
    and m: "pmem s' = (pmem s)(x := (\<lambda>_. 0), pg := (pmem s pg)(pdx a := page2pa x OR PTE_P OR PTE_W OR PTE_U))"
    and g: "pages s' = (pages s)(x := (pages s x)\<lparr>pp_link := None, page_flags := ALLOC, pp_ref := 1\<rparr>)"
    and r: "pm_rest_eq s s'" and f: "pfl_ok s' xs"
  shows "wf_pgdir s' pg xs"
proof -
  note D = wf_pgdirD [OF wf] and V = walk_create_view [OF wf d n m] and P = pfl_okD [OF wf_pgdirD(1) [OF wf]]
  have x: "x \<noteq> pg" "x < npages s" "x \<notin> set xs" using D(4) P(2,3) by auto
  have rs: "npages s' = npages s" "PREMAPPED_FLAG s' = PREMAPPED_FLAG s" using r by (auto simp: pm_rest_eq_def)
  have map: "mappings s' pg p = mappings s pg p" for p using V(2) by (intro mappings_cong)
  have mx: "mappings s pg x = {}" using D(8) [of x] by auto
  have pe: "pmem s' pg d' = (if d' = pdx a then page2pa x OR PTE_P OR PTE_W OR PTE_U else pmem s pg d')" for d'
    using m by simp
  have tb: "f \<noteq> x" if "d' < UDIRS" "pt s pg d' = Some f" for d' f using D(6) [OF that] by auto
  show ?thesis
    unfolding wf_pgdir_def
  proof (intro conjI allI impI)
    show "pfl_ok s' xs" by (rule f)
    show "\<not> PREMAPPED_FLAG s'" "pg < npages s'" "pg \<notin> set xs" using rs D(2-4) by auto
    show "pmem s' pg d' AND PTE_PS = 0" if "d' < UDIRS" "pmem s' pg d' AND PTE_P \<noteq> 0" for d'
      using pe [of d'] D(5) [of d'] that flag_or_P(2) by (auto split: if_splits)
    show "f' < npages s'" "f' \<noteq> pg" "f' \<notin> set xs" if "d' < UDIRS" "pt s' pg d' = Some f'" for d' f'
      using V(1) [of d'] D(6) [of d' f'] that rs x by (auto split: if_splits)
    show "d1 = d2" if "d1 < UDIRS" "d2 < UDIRS" "pt s' pg d1 = Some f'" "pt s' pg d2 = Some f'" for d1 d2 f'
    proof (cases "f' = x")
      case True
      then have "d' = pdx a" if "d' < UDIRS" "pt s' pg d' = Some f'" for d'
        using tb [of d' x] V(1) [of d'] that by (metis (full_types))
      then show ?thesis using that by metis
    next
      case False
      have "pt s pg d' = Some f'" if "pt s' pg d' = Some f'" for d'
        using V(1) [of d'] that False by (cases "d' = pdx a") auto
      then show ?thesis using D(7) that by blast
    qed
    show "card (mappings s' pg p) \<le> unat (pp_ref (pages s' p))" for p
      using map [of p] D(9) [of p] mx g by (cases "p = x") auto
    fix p assume "mappings s' pg p \<noteq> {}"
    then have ne: "mappings s pg p \<noteq> {}" using map by simp
    then have px: "p \<noteq> x" using mx by auto
    show "p < npages s'" "p \<notin> set xs" "p \<noteq> pg" "page_flags (pages s' p) AND ALLOC \<noteq> 0" "page_flags (pages s' p) AND ALLOC_HUGE = 0"
      using D(8) [OF ne] rs g px by auto
    show "pt s' pg d' \<noteq> Some p" if "d' < UDIRS" for d' using V(1) [of d'] D(8) [OF ne] px that by auto
  qed
qed

section \<open>Writing an entry\<close>

text \<open>Storing a word through the pointer of a present table changes that one entry.\<close>

lemma wr_view:
  assumes wf: "wf_pgdir s pg xs" and d: "pdx a < UDIRS" and p: "pt s pg (pdx a) = Some f"
  shows "\<And>d'. pt (wr (f, ptx a) w s) pg d' = pt s pg d'"
    and "\<And>d' t. d' < UDIRS \<Longrightarrow>
      pte_at (wr (f, ptx a) w s) pg d' t = (if d' = pdx a \<and> t = ptx a then w else pte_at s pg d' t)"
proof -
  note D = wf_pgdirD [OF wf]
  have f: "f \<noteq> pg" using D(6) [OF d p] by simp
  then show pt: "pt (wr (f, ptx a) w s) pg d' = pt s pg d'" for d' by (simp add: pt_def)
  show "pte_at (wr (f, ptx a) w s) pg d' t = (if d' = pdx a \<and> t = ptx a then w else pte_at s pg d' t)"
    if "d' < UDIRS" for d' t
  proof (cases "d' = pdx a")
    case True
    then show ?thesis using p pt by (simp add: pte_at_def)
  next
    case False
    then have "pt s pg d' \<noteq> Some f" using D(7) [OF that d _ p] by blast
    then show ?thesis using False pt by (auto simp: pte_at_def split: option.splits)
  qed
qed

text \<open>An address space agrees with another except at the page of one address.\<close>

definition same_page :: "u32 \<Rightarrow> u32 \<Rightarrow> bool" where
  "same_page a b \<longleftrightarrow> pdx a = pdx b \<and> ptx a = ptx b"

lemma mappings_update:
  assumes d: "pdx a < UDIRS"
    and v: "\<And>d' t. d' < UDIRS \<Longrightarrow> t < 1024 \<Longrightarrow> pte_at s' pg d' t = (if d' = pdx a \<and> t = ptx a then w else pte_at s pg d' t)"
  shows "mappings s' pg p = (if w AND PTE_P \<noteq> 0 \<and> frame w = p then insert (pdx a, ptx a) (mappings s pg p)
    else mappings s pg p - {(pdx a, ptx a)})"
  using assms by (auto simp: mappings_def split: if_splits)

section \<open>Removing a page\<close>

lemma tlb_invalidate_ok:
  "\<exists>l. tlb_invalidate (Some pg) a s = Inr ((), s\<lparr>invlpg_log := l\<rparr>)"
  by (cases "curenv s") (auto simp: tlb_invalidate_def Let_def intro: exI [of _ "invlpg_log s"])

lemma invlpg_view [simp]:
  "pmem (s\<lparr>invlpg_log := l\<rparr>) = pmem s" "pages (s\<lparr>invlpg_log := l\<rparr>) = pages s"
  "npages (s\<lparr>invlpg_log := l\<rparr>) = npages s" "PREMAPPED_FLAG (s\<lparr>invlpg_log := l\<rparr>) = PREMAPPED_FLAG s"
  "pfl_ok (s\<lparr>invlpg_log := l\<rparr>) xs = pfl_ok s xs"
  "pt (s\<lparr>invlpg_log := l\<rparr>) pg d = pt s pg d" "pte_at (s\<lparr>invlpg_log := l\<rparr>) pg d t = pte_at s pg d t"
  "lru_chains (s\<lparr>invlpg_log := l\<rparr>) = lru_chains s"
  by (simp_all add: pfl_ok_def pfl_shape_def pt_def pte_at_def lru_chains_def)

lemma page_lookup_present:
  assumes wf: "wf_pgdir s pg xs" and d: "pdx a < UDIRS" and e: "pte_at s pg (pdx a) (ptx a) AND PTE_P \<noteq> 0"
  shows "\<exists>f. pt s pg (pdx a) = Some f \<and>
    page_lookup (Some pg) a s = Inr ((Some (frame (pte_at s pg (pdx a) (ptx a))), Some (f, ptx a)), s)"
proof -
  note D = wf_pgdirD [OF wf]
  obtain f where f: "pt s pg (pdx a) = Some f" using e by (cases "pt s pg (pdx a)") (auto simp: pte_at_def)
  have "(pdx a, ptx a) \<in> mappings s pg (frame (pte_at s pg (pdx a) (ptx a)))" using d e by (simp add: mappings_def)
  then have "frame (pte_at s pg (pdx a) (ptx a)) < npages s" using D(8) by blast
  moreover have "pmem s f (ptx a) = pte_at s pg (pdx a) (ptx a)" using f by (simp add: pte_at_def)
  ultimately show ?thesis using f walk_present [OF wf d f, of 0]
    by (simp add: page_lookup_def rd_def pa2page_def)
qed

text \<open>The state between the count going down and the entry being cleared: the page is freed or kept.\<close>

lemma remove_release:
  assumes wf: "wf_pgdir s pg xs" and p: "mappings s pg p \<noteq> {}" and lru: "lru_chains s"
    and t: "t = upd_page p (\<lambda>q. q\<lparr>pp_ref := pp_ref q - 1\<rparr>) s"
  shows "\<exists>u. (if pp_ref (pages t p) = 0 then rbind (lru_remove_el_list (Some p) t) (\<lambda>(_, s). page_free p s) else Inr ((), t))
      = Inr ((), u) \<and> lru_chains u \<and> npages u = npages s \<and> PREMAPPED_FLAG u = PREMAPPED_FLAG s \<and>
    pfl_ok u (if pp_ref (pages s p) = 1 then p # xs else xs) \<and>
    (\<forall>f. f \<noteq> p \<longrightarrow> pmem u f = pmem s f) \<and>
    (\<forall>q. q \<noteq> p \<longrightarrow> pp_ref (pages u q) = pp_ref (pages s q) \<and> page_flags (pages u q) = page_flags (pages s q)) \<and>
    pp_ref (pages u p) = pp_ref (pages s p) - 1 \<and>
    (pp_ref (pages s p) \<noteq> 1 \<longrightarrow> page_flags (pages u p) = page_flags (pages s p))"
proof -
  note D = wf_pgdirD [OF wf] and M = wf_pgdirD(8) [OF wf p]
  have ok: "pfl_ok t xs" using D(1) M t by (auto intro: pfl_ok_upd_outside)
  have tl: "lru_chains t" using lru_chains_pm [OF lru, of t] t by simp
  show ?thesis
  proof (cases "pp_ref (pages s p) = 1")
    case False
    then have "pp_ref (pages t p) \<noteq> 0" using t by simp
    then show ?thesis using False ok tl t by (intro exI [of _ t]) simp
  next
    case True
    then have r0: "pp_ref (pages t p) = 0" using t by simp
    obtain r v where v: "lru_remove_el_list (Some p) t = Inr (r, v)" "lru_chains v" "lru_frame t v"
      using lru_remove_el_list_total [OF tl] by blast
    have vf: "npages v = npages s" "PREMAPPED_FLAG v = PREMAPPED_FLAG s" "pmem v = pmem s"
      "\<And>q. pp_ref (pages v q) = pp_ref (pages t q)" "\<And>q. page_flags (pages v q) = page_flags (pages t q)"
      using v(3) t by (auto simp: lru_frame_def)
    have "pfl_ok v xs" using lru_frame_pfl_ok [OF v(3) ok] .
    moreover have "p < npages v" "p \<notin> set xs" "pp_ref (pages v p) = 0" "page_flags (pages v p) AND ALLOC \<noteq> 0"
      "page_flags (pages v p) AND ALLOC_HUGE = 0"
      using M vf r0 t by auto
    ultimately obtain w where w: "page_free p v = Inr ((), w)" "pfl_ok w (p # xs)"
      "pages w = (pages v)(p := (pages v p)\<lparr>pp_link := page_free_list v, page_flags := 0\<rparr>)"
      "pmem w = (if page_flags (pages v p) AND POISON_AFTER_FREE = 0 then pmem v else (pmem v)(p := (\<lambda>_. 0x01010101)))"
      "pm_rest_eq v w"
      using page_free_ok by metis
    have "lru_chains w" using lru_chains_pm [OF v(2) w(5)] w(3) by simp
    then show ?thesis using True r0 v(1) w vf t by (intro exI [of _ w]) (auto simp: pm_rest_eq_def)
  qed
qed

lemma walk_raw:
  assumes "pmem s pg (pdx a) AND PTE_P \<noteq> 0" and "pmem s pg (pdx a) AND PTE_PS = 0" and "frame (pmem s pg (pdx a)) < npages s"
  shows "pgdir_walk (Some pg) a 0 s = Inr (Some (frame (pmem s pg (pdx a)), ptx a), s)"
  using assms by (simp add: pgdir_walk_def rd_def walk_entry_def KADDR_def)

lemma page_remove_ok:
  assumes wf: "wf_pgdir s pg xs" and d: "pdx a < UDIRS" and e: "pte_at s pg (pdx a) (ptx a) AND PTE_P \<noteq> 0"
    and p: "p = frame (pte_at s pg (pdx a) (ptx a))" and lru: "lru_chains s"
  shows "\<exists>s'. page_remove (Some pg) a s = Inr ((), s') \<and> lru_chains s' \<and> npages s' = npages s \<and>
    wf_pgdir s' pg (if pp_ref (pages s p) = 1 then p # xs else xs) \<and>
    (\<forall>d' t. d' < UDIRS \<longrightarrow> pte_at s' pg d' t = (if d' = pdx a \<and> t = ptx a then 0 else pte_at s pg d' t)) \<and>
    (\<forall>d'. pt s' pg d' = pt s pg d') \<and>
    (\<forall>q. pp_ref (pages s' q) = (if q = p then pp_ref (pages s p) - 1 else pp_ref (pages s q))) \<and>
    (\<forall>q. q \<noteq> p \<or> pp_ref (pages s p) \<noteq> 1 \<longrightarrow> page_flags (pages s' q) = page_flags (pages s q))"
proof -
  note D = wf_pgdirD [OF wf]
  have mp: "(pdx a, ptx a) \<in> mappings s pg p" using d e p by (simp add: mappings_def)
  then have M: "mappings s pg p \<noteq> {}" by auto
  note P = D(8) [OF M]
  obtain f where f: "pt s pg (pdx a) = Some f" "page_lookup (Some pg) a s = Inr ((Some p, Some (f, ptx a)), s)"
    using page_lookup_present [OF wf d e] p by blast
  have "card (mappings s pg p) \<noteq> 0" using M by simp
  then have r: "pp_ref (pages s p) \<noteq> 0" using D(9) [of p] by auto
  let ?t = "upd_page p (\<lambda>q. q\<lparr>pp_ref := pp_ref q - 1\<rparr>) s"
  let ?ys = "if pp_ref (pages s p) = 1 then p # xs else xs"
  obtain u where u: "(if pp_ref (pages ?t p) = 0 then rbind (lru_remove_el_list (Some p) ?t) (\<lambda>(_, s). page_free p s) else Inr ((), ?t))
      = Inr ((), u)" "lru_chains u" "npages u = npages s" "PREMAPPED_FLAG u = PREMAPPED_FLAG s" "pfl_ok u ?ys"
    "\<forall>f. f \<noteq> p \<longrightarrow> pmem u f = pmem s f"
    "\<forall>q. q \<noteq> p \<longrightarrow> pp_ref (pages u q) = pp_ref (pages s q) \<and> page_flags (pages u q) = page_flags (pages s q)"
    "pp_ref (pages u p) = pp_ref (pages s p) - 1" "pp_ref (pages s p) \<noteq> 1 \<longrightarrow> page_flags (pages u p) = page_flags (pages s p)"
    using remove_release [OF wf M lru refl] by blast
  have pgd: "pmem u pg = pmem s pg" using u(6) P by simp
  have fe: "pmem s pg (pdx a) AND PTE_P \<noteq> 0" "frame (pmem s pg (pdx a)) = f" using f(1) by (auto simp: pt_def split: if_splits)
  have w: "pgdir_walk (Some pg) a 0 u = Inr (Some (f, ptx a), u)"
    using walk_raw [of u pg a] pgd fe D(5) [OF d fe(1)] D(6) [OF d f(1)] u(3) by simp
  obtain l where l: "tlb_invalidate (Some pg) a (wr (f, ptx a) 0 u) = Inr ((), (wr (f, ptx a) 0 u)\<lparr>invlpg_log := l\<rparr>)"
    using tlb_invalidate_ok by blast
  let ?s = "(wr (f, ptx a) 0 u)\<lparr>invlpg_log := l\<rparr>"
  have run: "page_remove (Some pg) a s = Inr ((), ?s)"
    using f(2) r u(1) w l by (simp add: page_remove_def Let_def)
  have fp: "f \<noteq> pg" "f \<noteq> p" using D(6) [OF d f(1)] P f(1) d by auto
  have ptu: "pt u pg d' = pt s pg d'" for d' using pgd by (simp add: pt_def)
  have pts: "pt ?s pg d' = pt s pg d'" for d' using fp(1) pgd by (simp add: pt_def)
  have view: "pte_at ?s pg d' t = (if d' = pdx a \<and> t = ptx a then 0 else pte_at s pg d' t)" if "d' < UDIRS" for d' t
  proof (cases "pt s pg d'")
    case None
    then show ?thesis using pts f(1) by (auto simp: pte_at_def)
  next
    case (Some g)
    then have gp: "g \<noteq> p" using P that by auto
    show ?thesis
    proof (cases "d' = pdx a")
      case True
      then show ?thesis using pts f(1) fp u(6) by (simp add: pte_at_def)
    next
      case False
      then have "g \<noteq> f" using D(7) [OF that d] Some f(1) by metis
      then show ?thesis using False pts Some gp u(6) by (simp add: pte_at_def)
    qed
  qed
  have map: "mappings ?s pg q = mappings s pg q - {(pdx a, ptx a)}" for q
    using mappings_update [OF d, of ?s pg 0 s q] view by simp
  have ref: "pp_ref (pages ?s q) = (if q = p then pp_ref (pages s p) - 1 else pp_ref (pages s q))" for q
    using u(7,8) by simp
  have cnt: "card (mappings ?s pg q) \<le> unat (pp_ref (pages ?s q))" for q
  proof (cases "q = p")
    case True
    have "unat (pp_ref (pages s p) - 1) = unat (pp_ref (pages s p)) - 1"
      using r by (metis unat_minus_one)
    then show ?thesis using D(9) [of p] True map [of p] mp ref [of p] by simp
  next
    case False
    have "card (mappings s pg q - {(pdx a, ptx a)}) \<le> card (mappings s pg q)" by (simp add: card_mono)
    then show ?thesis using D(9) [of q] False map [of q] ref [of q] by simp
  qed
  have one: "mappings ?s pg p = {}" if "pp_ref (pages s p) = 1"
    using cnt [of p] ref [of p] that by simp
  have "wf_pgdir ?s pg ?ys"
    unfolding wf_pgdir_def
  proof (intro conjI allI impI)
    show "pfl_ok ?s ?ys" using u(5) by simp
    show "\<not> PREMAPPED_FLAG ?s" "pg < npages ?s" using u(3,4) D(2,3) by auto
    show "pg \<notin> set ?ys" using D(4) P by auto
    show "pmem ?s pg d' AND PTE_PS = 0" if "d' < UDIRS" "pmem ?s pg d' AND PTE_P \<noteq> 0" for d'
      using that D(5) [of d'] pgd fp(1) by simp
    show "g < npages ?s" "g \<noteq> pg" "g \<notin> set ?ys" if "d' < UDIRS" "pt ?s pg d' = Some g" for d' g
      using that pts [of d'] D(6) [of d' g] P u(3) by auto
    show "d1 = d2" if "d1 < UDIRS" "d2 < UDIRS" "pt ?s pg d1 = Some g" "pt ?s pg d2 = Some g" for d1 d2 g
      using that pts D(7) by metis
    show "card (mappings ?s pg q) \<le> unat (pp_ref (pages ?s q))" for q by (rule cnt)
    fix q assume q: "mappings ?s pg q \<noteq> {}"
    then have q0: "mappings s pg q \<noteq> {}" and qp: "q \<noteq> p \<or> pp_ref (pages s p) \<noteq> 1" using map one by auto
    show "q < npages ?s" "q \<noteq> pg" using D(8) [OF q0] u(3) by auto
    show "q \<notin> set ?ys" using D(8) [OF q0] qp by auto
    show "pt ?s pg d' \<noteq> Some q" if "d' < UDIRS" for d' using D(8) [OF q0] pts that by simp
    have "page_flags (pages ?s q) = page_flags (pages s q)" using qp u(7,9) by (cases "q = p") auto
    then show "page_flags (pages ?s q) AND ALLOC \<noteq> 0" "page_flags (pages ?s q) AND ALLOC_HUGE = 0"
      using D(8) [OF q0] by auto
  qed
  moreover have "lru_chains ?s" using lru_chains_pm [OF u(2), of "wr (f, ptx a) 0 u"] by simp
  moreover have "page_flags (pages ?s q) = page_flags (pages s q)" if "q \<noteq> p \<or> pp_ref (pages s p) \<noteq> 1" for q
    using that u(7,9) by (cases "q = p") auto
  ultimately show ?thesis using run view pts ref u(3) by (intro exI [of _ ?s]) simp
qed

section \<open>Inserting a page\<close>

text \<open>A page that may be mapped: allocated, not free, not a table of this directory.\<close>

definition mappable :: "'z pm_state_scheme \<Rightarrow> nat \<Rightarrow> nat list \<Rightarrow> nat \<Rightarrow> bool" where
  "mappable s pg xs p \<longleftrightarrow> p < npages s \<and> p \<notin> set xs \<and> p \<noteq> pg \<and> (\<forall>d < UDIRS. pt s pg d \<noteq> Some p) \<and>
     page_flags (pages s p) AND ALLOC \<noteq> 0 \<and> page_flags (pages s p) AND ALLOC_HUGE = 0"

lemma view_pmem:
  assumes "pmem s' = pmem s"
  shows "pt s' = pt s" and "pte_at s' = pte_at s" and "mappings s' = mappings s" and "vmap s' = vmap s"
proof -
  show 1: "pt s' = pt s" using assms by (intro ext) (simp add: pt_def)
  show 2: "pte_at s' = pte_at s" using assms 1 by (intro ext) (simp add: pte_at_def split: option.split)
  show "mappings s' = mappings s" "vmap s' = vmap s" using 2 by (auto simp: mappings_def vmap_def fun_eq_iff)
qed

lemma upd_page_view [simp]:
  "pt (upd_page p g s) = pt s" "pte_at (upd_page p g s) = pte_at s"
  "mappings (upd_page p g s) = mappings s" "vmap (upd_page p g s) = vmap s"
  by (rule view_pmem, simp)+

lemma wr_upd_page: "pmem (wr e w (upd_page p g s)) = pmem (wr e w s)"
  by simp

lemma wf_store:
  assumes wf: "wf_pgdir s pg xs" and d: "pdx a < UDIRS" and f: "pt s pg (pdx a) = Some f"
    and p: "mappable s pg xs p" and w: "w AND PTE_P \<noteq> 0" "frame w = p"
    and c: "card (insert (pdx a, ptx a) (mappings s pg p)) \<le> unat r"
  shows "wf_pgdir (wr (f, ptx a) w (upd_page p (\<lambda>q. q\<lparr>pp_ref := r\<rparr>) s)) pg xs"
proof -
  note D = wf_pgdirD [OF wf] and V = wr_view [OF wf d f]
  let ?s = "wr (f, ptx a) w (upd_page p (\<lambda>q. q\<lparr>pp_ref := r\<rparr>) s)"
  note pm = view_pmem [OF wr_upd_page]
  have pts: "pt ?s pg d' = pt s pg d'" for d' using V(1) [of w d'] pm(1) by metis
  have view: "pte_at ?s pg d' t = (if d' = pdx a \<and> t = ptx a then w else pte_at s pg d' t)" if "d' < UDIRS" for d' t
    using V(2) [OF that, of w t] pm(2) by metis
  have map: "mappings ?s pg q = (if q = p then insert (pdx a, ptx a) (mappings s pg q) else mappings s pg q - {(pdx a, ptx a)})" for q
    using mappings_update [OF d, of ?s pg w s q] view w by auto
  have fpg: "f \<noteq> pg" using D(6) [OF d f] by simp
  have Q: "mappable s pg xs q" if "mappings ?s pg q \<noteq> {}" for q
    using that map [of q] p D(8) [of q] by (cases "q = p") (auto simp: mappable_def)
  show ?thesis
    unfolding wf_pgdir_def
  proof (intro conjI allI impI)
    show "pfl_ok ?s xs" using D(1) p by (auto simp: mappable_def intro!: pfl_ok_upd_outside)
    show "\<not> PREMAPPED_FLAG ?s" "pg < npages ?s" "pg \<notin> set xs" using D(2-4) by auto
    show "pmem ?s pg d' AND PTE_PS = 0" if "d' < UDIRS" "pmem ?s pg d' AND PTE_P \<noteq> 0" for d'
      using that D(5) [of d'] fpg by simp
    show "g < npages ?s" "g \<noteq> pg" "g \<notin> set xs" if "d' < UDIRS" "pt ?s pg d' = Some g" for d' g
      using that pts [of d'] D(6) [of d' g] by auto
    show "d1 = d2" if "d1 < UDIRS" "d2 < UDIRS" "pt ?s pg d1 = Some g" "pt ?s pg d2 = Some g" for d1 d2 g
      using that pts D(7) by metis
    have le: "card (mappings s pg q - {(pdx a, ptx a)}) \<le> card (mappings s pg q)" for q by (simp add: card_mono)
    show "card (mappings ?s pg q) \<le> unat (pp_ref (pages ?s q))" for q
      using map [of q] c order_trans [OF le D(9) [of q]] by (cases "q = p") auto
    fix q assume q: "mappings ?s pg q \<noteq> {}"
    show "q < npages ?s" "q \<notin> set xs" "q \<noteq> pg" using Q [OF q] by (auto simp: mappable_def)
    show "pt ?s pg d' \<noteq> Some q" if "d' < UDIRS" for d' using Q [OF q] pts that by (simp add: mappable_def)
    show "page_flags (pages ?s q) AND ALLOC \<noteq> 0" "page_flags (pages ?s q) AND ALLOC_HUGE = 0"
      using Q [OF q] by (auto simp: mappable_def)
  qed
qed

lemma wf_store_view:
  assumes wf: "wf_pgdir s pg xs" and d: "pdx a < UDIRS" and f: "pt s pg (pdx a) = Some f" and d': "d' < UDIRS"
  shows "pte_at (wr (f, ptx a) w (upd_page p g s)) pg d' t = (if d' = pdx a \<and> t = ptx a then w else pte_at s pg d' t)"
  using wr_view(2) [OF wf d f d', of w t] view_pmem(2) [OF wr_upd_page] by metis

text \<open>The part of \<open>page_insert\<close> after the walk: remove what is there, count, store.\<close>

definition insert_rest :: "nat \<Rightarrow> nat \<Rightarrow> u32 \<Rightarrow> u32 \<Rightarrow> pte_ptr \<Rightarrow> kstate \<Rightarrow> (kstate, int) kres" where
  "insert_rest pg p va perm e s =
     (let re_ins_flag = (PTE_ADDR (rd e s) \<noteq> page2pa p) in
      rbind (if rd e s AND PTE_P \<noteq> 0 \<and> re_ins_flag then page_remove (Some pg) va s else Inr ((), s))
        (\<lambda>(_, s).
      let s = (if re_ins_flag then upd_page p (\<lambda>q. q\<lparr>pp_ref := pp_ref q + 1\<rparr>) s else s) in
      Inr (0, wr e (page2pa p OR perm OR PTE_P) s)))"

lemma page_insert_rest:
  assumes "perm AND PTE_P = 0" and "perm AND PTE_PS = 0"
  shows "page_insert (Some pg) (Some p) va perm s =
    rbind (pgdir_walk (Some pg) va CREATE_NORMAL s) (\<lambda>(pte, s).
    case pte of None \<Rightarrow> Inr (- E_NO_MEM, s) | Some e \<Rightarrow> insert_rest pg p va perm e s)"
  unfolding page_insert_def insert_rest_def using assms by simp

lemma new_entry:
  assumes "p < 1048576" and "perm < 0x1000" and "perm AND PTE_P = 0"
  shows "(page2pa p OR perm OR PTE_P) AND PTE_P \<noteq> 0" and "frame (page2pa p OR perm OR PTE_P) = p"
    and "(page2pa p OR perm OR PTE_P) AND 0xFFF = perm OR PTE_P"
proof -
  show "(page2pa p OR perm OR PTE_P) AND PTE_P \<noteq> 0" by (auto simp: flag_tests bit_or_iff mmu_bits)
  have "PTE_ADDR (page2pa p OR perm OR PTE_P) = page2pa p"
    by (rule word_eqI32) (use assms(2) in \<open>auto simp: bit_or_iff mmu_bits dest: low12_clear\<close>)
  then show "frame (page2pa p OR perm OR PTE_P) = p"
    using frame_PTE_ADDR [of "page2pa p OR perm OR PTE_P"] frame_page2pa [OF assms(1)] by simp
  show "(page2pa p OR perm OR PTE_P) AND 0xFFF = perm OR PTE_P"
    unfolding low12_mask
    by (rule word_eqI32) (use assms(2) low12_clear [of perm] in \<open>auto simp: bit_or_iff bit_and_iff bit_mask32 mmu_bits intro: leI ccontr\<close>)
qed

lemma same_addr_frame:
  assumes "p < 1048576"
  shows "PTE_ADDR e = page2pa p \<longleftrightarrow> frame e = p"
  using assms page2pa_frame [of e] frame_page2pa [OF assms] by (metis frame_PTE_ADDR)

lemma ref_Suc:
  fixes r :: "16 word"
  assumes "r \<noteq> 0xFFFF"
  shows "unat (r + 1) = Suc (unat r)"
proof -
  have "r + 1 \<noteq> 0"
  proof
    assume "r + 1 = 0"
    then have "r = - 1" by (simp add: eq_neg_iff_add_eq_0)
    then show False using assms by simp
  qed
  then show ?thesis using unatSuc [of r] by (simp add: add.commute)
qed

text \<open>What \<open>page_insert\<close> promises of the state it returns with 0.\<close>

definition inserted :: "kstate \<Rightarrow> nat \<Rightarrow> nat \<Rightarrow> u32 \<Rightarrow> u32 \<Rightarrow> kstate \<Rightarrow> bool" where
  "inserted s pg p a perm s' \<longleftrightarrow>
     (\<forall>d t. d < UDIRS \<longrightarrow> pte_at s' pg d t =
        (if d = pdx a \<and> t = ptx a then page2pa p OR perm OR PTE_P else pte_at s pg d t)) \<and>
     pp_ref (pages s' p) = pp_ref (pages s p) + (if frame (pte_at s pg (pdx a) (ptx a)) = p then 0 else 1)"

lemma insert_rest_ok:
  assumes wf: "wf_pgdir s pg xs" and d: "pdx a < UDIRS" and f: "pt s pg (pdx a) = Some f" and lru: "lru_chains s"
    and p: "mappable s pg xs p" and perm: "perm < 0x1000" "perm AND PTE_P = 0"
    and r: "pp_ref (pages s p) \<noteq> 0xFFFF"
    and old: "pte_at s pg (pdx a) (ptx a) AND PTE_P \<noteq> 0 \<or> frame (pte_at s pg (pdx a) (ptx a)) \<noteq> p"
  shows "\<exists>s' ys. insert_rest pg p a perm (f, ptx a) s = Inr (0, s') \<and> wf_pgdir s' pg ys \<and> lru_chains s' \<and>
    inserted s pg p a perm s'"
proof -
  note D = wf_pgdirD [OF wf]
  let ?e = "pte_at s pg (pdx a) (ptx a)" and ?w = "page2pa p OR perm OR PTE_P"
  have pb: "p < 1048576" using p D(10) by (simp add: mappable_def)
  note W = new_entry [OF pb perm]
  have rd: "rd (f, ptx a) s = ?e" using f by (simp add: rd_def pte_at_def)
  show ?thesis
  proof (cases "frame ?e = p")
    case True
    then have P: "?e AND PTE_P \<noteq> 0" using old by simp
    then have "(pdx a, ptx a) \<in> mappings s pg p" using d True by (simp add: mappings_def)
    then have c: "card (insert (pdx a, ptx a) (mappings s pg p)) \<le> unat (pp_ref (pages s p))"
      using D(9) [of p] by (simp add: insert_absorb)
    have id: "upd_page p (\<lambda>q. q\<lparr>pp_ref := pp_ref (pages s p)\<rparr>) s = s" by (simp add: upd_page_def)
    have "insert_rest pg p a perm (f, ptx a) s = Inr (0, wr (f, ptx a) ?w s)"
      using rd True same_addr_frame [OF pb] by (simp add: insert_rest_def)
    moreover have "wf_pgdir (wr (f, ptx a) ?w s) pg xs" using wf_store [OF wf d f p W(1,2) c] id by simp
    moreover have "lru_chains (wr (f, ptx a) ?w s)" using lru_chains_pm [OF lru, of "wr (f, ptx a) ?w s"] by simp
    moreover have "inserted s pg p a perm (wr (f, ptx a) ?w s)"
      using True wr_view(2) [OF wf d f] by (simp add: inserted_def)
    ultimately show ?thesis by blast
  next
    case False
    then have na: "PTE_ADDR ?e \<noteq> page2pa p" using same_addr_frame [OF pb] by simp
    have "\<exists>u ys. (if ?e AND PTE_P \<noteq> 0 then page_remove (Some pg) a s else Inr ((), s)) = Inr ((), u) \<and>
      wf_pgdir u pg ys \<and> lru_chains u \<and> mappable u pg ys p \<and> (\<forall>d'. pt u pg d' = pt s pg d') \<and>
      pp_ref (pages u p) = pp_ref (pages s p) \<and> pte_at u pg (pdx a) (ptx a) AND PTE_P = 0 \<and>
      (\<forall>d' t. d' < UDIRS \<longrightarrow> \<not> (d' = pdx a \<and> t = ptx a) \<longrightarrow> pte_at u pg d' t = pte_at s pg d' t)"
    proof (cases "?e AND PTE_P = 0")
      case True
      then show ?thesis using wf lru p by (intro exI [of _ s] exI [of _ xs]) simp
    next
      case P: False
      obtain u where "page_remove (Some pg) a s = Inr ((), u)" "lru_chains u" "npages u = npages s"
        "wf_pgdir u pg (if pp_ref (pages s (frame ?e)) = 1 then frame ?e # xs else xs)"
        "\<forall>d' t. d' < UDIRS \<longrightarrow> pte_at u pg d' t = (if d' = pdx a \<and> t = ptx a then 0 else pte_at s pg d' t)"
        "\<forall>d'. pt u pg d' = pt s pg d'"
        "\<forall>q. pp_ref (pages u q) = (if q = frame ?e then pp_ref (pages s (frame ?e)) - 1 else pp_ref (pages s q))"
        "\<forall>q. q \<noteq> frame ?e \<or> pp_ref (pages s (frame ?e)) \<noteq> 1 \<longrightarrow> page_flags (pages u q) = page_flags (pages s q)"
        using page_remove_ok [OF wf d P refl lru] by blast
      then show ?thesis using P False p d
        by (intro exI [of _ u] exI [of _ "if pp_ref (pages s (frame ?e)) = 1 then frame ?e # xs else xs"])
          (auto simp: mappable_def)
    qed
    then obtain u ys where u: "(if ?e AND PTE_P \<noteq> 0 then page_remove (Some pg) a s else Inr ((), s)) = Inr ((), u)"
      "wf_pgdir u pg ys" "lru_chains u" "mappable u pg ys p" "\<forall>d'. pt u pg d' = pt s pg d'"
      "pp_ref (pages u p) = pp_ref (pages s p)" "pte_at u pg (pdx a) (ptx a) AND PTE_P = 0"
      "\<forall>d' t. d' < UDIRS \<longrightarrow> \<not> (d' = pdx a \<and> t = ptx a) \<longrightarrow> pte_at u pg d' t = pte_at s pg d' t"
      by blast
    let ?s = "wr (f, ptx a) ?w (upd_page p (\<lambda>q. q\<lparr>pp_ref := pp_ref q + 1\<rparr>) u)"
    have fu: "pt u pg (pdx a) = Some f" using u(5) f by simp
    have "(pdx a, ptx a) \<notin> mappings u pg p" using u(7) by (simp add: mappings_def)
    then have "card (insert (pdx a, ptx a) (mappings u pg p)) = Suc (card (mappings u pg p))" by simp
    moreover have "unat (pp_ref (pages u p) + 1) = Suc (unat (pp_ref (pages u p)))" using r u(6) ref_Suc by simp
    ultimately have c: "card (insert (pdx a, ptx a) (mappings u pg p)) \<le> unat (pp_ref (pages u p) + 1)"
      using wf_pgdirD(9) [OF u(2), of p] by simp
    have "insert_rest pg p a perm (f, ptx a) s = Inr (0, ?s)"
      using rd na u(1) by (auto simp: insert_rest_def split: if_splits)
    moreover have "wf_pgdir ?s pg ys" using wf_store [OF u(2) d fu u(4) W(1,2) c] by (simp add: upd_page_def)
    moreover have "lru_chains ?s" using lru_chains_pm [OF u(3), of ?s] by simp
    moreover have "inserted s pg p a perm ?s"
      using False wf_store_view [OF u(2) d fu] u(6,8) by (simp add: inserted_def)
    ultimately show ?thesis by blast
  qed
qed

text \<open>
  The whole of \<open>page_insert\<close>: with a table present, or one free page to make it, the page is mapped
  and nothing else changes; with no table and no free page the answer is \<open>-E_NO_MEM\<close> and the state is
  untouched.
\<close>

lemma page_insert_ok:
  assumes wf: "wf_pgdir s pg xs" and d: "pdx a < UDIRS" and lru: "lru_chains s"
    and p: "mappable s pg xs p" and perm: "perm < 0x1000" "perm AND PTE_P = 0" "perm AND PTE_PS = 0"
    and r: "pp_ref (pages s p) \<noteq> 0xFFFF"
    and old: "pte_at s pg (pdx a) (ptx a) AND PTE_P \<noteq> 0 \<or> frame (pte_at s pg (pdx a) (ptx a)) \<noteq> p"
    and room: "pt s pg (pdx a) \<noteq> None \<or> xs \<noteq> []"
  shows "\<exists>s' ys. page_insert (Some pg) (Some p) a perm s = Inr (0, s') \<and> wf_pgdir s' pg ys \<and> lru_chains s' \<and>
    inserted s pg p a perm s'"
proof (cases "pt s pg (pdx a)")
  case (Some f)
  have c: "CREATE_NORMAL AND CREATE_HUGE = 0" by (simp add: CREATE_NORMAL_def CREATE_HUGE_def)
  show ?thesis
    using page_insert_rest [OF perm(2,3)] walk_present [OF wf d Some c] insert_rest_ok [OF wf d Some lru p perm(1,2) r old]
    by simp
next
  case None
  then obtain x ys where xs: "xs = x # ys" using room by (cases xs) auto
  note wf' = wf [unfolded xs]
  obtain u where u: "pgdir_walk (Some pg) a CREATE_NORMAL s = Inr (Some (x, ptx a), u)" "pm_rest_eq s u" "pfl_ok u ys"
    "pmem u = (pmem s)(x := (\<lambda>_. 0), pg := (pmem s pg)(pdx a := page2pa x OR PTE_P OR PTE_W OR PTE_U))"
    "pages u = (pages s)(x := (pages s x)\<lparr>pp_link := None, page_flags := ALLOC, pp_ref := 1\<rparr>)"
    using walk_create [OF wf' d None] by blast
  note V = walk_create_view [OF wf' d None u(4)]
  have px: "p \<noteq> x" using p xs by (auto simp: mappable_def)
  have "wf_pgdir u pg ys" using walk_create_wf [OF wf' d None u(4,5,2,3)] .
  moreover have "pt u pg (pdx a) = Some x" using V(1) by simp
  moreover have "lru_chains u"
    using lru_chains_pm [OF lru u(2)] u(5) by simp
  moreover have "mappable u pg ys p" using p px xs u(2,5) V(1) by (auto simp: mappable_def pm_rest_eq_def)
  moreover have "pp_ref (pages u p) \<noteq> 0xFFFF" using r px u(5) by simp
  ultimately obtain s' zs where s': "insert_rest pg p a perm (x, ptx a) u = Inr (0, s')" "wf_pgdir s' pg zs" "lru_chains s'"
    "inserted u pg p a perm s'"
    using insert_rest_ok [of u pg ys a x p perm] d perm old V(2) by auto
  moreover have "inserted s pg p a perm s'" using s'(4) V(2) px u(5) d by (simp add: inserted_def)
  ultimately show ?thesis using page_insert_rest [OF perm(2,3)] u(1) by auto
qed

lemma page_insert_no_memory:
  assumes "wf_pgdir s pg []" and "pt s pg (pdx a) = None" and "perm AND PTE_P = 0" "perm AND PTE_PS = 0"
  shows "page_insert (Some pg) (Some p) a perm s = Inr (- E_NO_MEM, s)"
  using walk_no_memory [OF assms(1,2)] page_insert_rest [OF assms(3,4)] by simp

text \<open>The same facts over \<open>vmap\<close>.\<close>

lemma inserted_vmap:
  assumes "inserted s pg p a perm s'" and "pdx b < UDIRS" and "p < 1048576" and "perm < 0x1000" "perm AND PTE_P = 0"
  shows "vmap s' pg b = (if same_page a b then Some (p, perm OR PTE_P) else vmap s pg b)"
  using assms(1,2) new_entry [OF assms(3-5)] by (auto simp: inserted_def vmap_def same_page_def Let_def)

lemma vmap_present: "vmap s pg a = Some (p, q) \<Longrightarrow>
    pte_at s pg (pdx a) (ptx a) AND PTE_P \<noteq> 0 \<and> frame (pte_at s pg (pdx a) (ptx a)) = p"
  by (auto simp: vmap_def Let_def split: if_splits)

lemma removed_vmap:
  assumes "\<forall>d' t. d' < UDIRS \<longrightarrow> pte_at s' pg d' t = (if d' = pdx a \<and> t = ptx a then 0 else pte_at s pg d' t)"
    and "pdx b < UDIRS"
  shows "vmap s' pg b = (if same_page a b then None else vmap s pg b)"
  using assms by (auto simp: vmap_def same_page_def Let_def)

lemma page_lookup_vmap:
  assumes wf: "wf_pgdir s pg xs" and d: "pdx a < UDIRS" and v: "vmap s pg a = Some (p, q)"
  shows "\<exists>e. page_lookup (Some pg) a s = Inr ((Some p, Some e), s) \<and> rd e s AND 0xFFF = q"
proof -
  note e = vmap_present [OF v]
  obtain f where f: "pt s pg (pdx a) = Some f"
    "page_lookup (Some pg) a s = Inr ((Some (frame (pte_at s pg (pdx a) (ptx a))), Some (f, ptx a)), s)"
    using page_lookup_present [OF wf d] e by blast
  then show ?thesis using e v by (auto simp: rd_def pte_at_def vmap_def Let_def)
qed

section \<open>The interface of an address space\<close>

fun del_all :: "('a \<Rightarrow> 's \<Rightarrow> ('s, unit) kres) \<Rightarrow> 'a list \<Rightarrow> 's \<Rightarrow> ('s, unit) kres" where
  "del_all del [] s = Inr ((), s)"
| "del_all del (a # as) s = rbind (del a s) (\<lambda>(_, s). del_all del as s)"

text \<open>
  \<open>ins p a s\<close> maps \<open>p\<close> at \<open>a\<close>, \<open>del a s\<close> removes the mapping, \<open>look s a\<close> is the translation, \<open>dom\<close> the
  addresses in question and \<open>same\<close> relates the addresses of one page.
\<close>

locale address_space =
  fixes ins :: "'p \<Rightarrow> 'a \<Rightarrow> 's \<Rightarrow> ('s, int) kres"
    and del :: "'a \<Rightarrow> 's \<Rightarrow> ('s, unit) kres"
    and look :: "'s \<Rightarrow> 'a \<Rightarrow> 'v option"
    and inv :: "'s \<Rightarrow> bool"
    and dom :: "'a \<Rightarrow> bool"
    and same :: "'a \<Rightarrow> 'a \<Rightarrow> bool"
    and fits :: "'s \<Rightarrow> 'a \<Rightarrow> 'p \<Rightarrow> bool"
    and img :: "'p \<Rightarrow> 'v"
  assumes ins_ok: "inv s \<Longrightarrow> dom a \<Longrightarrow> fits s a p \<Longrightarrow>
          \<exists>s'. ins p a s = Inr (0, s') \<and> inv s' \<and> (\<forall>b. dom b \<longrightarrow> look s' b = (if same a b then Some (img p) else look s b))"
    and del_ok: "inv s \<Longrightarrow> dom a \<Longrightarrow> look s a \<noteq> None \<Longrightarrow>
          \<exists>s'. del a s = Inr ((), s') \<and> inv s' \<and> (\<forall>b. dom b \<longrightarrow> look s' b = (if same a b then None else look s b))"
    and same_refl: "same a a"
begin

lemma ins_del:
  assumes "inv s" and "dom a" and "fits s a p"
  shows "\<exists>s' s''. ins p a s = Inr (0, s') \<and> del a s' = Inr ((), s'') \<and> inv s'' \<and> look s' a = Some (img p) \<and>
    (\<forall>b. dom b \<longrightarrow> look s'' b = (if same a b then None else look s b))"
proof -
  obtain s' where s': "ins p a s = Inr (0, s')" "inv s'"
    "\<forall>b. dom b \<longrightarrow> look s' b = (if same a b then Some (img p) else look s b)"
    using ins_ok [OF assms] by blast
  then have l: "look s' a = Some (img p)" using assms(2) same_refl by simp
  then obtain s'' where "del a s' = Inr ((), s'')" "inv s''"
    "\<forall>b. dom b \<longrightarrow> look s'' b = (if same a b then None else look s' b)"
    using del_ok [OF s'(2) assms(2)] by auto
  then show ?thesis using s' l by auto
qed

lemma del_all_ok:
  assumes "inv s" and "\<forall>a \<in> set as. dom a \<and> look s a \<noteq> None" and "sorted_wrt (\<lambda>a b. \<not> same a b) as"
  shows "\<exists>s'. del_all del as s = Inr ((), s') \<and> inv s' \<and>
    (\<forall>b. dom b \<longrightarrow> look s' b = (if \<exists>a \<in> set as. same a b then None else look s b))"
  using assms
proof (induction as arbitrary: s)
  case Nil
  then show ?case by simp
next
  case (Cons a as)
  obtain t where t: "del a s = Inr ((), t)" "inv t" "\<forall>b. dom b \<longrightarrow> look t b = (if same a b then None else look s b)"
    using del_ok [OF Cons.prems(1), of a] Cons.prems(2) by auto
  have "\<forall>b \<in> set as. dom b \<and> look t b \<noteq> None" using t(3) Cons.prems(2,3) by auto
  from Cons.IH [OF t(2) this] Cons.prems(3) obtain s' where "del_all del as t = Inr ((), s')" "inv s'"
    "\<forall>b. dom b \<longrightarrow> look s' b = (if \<exists>a \<in> set as. same a b then None else look t b)" by auto
  then show ?case using t by auto
qed

end

definition pgdir_inv :: "nat \<Rightarrow> kstate \<Rightarrow> bool" where
  "pgdir_inv pg s \<longleftrightarrow> (\<exists>xs. wf_pgdir s pg xs) \<and> lru_chains s"

text \<open>When \<open>page_insert\<close> can succeed: the page may be mapped and there is a table or a page to make one.\<close>

definition insertable :: "nat \<Rightarrow> kstate \<Rightarrow> u32 \<Rightarrow> nat \<times> u32 \<Rightarrow> bool" where
  "insertable pg s a pf \<longleftrightarrow> (case pf of (p, perm) \<Rightarrow>
     (\<exists>xs. wf_pgdir s pg xs \<and> mappable s pg xs p \<and> (pt s pg (pdx a) \<noteq> None \<or> xs \<noteq> [])) \<and>
     perm < 0x1000 \<and> perm AND PTE_P = 0 \<and> perm AND PTE_PS = 0 \<and> pp_ref (pages s p) \<noteq> 0xFFFF \<and>
     (pte_at s pg (pdx a) (ptx a) AND PTE_P \<noteq> 0 \<or> frame (pte_at s pg (pdx a) (ptx a)) \<noteq> p))"

interpretation asp: address_space "\<lambda>(p, perm) a. page_insert (Some pg) (Some p) a perm" "page_remove (Some pg)"
  "\<lambda>s. vmap s pg" "pgdir_inv pg" "\<lambda>a. pdx a < UDIRS" same_page "insertable pg" "\<lambda>(p, perm). (p, perm OR PTE_P)"
proof unfold_locales
  fix s :: kstate and a and pf :: "nat \<times> u32"
  assume inv: "pgdir_inv pg s" and d: "pdx a < UDIRS"
  then have lru: "lru_chains s" by (simp add: pgdir_inv_def)
  show "\<exists>s'. (case pf of (p, perm) \<Rightarrow> \<lambda>a. page_insert (Some pg) (Some p) a perm) a s = Inr (0, s') \<and> pgdir_inv pg s' \<and>
      (\<forall>b. pdx b < UDIRS \<longrightarrow> vmap s' pg b = (if same_page a b then Some (case pf of (p, perm) \<Rightarrow> (p, perm OR PTE_P)) else vmap s pg b))"
    if "insertable pg s a pf"
  proof -
    obtain p perm xs where pf: "pf = (p, perm)" and wf: "wf_pgdir s pg xs" and m: "mappable s pg xs p"
      and room: "pt s pg (pdx a) \<noteq> None \<or> xs \<noteq> []" and f: "perm < 0x1000" "perm AND PTE_P = 0" "perm AND PTE_PS = 0"
      and r: "pp_ref (pages s p) \<noteq> 0xFFFF"
      and old: "pte_at s pg (pdx a) (ptx a) AND PTE_P \<noteq> 0 \<or> frame (pte_at s pg (pdx a) (ptx a)) \<noteq> p"
      using \<open>insertable pg s a pf\<close> by (cases pf) (auto simp: insertable_def)
    obtain s' ys where s': "page_insert (Some pg) (Some p) a perm s = Inr (0, s')" "wf_pgdir s' pg ys" "lru_chains s'"
      "inserted s pg p a perm s'"
      using page_insert_ok [OF wf d lru m f r old room] by blast
    have "p < 1048576" using m wf_pgdirD(10) [OF wf] by (simp add: mappable_def)
    then show ?thesis using pf s' inserted_vmap [OF s'(4)] f(1,2) by (auto simp: pgdir_inv_def)
  qed
  show "\<exists>s'. page_remove (Some pg) a s = Inr ((), s') \<and> pgdir_inv pg s' \<and>
      (\<forall>b. pdx b < UDIRS \<longrightarrow> vmap s' pg b = (if same_page a b then None else vmap s pg b))"
    if "vmap s pg a \<noteq> None"
  proof -
    obtain xs where wf: "wf_pgdir s pg xs" using inv by (auto simp: pgdir_inv_def)
    have e: "pte_at s pg (pdx a) (ptx a) AND PTE_P \<noteq> 0" using vmap_present \<open>vmap s pg a \<noteq> None\<close> by fastforce
    obtain s' ys where s': "page_remove (Some pg) a s = Inr ((), s')" "lru_chains s'" "wf_pgdir s' pg ys"
      "\<forall>d' t. d' < UDIRS \<longrightarrow> pte_at s' pg d' t = (if d' = pdx a \<and> t = ptx a then 0 else pte_at s pg d' t)"
      using page_remove_ok [OF wf d e refl lru] by blast
    then show ?thesis using removed_vmap [OF s'(4)] by (auto simp: pgdir_inv_def)
  qed
qed (simp add: same_page_def)

section \<open>Checking user memory\<close>

lemma walk_view:
  assumes "wf_pgdir s pg xs" and "pdx a < UDIRS"
  shows "pgdir_walk (Some pg) a 0 s = Inr (map_option (\<lambda>f. (f, ptx a)) (pt s pg (pdx a)), s)"
  using walk_present [OF assms, of _ 0] walk_absent [of s pg a] by (cases "pt s pg (pdx a)") auto

definition permits :: "kstate \<Rightarrow> nat \<Rightarrow> u32 \<Rightarrow> u32 \<Rightarrow> bool" where
  "permits s pg perm a \<longleftrightarrow> pte_at s pg (pdx a) (ptx a) AND PTE_P \<noteq> 0 \<and> pte_at s pg (pdx a) (ptx a) AND perm = perm"

definition page_no :: "u32 \<Rightarrow> nat \<Rightarrow> u32" where
  "page_no low i = low + PGSIZE * of_nat i"

lemma user_mem_loop_step:
  assumes "wf_pgdir s pg xs" and "pdx (page_no low i) < UDIRS" and "low + PGSIZE \<le> ULIM"
  shows "user_mem_loop (Suc n) i (Some pg) va low perm s =
    (if permits s pg perm (page_no low i) then user_mem_loop n (Suc i) (Some pg) va low perm s
     else Inr (- E_FAULT, s\<lparr>user_mem_check_addr := (if page_no low i < va then va + PGSIZE * of_nat i else page_no low i)\<rparr>))"
  using walk_view [OF assms(1,2)] assms(3)
  by (auto simp: page_no_def permits_def pte_at_def rd_def not_less mult.commute [of PGSIZE] split: option.splits)

lemma user_mem_loop_ok:
  assumes "wf_pgdir s pg xs" and "low + PGSIZE \<le> ULIM" and "\<forall>i < n. pdx (page_no low (k + i)) < UDIRS"
  shows "user_mem_loop n k (Some pg) va low perm s =
    (if \<forall>i < n. permits s pg perm (page_no low (k + i)) then Inr (0, s)
     else let j = (LEAST j. \<not> permits s pg perm (page_no low (k + j))) + k in
       Inr (- E_FAULT, s\<lparr>user_mem_check_addr := (if page_no low j < va then va + PGSIZE * of_nat j else page_no low j)\<rparr>))"
  using assms(3)
proof (induction n arbitrary: k)
  case 0
  then show ?case by simp
next
  case (Suc n)
  have st: "pdx (page_no low k) < UDIRS" using Suc.prems by (metis add.right_neutral zero_less_Suc)
  note step = user_mem_loop_step [OF assms(1) st assms(2), of n va perm]
  show ?case
  proof (cases "permits s pg perm (page_no low k)")
    case False
    then have "(LEAST j. \<not> permits s pg perm (page_no low (k + j))) = 0" by (intro Least_equality) auto
    then show ?thesis using step False by (auto simp: Let_def intro: exI [of _ 0])
  next
    case True
    have all: "(\<forall>i < Suc n. permits s pg perm (page_no low (k + i))) \<longleftrightarrow> (\<forall>i < n. permits s pg perm (page_no low (Suc k + i)))"
      using True by (auto simp: less_Suc_eq_0_disj)
    have "\<forall>i < n. pdx (page_no low (Suc k + i)) < UDIRS" using Suc.prems by (metis Suc_less_eq add_Suc add_Suc_right)
    note IH = Suc.IH [OF this]
    have L: "(LEAST j. \<not> permits s pg perm (page_no low (k + j))) = Suc (LEAST j. \<not> permits s pg perm (page_no low (k + Suc j)))"
      if "\<not> (\<forall>i < n. permits s pg perm (page_no low (Suc k + i)))"
    proof -
      from that obtain i where "\<not> permits s pg perm (page_no low (k + Suc i))" by auto
      then show ?thesis using Least_Suc [of "\<lambda>j. \<not> permits s pg perm (page_no low (k + j))" "Suc i"] True by simp
    qed
    show ?thesis using step True all IH L by (auto simp: Let_def)
  qed
qed

lemma unat_field: "unat (drop_bit k a AND 0x3FF :: u32) = unat a div 2 ^ k mod 1024"
proof -
  have "(drop_bit k a AND 0x3FF :: u32) = take_bit 10 (drop_bit k a)"
    by (simp add: take_bit_eq_mask mask_eq_exp_minus_1)
  then have "unat (drop_bit k a AND 0x3FF :: u32) = take_bit 10 (drop_bit k (unat a))"
    by (simp only: unsigned_take_bit_eq unat_drop_bit_eq)
  then show ?thesis by (simp add: take_bit_eq_mod drop_bit_eq_div)
qed

lemma pdx_ptx_div: "pdx a = unat a div 4194304 mod 1024" "ptx a = unat a div 4096 mod 1024"
  using unat_field [of 22 a] unat_field [of 12 a] by (simp_all add: pdx_def PDX_def ptx_def PTX_def)

lemma unat_UTOP: "unat UTOP = UDIRS * 4194304"
  by (simp add: UDIRS_eq layout_defs)

lemma below_UTOP: "unat a < unat UTOP \<Longrightarrow> pdx a < UDIRS"
  by (simp add: unat_UTOP pdx_ptx_div UDIRS_eq less_mult_imp_div_less)

lemma permits_page: "unat a div 4096 = unat b div 4096 \<Longrightarrow> permits s pg perm a = permits s pg perm b"
proof -
  assume e: "unat a div 4096 = unat b div 4096"
  have "unat x div 4194304 = unat x div 4096 div 1024" for x :: u32 by (simp add: div_mult2_eq)
  then have "pdx a = pdx b" "ptx a = ptx b" using e by (simp_all add: pdx_ptx_div)
  then show ?thesis by (simp add: permits_def)
qed

lemma unat_page_no:
  assumes "4096 * (unat va div 4096) + 4096 * i < 4294967296"
  shows "unat (page_no (ROUNDDOWN va PGSIZE) i) = 4096 * (unat va div 4096) + 4096 * i"
proof -
  have "unat (of_nat i :: u32) = i" using assms by (simp add: unat_of_nat take_bit_nat_eq_self)
  then have "unat (PGSIZE * of_nat i :: u32) = 4096 * i" using assms by (simp add: unat_word_ariths)
  then show ?thesis using assms unfolding page_no_def unat_word_ariths ROUNDDOWN_PGSIZE by simp
qed

text \<open>The pages of a range that does not wrap around are the pages of its addresses.\<close>

definition range_pages :: "u32 \<Rightarrow> u32 \<Rightarrow> nat" where
  "range_pages va sz = (unat va mod 4096 + unat sz + 4095) div 4096"

lemma pages_nat:
  fixes v n i :: nat
  shows "0 < n \<Longrightarrow> i < (v mod 4096 + n + 4095) div 4096 \<longleftrightarrow> 4096 * (v div 4096) + 4096 * i < v + n"
proof -
  assume n: "0 < n"
  define d m where "d = v div 4096" and "m = v mod 4096"
  have v: "v = 4096 * d + m" by (simp add: d_def m_def)
  have "i < (m + n + 4095) div 4096 \<longleftrightarrow> Suc i * 4096 \<le> m + n + 4095"
    by (simp only: Suc_le_eq [symmetric] less_eq_div_iff_mult_less_eq zero_less_numeral)
  also have "\<dots> \<longleftrightarrow> 4096 * d + 4096 * i < v + n" using n v by auto
  finally show ?thesis unfolding d_def m_def .
qed

lemma range_pages_code:
  assumes "unat va + unat sz \<le> unat UTOP"
  shows "unat (ROUNDUP (sz + (va - ROUNDDOWN va PGSIZE)) PGSIZE div PGSIZE) = range_pages va sz"
proof -
  have "unat (va - ROUNDDOWN va PGSIZE) = unat va mod 4096"
    by (simp add: ROUNDDOWN_def unat_mod4096)
  moreover have "unat sz + unat va mod 4096 \<le> 4005560320"
    using assms by (intro order_trans [OF _ assms [unfolded unat_UTOP UDIRS_eq, simplified]]) simp
  ultimately have u: "unat (sz + (va - ROUNDDOWN va PGSIZE)) = unat sz + unat va mod 4096"
    "unat (sz + (va - ROUNDDOWN va PGSIZE)) \<le> 4294963200"
    by (simp_all add: unat_add_lem [THEN iffD1])
  have "unat (ROUNDUP (sz + (va - ROUNDDOWN va PGSIZE)) PGSIZE) = 4096 * range_pages va sz"
    unfolding ROUNDUP_PGSIZE [OF u(2)] u(1) range_pages_def by (simp only: add.commute)
  then show ?thesis unfolding unat_div by simp
qed

lemma page_start_le: "i \<noteq> 0 \<Longrightarrow> v \<le> 4096 * (v div 4096) + 4096 * (i :: nat)"
proof -
  assume "i \<noteq> 0"
  have "v mod 4096 < 4096" by simp
  then have "v mod 4096 \<le> 4096 * i" using \<open>i \<noteq> 0\<close> by (cases i) auto
  moreover have "v = 4096 * (v div 4096) + v mod 4096" by simp
  ultimately show ?thesis by (metis add_left_mono)
qed

lemma page_no_in_range:
  assumes sz: "0 < sz" and top: "unat va + unat sz \<le> unat UTOP" and i: "i < range_pages va sz"
  shows "unat (page_no (ROUNDDOWN va PGSIZE) i) = 4096 * (unat va div 4096) + 4096 * i"
    "4096 * (unat va div 4096) + 4096 * i < unat va + unat sz" "pdx (page_no (ROUNDDOWN va PGSIZE) i) < UDIRS"
proof -
  have "0 < unat sz" using sz by (simp add: word_gt_0 unat_gt_0)
  then show lt: "4096 * (unat va div 4096) + 4096 * i < unat va + unat sz"
    using i by (simp only: range_pages_def pages_nat)
  then show u: "unat (page_no (ROUNDDOWN va PGSIZE) i) = 4096 * (unat va div 4096) + 4096 * i"
    using top by (intro unat_page_no) (simp add: unat_UTOP UDIRS_eq)
  show "pdx (page_no (ROUNDDOWN va PGSIZE) i) < UDIRS" using lt top by (intro below_UTOP) (simp add: u)
qed

lemma address_page:
  assumes sz: "0 < sz" and top: "unat va + unat sz \<le> unat UTOP" and a: "va \<le> a" "unat a < unat va + unat sz"
  defines "i \<equiv> unat a div 4096 - unat va div 4096"
  shows "i < range_pages va sz" "unat (page_no (ROUNDDOWN va PGSIZE) i) = 4096 * (unat a div 4096)"
    "permits s pg perm (page_no (ROUNDDOWN va PGSIZE) i) = permits s pg perm a"
proof -
  have le: "unat va div 4096 \<le> unat a div 4096" using a(1) by (simp add: word_le_nat_alt div_le_mono)
  have "0 < unat sz" using sz by (simp add: word_gt_0 unat_gt_0)
  moreover have "4096 * (unat va div 4096) + 4096 * i = 4096 * (unat a div 4096)"
    using le by (simp add: i_def diff_mult_distrib2)
  moreover have "4096 * (unat a div 4096) < unat va + unat sz" using a(2) by (rule le_less_trans [rotated]) simp
  ultimately show i: "i < range_pages va sz" by (simp only: range_pages_def pages_nat)
  show u: "unat (page_no (ROUNDDOWN va PGSIZE) i) = 4096 * (unat a div 4096)"
    using page_no_in_range(1) [OF sz top i] le by (simp add: i_def algebra_simps)
  then show "permits s pg perm (page_no (ROUNDDOWN va PGSIZE) i) = permits s pg perm a"
    by (intro permits_page) simp
qed

text \<open>A size that makes the rounded length wrap around leaves no page to test.\<close>

lemma user_mem_check_wraps:
  assumes "4294963200 < unat (sz + (va - ROUNDDOWN va PGSIZE)) \<or> sz + (va - ROUNDDOWN va PGSIZE) = 0"
  shows "user_mem_check e va sz perm s = Inr (0, s)"
proof -
  have "ROUNDUP (sz + (va - ROUNDDOWN va PGSIZE)) PGSIZE = 0"
    using assms ROUNDUP_PGSIZE_wraps by (auto simp: ROUNDUP_def ROUNDDOWN_def)
  then show ?thesis by (simp add: user_mem_check_def Let_def)
qed

lemma range_low:
  assumes "0 < sz" and "unat va + unat sz \<le> unat UTOP"
  shows "ROUNDDOWN va PGSIZE + PGSIZE \<le> ULIM"
proof -
  have "0 < unat sz" using assms(1) by (simp add: word_gt_0 unat_gt_0)
  then have "unat va < 955 * 4194304" using assms(2) by (simp add: unat_UTOP UDIRS_eq)
  then have d: "unat va div 4096 < 955 * 1024" by (simp add: less_mult_imp_div_less)
  then have "unat (ROUNDDOWN va PGSIZE + PGSIZE) = 4096 * (unat va div 4096) + 4096"
    unfolding unat_word_ariths ROUNDDOWN_PGSIZE by simp
  then show ?thesis using d by (simp add: word_le_nat_alt layout_defs)
qed

lemma user_mem_check_pages:
  assumes "wf_pgdir s pg xs" and "env_pgdir (envs s e) = Some pg" and sz: "0 < sz" and top: "unat va + unat sz \<le> unat UTOP"
  defines "low \<equiv> ROUNDDOWN va PGSIZE"
  shows "user_mem_check e va sz perm s =
    (if \<forall>i < range_pages va sz. permits s pg perm (page_no low i) then Inr (0, s)
     else let j = LEAST j. \<not> permits s pg perm (page_no low j) in
       Inr (- E_FAULT, s\<lparr>user_mem_check_addr := (if page_no low j < va then va + PGSIZE * of_nat j else page_no low j)\<rparr>))"
proof -
  have "\<forall>i < range_pages va sz. pdx (page_no low (0 + i)) < UDIRS"
    using page_no_in_range(3) [OF sz top] by (simp add: low_def)
  note L = user_mem_loop_ok [OF assms(1) range_low [OF sz top, folded low_def] this, of va perm]
  have "user_mem_check e va sz perm s = user_mem_loop (range_pages va sz) 0 (Some pg) va low perm s"
    using assms(2) range_pages_code [OF top] by (simp add: user_mem_check_def Let_def low_def)
  then show ?thesis using L by (simp only: add_0 add_0_right)
qed

lemma range_permitted:
  assumes sz: "0 < sz" and top: "unat va + unat sz \<le> unat UTOP" and i: "i < range_pages va sz"
    and all: "\<forall>a. va \<le> a \<and> unat a < unat va + unat sz \<longrightarrow> permits s pg perm a"
  shows "permits s pg perm (page_no (ROUNDDOWN va PGSIZE) i)"
proof (cases "i = 0")
  case True
  have "permits s pg perm va" using all sz by (simp add: word_gt_0 unat_gt_0)
  then show ?thesis using address_page(3) [OF sz top, of va] sz True by (simp add: word_gt_0 unat_gt_0)
next
  case False
  then show ?thesis using all page_no_in_range(1,2) [OF sz top i] page_start_le by (simp add: word_le_nat_alt)
qed

text \<open>The first address of the range that fails is the start of the range or of a page, and its page is the first to fail.\<close>

lemma first_failing:
  assumes sz: "0 < (sz :: u32)" and top: "unat va + unat sz \<le> unat UTOP" and a: "va \<le> a" "unat a < unat va + unat sz"
    and f: "\<not> permits s pg perm a" "\<forall>b. va \<le> b \<and> b < a \<longrightarrow> permits s pg perm b"
  defines "i \<equiv> unat a div 4096 - unat va div 4096" and "low \<equiv> ROUNDDOWN va PGSIZE"
  shows "(LEAST j. \<not> permits s pg perm (page_no low j)) = i"
    and "if page_no low i < va then i = 0 \<and> a = va else page_no low i = a"
proof -
  note A = address_page [OF sz top a, folded i_def low_def]
  note R = page_no_in_range(1) [OF sz top, folded low_def]
  have va: "permits s pg perm (page_no low 0) = permits s pg perm va"
    using address_page(3) [OF sz top, of va] sz by (simp add: word_gt_0 unat_gt_0 low_def)
  have "permits s pg perm (page_no low j)" if "j < i" for j
  proof (cases "j = 0")
    case True
    have "va \<noteq> a" using that i_def by auto
    then show ?thesis using a f(2) va True by (simp add: less_le)
  next
    case False
    have j: "j < range_pages va sz" using that A(1) by simp
    have "unat va div 4096 + j < unat a div 4096" using that unfolding i_def by (simp only: less_diff_conv add.commute)
    then have "4096 * (unat va div 4096) + 4096 * j < 4096 * (unat a div 4096)"
      by (simp only: distrib_left [symmetric] mult_less_cancel1 zero_less_numeral simp_thms)
    also have "\<dots> \<le> unat a" by simp
    finally have "page_no low j < a" using R [OF j] by (simp add: word_less_nat_alt)
    then show ?thesis using f(2) R [OF j] False page_start_le by (simp add: word_le_nat_alt)
  qed
  then show "(LEAST j. \<not> permits s pg perm (page_no low j)) = i"
    using A(3) f(1) by (intro Least_equality) (auto simp: not_le [symmetric])
  have le: "page_no low i \<le> a" using A(2) by (simp add: word_le_nat_alt)
  show "if page_no low i < va then i = 0 \<and> a = va else page_no low i = a"
  proof (cases "va < a")
    case True
    then have "i \<noteq> 0" using va A(3) f by (metis order_refl)
    then have "va \<le> page_no low i" using R [OF A(1)] page_start_le by (simp add: word_le_nat_alt)
    moreover from this have "page_no low i = a" using f(2) le A(3) f(1) by (metis le_less)
    ultimately show ?thesis by auto
  next
    case False
    then have "a = va" using a(1) by simp
    then show ?thesis using le by (auto simp: i_def le_less)
  qed
qed

section \<open>Properties\<close>

lemma sample_k_wf: "wf_pgdir sample_k 1 [3, 2]" "\<And>d. pt sample_k 1 d = None"
proof -
  show pt: "pt sample_k 1 d = None" for d by (simp add: pt_def sample_k_fields)
  have "mappings sample_k 1 p = {}" for p using pt by (simp add: mappings_def pte_at_def)
  then show "wf_pgdir sample_k 1 [3, 2]"
    using pt sample_k_ok sample_k_fields by (simp add: wf_pgdir_def)
qed

lemma sample_k_insertable: "insertable 1 sample_k 0x00800000 (4, PTE_W)"
proof -
  have "mappable sample_k 1 [3, 2] 4" using sample_k_wf(2) sample_k_fields by (simp add: mappable_def ALLOC_def ALLOC_HUGE_def)
  then show ?thesis using sample_k_wf sample_k_fields
    by (auto simp: insertable_def pte_at_def PTE_W_def PTE_P_def PTE_PS_def frame_def PGNUM_def)
qed

lemma sample_k_inv: "pgdir_inv 1 sample_k"
  using sample_k_wf(1) sample_k_ok(2) by (auto simp: pgdir_inv_def)

lemma user_pdx: "pdx 0x00800000 < UDIRS"
  by (simp add: UDIRS_eq pdx_def PDX_def)

text \<open>
  C1: \<open>page_insert\<close> of a mappable page at a user address, with a table present or a free page to make
  one, returns 0 and changes the translation of exactly that page to the frame and the permissions
  asked for, removing what was mapped there; \<open>page_lookup\<close> then finds the page, \<open>page_remove\<close>
  takes the mapping away again, and the page directory stays well formed throughout.
\<close>

theorem page_insert_lookup_remove:
  assumes "pgdir_inv pg s" and "pdx a < UDIRS" and "insertable pg s a (p, perm)"
  shows "\<exists>s' s'' e. page_insert (Some pg) (Some p) a perm s = Inr (0, s') \<and> pgdir_inv pg s' \<and>
    (\<forall>b. pdx b < UDIRS \<longrightarrow> vmap s' pg b = (if same_page a b then Some (p, perm OR PTE_P) else vmap s pg b)) \<and>
    page_lookup (Some pg) a s' = Inr ((Some p, Some e), s') \<and>
    page_remove (Some pg) a s' = Inr ((), s'') \<and> pgdir_inv pg s'' \<and>
    (\<forall>b. pdx b < UDIRS \<longrightarrow> vmap s'' pg b = (if same_page a b then None else vmap s pg b))"
proof -
  obtain s' where s': "page_insert (Some pg) (Some p) a perm s = Inr (0, s')" "pgdir_inv pg s'"
    "\<forall>b. pdx b < UDIRS \<longrightarrow> vmap s' pg b = (if same_page a b then Some (p, perm OR PTE_P) else vmap s pg b)"
    using asp.ins_ok [OF assms] by auto
  have v: "vmap s' pg a = Some (p, perm OR PTE_P)" using s'(3) assms(2) by (simp add: same_page_def)
  obtain xs where "wf_pgdir s' pg xs" using s'(2) by (auto simp: pgdir_inv_def)
  then obtain e where "page_lookup (Some pg) a s' = Inr ((Some p, Some e), s')"
    using page_lookup_vmap assms(2) v by blast
  moreover obtain s'' where "page_remove (Some pg) a s' = Inr ((), s'')" "pgdir_inv pg s''"
    "\<forall>b. pdx b < UDIRS \<longrightarrow> vmap s'' pg b = (if same_page a b then None else vmap s' pg b)"
    using asp.del_ok [OF s'(2) assms(2)] v by auto
  ultimately show ?thesis using s' by (intro exI [of _ s'] exI [of _ s''] exI [of _ e]) auto
qed

theorem page_insert_lookup_remove_witness:
  "\<exists>s' s''. page_insert (Some 1) (Some 4) 0x00800000 PTE_W sample_k = Inr (0, s') \<and>
    vmap s' 1 0x00800000 = Some (4, PTE_W OR PTE_P) \<and> page_remove (Some 1) 0x00800000 s' = Inr ((), s'') \<and>
    vmap s'' 1 0x00800000 = None"
  using page_insert_lookup_remove [OF sample_k_inv user_pdx sample_k_insertable] user_pdx
  by (auto simp: same_page_def)

text \<open>
  \<open>page_insert\<close> with no page table and no free page returns \<open>-E_NO_MEM\<close> and changes nothing; a
  null page or a permission with the present bit stops the kernel.
\<close>

lemma page_insert_errors:
  "(wf_pgdir s pg [] \<and> pt s pg (pdx a) = None \<and> perm AND PTE_P = 0 \<and> perm AND PTE_PS = 0 \<longrightarrow>
     page_insert (Some pg) (Some p) a perm s = Inr (- E_NO_MEM, s)) \<and>
   (\<exists>m. page_insert (Some pg) None a perm s = Inl (Panic m)) \<and>
   (perm AND PTE_P \<noteq> 0 \<longrightarrow> (\<exists>m. page_insert (Some pg) (Some p) a perm s = Inl (Panic m)))"
  using page_insert_no_memory [of s pg a perm p] by (simp add: page_insert_def)

text \<open>
  C23: \<open>user_mem_check\<close> on a range that is not empty and lies below \<open>UTOP\<close>, so that its rounded length does not wrap
  around, and on a well-formed page directory.  It returns 0 when every address of the range is present with the wanted
  permissions; otherwise it returns \<open>-E_FAULT\<close>, records the first address of the range that is not, and changes
  nothing else.
\<close>

theorem user_mem_check_exact:
  assumes "wf_pgdir s pg xs" and "env_pgdir (envs s e) = Some pg" and sz: "0 < sz" and top: "unat va + unat sz \<le> unat UTOP"
  shows "((\<forall>a. va \<le> a \<and> unat a < unat va + unat sz \<longrightarrow> permits s pg perm a) \<longrightarrow> user_mem_check e va sz perm s = Inr (0, s)) \<and>
    (\<forall>a. va \<le> a \<and> unat a < unat va + unat sz \<and> \<not> permits s pg perm a \<and> (\<forall>b. va \<le> b \<and> b < a \<longrightarrow> permits s pg perm b) \<longrightarrow>
       user_mem_check e va sz perm s = Inr (- E_FAULT, s\<lparr>user_mem_check_addr := a\<rparr>))"
proof (intro conjI allI impI)
  note M = user_mem_check_pages [OF assms, of perm]
  show "user_mem_check e va sz perm s = Inr (0, s)"
    if "\<forall>a. va \<le> a \<and> unat a < unat va + unat sz \<longrightarrow> permits s pg perm a"
    using M range_permitted [OF sz top _ that] by simp
  fix a
  assume a: "va \<le> a \<and> unat a < unat va + unat sz \<and> \<not> permits s pg perm a \<and> (\<forall>b. va \<le> b \<and> b < a \<longrightarrow> permits s pg perm b)"
  define i where "i = unat a div 4096 - unat va div 4096"
  have F: "(LEAST j. \<not> permits s pg perm (page_no (ROUNDDOWN va PGSIZE) j)) = i"
    "if page_no (ROUNDDOWN va PGSIZE) i < va then i = 0 \<and> a = va else page_no (ROUNDDOWN va PGSIZE) i = a"
    unfolding i_def using first_failing [OF sz top, of a s pg perm] a by blast+
  have "(if page_no (ROUNDDOWN va PGSIZE) i < va then va + PGSIZE * of_nat i else page_no (ROUNDDOWN va PGSIZE) i) = a"
    using F(2) by (auto split: if_splits)
  moreover have "\<not> (\<forall>j < range_pages va sz. permits s pg perm (page_no (ROUNDDOWN va PGSIZE) j))"
    using address_page(1,3) [OF sz top, of a] a by blast
  ultimately show "user_mem_check e va sz perm s = Inr (- E_FAULT, s\<lparr>user_mem_check_addr := a\<rparr>)"
    using M F(1) by (simp only: Let_def if_False)
qed

theorem user_mem_check_exact_witness:
  "user_mem_check 5 0x00800010 0x2000 PTE_U (upd_env 5 (\<lambda>e. e\<lparr>env_pgdir := Some 1\<rparr>) sample_k) =
     Inr (- E_FAULT, (upd_env 5 (\<lambda>e. e\<lparr>env_pgdir := Some 1\<rparr>) sample_k)\<lparr>user_mem_check_addr := 0x00800010\<rparr>)"
proof -
  let ?s = "upd_env 5 (\<lambda>e. e\<lparr>env_pgdir := Some 1\<rparr>) sample_k"
  have pf: "PREMAPPED_FLAG ?s = PREMAPPED_FLAG sample_k" by (simp add: upd_env_def)
  have pt: "pt ?s 1 d = None" for d using sample_k_fields by (simp add: pt_def)
  have "mappings ?s 1 p = {}" for p using pt by (simp add: mappings_def pte_at_def)
  then have wf: "wf_pgdir ?s 1 [3, 2]" using pt sample_k_ok sample_k_fields pf by (simp add: wf_pgdir_def)
  have "\<not> permits ?s 1 PTE_U 0x00800010" using pt by (simp add: permits_def pte_at_def)
  then show ?thesis using user_mem_check_exact [OF wf, of 5 "0x2000" "0x00800010" PTE_U]
    by (auto simp: unat_UTOP UDIRS_eq)
qed

end
