(* ===== verification/Frame.thy ===== *)
theory Frame
  imports VirtMap
begin

text \<open>
  What the operations leave alone, and how they can stop.  \<open>framed R s m\<close> says of a computation \<open>m\<close> that its
  final state is related to \<open>s\<close> by \<open>R\<close>, and that it neither enters a user environment nor halts nor drops into
  the monitor: it returns or fails inside the kernel.  The facts hold for every state, with no invariant
  assumed.

  \<open>pm_only\<close>: only the page allocator changes; \<open>lru_only\<close>: also the page lists; \<open>vm_only\<close>: also the log of
  invalidated addresses, the frame of the page-table routines.
\<close>

named_theorems framed_ops
  \<open>the frame facts of the page allocator\<close>

section \<open>Frames\<close>

definition quiet :: "'s stop \<Rightarrow> bool" where
  "quiet e \<longleftrightarrow> (case e of EnterUser _ _ \<Rightarrow> False | Halted _ \<Rightarrow> False | InMonitor _ \<Rightarrow> False | _ \<Rightarrow> True)"

lemma quiet_simps [simp]:
  "quiet (Panic m)" "quiet (AssertFail m)" "quiet NullDeref" "quiet OutOfBounds" "quiet Diverge" "quiet Blocked"
  "quiet (PageFault a)" "\<not> quiet (EnterUser e s)" "\<not> quiet (Halted s)" "\<not> quiet (InMonitor s)"
  by (simp_all add: quiet_def)

definition calm :: "'s stop + 'a \<Rightarrow> bool" where
  "calm m \<longleftrightarrow> (\<forall>e. m = Inl e \<longrightarrow> quiet e)"

definition framed :: "('s \<Rightarrow> 's \<Rightarrow> bool) \<Rightarrow> 's \<Rightarrow> ('s, 'a) kres \<Rightarrow> bool" where
  "framed R s m \<longleftrightarrow> calm m \<and> (\<forall>r s'. m = Inr (r, s') \<longrightarrow> R s s')"

lemma calm_simps [simp]: "calm (Inr x)" "calm (Inl e) = quiet e"
  by (simp_all add: calm_def)

lemma framed_simps [simp]: "framed R s (Inl e) = quiet e" "framed R s (Inr p) = R s (snd p)"
  by (cases p; auto simp: framed_def)+

lemma framed_bind:
  "framed R s m \<Longrightarrow> (\<And>r s'. R s s' \<Longrightarrow> framed R s (f (r, s'))) \<Longrightarrow> framed R s (rbind m f)"
  by (cases m) (auto simp: rbind_def framed_def calm_def)

lemma framed_pure:
  "calm m \<Longrightarrow> (\<And>x. framed R s (f x)) \<Longrightarrow> framed R s (rbind m f)"
  by (cases m) (auto simp: rbind_def framed_def calm_def)

lemma framed_mono: "framed R s m \<Longrightarrow> (\<And>s'. R s s' \<Longrightarrow> Q s s') \<Longrightarrow> framed Q s m"
  by (auto simp: framed_def)

lemma calm_bind: "calm m \<Longrightarrow> (\<And>x. calm (f x)) \<Longrightarrow> calm (rbind m f)"
  by (cases m) (auto simp: rbind_def calm_def)

lemma framed_if: "(b \<Longrightarrow> framed R s m) \<Longrightarrow> (\<not> b \<Longrightarrow> framed R s n) \<Longrightarrow> framed R s (if b then m else n)" by simp
lemma framed_option: "(p = None \<Longrightarrow> framed R s m) \<Longrightarrow> (\<And>x. p = Some x \<Longrightarrow> framed R s (f x)) \<Longrightarrow>
   framed R s (case p of None \<Rightarrow> m | Some x \<Rightarrow> f x)" by (cases p) simp_all
lemma framed_prod: "(\<And>x y. p = (x, y) \<Longrightarrow> framed R s (f x y)) \<Longrightarrow> framed R s (case p of (x, y) \<Rightarrow> f x y)" by (cases p) simp

lemma calm_KADDR [simp]: "calm (KADDR pa s)" by (simp add: KADDR_def)
lemma calm_pa2page [simp]: "calm (pa2page pa s)" by (simp add: pa2page_def)
lemma calm_page2kva [simp]: "calm (page2kva p s)" by (simp add: page2kva_def)
lemma calm_PADDR [simp]: "calm (PADDR a :: 's stop + _)" by (simp add: PADDR_def)

lemmas framed_pures = framed_pure [OF calm_KADDR] framed_pure [OF calm_pa2page] framed_pure [OF calm_page2kva] framed_pure [OF calm_PADDR]

lemmas framed_struct = framed_pures framed_bind framed_if framed_option framed_prod

section \<open>The page allocator\<close>

definition pm_only :: "'z pm_state_scheme \<Rightarrow> 'z pm_state_scheme \<Rightarrow> bool" where
  "pm_only s t \<longleftrightarrow> pm_state.more t = pm_state.more s"

lemma pm_only_refl [simp]: "pm_only s s" by (simp add: pm_only_def)

lemma pm_only_upd [simp]:
  "pm_only s (upd_page i f t) = pm_only s t" "pm_only s (memset_page fr w t) = pm_only s t"
  "pm_only s (write_mem fr k w t) = pm_only s t"
  "pm_only s (wr p w t) = pm_only s t" "pm_only s (add_head_pfl i t) = pm_only s t"
  "pm_only s (t\<lparr>page_free_list := l\<rparr>) = pm_only s t" "pm_only s (t\<lparr>free_pages_count := c\<rparr>) = pm_only s t"
  "pm_only s (set_lru_link i v t) = pm_only s t"
  by (simp_all add: pm_only_def upd_page_def memset_page_def wr_def write_mem_def add_head_pfl_def set_lru_link_def Let_def)

lemma dec_free_count_framed [framed_ops]: "pm_only s t \<Longrightarrow> framed pm_only s (dec_free_count t)"
  by (simp add: dec_free_count_def)

lemma poison_mark_framed [framed_ops]: "pm_only s t \<Longrightarrow> framed pm_only s (poison_mark a i t)"
  by (simp add: poison_mark_def)

lemma zero_fill_framed [framed_ops]: "pm_only s t \<Longrightarrow> framed pm_only s (zero_fill a i t)"
  by (auto simp: zero_fill_def intro!: framed_struct)

lemma remove_head_pfl_framed [framed_ops]: "pm_only s t \<Longrightarrow> framed pm_only s (remove_head_pfl t)"
  by (auto simp: remove_head_pfl_def Let_def intro!: framed_struct framed_ops)

lemma remove_element_pfl_framed [framed_ops]: "pm_only s t \<Longrightarrow> framed pm_only s (remove_element_pfl i t)"
  by (auto simp: remove_element_pfl_def Let_def intro!: framed_struct framed_ops)

lemma remove_element_4MB_pfl_framed [framed_ops]: "pm_only s t \<Longrightarrow> framed pm_only s (remove_element_4MB_pfl t)"
  by (auto simp: remove_element_4MB_pfl_def Let_def intro!: framed_struct framed_ops)

lemma huge_claim_framed [framed_ops]: "pm_only s t \<Longrightarrow> framed pm_only s (huge_claim a h i n t)"
  by (induction n arbitrary: i t) (auto simp: huge_claim.simps intro!: framed_struct framed_ops)

lemma page_alloc_framed [framed_ops]: "pm_only s t \<Longrightarrow> framed pm_only s (page_alloc a t)"
  by (auto simp: page_alloc_def page_alloc_single_def page_alloc_huge_def intro!: framed_struct framed_ops)

lemma unpoison_framed [framed_ops]: "pm_only s t \<Longrightarrow> framed pm_only s (unpoison i t)"
  by (auto simp: unpoison_def poison_page_def intro!: framed_struct)

lemma free_huge_check_calm [simp]: "calm (free_huge_check i n t)"
  by (induction n arbitrary: i) (auto simp: free_huge_check.simps)

lemma free_huge_put_framed [framed_ops]: "pm_only s t \<Longrightarrow> framed pm_only s (free_huge_put i n t)"
  by (induction n arbitrary: i t) (auto simp: free_huge_put.simps intro!: framed_struct framed_ops)

lemma page_free_framed [framed_ops]: "pm_only s t \<Longrightarrow> framed pm_only s (page_free i t)"
  by (auto simp: page_free_def Let_def intro!: framed_struct framed_pure [OF free_huge_check_calm] framed_ops)

lemma page_decref_framed [framed_ops]: "pm_only s t \<Longrightarrow> framed pm_only s (page_decref i t)"
  by (auto simp: page_decref_def Let_def intro!: framed_if framed_ops)


section \<open>Page lists\<close>

lemma framed_trans: "framed R t m \<Longrightarrow> (\<And>u. R t u \<Longrightarrow> Q s u) \<Longrightarrow> framed Q s m"
  by (auto simp: framed_def)

lemma lru_insert_head_framed: "framed pm_only s (lru_insert_head pp ht s)"
  by (auto simp: lru_insert_head_def Let_def intro!: framed_struct)

lemma lru_insert_tail_framed: "framed pm_only s (lru_insert_tail pp ht s)"
  by (auto simp: lru_insert_tail_def Let_def intro!: framed_struct)

lemma lru_remove_head_framed: "framed pm_only s (lru_remove_head ht s)"
  by (auto simp: lru_remove_head_def Let_def intro!: framed_struct)

lemma lru_remove_tail_framed: "framed pm_only s (lru_remove_tail ht s)"
  by (auto simp: lru_remove_tail_def Let_def intro!: framed_struct)

lemma lru_remove_el_framed: "framed pm_only s (lru_remove_el pp ht s)"
  by (auto simp: lru_remove_el_def Let_def intro!: framed_struct)

definition lru_only :: "'z lru_state_scheme \<Rightarrow> 'z lru_state_scheme \<Rightarrow> bool" where
  "lru_only s t \<longleftrightarrow> lru_state.more t = lru_state.more s"

lemma lru_only_refl [simp]: "lru_only s s" by (simp add: lru_only_def)

lemma lru_only_upd [simp]:
  "lru_only s (t\<lparr>lru_active_count := c\<rparr>) = lru_only s t" "lru_only s (t\<lparr>lru_inactive_count := c\<rparr>) = lru_only s t"
  "lru_only s (set_active ht t) = lru_only s t" "lru_only s (set_inactive ht t) = lru_only s t"
  by (simp_all add: lru_only_def set_active_def set_inactive_def)

lemma pm_lru_only: "pm_only t u \<Longrightarrow> lru_only s t \<Longrightarrow> lru_only s u"
  by (cases t; cases u) (simp add: pm_only_def lru_only_def)

lemma pm_lru_framed: "framed pm_only t m \<Longrightarrow> lru_only s t \<Longrightarrow> framed lru_only s m"
  by (erule framed_trans) (rule pm_lru_only)

lemmas lru_el_framed =
  lru_insert_head_framed [THEN pm_lru_framed] lru_insert_tail_framed [THEN pm_lru_framed]
  lru_remove_head_framed [THEN pm_lru_framed] lru_remove_tail_framed [THEN pm_lru_framed]
  lru_remove_el_framed [THEN pm_lru_framed]

lemma lru_list_framed:
  "framed lru_only s (lru_ha_insert pp s)" "framed lru_only s (lru_hi_insert pp s)" "framed lru_only s (lru_ti_insert pp s)"
  "framed lru_only s (lru_hi_remove s)" "framed lru_only s (lru_ta_remove s)" "framed lru_only s (lru_remove_el_list pp s)"
  by (auto simp: lru_ha_insert_def lru_hi_insert_def lru_ti_insert_def lru_hi_remove_def lru_ta_remove_def lru_remove_el_list_def
      Let_def intro!: framed_struct lru_el_framed)

section \<open>Address spaces\<close>

definition vm_only :: "kstate \<Rightarrow> kstate \<Rightarrow> bool" where
  "vm_only s t \<longleftrightarrow> lru_state.more (t\<lparr>invlpg_log := []\<rparr>) = lru_state.more (s\<lparr>invlpg_log := []\<rparr>)"

lemma vm_only_refl [simp]: "vm_only s s" by (simp add: vm_only_def)

lemma vm_only_trans: "vm_only s t \<Longrightarrow> vm_only t u \<Longrightarrow> vm_only s u" by (simp add: vm_only_def)

lemma vm_only_more: "lru_only t u \<Longrightarrow> vm_only t u"
  by (cases t; cases u) (simp add: lru_only_def vm_only_def)

lemma vm_only_upd [simp]:
  "vm_only s (upd_page i f t) = vm_only s t" "vm_only s (wr p w t) = vm_only s t"
  "vm_only s (t\<lparr>invlpg_log := l\<rparr>) = vm_only s t" "vm_only s (t\<lparr>pmem := m\<rparr>) = vm_only s t"
  by (cases s; cases t; simp add: vm_only_def upd_page_def wr_def write_mem_def)+

lemma vm_onlyD:
  assumes "vm_only s t"
  shows "envs t = envs s" "cpunum t = cpunum s" "cpu_env t = cpu_env s" "locks t = locks s" "kern_pgdir t = kern_pgdir s"
    "cr3 t = cr3 s" "cr2 t = cr2 s" "tasklets t = tasklets s" "t_list t = t_list s" "t_flist t = t_flist s"
    "env_free_list t = env_free_list s" "drc_map t = drc_map s" "swap_map t = swap_map s" "ktf t = ktf s"
    "curenv t = curenv s" "holds l t = holds l s"
  using assms by (cases s; cases t; simp add: vm_only_def curenv_def holds_def)+

lemma pm_vm_framed: "framed pm_only t m \<Longrightarrow> vm_only s t \<Longrightarrow> framed vm_only s m"
  by (erule framed_trans) (metis lru_only_refl pm_lru_only vm_only_more vm_only_trans)

lemma lru_vm_framed: "framed lru_only t m \<Longrightarrow> vm_only s t \<Longrightarrow> framed vm_only s m"
  by (erule framed_trans) (auto intro: vm_only_trans vm_only_more)

lemmas vm_pages_framed =
  page_alloc_framed [OF pm_only_refl, THEN pm_vm_framed] page_free_framed [OF pm_only_refl, THEN pm_vm_framed]
  page_decref_framed [OF pm_only_refl, THEN pm_vm_framed] lru_list_framed [THEN lru_vm_framed]

lemma walk_entry_framed: "vm_only s t \<Longrightarrow> framed vm_only s (walk_entry pg va c e t)"
  by (auto simp: walk_entry_def intro!: framed_struct)

lemma pgdir_walk_framed: "vm_only s t \<Longrightarrow> framed vm_only s (pgdir_walk pgdir va c t)"
  by (auto simp: pgdir_walk_def Let_def intro!: framed_struct vm_pages_framed walk_entry_framed)

lemma page_lookup_framed: "vm_only s t \<Longrightarrow> framed vm_only s (page_lookup pgdir va t)"
  by (auto simp: page_lookup_def intro!: framed_struct pgdir_walk_framed)

lemma tlb_invalidate_framed: "vm_only s t \<Longrightarrow> framed vm_only s (tlb_invalidate pgdir va t)"
  by (auto simp: tlb_invalidate_def Let_def intro!: framed_struct)

lemma page_remove_framed: "vm_only s t \<Longrightarrow> framed vm_only s (page_remove pgdir va t)"
  by (auto simp: page_remove_def Let_def intro!: framed_struct vm_pages_framed page_lookup_framed pgdir_walk_framed
      tlb_invalidate_framed split: option.split)

lemma page_insert_framed: "vm_only s t \<Longrightarrow> framed vm_only s (page_insert pgdir pp va perm t)"
  by (auto simp: page_insert_def Let_def intro!: framed_struct pgdir_walk_framed page_remove_framed)

lemmas vm_framed = vm_pages_framed pgdir_walk_framed page_lookup_framed page_remove_framed page_insert_framed

section \<open>Processors and locks\<close>

definition cpu_only :: "kstate \<Rightarrow> kstate \<Rightarrow> bool" where
  "cpu_only s t \<longleftrightarrow> cpunum t = cpunum s \<and> cpu_env t = cpu_env s"

definition cpu_locks :: "kstate \<Rightarrow> kstate \<Rightarrow> bool" where
  "cpu_locks s t \<longleftrightarrow> cpunum t = cpunum s \<and> cpu_env t = cpu_env s \<and> locks t = locks s"

lemma cpu_locks_refl [simp]: "cpu_locks s s" by (simp add: cpu_locks_def)
lemma cpu_locks_upd [simp]:
  "cpu_locks s (upd_env i f t) = cpu_locks s t" "cpu_locks s (t\<lparr>env_free_list := l\<rparr>) = cpu_locks s t"
  "cpu_locks s (t\<lparr>cr3 := c\<rparr>) = cpu_locks s t" "cpu_locks s (wr p w t) = cpu_locks s t"
  "cpu_locks s (upd_page j g t) = cpu_locks s t"
  by (simp_all add: cpu_locks_def wr_def write_mem_def upd_page_def)

lemma vm_cpu_framed: "framed vm_only t m \<Longrightarrow> cpu_locks s t \<Longrightarrow> framed cpu_locks s m"
  by (erule framed_trans) (simp add: cpu_locks_def vm_onlyD)

lemmas cpu_vm_framed = vm_framed [OF vm_only_refl, THEN vm_cpu_framed]

lemma calm_assert_lock [simp]: "calm (assert_lock l s)"
  by (simp add: assert_lock_def)

lemma cpu_only_refl [simp]: "cpu_only s s" by (simp add: cpu_only_def)
lemma cpu_only_upd [simp]:
  "cpu_only s (upd_env i f t) = cpu_only s t"
  "cpu_only s (t\<lparr>lru_check := c\<rparr>) = cpu_only s t" "cpu_only s (t\<lparr>locks := l\<rparr>) = cpu_only s t"
  "cpu_only s (upd_task j g t) = cpu_only s t" "cpu_only s (t\<lparr>drc_map := m\<rparr>) = cpu_only s t"
  "cpu_only s (t\<lparr>t_list := x\<rparr>) = cpu_only s t" "cpu_only s (t\<lparr>t_flist := x\<rparr>) = cpu_only s t"
  by (simp_all add: cpu_only_def upd_task_def)

lemma cpu_only_curenv: "cpu_only s t \<Longrightarrow> curenv t = curenv s"
  by (simp add: cpu_only_def curenv_def)

lemma cpu_locks_framed: "framed cpu_locks t m \<Longrightarrow> cpu_only s t \<Longrightarrow> framed cpu_only s m"
  by (erule framed_trans) (simp add: cpu_locks_def cpu_only_def)

lemma calm_spin [simp]: "calm (spin_lock c k :: 's stop + _)" "calm (spin_unlock c k :: 's stop + _)"
  by (auto simp: spin_lock_def spin_unlock_def)

lemma lock_framed: "cpu_only s t \<Longrightarrow> framed cpu_only s (lock l t)" "cpu_only s t \<Longrightarrow> framed cpu_only s (unlock l t)"
  by (auto simp: lock_def unlock_def intro!: framed_pure [OF calm_spin(1)] framed_pure [OF calm_spin(2)])

lemma framedD: "framed R s m \<Longrightarrow> m = Inr (r, t) \<Longrightarrow> R s t"
  by (auto simp: framed_def)

lemma task_add_loop_framed: "cpu_only s t \<Longrightarrow> framed cpu_only s (task_add_loop n a b t)"
  by (induction n arbitrary: b t) (auto simp: Let_def intro!: framed_struct)

lemma task_add_framed: "cpu_only s t \<Longrightarrow> framed cpu_only s (task_add a l f t)"
  by (auto simp: task_add_def Let_def intro!: framed_struct task_add_loop_framed)

lemma task_add_alloc_framed: "cpu_only s t \<Longrightarrow> framed cpu_only s (task_add_alloc a t)"
  by (auto simp: task_add_alloc_def intro!: framed_struct task_add_framed)

lemma task_get_free_cpu: "task_get_free t = (r, u) \<Longrightarrow> cpu_only s t \<Longrightarrow> cpu_only s u"
  by (auto simp: task_get_free_def split: prod.splits)

lemma pm_rest_kfields:
  assumes "pm_rest_eq s t"
  shows "envs t = envs s" "env_free_list t = env_free_list s" "kern_pgdir t = kern_pgdir s" "curenv t = curenv s"
    "holds l t = holds l s" "npages t = npages s" "cpunum t = cpunum s" "locks t = locks s" "PREMAPPED_FLAG t = PREMAPPED_FLAG s"
proof -
  have "pm_only s t" using assms by (simp add: pm_only_def pm_rest_eq_def)
  then have "vm_only s t" by (rule vm_only_more [OF pm_lru_only [OF _ lru_only_refl]])
  note vm_onlyD [OF this]
  then show "envs t = envs s" "env_free_list t = env_free_list s" "kern_pgdir t = kern_pgdir s" "curenv t = curenv s"
    "holds l t = holds l s" "cpunum t = cpunum s" "locks t = locks s" by blast+
  show "npages t = npages s" "PREMAPPED_FLAG t = PREMAPPED_FLAG s" using assms by (simp_all add: pm_rest_eq_def)
qed

lemma upd_page_vm: "vm_only s (upd_page i f s)"
  by simp

lemma wr_vm: "vm_only s (wr p w s)"
  by simp

lemmas upd_page_k [simp] = vm_onlyD [OF upd_page_vm]
lemmas wr_k [simp] = vm_onlyD [OF wr_vm]

section \<open>Keeping an address space well formed\<close>

lemma wf_pgdir_cong:
  assumes "pmem s' = pmem s" "npages s' = npages s" "PREMAPPED_FLAG s' = PREMAPPED_FLAG s"
    "\<And>i. pp_ref (pages s' i) = pp_ref (pages s i) \<and> page_flags (pages s' i) = page_flags (pages s i)"
    "pfl_ok s' xs = pfl_ok s xs"
  shows "wf_pgdir s' pg xs = wf_pgdir s pg xs" "mappable s' pg xs p = mappable s pg xs p"
  using assms view_pmem [OF assms(1)] by (simp_all add: wf_pgdir_def mappable_def)

lemma lru_frame_wf:
  assumes "lru_frame s s'" "wf_pgdir s pg xs"
  shows "wf_pgdir s' pg xs" "mappable s pg xs p \<Longrightarrow> mappable s' pg xs p"
proof -
  have "pfl_ok s' xs = pfl_ok s xs" using assms lru_frame_pfl_ok wf_pgdirD(1) by blast
  note wf_pgdir_cong [OF _ _ _ _ this]
  then show "wf_pgdir s' pg xs" "mappable s pg xs p \<Longrightarrow> mappable s' pg xs p"
    using assms by (simp_all add: lru_frame_def)
qed

lemma alloc_page_wf:
  assumes wf: "wf_pgdir s pg (p # ps)" and fl: "fl AND ALLOC_HUGE = 0" "fl AND ALLOC_ZERO \<noteq> 0" "fl AND POISON_AFTER_FREE = 0"
  shows "\<exists>t. page_alloc fl s = Inr (Some p, t) \<and> wf_pgdir t pg ps \<and> mappable t pg ps p \<and> pp_ref (pages t p) = 0 \<and>
     (\<forall>i. lru_link (pages t i) = lru_link (pages s i)) \<and> pm_rest_eq s t \<and> pmem t p = (\<lambda>_. 0) \<and>
     (\<forall>i. i \<noteq> p \<longrightarrow> pages t i = pages s i \<and> pmem t i = pmem s i) \<and>
     (\<forall>d < UDIRS. pt t pg d = pt s pg d \<and> (\<forall>i. pte_at t pg d i = pte_at s pg d i))"
proof -
  note D = wf_pgdirD [OF wf]
  obtain t where t: "page_alloc fl s = Inr (Some p, t)" "pfl_ok t ps" "pmem t = (pmem s)(p := (\<lambda>_. 0))" "pm_rest_eq s t"
     "pages t = (pages s)(p := (pages s p)\<lparr>pp_link := None, page_flags := (fl AND POISON_AFTER_FREE) OR ALLOC\<rparr>)"
    using page_alloc_ok [OF D(1,2) fl(1)] fl(2) by (metis (no_types, lifting))
  have p: "p \<noteq> pg" "p < npages s" "p \<notin> set ps" "pp_ref (pages s p) = 0" using D(4) pfl_okD [OF D(1)] by auto
  have ptt: "pt t pg d = pt s pg d" for d using t(3) p(1) by (simp add: pt_def)
  have pte: "pte_at t pg d i = pte_at s pg d i" if "d < UDIRS" for d i
    by (rule pte_at_cong) (use t(3) p(1) D(6) [OF that] in auto)
  have m: "mappings t pg q = mappings s pg q" for q by (rule mappings_cong) (use pte in auto)
  have mp: "mappings s pg p = {}" using D(8) [of p] by auto
  have "wf_pgdir t pg ps"
    unfolding wf_pgdir_def
  proof (intro conjI allI impI)
    show "pfl_ok t ps" by (rule t)
    show "\<not> PREMAPPED_FLAG t" "pg < npages t" "pg \<notin> set ps" using D t(4) by (simp_all add: pm_rest_eq_def)
    fix q
    show "card (mappings t pg q) \<le> unat (pp_ref (pages t q))" using D(9) [of q] m mp t(5) by (cases "q = p") simp_all
    assume "mappings t pg q \<noteq> {}"
    then have q: "mappings s pg q \<noteq> {}" "q \<noteq> p" using m mp by auto
    then show "q < npages t" "q \<notin> set ps" "q \<noteq> pg" "page_flags (pages t q) AND ALLOC \<noteq> 0" "page_flags (pages t q) AND ALLOC_HUGE = 0"
       "\<And>d. d < UDIRS \<Longrightarrow> pt t pg d \<noteq> Some q"
      using D(8) [OF q(1)] t(4,5) ptt by (auto simp: pm_rest_eq_def)
  next
    fix d f assume "d < UDIRS" "pt t pg d = Some f"
    then show "f < npages t" "f \<noteq> pg" "f \<notin> set ps" using D(6) [of d f] ptt t(4) by (auto simp: pm_rest_eq_def)
  next
    fix d d' f assume "d < UDIRS" "d' < UDIRS" "pt t pg d = Some f" "pt t pg d' = Some f"
    then show "d = d'" using D(7) [of d d' f] ptt by simp
  next
    fix d assume "d < UDIRS" "pmem t pg d AND PTE_P \<noteq> 0"
    then show "pmem t pg d AND PTE_PS = 0" using D(5) [of d] t(3) p(1) by simp
  qed
  moreover have "mappable t pg ps p"
    using p t(4,5) ptt D(6) fl(3) by (auto simp: mappable_def pm_rest_eq_def ALLOC_def ALLOC_HUGE_def)
  ultimately show ?thesis using t p(4) ptt pte by auto
qed

lemma page_insert_absent_pmem:
  assumes wf: "wf_pgdir s pg xs" and d: "pdx a < UDIRS" and perm: "perm AND PTE_P = 0" "perm AND PTE_PS = 0"
    and absent: "pte_at s pg (pdx a) (ptx a) AND PTE_P = 0" and ins: "page_insert (Some pg) (Some p) a perm s = Inr (0, s')"
    and q: "q \<noteq> pg" "q \<notin> set xs" "\<forall>d < UDIRS. pt s pg d \<noteq> Some q"
  shows "pmem s' q = pmem s q"
proof (cases "pt s pg (pdx a)")
  case (Some f)
  have c: "CREATE_NORMAL AND CREATE_HUGE = 0" by (simp add: CREATE_NORMAL_def CREATE_HUGE_def)
  have "rd (f, ptx a) s AND PTE_P = 0" using absent Some by (simp add: rd_def pte_at_def)
  then have "pmem s' = (pmem s)(f := (pmem s f)(ptx a := page2pa p OR perm OR PTE_P))"
    using ins page_insert_rest [OF perm] walk_present [OF wf d Some c] by (auto simp: insert_rest_def Let_def split: if_splits)
  then show ?thesis using q(3) d Some by auto
next
  case None
  show ?thesis
  proof (cases xs)
    case Nil
    then show ?thesis using ins page_insert_no_memory [of s pg a perm p] wf None perm by (simp add: E_NO_MEM_def)
  next
    case (Cons x ys)
    obtain u where u: "pgdir_walk (Some pg) a CREATE_NORMAL s = Inr (Some (x, ptx a), u)"
      "pmem u = (pmem s)(x := (\<lambda>_. 0), pg := (pmem s pg)(pdx a := page2pa x OR PTE_P OR PTE_W OR PTE_U))"
      using walk_create [OF wf [unfolded Cons] d None] by blast
    have x: "x \<noteq> pg" using wf_pgdirD(4) [OF wf] Cons by auto
    then have "rd (x, ptx a) u = 0" using u(2) by (simp add: rd_def)
    then have "pmem s' = (pmem u)(x := (pmem u x)(ptx a := page2pa p OR perm OR PTE_P))"
      using ins page_insert_rest [OF perm] u(1) by (auto simp: insert_rest_def Let_def split: if_splits)
    then show ?thesis using q Cons u(2) by auto
  qed
qed

lemma page_insert_vm: "page_insert pg p a perm s = Inr (r, t) \<Longrightarrow> vm_only s t"
  by (rule framedD [OF page_insert_framed [OF vm_only_refl]])

lemma wf_pgdir_k [simp]:
  "wf_pgdir (s\<lparr>locks := l\<rparr>) pg xs = wf_pgdir s pg xs" "wf_pgdir (upd_env c f s) pg xs = wf_pgdir s pg xs"
  by (rule wf_pgdir_cong(1); simp add: pfl_ok_def pfl_shape_def)+

lemma view_k [simp]:
  "pt (s\<lparr>locks := l\<rparr>) = pt s" "pt (upd_env c f s) = pt s" "pte_at (s\<lparr>locks := l\<rparr>) = pte_at s" "pte_at (upd_env c f s) = pte_at s"
  "vmap (s\<lparr>locks := l\<rparr>) = vmap s" "vmap (upd_env c f s) = vmap s"
  by (rule view_pmem, simp)+

lemma lru_ok_k [simp]:
  "lru_ok (s\<lparr>locks := l\<rparr>) as bs = lru_ok s as bs" "lru_ok (upd_env c f s) as bs = lru_ok s as bs"
  by (simp_all add: lru_ok_def lru_seq_def)

lemma wf_pgdir_local:
  assumes wf: "wf_pgdir s pg xs" and m: "\<And>g. g \<noteq> n \<Longrightarrow> pmem s' g = pmem s g" and n: "n \<noteq> pg" "\<forall>d < UDIRS. pt s pg d \<noteq> Some n"
    and "npages s' = npages s" "PREMAPPED_FLAG s' = PREMAPPED_FLAG s" "pages s' = pages s" "pfl_ok s' xs = pfl_ok s xs"
  shows "wf_pgdir s' pg xs" "pt s' pg d = pt s pg d" "d < UDIRS \<Longrightarrow> pte_at s' pg d i = pte_at s pg d i"
proof -
  have pg: "pmem s' pg = pmem s pg" using m n by auto
  show pt: "pt s' pg d = pt s pg d" for d using pg by (simp add: pt_def)
  have pte: "pte_at s' pg d i = pte_at s pg d i" if "d < UDIRS" for d i
    by (rule pte_at_cong) (use pg m n that in auto)
  then show "d < UDIRS \<Longrightarrow> pte_at s' pg d i = pte_at s pg d i" .
  have "mappings s' pg q = mappings s pg q" for q by (rule mappings_cong) (use pte in auto)
  then show "wf_pgdir s' pg xs" using wf assms(5-8) pg pt by (simp add: wf_pgdir_def)
qed

lemma wf_unref:
  assumes wf: "wf_pgdir s pg xs" and q: "q \<notin> set xs" and r: "card (mappings s pg q) \<le> unat r"
  shows "wf_pgdir (upd_page q (\<lambda>x. x\<lparr>pp_ref := r\<rparr>) s) pg xs"
proof -
  have "pfl_ok (upd_page q (\<lambda>x. x\<lparr>pp_ref := r\<rparr>) s) xs" using wf_pgdirD(1) [OF wf] q by (auto intro!: pfl_ok_upd_outside)
  then show ?thesis using wf r by (auto simp: wf_pgdir_def)
qed

lemma rd_upd_page [simp]: "rd p (upd_page i g s) = rd p s"
  by (simp add: rd_def)

end
