(* ===== verification/Vma.thy ===== *)
theory Vma
  imports Frame
begin

text \<open>
  The operations of \<^verbatim>\<open>kern/vma.c\<close> that touch more than the descriptor lists: removing the pages
  of an area, removing, splitting, populating and merging areas and changing their permissions.
  They work on the whole kernel state; the descriptors of environment \<open>e\<close> are \<open>vmas (envs s e)\<close>.

  The theory \<open>Areas\<close> shows what they do; after a merge the loop of \<open>vma_list_merge\<close> continues on the list of
  free descriptors.
\<close>

text \<open>An operation on the descriptor lists of one environment.\<close>

definition in_env :: "nat \<Rightarrow> (env \<Rightarrow> kstate stop + ('a \<times> env)) \<Rightarrow> kstate \<Rightarrow> (kstate, 'a) kres" where
  "in_env e f s = rbind (f (envs s e)) (\<lambda>(r, x). Inr (r, upd_env e (\<lambda>_. x) s))"

section \<open>Removing pages and areas\<close>

text \<open>
  After \<open>page_remove\<close> the entry that \<open>pte\<close> points to is read again, to see whether it was a huge page.
\<close>

fun vma_remove_pages_loop :: "nat \<Rightarrow> nat \<Rightarrow> nat \<Rightarrow> u32 \<Rightarrow> kstate \<Rightarrow> (kstate, unit) kres" where
  "vma_remove_pages_loop 0 i e va s = Inr ((), s)"
| "vma_remove_pages_loop (Suc n) i e va s =
     rbind (pgdir_walk (env_pgdir (envs s e)) (va + of_nat i * PGSIZE) 0 s) (\<lambda>(pte, s).
     case pte of
       None \<Rightarrow> Inr ((), s)
     | Some p \<Rightarrow>
         if rd p s AND PTE_P \<noteq> 0 then
           rbind (page_remove (env_pgdir (envs s e)) (va + of_nat i * PGSIZE) s) (\<lambda>(_, s).
           let s = upd_env e (\<lambda>x. x\<lparr>env_alloc_pages := env_alloc_pages x - (if rd p s AND PTE_PS \<noteq> 0 then 1024 else 1)\<rparr>) s in
           if env_alloc_pages (envs s e) = 0 then Inl (AssertFail ''e->env_alloc_pages > 0'')
           else vma_remove_pages_loop n (Suc i) e va s)
         else vma_remove_pages_loop n (Suc i) e va s)"

definition vma_remove_pages :: "nat \<Rightarrow> u32 \<Rightarrow> u32 \<Rightarrow> kstate \<Rightarrow> (kstate, unit) kres" where
  "vma_remove_pages e va sz s = vma_remove_pages_loop (unat (ROUNDUP sz PGSIZE div PGSIZE)) 0 e va s"

text \<open>\<open>vmad\<close> is read only for its address and length.\<close>

definition find_area :: "u32 \<Rightarrow> u32 \<Rightarrow> 'z vma_space_scheme \<Rightarrow> 's stop + (nat option \<times> nat option)" where
  "find_area a l e =
     (case seek (NVMA + 1) (vlink e) (\<lambda>c. v_va (vmas e c) = a \<and> v_len (vmas e c) = l) (alloc_vma_list e) (alloc_vma_list e) of
        None \<Rightarrow> Inl Diverge
      | Some r \<Rightarrow> Inr r)"

definition vma_remove_alloced :: "nat \<Rightarrow> vma \<Rightarrow> bool \<Rightarrow> kstate \<Rightarrow> (kstate, bool) kres" where
  "vma_remove_alloced e vmad destroy_pages s =
     rbind (find_area (v_va vmad) (v_len vmad) (envs s e)) (\<lambda>(previous_vma, vma_i).
     case vma_i of
       None \<Rightarrow> Inr (False, s)
     | Some i \<Rightarrow>
         rbind (if destroy_pages then vma_remove_pages e (v_va (vmas (envs s e) i)) (v_len (vmas (envs s e) i)) s
                else Inr ((), s)) (\<lambda>(_, s).
         case previous_vma of
           None \<Rightarrow> Inl NullDeref
         | Some p \<Rightarrow> Inr (True, upd_env e (vma_unlink p i) s)))"

section \<open>Splitting\<close>

text \<open>
  The pointer \<open>vma_split_lookup\<close> returns: NULL, the value 1, or an area of the current environment.
\<close>

datatype split_result = Split_null | Split_done | Split_vma nat

definition split_new :: "nat \<Rightarrow> u32 \<Rightarrow> u32 \<Rightarrow> vma \<Rightarrow> kstate \<Rightarrow> (kstate, unit) kres" where
  "split_new e va_t size_tem old s =
     rbind (in_env e (vma_new va_t size_tem (v_type old) 0 0 0 (v_perm old)) s) (\<lambda>(_, s). Inr ((), s))"

definition split_pieces :: "nat \<Rightarrow> nat \<Rightarrow> nat \<Rightarrow> u32 \<Rightarrow> u32 \<Rightarrow> bool \<Rightarrow> vma \<Rightarrow> kstate \<Rightarrow> (kstate, unit) kres" where
  "split_pieces e c v va sz vma_remove old s =
     rbind (if v_va old < va then
              let size_tem = va - v_va old;
                  s = (if vma_remove then s
                       else upd_env c (upd_vma v (\<lambda>x. x\<lparr>v_va := va, v_len := v_len x - size_tem\<rparr>)) s) in
              split_new e (v_va old) size_tem old s
            else Inr ((), s)) (\<lambda>(_, s).
     if va + sz < v_va old + v_len old then
       let va_t = va + sz;
           size_tem = v_len old - (va_t - v_va old);
           s = (if vma_remove then s
                else upd_env c (upd_vma v (\<lambda>x. x\<lparr>v_len := v_len x - size_tem\<rparr>)) s) in
       split_new e va_t size_tem old s
     else Inr ((), s))"

definition vma_split_lookup :: "nat \<Rightarrow> u32 \<Rightarrow> u32 \<Rightarrow> bool \<Rightarrow> kstate \<Rightarrow> (kstate, split_result) kres" where
  "vma_split_lookup e va sz vma_remove s =
     rbind (assert_lock ENV_LOCK s) (\<lambda>_.
     with_curenv s (\<lambda>c.
     rbind (vma_lookup va (envs s c)) (\<lambda>vmad.
     case vmad of
       None \<Rightarrow> Inr (Split_null, s)
     | Some v \<Rightarrow>
         let old = vmas (envs s c) v in
         if \<not> vma_consistency_check old (v_type old)
         then Inl (Panic ''[VMA] vma_split_lookup(): vma consistency check failed'')
         else if hps old then Inr (Split_null, s)
         else if v_type old \<noteq> VMA_ANON then Inr (Split_null, s)
         else if \<not> vma_size_check va sz old then Inr (Split_null, s)
         else
           rbind (if vma_remove then
                    rbind (lock PAGEALLOC_LOCK s) (\<lambda>(_, s).
                    rbind (vma_remove_alloced e old True s) (\<lambda>(r, s).
                    rbind (if r then Inr ((), s) else unlock PAGEALLOC_LOCK s) (\<lambda>(_, s).
                    unlock PAGEALLOC_LOCK s)))
                  else Inr ((), s)) (\<lambda>(_, s).
           rbind (split_pieces e c v va sz vma_remove old s) (\<lambda>(_, s).
           Inr (if vma_remove then Split_done else Split_vma v, s))))))"

section \<open>Populating and changing permissions\<close>

text \<open>
  The page allocated in the loop is stored in a variable of the inner block, so the page that
  \<open>page_insert\<close> gets is the outer variable, which is NULL.
\<close>

fun vma_populate_loop :: "nat \<Rightarrow> nat \<Rightarrow> u32 \<Rightarrow> u32 \<Rightarrow> bool \<Rightarrow> kstate \<Rightarrow> (kstate, bool) kres" where
  "vma_populate_loop 0 i va perm hp s = Inr (True, s)"
| "vma_populate_loop (Suc n) i va perm hp s =
     rbind (page_alloc (if hp then ALLOC_HUGE else 0) s) (\<lambda>(inner, s).
     case inner of
       None \<Rightarrow> Inr (False, s)
     | Some q \<Rightarrow>
         rbind (if hp then Inr ((), s) else lru_ha_insert (Some q) s) (\<lambda>(_, s).
         with_curenv s (\<lambda>c.
         let s = upd_env c (\<lambda>x. x\<lparr>env_alloc_pages := env_alloc_pages x + (if hp then 1024 else 1)\<rparr>) s in
         rbind (page_insert (env_pgdir (envs s c)) None (va + of_nat i * PGSIZE * (if hp then 1024 else 1)) (perm OR PTE_U) s)
           (\<lambda>(r, s). if r \<noteq> 0 then Inr (False, s) else vma_populate_loop n (Suc i) va perm hp s))))"

definition vma_populate :: "u32 \<Rightarrow> u32 \<Rightarrow> u32 \<Rightarrow> bool \<Rightarrow> kstate \<Rightarrow> (kstate, bool) kres" where
  "vma_populate va sz perm hp s =
     vma_populate_loop (unat (ROUNDUP sz PGSIZE div (PGSIZE * (if hp then 1024 else 1)))) 0 va perm hp s"

fun vma_change_perm_loop :: "nat \<Rightarrow> nat \<Rightarrow> nat \<Rightarrow> u32 \<Rightarrow> u32 \<Rightarrow> kstate \<Rightarrow> (kstate, unit) kres" where
  "vma_change_perm_loop 0 i e va perm s = Inr ((), s)"
| "vma_change_perm_loop (Suc n) i e va perm s =
     rbind (pgdir_walk (env_pgdir (envs s e)) (va + of_nat i * PGSIZE) 0 s) (\<lambda>(pte, s).
     case pte of
       None \<Rightarrow> Inr ((), s)
     | Some p \<Rightarrow>
         if rd p s AND PTE_P \<noteq> 0 then
           rbind (page_lookup (env_pgdir (envs s e)) (va + of_nat i * PGSIZE) s) (\<lambda>((pp, _), s).
           case pp of
             None \<Rightarrow> Inr ((), s)
           | Some q \<Rightarrow>
               rbind (page_insert (env_pgdir (envs s e)) (Some q) (va + of_nat i * PGSIZE) perm s) (\<lambda>(_, s).
               vma_change_perm_loop n (Suc i) e va perm s))
         else vma_change_perm_loop n (Suc i) e va perm s)"

definition vma_change_perm :: "nat \<Rightarrow> u32 \<Rightarrow> kstate \<Rightarrow> (kstate, bool) kres" where
  "vma_change_perm v perm s =
     with_curenv s (\<lambda>e.
     let s = upd_env e (upd_vma v (\<lambda>x. x\<lparr>v_perm := perm\<rparr>)) s in
     rbind (vma_change_perm_loop (unat (ROUNDUP (v_len (vmas (envs s e) v)) PGSIZE div PGSIZE)) 0 e
              (v_va (vmas (envs s e) v)) perm s) (\<lambda>(_, s). Inr (True, s)))"

section \<open>Merging\<close>

definition vma_merge :: "nat \<Rightarrow> nat \<Rightarrow> nat \<Rightarrow> kstate \<Rightarrow> (kstate, int) kres" where
  "vma_merge e v1 v2 s =
     (let s = upd_env e (\<lambda>x. upd_vma v1 (\<lambda>v. v\<lparr>v_len := v_len v + v_len (vmas x v2)\<rparr>) x) s in
      rbind (vma_remove_alloced e (vmas (envs s e) v2) False s) (\<lambda>(r, s). Inr (if r then 0 else -1, s)))"

definition mergeable :: "vma \<Rightarrow> vma \<Rightarrow> bool" where
  "mergeable v w \<longleftrightarrow> v_va v + v_len v = v_va w \<and> v_perm v = v_perm w \<and> v_type v \<noteq> VMA_BINARY \<and> v_type w \<noteq> VMA_BINARY"

text \<open>The walk visits a descriptor at most once, so it ends within \<open>NVMA\<close> rounds.\<close>

fun vma_list_merge_loop :: "nat \<Rightarrow> nat \<Rightarrow> nat \<Rightarrow> nat option \<Rightarrow> kstate \<Rightarrow> (kstate, int) kres" where
  "vma_list_merge_loop fuel e vma_old None s = Inr (0, s)"
| "vma_list_merge_loop 0 e vma_old (Some i) s = Inl Diverge"
| "vma_list_merge_loop (Suc fuel) e vma_old (Some i) s =
     (if mergeable (vmas (envs s e) vma_old) (vmas (envs s e) i) then
        rbind (vma_merge e vma_old i s) (\<lambda>(r, s).
        if r \<noteq> 0 then Inr (-1, s)
        else vma_list_merge_loop fuel e i (vma_link (vmas (envs s e) i)) s)
      else vma_list_merge_loop fuel e i (vma_link (vmas (envs s e) i)) s)"

definition vma_list_merge :: "nat option \<Rightarrow> kstate \<Rightarrow> (kstate, int) kres" where
  "vma_list_merge eo s =
     (case eo of
        None \<Rightarrow> Inr (-1, s)
      | Some e \<Rightarrow>
          case alloc_vma_list (envs s e) of
            None \<Rightarrow> Inr (0, s)
          | Some vma_old \<Rightarrow> vma_list_merge_loop NVMA e vma_old (vma_link (vmas (envs s e) vma_old)) s)"

end
