(* ===== verification/Env.thy ===== *)
theory Env
  imports Vma
begin

text \<open>
  The environments of \<^verbatim>\<open>kern/env.c\<close>: identifiers, initialisation, allocation with a page directory,
  loading a program, release and the switch to an environment.  \<open>env_run\<close> does not return: its result is the
  stop \<open>EnterUser e s\<close>.  The functions that may give up the processor (\<open>env_destroy\<close> and what calls it)
  take the scheduler as their argument \<open>yield\<close>; \<^verbatim>\<open>Sched\<close> closes the recursion.
\<close>

definition GD_KT :: u16 where "GD_KT = 0x08"
definition GD_KD :: u16 where "GD_KD = 0x10"
definition GD_UT :: u16 where "GD_UT = 0x18"
definition GD_UD :: u16 where "GD_UD = 0x20"
definition FL_IF :: u32 where "FL_IF = 0x200"
definition ENVGENSHIFT :: nat where "ENVGENSHIFT = 12"
definition TS_DEFAULT :: u64 where "TS_DEFAULT = 1000000"

text \<open>Loading a page directory into \<open>cr3\<close>; the address goes through \<open>PADDR\<close> and its checks.\<close>

definition lcr3 :: "nat \<Rightarrow> kstate \<Rightarrow> (kstate, unit) kres" where
  "lcr3 pg s = rbind (PADDR (kva pg)) (\<lambda>_. Inr ((), s\<lparr>cr3 := pg\<rparr>))"

section \<open>Identifiers\<close>

text \<open>The result and the environment stored; \<open>None\<close> is the null pointer.\<close>

definition envid2env :: "u32 \<Rightarrow> bool \<Rightarrow> kstate \<Rightarrow> (kstate, int \<times> nat option) kres" where
  "envid2env envid checkperm s =
     rbind (assert_lock ENV_LOCK s) (\<lambda>_.
     if envid = 0 then Inr ((0, curenv s), s)
     else
       let e = ENVX envid in
       if env_status (envs s e) = ENV_FREE \<or> env_id (envs s e) \<noteq> envid then Inr ((- E_BAD_ENV, None), s)
       else if checkperm \<and> curenv s \<noteq> Some e then
         with_curenv s (\<lambda>c.
         if env_parent_id (envs s e) \<noteq> env_id (envs s c) then Inr ((- E_BAD_ENV, None), s)
         else Inr ((0, Some e), s))
       else Inr ((0, Some e), s))"

section \<open>Initialisation\<close>

text \<open>The loop runs from \<open>NENV\<close>, one past the end of the array, down to 0.\<close>

definition env_init_one :: "nat \<Rightarrow> kstate \<Rightarrow> kstate" where
  "env_init_one i s =
     (upd_env i (\<lambda>e. (vma_proc_init (e\<lparr>env_id := 0, env_alloc_pages := 0\<rparr>))\<lparr>wait_id := -1, env_link := env_free_list s\<rparr>) s)
       \<lparr>env_free_list := Some i\<rparr>"

fun env_init_loop :: "nat \<Rightarrow> kstate \<Rightarrow> kstate" where
  "env_init_loop 0 s = env_init_one 0 s"
| "env_init_loop (Suc i) s = env_init_loop i (env_init_one (Suc i) s)"

definition env_init :: "kstate \<Rightarrow> kstate" where
  "env_init s = env_init_loop NENV s"

section \<open>Allocation\<close>

definition copy_pgdir :: "nat \<Rightarrow> nat \<Rightarrow> nat \<Rightarrow> 'z pm_state_scheme \<Rightarrow> 'z pm_state_scheme" where
  "copy_pgdir dst src from s =
     s\<lparr>pmem := (pmem s)(dst := (\<lambda>i. if from \<le> i \<and> i < NPDENTRIES then pmem s src i else pmem s dst i))\<rparr>"

definition env_setup_vm :: "nat \<Rightarrow> kstate \<Rightarrow> (kstate, int) kres" where
  "env_setup_vm e s =
     rbind (page_alloc ALLOC_ZERO s) (\<lambda>(p, s).
     case p of
       None \<Rightarrow> Inr (- E_NO_MEM, s)
     | Some p \<Rightarrow>
         let s = upd_page p (\<lambda>q. q\<lparr>pp_ref := pp_ref q + 1\<rparr>) s in
         rbind (page2kva p s) (\<lambda>pg.
         let s = upd_env e (\<lambda>x. x\<lparr>env_pgdir := Some pg\<rparr>) s;
             s = copy_pgdir pg (kern_pgdir s) (pdx UTOP) s in
         rbind (PADDR (kva pg)) (\<lambda>pa.
         Inr (0, wr (pg, pdx UVPT) (pa OR PTE_P OR PTE_U) s))))"

definition generation :: "u32 \<Rightarrow> u32" where
  "generation old =
     (let g = (old + push_bit ENVGENSHIFT 1) AND NOT (of_nat (NENV - 1)) in
      if sint g \<le> 0 then push_bit ENVGENSHIFT 1 else g)"

definition initial_tf :: "env_type \<Rightarrow> trapframe" where
  "initial_tf t =
     (if t = ENV_TYPE_KERNEL then zero_tf\<lparr>tf_ds := GD_KD, tf_es := GD_KD, tf_ss := GD_KD, tf_cs := GD_KT\<rparr>
      else zero_tf\<lparr>tf_ds := GD_UD OR 3, tf_es := GD_UD OR 3, tf_ss := GD_UD OR 3, tf_esp := USTACKTOP,
             tf_cs := GD_UT OR 3, tf_eflags := 0 OR FL_IF\<rparr>)"

definition env_alloc :: "u32 \<Rightarrow> env_type \<Rightarrow> kstate \<Rightarrow> (kstate, int \<times> nat option) kres" where
  "env_alloc parent_id type s =
     (case env_free_list s of
        None \<Rightarrow> Inr ((- E_NO_FREE_ENV, None), s)
      | Some e \<Rightarrow>
          rbind (env_setup_vm e s) (\<lambda>(r, s).
          if r < 0 then Inr ((r, None), s)
          else
            let s = upd_env e (\<lambda>x. x\<lparr>env_id := generation (env_id x) OR of_nat e, env_parent_id := parent_id,
                      env_type := type, env_status := ENV_RUNNABLE, env_runs := 0, env_tf := initial_tf type\<rparr>) s;
                s = s\<lparr>env_free_list := env_link (envs s e)\<rparr> in
            Inr ((0, Some e), s)))"

section \<open>Copying\<close>

definition kenv_cpy_tf :: "trapframe \<Rightarrow> trapframe \<Rightarrow> trapframe" where
  "kenv_cpy_tf tfs tf =
     tf\<lparr>tf_regs := (tf_regs tf)\<lparr>reg_edi := reg_edi (tf_regs tfs), reg_esi := reg_esi (tf_regs tfs),
          reg_ebp := reg_ebp (tf_regs tfs), reg_oesp := reg_oesp (tf_regs tfs), reg_ebx := reg_ebx (tf_regs tfs),
          reg_edx := reg_edx (tf_regs tfs), reg_ecx := reg_ecx (tf_regs tfs), reg_eax := reg_eax (tf_regs tfs)\<rparr>,
        tf_es := tf_es tfs, tf_ds := tf_ds tfs, tf_trapno := tf_trapno tfs, tf_err := tf_err tfs, tf_eip := tf_eip tfs,
        tf_cs := tf_cs tfs, tf_eflags := tf_eflags tfs, tf_esp := tf_esp tfs, tf_ss := tf_ss tfs\<rparr>"

definition env_cpy_tf :: "nat \<Rightarrow> nat \<Rightarrow> kstate \<Rightarrow> kstate" where
  "env_cpy_tf child parent s =
     upd_env child (\<lambda>x. x\<lparr>env_tf := kenv_cpy_tf (env_tf (envs s parent)) (env_tf x)\<rparr>) s"

text \<open>
  \<open>vma_new\<close> returns -1 for some errors, which the test \<open>!vma_new(..)\<close> takes for success; the descriptor
  \<open>n\<close> is then the one of the previous round, or the uninitialised pointer in the first.
\<close>

fun env_cpy_vmas_loop :: "nat \<Rightarrow> nat \<Rightarrow> nat \<Rightarrow> nat option \<Rightarrow> nat option \<Rightarrow> kstate \<Rightarrow> (kstate, bool) kres" where
  "env_cpy_vmas_loop fuel child parent n None s = Inr (True, s)"
| "env_cpy_vmas_loop 0 child parent n (Some v) s = Inl Diverge"
| "env_cpy_vmas_loop (Suc fuel) child parent n (Some v) s =
     (let w = vmas (envs s parent) v in
      rbind (in_env child (vma_new (v_va w) (v_len w) (v_type w) (cpy_src w) (src_sz w) (cpy_dst w) (v_perm w)) s)
        (\<lambda>((r, new), s).
      if r = 0 then Inr (False, s)
      else
        case (if r = 1 then new else n) of
          None \<Rightarrow> Inl NullDeref
        | Some m \<Rightarrow>
            let s = upd_env child (upd_vma m (\<lambda>x. x\<lparr>hps := hps (vmas (envs s parent) v)\<rparr>)) s in
            env_cpy_vmas_loop fuel child parent (Some m) (vma_link (vmas (envs s parent) v)) s))"

definition env_cpy_vmas :: "nat \<Rightarrow> nat \<Rightarrow> kstate \<Rightarrow> (kstate, bool) kres" where
  "env_cpy_vmas child parent s =
     env_cpy_vmas_loop (NVMA + 1) child parent None (alloc_vma_list (envs s parent)) s"

text \<open>The entries of one area, \<open>k\<close> pages from \<open>va\<close> on.\<close>

fun cow_pages :: "nat \<Rightarrow> nat option \<Rightarrow> nat option \<Rightarrow> u32 \<Rightarrow> kstate \<Rightarrow> (kstate, bool) kres" where
  "cow_pages 0 p_pgdir c_pgdir va s = Inr (True, s)"
| "cow_pages (Suc k) p_pgdir c_pgdir va s =
     rbind (pgdir_walk p_pgdir va 0 s) (\<lambda>(pte_p, s).
     case pte_p of
       None \<Rightarrow> cow_pages k p_pgdir c_pgdir (va + PGSIZE) s
     | Some pe \<Rightarrow>
         rbind (pgdir_walk c_pgdir va 1 s) (\<lambda>(pte_c, s).
         case pte_c of
           None \<Rightarrow> Inr (False, s)
         | Some ce \<Rightarrow>
             let s = (if rd pe s AND PTE_W \<noteq> 0 then wr pe (rd pe s AND NOT PTE_W) s else s);
                 s = wr ce (rd pe s) s in
             rbind (pa2page (PTE_ADDR (rd pe s)) s) (\<lambda>pg.
             cow_pages k p_pgdir c_pgdir (va + PGSIZE) (upd_page pg (\<lambda>q. q\<lparr>pp_ref := pp_ref q + 1\<rparr>) s))))"

text \<open>The number of rounds of \<open>for (va = vp->va; va < vp->va + vp->len; va += PGSIZE)\<close>.\<close>

definition area_pages :: "vma \<Rightarrow> nat" where
  "area_pages v = (if v_va v < v_va v + v_len v then (unat (v_len v) + 4095) div 4096 else 0)"

fun env_cpy_pgdir_loop :: "nat \<Rightarrow> nat \<Rightarrow> nat \<Rightarrow> nat option \<Rightarrow> kstate \<Rightarrow> (kstate, bool) kres" where
  "env_cpy_pgdir_loop fuel child parent None s = Inr (True, s)"
| "env_cpy_pgdir_loop 0 child parent (Some v) s = Inl Diverge"
| "env_cpy_pgdir_loop (Suc fuel) child parent (Some v) s =
     (let w = vmas (envs s parent) v in
      rbind (if v_type w = VMA_ANON \<or> v_type w = VMA_BINARY
             then cow_pages (area_pages w) (env_pgdir (envs s parent)) (env_pgdir (envs s child)) (v_va w) s
             else Inr (True, s)) (\<lambda>(r, s).
      if r then env_cpy_pgdir_loop fuel child parent (vma_link (vmas (envs s parent) v)) s else Inr (False, s)))"

definition env_cpy_pgdir_cow :: "nat \<Rightarrow> nat \<Rightarrow> kstate \<Rightarrow> (kstate, bool) kres" where
  "env_cpy_pgdir_cow child parent s = env_cpy_pgdir_loop (NVMA + 1) child parent (alloc_vma_list (envs s parent)) s"

section \<open>Release\<close>

fun wake_waiters :: "nat \<Rightarrow> u32 \<Rightarrow> kstate \<Rightarrow> kstate" where
  "wake_waiters 0 eid s = s"
| "wake_waiters (Suc i) eid s =
     (let s = wake_waiters i eid s in
      if env_status (envs s i) = ENV_SLEEPING \<and> wait_id (envs s i) = eid
      then upd_env i (\<lambda>x. x\<lparr>env_status := ENV_RUNNABLE, wait_id := -1\<rparr>) s else s)"

text \<open>The inner loop of \<open>env_free\<close>: \<open>n\<close> entries of the table in frame \<open>fr\<close>, from entry \<open>k\<close>.\<close>

fun free_table :: "nat \<Rightarrow> nat \<Rightarrow> nat option \<Rightarrow> nat \<Rightarrow> nat \<Rightarrow> kstate \<Rightarrow> (kstate, unit) kres" where
  "free_table 0 k pgdir pdeno fr s = Inr ((), s)"
| "free_table (Suc n) k pgdir pdeno fr s =
     rbind (if pmem s fr k AND PTE_P \<noteq> 0 then page_remove pgdir (PGADDR (of_nat pdeno) (of_nat k) 0) s
            else Inr ((), s)) (\<lambda>(_, s).
     free_table n (Suc k) pgdir pdeno fr s)"

fun free_tables :: "nat \<Rightarrow> nat \<Rightarrow> nat \<Rightarrow> kstate \<Rightarrow> (kstate, unit) kres" where
  "free_tables 0 d pg s = Inr ((), s)"
| "free_tables (Suc n) d pg s =
     (if pmem s pg d AND PTE_P = 0 then free_tables n (Suc d) pg s
      else
        let pa = PTE_ADDR (pmem s pg d) in
        rbind (KADDR pa s) (\<lambda>fr.
        rbind (free_table NPTENTRIES 0 (Some pg) d fr s) (\<lambda>(_, s).
        let s = wr (pg, d) 0 s in
        rbind (pa2page pa s) (\<lambda>pp.
        rbind (page_decref pp s) (\<lambda>(_, s). free_tables n (Suc d) pg s)))))"

text \<open>The address of \<open>e->env_vmas\<close>: a \<open>struct env\<close> has 3908 bytes, the field is at offset 3892.\<close>

definition addr_env_vmas :: "nat \<Rightarrow> kstate \<Rightarrow> u32" where
  "addr_env_vmas e s = envs_base s + of_nat (3908 * e + 3892)"

definition env_free :: "nat \<Rightarrow> kstate \<Rightarrow> (kstate, unit) kres" where
  "env_free e s =
     rbind (assert_lock ENV_LOCK s) (\<lambda>_.
     rbind (assert_lock PAGEALLOC_LOCK s) (\<lambda>_.
     let s = wake_waiters NENV (env_id (envs s e)) s in
     rbind (if curenv s = Some e then lcr3 (kern_pgdir s) s else Inr ((), s)) (\<lambda>(_, s).
     case env_pgdir (envs s e) of
       None \<Rightarrow> Inl NullDeref
     | Some pg \<Rightarrow>
         rbind (free_tables (pdx UTOP) 0 pg s) (\<lambda>(_, s).
         let s = upd_env e (\<lambda>x. (vma_proc_init x)\<lparr>env_alloc_pages := 0\<rparr>) s in
         rbind (PADDR (kva pg)) (\<lambda>pa.
         let s = upd_env e (\<lambda>x. x\<lparr>env_pgdir := None\<rparr>) s in
         rbind (pa2page pa s) (\<lambda>pp.
         rbind (page_decref pp s) (\<lambda>(_, s).
         rbind (PADDR (addr_env_vmas e s)) (\<lambda>pa.
         let s = upd_env e (\<lambda>x. x\<lparr>env_vmas := 0\<rparr>) s in
         rbind (pa2page pa s) (\<lambda>pp.
         rbind (page_decref pp s) (\<lambda>(_, s).
         let s = upd_env e (\<lambda>x. x\<lparr>env_status := ENV_FREE, env_link := env_free_list s\<rparr>) s in
         Inr ((), s\<lparr>env_free_list := Some e\<rparr>)))))))))))"

definition env_destroy :: "(kstate \<Rightarrow> (kstate, unit) kres) \<Rightarrow> nat \<Rightarrow> kstate \<Rightarrow> (kstate, unit) kres" where
  "env_destroy yield e s =
     rbind (assert_lock ENV_LOCK s) (\<lambda>_.
     if env_status (envs s e) = ENV_RUNNING \<and> curenv s \<noteq> Some e
     then Inr ((), upd_env e (\<lambda>x. x\<lparr>env_status := ENV_DYING\<rparr>) s)
     else
       rbind (lock PAGEALLOC_LOCK s) (\<lambda>(_, s).
       rbind (env_free e s) (\<lambda>(_, s).
       rbind (unlock PAGEALLOC_LOCK s) (\<lambda>(_, s).
       if curenv s = Some e then yield (set_curenv None s) else Inr ((), s)))))"

section \<open>Running an environment\<close>

definition env_pop_tf :: "nat \<Rightarrow> kstate \<Rightarrow> (kstate, unit) kres" where
  "env_pop_tf e s =
     with_curenv s (\<lambda>c. Inl (EnterUser e (upd_env c (\<lambda>x. x\<lparr>env_cpunum := cpunum s\<rparr>) s)))"

text \<open>What \<open>env_run\<close> does with the environment that is switched away from.\<close>

definition leave_env :: "nat \<Rightarrow> kstate \<Rightarrow> (kstate, unit) kres" where
  "leave_env c s =
     (if env_status (envs s c) = ENV_RUNNABLE \<or> env_status (envs s c) = ENV_FREE \<or> env_status (envs s c) = ENV_NOT_RUNNABLE
      then Inl (Panic ''env_run: ENV STATUS IS IN A INCONSISTENT STATE'')
      else
        let s = (if env_status (envs s c) = ENV_RUNNING then upd_env c (\<lambda>x. x\<lparr>env_status := ENV_RUNNABLE\<rparr>) s else s) in
        if env_status (envs s c) = ENV_DYING then
          rbind (lock PAGEALLOC_LOCK s) (\<lambda>(_, s).
          rbind (env_free c s) (\<lambda>(_, s).
          unlock PAGEALLOC_LOCK s))
        else Inr ((), s))"

definition env_run :: "nat \<Rightarrow> kstate \<Rightarrow> (kstate, unit) kres" where
  "env_run e s =
     (let old_e = curenv s in
      rbind (assert_lock ENV_LOCK s) (\<lambda>_.
      rbind (if curenv s \<noteq> Some e then
               rbind (case old_e of None \<Rightarrow> Inr ((), s) | Some c \<Rightarrow> leave_env c s) (\<lambda>(_, s).
               let s = upd_env e (\<lambda>x. x\<lparr>env_status := ENV_RUNNING, env_runs := env_runs x + 1\<rparr>) (set_curenv (Some e) s) in
               if env_type (envs s e) \<noteq> ENV_TYPE_KERNEL then
                 (case env_pgdir (envs s e) of
                    None \<Rightarrow> Inl (Panic ''PADDR called with invalid kva'')
                  | Some pg \<Rightarrow> lcr3 pg s)
               else Inr ((), s))
             else Inr ((), s)) (\<lambda>(_, s).
      rbind (unlock ENV_LOCK s) (\<lambda>(_, s).
      let s = (case old_e of
                 None \<Rightarrow> s
               | Some c \<Rightarrow> if env_type (envs s c) = ENV_TYPE_KERNEL
                           then upd_env c (\<lambda>x. x\<lparr>env_tf := kenv_cpy_tf (ktf s) (env_tf x)\<rparr>) s else s) in
      env_pop_tf e s))))"

section \<open>Loading programs\<close>

record proghdr =
  p_type :: u32
  p_offset :: u32
  p_va :: u32
  p_filesz :: u32
  p_memsz :: u32
  p_flags :: u32

text \<open>An ELF image at a kernel address: the fields that are read and the program headers at \<open>e_phoff\<close>.\<close>

record elf =
  e_magic :: u32
  e_entry :: u32
  e_ph :: "proghdr list"

definition ELF_MAGIC :: u32 where "ELF_MAGIC = 0x464C457F"
definition ELF_PROG_LOAD :: u32 where "ELF_PROG_LOAD = 1"
definition ELF_PROG_FLAG_WRITE :: u32 where "ELF_PROG_FLAG_WRITE = 2"

text \<open>
  The difference \<open>(uint32_t *)ph->p_va - va\<close> is a difference of word pointers, a quarter of the distance
  in bytes.
\<close>

fun load_segments :: "nat \<Rightarrow> u32 \<Rightarrow> proghdr list \<Rightarrow> u32 \<Rightarrow> kstate \<Rightarrow> (kstate, u32) kres" where
  "load_segments e eh [] mmcount s = Inr (mmcount, s)"
| "load_segments e eh (ph # phs) mmcount s =
     (if p_type ph = ELF_PROG_LOAD then
        if p_memsz ph < p_filesz ph then Inl (Panic ''load_icode(): Segment's filesz > memsz!'')
        else
          let va = ROUNDDOWN (p_va ph) PGSIZE;
              msize = p_memsz ph + (p_va ph - va) div 4;
              perm = PTE_U OR (if p_flags ph AND ELF_PROG_FLAG_WRITE \<noteq> 0 then PTE_W else 0) in
          rbind (in_env e (vma_new va msize VMA_BINARY (eh + p_offset ph) (p_filesz ph) (p_va ph - va) perm) s) (\<lambda>((r, _), s).
          if r < 1 then Inl (Panic ''load_icode(): vma creation failed!'')
          else load_segments e eh phs (mmcount + msize) s)
      else load_segments e eh phs mmcount s)"

definition load_area :: "nat \<Rightarrow> u32 \<Rightarrow> u32 \<Rightarrow> kstate \<Rightarrow> (kstate, unit) kres" where
  "load_area e va perm s =
     rbind (in_env e (vma_new va PGSIZE VMA_ANON 0 0 0 perm) s) (\<lambda>((r, _), s).
     if r < 1 then Inl (Panic ''load_icode(): vma stack creation failed!'') else Inr ((), s))"

definition load_icode :: "(kstate \<Rightarrow> (kstate, unit) kres) \<Rightarrow> nat \<Rightarrow> u32 \<Rightarrow> elf \<Rightarrow> kstate \<Rightarrow> (kstate, unit) kres" where
  "load_icode yield e binary eh s =
     (let change_env_flag = (curenv s \<noteq> Some e) in
      rbind (if change_env_flag then
               (case env_pgdir (envs s e) of
                  None \<Rightarrow> Inl (Panic ''PADDR called with invalid kva'')
                | Some pg \<Rightarrow> lcr3 pg s)
             else Inr ((), s)) (\<lambda>(_, s).
      if e_magic eh \<noteq> ELF_MAGIC then Inl (Panic ''load_icode(): Invalid ELF!'')
      else
        rbind (load_segments e binary (e_ph eh) 0 s) (\<lambda>(mmcount, s).
        rbind (if change_env_flag then lcr3 (kern_pgdir s) s else Inr ((), s)) (\<lambda>(_, s).
        rbind (load_area e (USTACKTOP - PGSIZE) (PTE_U OR PTE_W) s) (\<lambda>(_, s).
        let s = upd_env e (\<lambda>x. x\<lparr>env_tf := (env_tf x)\<lparr>tf_eip := e_entry eh\<rparr>\<rparr>) s in
        rbind (load_area e UTEMP PTE_U s) (\<lambda>(_, s).
        rbind (load_area e (UTEMP + PGSIZE) (PTE_U OR PTE_W) s) (\<lambda>(_, s).
        if (free_pages_count s - 200) * PGSIZE \<le> mmcount then env_destroy yield e s else Inr ((), s))))))))"

definition env_create :: "(kstate \<Rightarrow> (kstate, unit) kres) \<Rightarrow> u32 \<Rightarrow> elf \<Rightarrow> env_type \<Rightarrow> kstate \<Rightarrow> (kstate, unit) kres" where
  "env_create yield binary eh type s =
     rbind (env_alloc 0 type s) (\<lambda>((ret, e), s).
     if ret = - E_NO_MEM then Inl (Panic ''env_create: OUT OF MEMORY'')
     else if ret = - E_NO_FREE_ENV then Inl (Panic ''env_create: NO FREE ENV'')
     else case e of None \<Rightarrow> Inl NullDeref | Some e \<Rightarrow> load_icode yield e binary eh s)"

definition load_kthread :: "nat \<Rightarrow> u32 \<Rightarrow> kstate \<Rightarrow> (kstate, unit) kres" where
  "load_kthread e binary s =
     rbind (page_alloc ALLOC_ZERO s) (\<lambda>(pp, s).
     let s = upd_env e (\<lambda>x. x\<lparr>env_tf := (env_tf x)\<lparr>tf_eip := binary\<rparr>\<rparr>) s in
     case pp of
       None \<Rightarrow> Inl (Panic ''[INIT] FAILURE ALLOCATING KERNEL THREAD STACK'')
     | Some p \<Rightarrow>
         rbind (page2kva p s) (\<lambda>fr.
         let k = ENVX (env_id (envs s e)) in
         if NKTHREADS \<le> k then Inl OutOfBounds
         else
           let s = s\<lparr>kesp := (kesp s)(k := kva fr + (PGSIZE - 1))\<rparr>;
               s = upd_env e (\<lambda>x. x\<lparr>env_tf := (env_tf x)\<lparr>tf_esp := kesp s k\<rparr>\<rparr>) s in
           Inr ((), s\<lparr>ktf := kenv_cpy_tf (env_tf (envs s e)) (ktf s)\<rparr>)))"

definition kenv_create :: "u32 \<Rightarrow> env_type \<Rightarrow> kstate \<Rightarrow> (kstate, unit) kres" where
  "kenv_create binary type s =
     rbind (env_alloc 0 type s) (\<lambda>((ret, e), s).
     if ret = - E_NO_MEM then Inl (Panic ''env_create: OUT OF MEMORY'')
     else if ret = - E_NO_FREE_ENV then Inl (Panic ''env_create: NO FREE ENV'')
     else case e of None \<Rightarrow> Inl NullDeref | Some e \<Rightarrow> load_kthread e binary s)"

section \<open>Frames\<close>

lemma lcr3_framed: "cpu_locks s t \<Longrightarrow> framed cpu_locks s (lcr3 pg t)"
  by (auto simp: lcr3_def intro!: framed_struct)

lemma free_table_framed: "cpu_locks s t \<Longrightarrow> framed cpu_locks s (free_table n k pg d fr t)"
  by (induction n arbitrary: k t) (auto intro!: framed_struct cpu_vm_framed)

lemma free_tables_framed: "cpu_locks s t \<Longrightarrow> framed cpu_locks s (free_tables n d pg t)"
  by (induction n arbitrary: d t) (auto simp: Let_def intro!: framed_struct cpu_vm_framed free_table_framed)

lemma wake_waiters_cpu [simp]: "cpu_locks s (wake_waiters n eid t) = cpu_locks s t"
  by (induction n) (simp_all add: Let_def)


lemma env_free_framed: "cpu_locks s t \<Longrightarrow> framed cpu_locks s (env_free e t)"
  by (auto simp: env_free_def Let_def intro!: framed_pure [OF calm_assert_lock] framed_struct cpu_vm_framed free_tables_framed lcr3_framed)

section \<open>Stops\<close>

lemma env_pop_tf_stops: "\<exists>x. env_pop_tf e s = Inl x"
  by (auto simp: env_pop_tf_def with_curenv_def split: option.split)

lemma rbind_stops: "(\<And>x. \<exists>y. f x = Inl y) \<Longrightarrow> \<exists>y. rbind m f = Inl y"
  by (cases m) (auto simp: rbind_def)

lemma env_run_stops: "\<exists>x. env_run e s = Inl x"
  unfolding env_run_def Let_def by (auto intro!: rbind_stops simp: env_pop_tf_stops)

section \<open>The list of free environments\<close>

abbreviation elink :: "kstate \<Rightarrow> nat \<Rightarrow> nat option" where
  "elink s \<equiv> (\<lambda>i. env_link (envs s i))"

definition fresh_env :: "env \<Rightarrow> bool" where
  "fresh_env x \<longleftrightarrow> env_id x = 0 \<and> env_alloc_pages x = 0 \<and> wait_id x = -1 \<and> vma_ok x [] [0..<NVMA]"

lemma vma_ok_more: "vma_ok (e\<lparr>wait_id := w, env_link := l\<rparr>) as fs = vma_ok e as fs"
  by (simp add: vma_ok_def)

lemma vma_proc_init_loop_more: "vma_space.more (vma_proc_init_loop n e) = vma_space.more e"
  by (induction n arbitrary: e) (simp_all add: upd_vma_def)

lemma vma_proc_init_env [simp]:
  "env_id (vma_proc_init x) = env_id x" "env_alloc_pages (vma_proc_init x) = env_alloc_pages x"
proof -
  have "vma_space.more (vma_proc_init x) = vma_space.more x" by (simp add: vma_proc_init_def vma_proc_init_loop_more)
  then show "env_id (vma_proc_init x) = env_id x" "env_alloc_pages (vma_proc_init x) = env_alloc_pages x"
    by (cases x; cases "vma_proc_init x"; simp)+
qed

lemma env_init_one_facts:
  "envs (env_init_one i s) j = (if j = i then
     (vma_proc_init ((envs s i)\<lparr>env_id := 0, env_alloc_pages := 0\<rparr>))\<lparr>wait_id := -1, env_link := env_free_list s\<rparr> else envs s j)"
  "env_free_list (env_init_one i s) = Some i"
  by (simp_all add: env_init_one_def)

lemma fresh_one: "fresh_env (envs (env_init_one i s) i)"
  by (simp add: env_init_one_facts fresh_env_def vma_ok_more vma_proc_init_ok)

lemma env_init_loop_ok:
  assumes "llist (elink s) (env_free_list s) xs" "\<forall>x \<in> set xs. i < x"
  shows "llist (elink (env_init_loop i s)) (env_free_list (env_init_loop i s)) ([0..<Suc i] @ xs) \<and>
     (\<forall>j. j \<le> i \<longrightarrow> fresh_env (envs (env_init_loop i s) j)) \<and> (\<forall>j. i < j \<longrightarrow> envs (env_init_loop i s) j = envs s j)"
  using assms
proof (induction i arbitrary: s xs)
  case (0 s xs)
  have "llist (elink (env_init_one 0 s)) (env_free_list s) xs = llist (elink s) (env_free_list s) xs"
    using 0 by (intro llist_local) (auto simp: env_init_one_facts)
  then show ?case using 0 fresh_one [of 0 s] by (simp add: env_init_one_facts)
next
  case (Suc i s xs)
  let ?t = "env_init_one (Suc i) s"
  have "llist (elink ?t) (env_free_list s) xs = llist (elink s) (env_free_list s) xs"
    using Suc.prems by (intro llist_local) (auto simp: env_init_one_facts)
  then have "llist (elink ?t) (env_free_list ?t) (Suc i # xs)" using Suc.prems by (simp add: env_init_one_facts)
  then have IH: "llist (elink (env_init_loop i ?t)) (env_free_list (env_init_loop i ?t)) ([0..<Suc i] @ Suc i # xs) \<and>
     (\<forall>j. j \<le> i \<longrightarrow> fresh_env (envs (env_init_loop i ?t) j)) \<and> (\<forall>j. i < j \<longrightarrow> envs (env_init_loop i ?t) j = envs ?t j)"
    using Suc.prems(2) by (intro Suc.IH) (auto dest: Suc_lessD)
  moreover have "[0..<Suc (Suc i)] @ xs = [0..<Suc i] @ Suc i # xs" by simp
  moreover have "fresh_env (envs (env_init_loop i ?t) (Suc i))" using IH fresh_one [of "Suc i" s] by simp
  ultimately show ?case by (auto simp: le_Suc_eq env_init_one_facts simp del: upt_Suc)
qed

section \<open>Identifiers: facts\<close>

definition high22 :: "u32 \<Rightarrow> u32" where "high22 x = x AND NOT 0x3FF"

lemma bit_high22: "bit (high22 x) n \<longleftrightarrow> 10 \<le> n \<and> bit x n"
  unfolding high22_def low10_mask bit_and_iff bit_not_iff bit_mask32 by (auto dest: bit_word_bound32)

lemma high22_div: "unat (high22 x) = 1024 * (unat x div 1024)"
proof -
  have "high22 x = push_bit 10 (drop_bit 10 x)" by (rule word_eqI32) (auto simp: bit_high22 bit_push_bit_iff bit_drop_bit_eq)
  then have h: "high22 x = x div 1024 * 1024" by (simp add: push_bit_eq_mult drop_bit_eq_div)
  have "unat x div 1024 * 1024 \<le> unat x" by simp
  also have "\<dots> < 4294967296" using unsigned_less [of x] by simp
  finally have "unat x div 1024 * 1024 < 4294967296" .
  then show ?thesis unfolding h by (simp add: unat_word_ariths unat_div)
qed

lemma generation_eq:
  "generation old = (if sint (high22 (old + 0x1000)) \<le> 0 then 0x1000 else high22 (old + 0x1000))"
  by (simp add: generation_def high22_def ENVGENSHIFT_def)

lemma generation_high: "high22 (generation old) = generation old"
proof -
  have "high22 0x1000 = 0x1000" by (simp add: high22_def)
  moreover have "high22 (high22 x) = high22 x" for x by (rule word_eqI32) (simp add: bit_high22)
  ultimately show ?thesis by (simp add: generation_eq)
qed

lemma env_id_fields:
  assumes "e < NENV" "high22 g = g"
  shows "high22 (g OR of_nat e) = g" "ENVX (g OR of_nat e) = e"
proof -
  have low: "n < 10" if "bit (of_nat e :: u32) n" for n
  proof (rule ccontr)
    assume "\<not> n < 10"
    then have "\<not> bit (of_nat e :: u32) n"
      using assms(1) by (intro low10_clear) (simp_all add: word_less_nat_alt unat_of_nat take_bit_nat_eq_self)
    with that show False by blast
  qed
  have g: "10 \<le> n" if "bit g n" for n using assms(2) that by (metis bit_high22)
  show "high22 (g OR of_nat e) = g" by (rule word_eqI32) (auto simp: bit_high22 bit_or_iff dest: low g)
  have "(g OR of_nat e) AND 0x3FF = of_nat e"
    unfolding low10_mask by (rule word_eqI32) (auto simp: bit_and_iff bit_or_iff bit_mask32 dest: low g)
  then show "ENVX (g OR of_nat e) = e" using assms(1) by (simp add: ENVX_def unat_of_nat take_bit_nat_eq_self)
qed

lemma div_shift:
  assumes "a < 4294967296"
  shows "(a + 4096) mod 4294967296 div 1024 \<noteq> a div (1024 :: nat)"
proof (cases "a + 4096 < 4294967296")
  case True
  moreover have "(a + 4 * 1024) div 1024 = a div 1024 + 4" by simp
  ultimately show ?thesis by simp
next
  case False
  then have "(a + 4096) mod 4294967296 = a + 4096 - 4294967296" using assms by (simp add: mod_if)
  then have "(a + 4096) mod 4294967296 div 1024 < 4" using assms by (simp add: less_mult_imp_div_less)
  moreover have "4294963200 div 1024 \<le> a div 1024" using False by (intro div_le_mono) simp
  ultimately show ?thesis by simp
qed

lemma generation_new: "high22 old \<noteq> generation old"
proof
  assume eq: "high22 old = generation old"
  have lt: "unat old < 4294967296" using unsigned_less [of old] by simp
  have sum: "unat (old + 0x1000) = (unat old + 4096) mod 4294967296" by (simp add: unat_word_ariths)
  show False
  proof (cases "sint (high22 (old + 0x1000)) \<le> 0")
    case True
    then have "high22 old = 0x1000" using eq by (simp add: generation_eq)
    then have "1024 * (unat old div 1024) = 4096" using high22_div [of old] by simp
    then have "unat old div 1024 = 4" by simp
    then have "(unat old + 4096) div 1024 = 8" "unat old < 5120" by (simp_all add: div_add)
    then have "unat (high22 (old + 0x1000)) = 8192" unfolding high22_div sum by simp
    then show False using True sint_unat [of "high22 (old + 0x1000)"] by simp
  next
    case False
    then have "unat old div 1024 = (unat old + 4096) mod 4294967296 div 1024"
      using eq high22_div [of old] high22_div [of "old + 0x1000"] by (simp add: generation_eq sum)
    then show False using div_shift [OF lt] by simp
  qed
qed

lemma env_id_parts:
  assumes "e < NENV"
  shows "ENVX (generation old OR of_nat e) = e \<and> 0 < sint (generation old OR of_nat e) \<and> generation old OR of_nat e \<noteq> old"
proof -
  have f: "high22 (generation old OR of_nat e) = generation old" "ENVX (generation old OR of_nat e) = e"
    by (rule env_id_fields [OF assms generation_high])+
  then have ne: "generation old OR of_nat e \<noteq> old" using generation_new by metis
  have "0 < sint (generation old)" by (simp add: generation_eq)
  then have "0 < unat (generation old)" "unat (generation old) < 2147483648" by (simp_all only: sint_pos_unat)
  moreover have "1024 * (unat (generation old OR of_nat e) div 1024) = unat (generation old)"
    using high22_div [of "generation old OR of_nat e"] f(1) by simp
  moreover have "unat (generation old OR of_nat e) = 1024 * (unat (generation old OR of_nat e) div 1024) + unat (generation old OR of_nat e) mod 1024"
    "unat (generation old OR of_nat e) mod 1024 < 1024" by simp_all
  moreover have "unat (generation old OR of_nat e) div 1024 < 2097152" using calculation by linarith
  ultimately have "0 < sint (generation old OR of_nat e)" unfolding sint_pos_unat by (intro conjI) linarith+
  then show ?thesis using f ne by blast
qed

lemma copy_pgdir_pfl_ok: "pfl_ok (copy_pgdir d c f s) xs = pfl_ok s xs"
  by (simp add: copy_pgdir_def pfl_ok_def pfl_shape_def)

lemma env_run_current:
  assumes "curenv s = Some c" "holds ENV_LOCK s" "env_type (envs s c) \<noteq> ENV_TYPE_KERNEL"
  shows "env_run c s = env_pop_tf c (s\<lparr>locks := (locks s)(ENV_LOCK := spin_initlock)\<rparr>)"
  using assms unlock_held [OF assms(2)] by (simp add: env_run_def)

section \<open>Properties\<close>

definition sample_envs :: kstate where
  "sample_envs = sample_k\<lparr>
     envs := (\<lambda>_. blank_env)
       (2 := blank_env\<lparr>env_id := 0x1002, env_status := ENV_RUNNING, env_pgdir := Some 1\<rparr>,
        3 := blank_env\<lparr>env_id := 0x1003, env_status := ENV_RUNNABLE, env_pgdir := Some 1\<rparr>),
     cpu_env := (\<lambda>_. Some 2), locks := (\<lambda>_. spin_initlock)(ENV_LOCK := \<lparr>locked = 1, lk_cpu = Some 0\<rparr>)\<rparr>"

lemma sample_envs_fields:
  "holds ENV_LOCK sample_envs" "curenv sample_envs = Some 2" "cpunum sample_envs = 0"
  "envs sample_envs 2 = blank_env\<lparr>env_id := 0x1002, env_status := ENV_RUNNING, env_pgdir := Some 1\<rparr>"
  "envs sample_envs 3 = blank_env\<lparr>env_id := 0x1003, env_status := ENV_RUNNABLE, env_pgdir := Some 1\<rparr>"
  by (simp_all add: sample_envs_def holds_def sample_k_fields curenv_def)

lemma env_run_switches:
  assumes lk: "holds ENV_LOCK s" and cur: "curenv s = Some c" "c \<noteq> e" and st: "env_status (envs s c) = ENV_RUNNING"
    and ty: "env_type (envs s c) \<noteq> ENV_TYPE_KERNEL" "env_type (envs s e) \<noteq> ENV_TYPE_KERNEL"
    and pg: "env_pgdir (envs s e) = Some pg" "PADDR (kva pg) = (Inr pa :: kstate stop + u32)"
  shows "\<exists>s'. env_run e s = Inl (EnterUser e s') \<and> curenv s' = Some e \<and> cr3 s' = pg \<and> \<not> holds ENV_LOCK s' \<and>
    envs s' = (envs s)(c := (envs s c)\<lparr>env_status := ENV_RUNNABLE\<rparr>,
      e := (envs s e)\<lparr>env_status := ENV_RUNNING, env_runs := env_runs (envs s e) + 1, env_cpunum := cpunum s\<rparr>)"
proof -
  define t where "t = upd_env e (\<lambda>x. x\<lparr>env_status := ENV_RUNNING, env_runs := env_runs x + 1\<rparr>)
     (set_curenv (Some e) (upd_env c (\<lambda>x. x\<lparr>env_status := ENV_RUNNABLE\<rparr>) s))"
  have leave: "leave_env c s = Inr ((), upd_env c (\<lambda>x. x\<lparr>env_status := ENV_RUNNABLE\<rparr>) s)"
    using st by (simp add: leave_env_def)
  have t: "curenv t = Some e" "holds ENV_LOCK t" "cpunum t = cpunum s" "locks t = locks s"
      "envs t = (envs s)(c := (envs s c)\<lparr>env_status := ENV_RUNNABLE\<rparr>,
         e := (envs s e)\<lparr>env_status := ENV_RUNNING, env_runs := env_runs (envs s e) + 1\<rparr>)"
    using cur lk by (simp_all add: t_def)
  have cr: "lcr3 pg t = Inr ((), t\<lparr>cr3 := pg\<rparr>)" using pg(2) by (simp add: lcr3_def)
  have ul: "unlock ENV_LOCK (t\<lparr>cr3 := pg\<rparr>) = Inr ((), t\<lparr>cr3 := pg, locks := (locks t)(ENV_LOCK := spin_initlock)\<rparr>)"
    using unlock_held [of ENV_LOCK "t\<lparr>cr3 := pg\<rparr>"] t by simp
  have "env_run e s = env_pop_tf e (t\<lparr>cr3 := pg, locks := (locks t)(ENV_LOCK := spin_initlock)\<rparr>)"
    unfolding env_run_def Let_def cur(1)
    using cur lk ty pg t leave cr ul by (simp add: t_def [symmetric])
  then show ?thesis using t cur by (simp add: env_pop_tf_def)
qed

text \<open>
  C16: Switching to another environment: the one that was running on this processor becomes runnable again, the new one
  is current and running with its run counter increased and the processor recorded, its page directory is
  loaded, and the environment lock is released before user code starts.  No other environment changes.
\<close>

theorem env_run_switch:
  assumes lk: "holds ENV_LOCK s" and cur: "curenv s = Some c" "c \<noteq> e" and st: "env_status (envs s c) = ENV_RUNNING"
    and ty: "env_type (envs s c) \<noteq> ENV_TYPE_KERNEL" "env_type (envs s e) \<noteq> ENV_TYPE_KERNEL"
    and pg: "env_pgdir (envs s e) = Some pg" "PADDR (kva pg) = (Inr pa :: kstate stop + u32)"
  shows "\<exists>s'. env_run e s = Inl (EnterUser e s') \<and> curenv s' = Some e \<and> cr3 s' = pg \<and> \<not> holds ENV_LOCK s' \<and>
    envs s' = (envs s)(c := (envs s c)\<lparr>env_status := ENV_RUNNABLE\<rparr>,
      e := (envs s e)\<lparr>env_status := ENV_RUNNING, env_runs := env_runs (envs s e) + 1, env_cpunum := cpunum s\<rparr>)"
  using assms by (rule env_run_switches)

theorem env_run_switch_witness:
  "\<exists>s'. env_run 3 sample_envs = Inl (EnterUser 3 s') \<and> curenv s' = Some 3 \<and> cr3 s' = 1"
proof -
  have "PADDR (kva 1) = (Inr 0x1000 :: kstate stop + u32)" by (simp add: PADDR_def kva_def KERNBASE_def page2pa_def)
  then show ?thesis
    using env_run_switch [of sample_envs 2 3 1 "0x1000"] by (auto simp: sample_envs_fields blank_env_def)
qed

text \<open>
  C31: After \<open>env_init\<close> the free list runs through the environments 0, 1, ..., 1024 in this order, each with identifier 0,
  no pages and an empty list of areas.  The array has 1024 elements, so the last one lies behind its end: the
  loop starts at \<open>NENV\<close> instead of \<open>NENV - 1\<close>.
\<close>

theorem env_init_free_list:
  assumes "env_free_list s = None"
  shows "llist (elink (env_init s)) (env_free_list (env_init s)) [0..<Suc NENV] \<and> (\<forall>j \<le> NENV. fresh_env (envs (env_init s) j))"
  using env_init_loop_ok [of s "[]" NENV] assms by (simp add: env_init_def del: upt_Suc)

theorem env_init_free_list_witness:
  "llist (elink (env_init (sample_k\<lparr>env_free_list := None\<rparr>))) (env_free_list (env_init (sample_k\<lparr>env_free_list := None\<rparr>))) [0..<Suc NENV]"
  using env_init_free_list [of "sample_k\<lparr>env_free_list := None\<rparr>"] by (simp del: upt_Suc)

text \<open>
  C30: The identifier that \<open>env_alloc\<close> gives to slot \<open>e\<close> is a positive number, leads back to the slot, and differs from
  the identifier the slot had before, also when the generation counter overflows.
\<close>

theorem env_id_fresh:
  assumes "e < NENV"
  shows "ENVX (generation old OR of_nat e) = e \<and> 0 < sint (generation old OR of_nat e) \<and> generation old OR of_nat e \<noteq> old"
  using assms by (rule env_id_parts)

theorem env_id_fresh_witness: "ENVX (generation 0x7FFFF005 OR of_nat 5) = 5 \<and> generation 0x7FFFF005 OR of_nat 5 \<noteq> 0x7FFFF005"
  using env_id_fresh [of 5 "0x7FFFF005"] by simp

text \<open>
  C17: \<open>env_alloc\<close> takes the first free environment and one free page: the environment is runnable with a new identifier,
  the initial registers and an empty user half of its address space; the entries above \<open>UTOP\<close> are those of the
  kernel's directory, except the one at \<open>UVPT\<close>, which maps the directory itself.  \<open>envid2env\<close> finds it under its
  identifier.  No other environment and no other frame changes.
\<close>

theorem env_alloc_creates:
  assumes free: "env_free_list s = Some e" "e < NENV" and pf: "pfl_ok s (p # ps)" "\<not> PREMAPPED_FLAG s"
    and pa: "PADDR (kva p) = (Inr pa :: kstate stop + u32)" and k: "kern_pgdir s \<noteq> p" and lk: "holds ENV_LOCK s"
  shows "\<exists>s'. env_alloc parent_id type s = Inr ((0, Some e), s') \<and> pfl_ok s' ps \<and> env_free_list s' = env_link (envs s e) \<and>
    envs s' = (envs s)(e := (envs s e)\<lparr>env_id := generation (env_id (envs s e)) OR of_nat e, env_parent_id := parent_id,
       env_type := type, env_status := ENV_RUNNABLE, env_runs := 0, env_tf := initial_tf type, env_pgdir := Some p\<rparr>) \<and>
    (\<forall>i < 1024. pmem s' p i = (if i = pdx UVPT then pa OR PTE_P OR PTE_U
                               else if pdx UTOP \<le> i then pmem s (kern_pgdir s) i else 0)) \<and>
    (\<forall>f. f \<noteq> p \<longrightarrow> pmem s' f = pmem s f) \<and> pp_ref (pages s' p) = 1 \<and>
    envid2env (env_id (envs s' e)) False s' = Inr ((0, Some e), s')"
proof -
  have z: "ALLOC_ZERO AND ALLOC_HUGE = 0" "ALLOC_ZERO AND ALLOC_ZERO \<noteq> 0" by (simp_all add: ALLOC_ZERO_def ALLOC_HUGE_def)
  obtain t where t: "page_alloc ALLOC_ZERO s = Inr (Some p, t)" "pfl_ok t ps" "pmem t = (pmem s)(p := (\<lambda>_. 0))" "pm_rest_eq s t"
     "pages t = (pages s)(p := (pages s p)\<lparr>pp_link := None, page_flags := (ALLOC_ZERO AND POISON_AFTER_FREE) OR ALLOC\<rparr>)"
    using page_alloc_ok [OF pf z(1)] z(2) by (metis (no_types, lifting))
  note K = pm_rest_kfields [OF t(4)]
  have p: "p < npages s" "npages s \<le> 1048576" "pp_ref (pages s p) = 0" "p \<notin> set ps" using pfl_okD [OF pf(1)] by auto
  define u where "u = wr (p, pdx UVPT) (pa OR PTE_P OR PTE_U) (copy_pgdir p (kern_pgdir s) (pdx UTOP)
     (upd_env e (\<lambda>x. x\<lparr>env_pgdir := Some p\<rparr>) (upd_page p (\<lambda>q. q\<lparr>pp_ref := pp_ref q + 1\<rparr>) t)))"
  have su: "env_setup_vm e s = Inr (0, u)"
    using t(1) p pa K by (simp add: env_setup_vm_def Let_def page2kva_def KADDR_def u_def)
  have U: "envs u = (envs s)(e := (envs s e)\<lparr>env_pgdir := Some p\<rparr>)" "holds ENV_LOCK u" "pages u = (pages t)(p := (pages t p)\<lparr>pp_ref := 1\<rparr>)"
     "npages u = npages t" "page_free_list u = page_free_list t" "free_pages_count u = free_pages_count t"
     "pmem u = (pmem s)(p := (\<lambda>i. if i = pdx UVPT then pa OR PTE_P OR PTE_U
                               else if pdx UTOP \<le> i \<and> i < 1024 then pmem s (kern_pgdir s) i else 0))"
    using K lk t(3,5) k p(3) by (auto simp: u_def copy_pgdir_def wr_def write_mem_def upd_env_def upd_page_def holds_def fun_eq_iff)
  define v where "v = (upd_env e (\<lambda>x. x\<lparr>env_id := generation (env_id x) OR of_nat e, env_parent_id := parent_id,
                      env_type := type, env_status := ENV_RUNNABLE, env_runs := 0, env_tf := initial_tf type\<rparr>) u)
       \<lparr>env_free_list := env_link (envs s e)\<rparr>"
  have "env_alloc parent_id type s = Inr ((0, Some e), v)"
    unfolding env_alloc_def free(1) using su by (simp add: Let_def v_def U)
  moreover have "pfl_ok v ps"
  proof -
    have "pfl_ok (upd_page p (\<lambda>q. q\<lparr>pp_ref := pp_ref q + 1\<rparr>) t) ps" by (rule pfl_ok_upd_outside [OF t(2)]) (use p(4) t(5) in simp_all)
    then have "pfl_ok u ps" by (simp add: u_def copy_pgdir_pfl_ok)
    then show ?thesis by (simp add: v_def pfl_ok_def pfl_shape_def)
  qed
  moreover have "envid2env (env_id (envs v e)) False v = Inr ((0, Some e), v)"
  proof -
    let ?id = "generation (env_id (envs s e)) OR of_nat e"
    have "ENVX ?id = e" "?id \<noteq> 0" using env_id_parts [OF free(2), of "env_id (envs s e)"] by auto
    then show ?thesis using U by (simp add: envid2env_def v_def assert_lock_def)
  qed
  ultimately show ?thesis using U by (auto simp: v_def)
qed

theorem env_alloc_creates_witness:
  "\<exists>s'. env_alloc 0 ENV_TYPE_USER (sample_envs\<lparr>env_free_list := Some 5\<rparr>) = Inr ((0, Some 5), s') \<and> pfl_ok s' [2] \<and>
     envid2env 0x1005 False s' = Inr ((0, Some 5), s')"
proof -
  let ?s = "sample_envs\<lparr>env_free_list := Some 5\<rparr>"
  have ok: "pfl_ok ?s [3, 2]" using sample_k_ok(1) by (simp add: sample_envs_def pfl_ok_def pfl_shape_def)
  have "PADDR (kva 3) = (Inr 0x3000 :: kstate stop + u32)" by (simp add: PADDR_def kva_def KERNBASE_def page2pa_def)
  moreover have "generation 0 OR of_nat 5 = 0x1005" by (simp add: generation_eq high22_def)
  moreover have "\<not> PREMAPPED_FLAG ?s" "kern_pgdir ?s = 1" "env_id (envs ?s 5) = 0" "env_free_list ?s = Some 5"
    by (simp_all add: sample_envs_def sample_k_def blank_env_def)
  ultimately show ?thesis
    using env_alloc_creates [OF _ _ ok, of 5 "0x3000" 0 ENV_TYPE_USER] sample_envs_fields(1) by auto
qed

end
