(* ===== verification/MemPressure.thy ===== *)
theory MemPressure
  imports Env
begin

text \<open>
  The reaction to memory pressure, \<^verbatim>\<open>kern/mm_pres.c\<close>: writing a page to the swap disk and reading it back
  one sector per call (\<open>page_out\<close>, \<open>page_in\<close>), balancing the page lists (\<open>lru_manager\<close>), queueing pages
  for swapping (\<open>reclaim_pgs\<close>) and the choice of a victim (\<open>oom_kill\<close>).

  A tasklet is named by its index.  A page holds eight sectors of 128 words.
\<close>

abbreviation NSECTORS :: nat where "NSECTORS \<equiv> 8"

section \<open>Swapping a page in\<close>

definition read_into :: "nat \<Rightarrow> nat \<Rightarrow> kstate \<Rightarrow> kstate" where
  "read_into fr k s =
     (let (w, d) = ide_read_sector (ide s) in
      s\<lparr>ide := d, pmem := (pmem s)(fr := (\<lambda>i. if k * SECTWORDS \<le> i \<and> i < (k + 1) * SECTWORDS then w (i - k * SECTWORDS)
                                               else pmem s fr i))\<rparr>)"

definition write_from :: "nat \<Rightarrow> nat \<Rightarrow> kstate \<Rightarrow> kstate" where
  "write_from fr k s = s\<lparr>ide := ide_write_sector (\<lambda>i. pmem s fr (k * SECTWORDS + i)) (ide s)\<rparr>"

definition start_disk :: "u32 \<Rightarrow> bool \<Rightarrow> kstate \<Rightarrow> (kstate, unit) kres" where
  "start_disk sector iswrite s =
     rbind (ide_start_readwrite sector NSECTORS iswrite (ide s)) (\<lambda>d. Inr ((), s\<lparr>ide := d\<rparr>))"

definition toggle_swap :: "u32 \<Rightarrow> kstate \<Rightarrow> (kstate, unit) kres" where
  "toggle_swap i s = rbind (toggle_bit (swap_map s) (unat i)) (\<lambda>m. Inr ((), s\<lparr>swap_map := m\<rparr>))"

text \<open>The entry of a page that is back in memory, from the entry \<open>e\<close> of the swapped page.\<close>

definition pte_swapped_in :: "u32 \<Rightarrow> nat \<Rightarrow> u32" where
  "pte_swapped_in e p =
     (let e = e XOR PTE_G;
          e = (if e AND PTE_AVAIL \<noteq> 0 then e XOR PTE_AVAIL else e) in
      ((e OR PTE_P) AND 0x00000FFF) OR page2pa p)"

text \<open>The loop over the other environments that share the page, with \<open>n\<close> of them left.\<close>

fun share_in :: "nat \<Rightarrow> nat \<Rightarrow> u32 \<Rightarrow> pte_ptr \<Rightarrow> nat \<Rightarrow> kstate \<Rightarrow> (kstate, unit) kres" where
  "share_in 0 i pre p pg s = Inr ((), s)"
| "share_in (Suc n) i pre p pg s =
     (if scannable (env_status (envs s i)) then
        rbind (seek_pte pre i s) (\<lambda>found.
        case found of
          None \<Rightarrow> share_in n (Suc i) pre p pg s
        | Some q \<Rightarrow> share_in n (Suc i) pre p pg (wr q (rd p s) (upd_page pg (\<lambda>x. x\<lparr>pp_ref := pp_ref x + 1\<rparr>) s)))
      else share_in n (Suc i) pre p pg s)"

definition page_in_done :: "nat \<Rightarrow> nat \<Rightarrow> kstate \<Rightarrow> (kstate, bool) kres" where
  "page_in_done t pg s =
     (let s = upd_page pg (\<lambda>x. x\<lparr>pp_ref := pp_ref x + 1\<rparr>) s in
      case requestor_env (tasklets s t) of
        None \<Rightarrow> Inl NullDeref
      | Some e \<Rightarrow>
          rbind (pgdir_walk (env_pgdir (envs s e)) (fault_addr (tasklets s t)) 0 s) (\<lambda>(p, s).
          case p of
            None \<Rightarrow> Inl NullDeref
          | Some p \<Rightarrow>
              let old = rd p s;
                  pre = (if (old XOR PTE_G) AND PTE_AVAIL \<noteq> 0 then old XOR PTE_AVAIL else old) in
              rbind (lru_ha_insert (Some pg) s) (\<lambda>(_, s).
              let s = wr p (pte_swapped_in old pg) s in
              rbind (if pre AND PTE_AVAIL \<noteq> 0 then share_in NENV 0 pre p pg s else Inr ((), s)) (\<lambda>(_, s).
              Inr (True, upd_env e (\<lambda>x. x\<lparr>env_status := ENV_RUNNABLE\<rparr>) s)))))"

text \<open>One call after the transfer has been started: the next sector, or the end.\<close>

definition page_in_next :: "nat \<Rightarrow> nat \<Rightarrow> nat \<Rightarrow> kstate \<Rightarrow> (kstate, bool) kres" where
  "page_in_next t pg buf s =
     (if t_count (tasklets s t) < of_nat NSECTORS then
        if ide_is_ready (ide s) then
          let k = t_count (tasklets s t);
              s = read_into buf (unat k) s in
          rbind (toggle_swap (sector_start (tasklets s t) + k) s) (\<lambda>(_, s).
          Inr (False, upd_task t (\<lambda>x. x\<lparr>t_count := t_count x + 1\<rparr>) s))
        else Inr (False, s)
      else page_in_done t pg s)"

definition page_in :: "nat \<Rightarrow> kstate \<Rightarrow> (kstate, bool) kres" where
  "page_in t s =
     (case t_pi (tasklets s t) of
        None \<Rightarrow> Inl NullDeref
      | Some pg \<Rightarrow>
          rbind (page2kva pg s) (\<lambda>buf.
          rbind (if t_count (tasklets s t) = 0 then start_disk (sector_start (tasklets s t)) False s else Inr ((), s))
            (\<lambda>(_, s). page_in_next t pg buf s)))"

section \<open>Swapping a page out\<close>

definition pte_swapped_out :: "bool \<Rightarrow> u32 \<Rightarrow> u32 \<Rightarrow> u32" where
  "pte_swapped_out cow sector e =
     (let e = (((e XOR PTE_P) AND 0x00000FFF) OR push_bit 12 sector) OR PTE_G in
      if cow then e OR PTE_AVAIL else if e AND PTE_AVAIL \<noteq> 0 then e XOR PTE_AVAIL else e)"

text \<open>
  The processor's translation of an address by the page directory that is loaded; the write protection
  bit of \<open>cr0\<close> is set, so a store of the kernel also needs \<open>PTE_W\<close>.  The result is a frame and the index of
  a word in it.
\<close>

definition translate :: "bool \<Rightarrow> u32 \<Rightarrow> kstate \<Rightarrow> kstate stop + pte_ptr" where
  "translate write va s =
     (let need = (if write then PTE_P OR PTE_W else PTE_P);
          pde = pmem s (cr3 s) (pdx va);
          pte = pmem s (frame pde) (ptx va);
          w = unat (PGOFF va div 4) in
      if pde AND need \<noteq> need then Inl (PageFault va)
      else if pde AND PTE_PS \<noteq> 0 then Inr (frame pde + ptx va, w)
      else if pte AND need \<noteq> need then Inl (PageFault va)
      else Inr (frame pte, w))"

definition poke :: "u32 \<Rightarrow> u32 \<Rightarrow> kstate \<Rightarrow> (kstate, unit) kres" where
  "poke va w s = rbind (translate True va s) (\<lambda>p. Inr ((), wr p w s))"

text \<open>
  The loop at the label \<open>COW\<close>.  The pointer is read before it is tested, and while the page has
  more than one reference the next entry is looked up and the loop repeated; \<open>find_pte_all\<close> stores the
  address it finds through \<open>t->fault_addr\<close>, an address of the user.
\<close>

fun page_out_cow :: "nat \<Rightarrow> bool \<Rightarrow> nat \<Rightarrow> nat \<Rightarrow> pte_ptr option \<Rightarrow> kstate \<Rightarrow> (kstate, bool) kres" where
  "page_out_cow 0 cow t pg p s = Inl Diverge"
| "page_out_cow (Suc fuel) cow t pg p s =
     (case p of
        None \<Rightarrow> Inl NullDeref
      | Some e \<Rightarrow>
          let s = wr e (pte_swapped_out cow (sector_start (tasklets s t)) (rd e s)) s in
          if 1 < pp_ref (pages s pg) then
            rbind (poke (fault_addr (tasklets s t)) 0 s) (\<lambda>(_, s).
            rbind (find_pte_all pg (requestor_env (tasklets s t)) s) (\<lambda>(q, r, a).
            rbind (case q of None \<Rightarrow> Inr ((), s) | Some _ \<Rightarrow> poke (fault_addr (tasklets s t)) a s) (\<lambda>(_, s).
            page_out_cow fuel cow t pg q (upd_task t (\<lambda>x. x\<lparr>requestor_env := r\<rparr>) s))))
          else
            rbind (page_free pg (upd_page pg (\<lambda>x. x\<lparr>pp_ref := pp_ref x - 1\<rparr>) s)) (\<lambda>(_, s). Inr (True, s)))"

text \<open>Every round of the loop takes the present bit of one entry, of which there are at most \<open>NENV * 2^20\<close>.\<close>

definition page_out_done :: "nat \<Rightarrow> nat \<Rightarrow> kstate \<Rightarrow> (kstate, bool) kres" where
  "page_out_done t pg s =
     (if pp_ref (pages s pg) = 0 then
        if page_flags (pages s pg) AND ALLOC = 0 then
          rbind (toggle_swap (sector_start (tasklets s t)) s) (\<lambda>(_, s). Inr (True, s))
        else Inl (Panic ''page out finished but page with ref and marked as alloc'')
      else
        case requestor_env (tasklets s t) of
          None \<Rightarrow> Inl NullDeref
        | Some e \<Rightarrow>
            rbind (pgdir_walk (env_pgdir (envs s e)) (fault_addr (tasklets s t)) 0 s) (\<lambda>(p, s).
            page_out_cow (NENV * 2 ^ 20) (1 < pp_ref (pages s pg)) t pg p s))"

definition page_out_next :: "nat \<Rightarrow> nat \<Rightarrow> nat \<Rightarrow> kstate \<Rightarrow> (kstate, bool) kres" where
  "page_out_next t pg buf s =
     (if t_count (tasklets s t) < of_nat NSECTORS then
        if ide_is_ready (ide s) then
          let k = t_count (tasklets s t);
              s = write_from buf (unat k) s in
          rbind (toggle_swap (sector_start (tasklets s t) + k) s) (\<lambda>(_, s).
          Inr (False, upd_task t (\<lambda>x. x\<lparr>t_count := t_count x + 1\<rparr>) s))
        else Inr (False, s)
      else page_out_done t pg s)"

definition page_out :: "nat \<Rightarrow> kstate \<Rightarrow> (kstate, bool) kres" where
  "page_out t s =
     (case t_pi (tasklets s t) of
        None \<Rightarrow> Inl NullDeref
      | Some pg \<Rightarrow>
          rbind (page2kva pg s) (\<lambda>buf.
          rbind (if t_count (tasklets s t) = 0 then
                   rbind (find_swap_spot (swap_map s)) (\<lambda>spot.
                   let s = upd_task t (\<lambda>x. x\<lparr>sector_start := spot\<rparr>) s in
                   start_disk (sector_start (tasklets s t)) True s)
                 else Inr ((), s)) (\<lambda>(_, s).
          page_out_next t pg buf s)))"

section \<open>Page lists\<close>

text \<open>\<open>MIN_ALRU_SZ\<close> is 0 and \<open>BL_LRU_RATIO\<close> 1, so the tests compare the two counters.\<close>

definition lru_manager :: "kstate \<Rightarrow> (kstate, int) kres" where
  "lru_manager s =
     rbind (lock PAGEALLOC_LOCK s) (\<lambda>(_, s).
     rbind (balance lru_ta_remove lru_ti_insert lru_active_count lru_inactive_count (Suc (unat (lru_active_count s))) s) (\<lambda>(_, s).
     rbind (unlock PAGEALLOC_LOCK s) (\<lambda>(_, s). Inr (1, s))))"

section \<open>Choosing a victim\<close>

definition badness :: "kstate \<Rightarrow> nat \<Rightarrow> int" where
  "badness s i =
     (if env_type (envs s i) \<noteq> ENV_TYPE_USER then 0
      else sint ((env_alloc_pages (envs s i) div of_nat (npages s)) * 100))"

text \<open>The loop keeps the index of the smallest score; \<open>npages\<close> is not 0 on a running machine.\<close>

fun worst_loop :: "nat \<Rightarrow> nat \<Rightarrow> nat \<Rightarrow> kstate \<Rightarrow> nat" where
  "worst_loop 0 i theworst s = theworst"
| "worst_loop (Suc n) i theworst s =
     worst_loop n (Suc i) (if badness s i < badness s theworst then i else theworst) s"

definition oom_kill :: "(kstate \<Rightarrow> (kstate, unit) kres) \<Rightarrow> nat option \<Rightarrow> int \<Rightarrow> kstate \<Rightarrow> (kstate, bool) kres" where
  "oom_kill yield e pgs_r s =
     rbind (assert_lock ENV_LOCK s) (\<lambda>_.
     let theworst = worst_loop NENV 0 0 s in
     if badness s theworst \<noteq> 0 \<and> 0 < pgs_r \<and> pgs_r \<le> badness s theworst \<and> e \<noteq> Some theworst
     then rbind (env_destroy yield theworst s) (\<lambda>(_, s). Inr (True, s))
     else Inr (False, s))"

section \<open>Reclaiming pages\<close>

text \<open>
  Each round queues one page; a list that is empty is dereferenced by \<open>lru_hi_remove\<close>.  A round with no
  page would repeat for ever.
\<close>

fun reclaim_loop :: "nat \<Rightarrow> int \<Rightarrow> kstate \<Rightarrow> (kstate, int) kres" where
  "reclaim_loop 0 pg_c s = (if 0 < pg_c then Inl Diverge else Inr (pg_c, s))"
| "reclaim_loop (Suc fuel) pg_c s =
     (if 0 < pg_c then
        rbind (lock PAGEALLOC_LOCK s) (\<lambda>(_, s).
        rbind (lru_hi_remove s) (\<lambda>(pp, s).
        rbind (unlock PAGEALLOC_LOCK s) (\<lambda>(_, s).
        case pp of
          None \<Rightarrow> Inl Diverge
        | Some p \<Rightarrow>
            (case task_get_free s of
               (None, s) \<Rightarrow> rbind (lru_hi_insert (Some p) s) (\<lambda>(_, s). Inr (pg_c, s))
             | (Some t, s) \<Rightarrow>
                 rbind (find_pte_all p (requestor_env (tasklets s t)) s) (\<lambda>(_, r, fva).
                 if r = None \<or> fva = 0 then Inl (Panic ''OMG env'')
                 else
                   let s = upd_task t (\<lambda>x. x\<lparr>requestor_env := r, t_state := T_WORK, fptr := F_page_out, t_pi := Some p,
                             fault_addr := fva, t_count := 0\<rparr>) s in
                   rbind (task_add_alloc t s) (\<lambda>(_, s).
                   reclaim_loop fuel (pg_c - 1) s))))))
      else Inr (pg_c, s))"

definition reclaim_pgs :: "(kstate \<Rightarrow> (kstate, unit) kres) \<Rightarrow> nat option \<Rightarrow> int \<Rightarrow> kstate \<Rightarrow> (kstate, int) kres" where
  "reclaim_pgs yield e pg_n s =
     rbind (reclaim_loop (nat pg_n) pg_n s) (\<lambda>(pg_c, s).
     if 0 < pg_c then
       rbind (oom_kill yield e pg_c s) (\<lambda>(r, s). Inr (if r then 0 else pg_c, s))
     else Inr (pg_c, s))"

section \<open>Frames\<close>

lemma cpu_lru: "cpu_only s t \<Longrightarrow> framed cpu_only s (lru_hi_remove t)"
   "cpu_only s t \<Longrightarrow> framed cpu_only s (lru_ta_remove t)"
   "cpu_only s t \<Longrightarrow> framed cpu_only s (lru_ti_insert p t)"
   "cpu_only s t \<Longrightarrow> framed cpu_only s (lru_hi_insert p t)"
  by (blast intro: cpu_locks_framed vm_cpu_framed lru_vm_framed lru_list_framed vm_only_refl cpu_locks_refl)+

lemma balance_framed: "cpu_only s t \<Longrightarrow> framed cpu_only s (balance lru_ta_remove lru_ti_insert na nb n t)"
  by (induction n arbitrary: t) (auto intro!: framed_struct cpu_lru)

lemma lru_manager_framed: "cpu_only s t \<Longrightarrow> framed cpu_only s (lru_manager t)"
  by (auto simp: lru_manager_def simp del: balance.simps intro!: framed_struct lock_framed balance_framed)

lemma scan_dir_calm: "calm (scan_dir P pg j n s)"
  by (induction n arbitrary: j) (auto intro!: calm_bind split: option.split)

lemma scan_envs_calm: "calm (scan_envs P i n s)"
  by (induction n arbitrary: i) (auto intro!: calm_bind scan_dir_calm split: option.split)

lemma find_pte_all_calm: "calm (find_pte_all p e s)"
  by (auto simp: find_pte_all_def Let_def intro!: calm_bind scan_envs_calm split: option.split)

lemma reclaim_loop_framed: "cpu_only s t \<Longrightarrow> framed cpu_only s (reclaim_loop n k t)"
proof (induction n arbitrary: k t)
  case (Suc n)
  show ?case
    by (auto simp: Let_def Suc.prems intro!: framed_struct lock_framed cpu_lru framed_pure [OF find_pte_all_calm]
        task_add_alloc_framed Suc.IH split: option.split) (erule (1) task_get_free_cpu)+
qed auto

section \<open>Choosing a victim: facts\<close>

lemma worst_loop_min:
  assumes "\<forall>j. 0 \<le> badness s j" "badness s w = 0"
  shows "badness s (worst_loop n i w s) = 0"
  using assms(2)
proof (induction n arbitrary: i w)
  case (Suc n)
  have "\<not> badness s i < badness s w" using assms(1) Suc.prems by (simp add: not_less)
  then show ?case using Suc.IH Suc.prems by simp
qed simp

lemma badness_nonneg:
  assumes "256 \<le> npages s" "npages s \<le> 1048576"
  shows "0 \<le> badness s i"
proof -
  let ?a = "env_alloc_pages (envs s i)" and ?n = "of_nat (npages s) :: u32"
  have n: "unat ?n = npages s" using assms(2) by (simp add: unat_of_nat take_bit_nat_eq_self)
  have "unat ?a < 16777216 * 256" using unsigned_less [of ?a] by simp
  also have "\<dots> \<le> 16777216 * npages s" using assms(1) by simp
  finally have q: "unat ?a div npages s < 16777216" by (rule less_mult_imp_div_less)
  then have "unat (?a div ?n * 100) = unat ?a div npages s * 100"
    by (simp add: unat_word_ariths unat_div n)
  then have "unat (?a div ?n * 100) < 2147483648" using q by simp
  then have "0 \<le> sint (?a div ?n * 100)" by (simp add: sint_unat)
  then show ?thesis by (simp add: badness_def)
qed

section \<open>A transfer sector by sector\<close>

fun calls :: "nat \<Rightarrow> (kstate \<Rightarrow> (kstate, bool) kres) \<Rightarrow> kstate \<Rightarrow> (kstate, unit) kres" where
  "calls 0 f s = Inr ((), s)"
| "calls (Suc n) f s = rbind (f s) (\<lambda>(_, s). calls n f s)"

lemma calls_invariant:
  assumes step: "\<And>j s. I j s \<Longrightarrow> j < m \<Longrightarrow> \<exists>r s'. f s = Inr (r, s') \<and> I (Suc j) s'"
  shows "I i s \<Longrightarrow> i + n \<le> m \<Longrightarrow> \<exists>s'. calls n f s = Inr ((), s') \<and> I (i + n) s'"
proof (induction n arbitrary: i s)
  case (Suc n)
  then obtain r s' where "f s = Inr (r, s')" "I (Suc i) s'" using step [of i s] by auto
  then show ?case using Suc.IH [of "Suc i" s'] Suc.prems(2) by simp
qed simp

lemma toggle_swap_ok:
  assumes "unat i < 8 * length (swap_map s)"
  shows "\<exists>m. toggle_swap i s = Inr ((), s\<lparr>swap_map := m\<rparr>) \<and> length m = length (swap_map s) \<and>
     bits m = (if unat i \<in> bits (swap_map s) then bits (swap_map s) - {unat i} else insert (unat i) (bits (swap_map s)))"
  using toggle_bit_bits [OF assms, where 'a = "kstate"] by (auto simp: toggle_swap_def)

text \<open>The set of marked sectors after the bits of \<open>B\<close> have been toggled.\<close>

definition toggled :: "nat set \<Rightarrow> nat set \<Rightarrow> nat set" where
  "toggled A B = (A - B) \<union> (B - A)"

lemma toggled_none: "toggled A {k..<k + 0} = A" by (auto simp: toggled_def)

lemma toggled_twice: "toggled (toggled A B) B = A" by (auto simp: toggled_def)

lemma toggled_Suc:
  assumes "A = toggled B {k..<k + j}"
  shows "(if k + j \<in> A then A - {k + j} else insert (k + j) A) = toggled B {k..<k + Suc j}"
  using assms by (auto simp: toggled_def less_Suc_eq)

text \<open>The state after \<open>j\<close> sectors of page \<open>p\<close> have been written from sector \<open>k\<close> on, starting in \<open>s0\<close>.\<close>

definition transfer :: "u8 \<Rightarrow> nat \<Rightarrow> nat \<Rightarrow> nat \<Rightarrow> nat \<Rightarrow> nat \<Rightarrow> kstate \<Rightarrow> kstate \<Rightarrow> bool" where
  "transfer com t p k j n s0 s \<longleftrightarrow>
     t_pi (tasklets s t) = Some p \<and> t_count (tasklets s t) = of_nat j \<and> sector_start (tasklets s t) = of_nat k \<and>
     npages s = npages s0 \<and> ide_is_ready (ide s) \<and> r_command (ide s) = com \<and> secs_left (ide s) = n - j \<and>
     cur_sector (ide s) = k + j \<and> diskno (ide s) = diskno (ide s0) \<and> cur_drive (ide s) = diskno (ide s0) mod 2 \<and>
     length (swap_map s) = length (swap_map s0) \<and> bits (swap_map s) = toggled (bits (swap_map s0)) {k..<k + j}"

definition wrote :: "nat \<Rightarrow> nat \<Rightarrow> nat \<Rightarrow> kstate \<Rightarrow> nat \<Rightarrow> kstate \<Rightarrow> bool" where
  "wrote t p k s0 j s \<longleftrightarrow>
     transfer IDE_COM_WRITE t p k j 8 s0 s \<and> pmem s = pmem s0 \<and>
     (\<forall>v x i. disk (ide s) v x i =
        (if v = diskno (ide s0) mod 2 \<and> k \<le> x \<and> x < k + j \<and> i < SECTWORDS then pmem s0 p ((x - k) * SECTWORDS + i)
         else disk (ide s0) v x i))"

lemma unat_sector: "k + 8 \<le> SIZE_SWAP_MAP \<Longrightarrow> j < 8 \<Longrightarrow> unat (of_nat k + of_nat j :: u32) = k + j"
  by (simp add: unat_of_nat take_bit_nat_eq_self flip: of_nat_add)

lemma transfer_count: "transfer com t p k j n s0 s \<Longrightarrow> j < 8 \<Longrightarrow> t_count (tasklets s t) < 8 \<and> unat (t_count (tasklets s t)) = j"
  by (simp add: transfer_def unat_of_nat take_bit_nat_eq_self word_less_nat_alt)

text \<open>The bit of the sector is toggled whether or not it was set.\<close>

lemma transfer_toggle:
  assumes w: "transfer com t p k j n s0 s" and j: "j < 8" and k: "k + 8 \<le> SIZE_SWAP_MAP" "k + 8 \<le> 8 * length (swap_map s0)"
  obtains m where "\<And>u. swap_map u = swap_map s \<Longrightarrow>
       toggle_swap (sector_start (tasklets s t) + t_count (tasklets s t)) u = Inr ((), u\<lparr>swap_map := m\<rparr>)"
      "length m = length (swap_map s0)" "bits m = toggled (bits (swap_map s0)) {k..<k + Suc j}"
proof -
  let ?i = "sector_start (tasklets s t) + t_count (tasklets s t)"
  have u: "unat ?i = k + j" using w unat_sector [OF k(1) j] by (simp add: transfer_def)
  then obtain m where m: "toggle_bit (swap_map s) (k + j) = (Inr m :: kstate stop + _)" "length m = length (swap_map s)"
      "bits m = (if k + j \<in> bits (swap_map s) then bits (swap_map s) - {k + j} else insert (k + j) (bits (swap_map s)))"
    using toggle_bit_bits [of "k + j" "swap_map s", where 'a = kstate] k j w by (auto simp: transfer_def)
  have "bits m = toggled (bits (swap_map s0)) {k..<k + Suc j}"
    unfolding m(3) using w by (intro toggled_Suc) (simp add: transfer_def)
  then show ?thesis using that [of m] m(1,2) u w by (simp add: toggle_swap_def transfer_def)
qed

lemma page_out_next_ok:
  assumes w: "wrote t p k s0 j s" and j: "j < 8" and k: "k + 8 \<le> SIZE_SWAP_MAP" "k + 8 \<le> 8 * length (swap_map s0)"
  shows "\<exists>s'. page_out_next t p p s = Inr (False, s') \<and> wrote t p k s0 (Suc j) s'"
proof -
  have tr: "transfer IDE_COM_WRITE t p k j 8 s0 s" using w by (simp add: wrote_def)
  let ?s = "write_from p j s"
  have d: "ide ?s = (ide s)\<lparr>disk := put_sector (diskno (ide s0) mod 2) (k + j) (\<lambda>i. pmem s p (j * SECTWORDS + i)) (disk (ide s)),
      cur_sector := Suc (k + j), secs_left := 8 - Suc j\<rparr>"
    using tr j by (simp add: write_from_def ide_write_sector_def transfer_def)
  have f: "tasklets ?s = tasklets s" "swap_map ?s = swap_map s" "npages ?s = npages s" "pmem ?s = pmem s"
    by (simp_all add: write_from_def)
  obtain m where m: "toggle_swap (sector_start (tasklets s t) + t_count (tasklets s t)) ?s = Inr ((), ?s\<lparr>swap_map := m\<rparr>)"
      "length m = length (swap_map s0)" "bits m = toggled (bits (swap_map s0)) {k..<k + Suc j}"
    using transfer_toggle [OF tr j k] f(2) by metis
  let ?u = "upd_task t (\<lambda>x. x\<lparr>t_count := t_count x + 1\<rparr>) (?s\<lparr>swap_map := m\<rparr>)"
  have "transfer IDE_COM_WRITE t p k (Suc j) 8 s0 ?u"
    using tr m(2,3) by (simp add: transfer_def upd_task_def d f ide_is_ready_def)
  moreover have "pmem ?u = pmem s0" using w by (simp add: wrote_def upd_task_def f)
  moreover have "disk (ide ?u) v x i =
      (if v = diskno (ide s0) mod 2 \<and> k \<le> x \<and> x < k + Suc j \<and> i < SECTWORDS then pmem s0 p ((x - k) * SECTWORDS + i)
       else disk (ide s0) v x i)" for v x i
    using w by (auto simp: wrote_def upd_task_def d put_sector_def less_Suc_eq)
  ultimately have "wrote t p k s0 (Suc j) ?u" by (simp add: wrote_def)
  then show ?thesis using tr transfer_count [OF tr j] m(1) f
    by (simp add: page_out_next_def Let_def transfer_def)
qed

lemma page_out_first:
  assumes t: "t_pi (tasklets s t) = Some p" "t_count (tasklets s t) = 0" and p: "p < npages s" "npages s \<le> 1048576"
    and rdy: "ide_is_ready (ide s)" and spot: "find_swap_spot (swap_map s) = (Inr (of_nat k) :: kstate stop + u32)"
    and k: "k + 8 \<le> SIZE_SWAP_MAP"
  shows "\<exists>u. page_out t s = page_out_next t p p u \<and> wrote t p k s 0 u"
proof -
  let ?s = "upd_task t (\<lambda>x. x\<lparr>sector_start := of_nat k\<rparr>) s"
  have kk: "unat (of_nat k :: u32) = k" using k by (simp add: unat_of_nat take_bit_nat_eq_self)
  obtain d where d: "ide_start_readwrite (of_nat k) 8 True (ide s) = (Inr d :: kstate stop + _)" "cur_sector d = k"
     "cur_drive d = diskno (ide s) mod 2" "secs_left d = 8" "disk d = disk (ide s)" "ide_status d = ide_status (ide s)"
     "diskno d = diskno (ide s)" "r_command d = IDE_COM_WRITE"
    by (rule start_sector [of "of_nat k" 8 "ide s" True, where 's = kstate]) (use kk k rdy in auto)
  have "page_out t s = page_out_next t p p (?s\<lparr>ide := d\<rparr>)"
    using t p spot d(1) by (simp add: page_out_def page2kva_def KADDR_def start_disk_def upd_task_def Let_def)
  moreover have "wrote t p k s 0 (?s\<lparr>ide := d\<rparr>)"
    using t rdy d by (auto simp: wrote_def transfer_def upd_task_def ide_is_ready_def toggled_def)
  ultimately show ?thesis by blast
qed

lemma page_out_later:
  assumes "wrote t p k s0 j s" "0 < j" "j < 8" "p < npages s0" "npages s0 \<le> 1048576"
  shows "page_out t s = page_out_next t p p s"
proof -
  have "of_nat j \<noteq> (0 :: u32)" using assms(2,3) by (simp add: unat_eq_0 [symmetric] unat_of_nat take_bit_nat_eq_self)
  then show ?thesis using assms by (simp add: wrote_def transfer_def page_out_def page2kva_def KADDR_def)
qed

lemma page_out_calls:
  assumes t: "t_pi (tasklets s t) = Some p" "t_count (tasklets s t) = 0" and p: "p < npages s" "npages s \<le> 1048576"
    and rdy: "ide_is_ready (ide s)" and spot: "find_swap_spot (swap_map s) = (Inr (of_nat k) :: kstate stop + u32)"
    and k: "k + 8 \<le> SIZE_SWAP_MAP" "k + 8 \<le> 8 * length (swap_map s)"
  shows "\<exists>s'. calls 8 (page_out t) s = Inr ((), s') \<and> wrote t p k s 8 s'"
proof -
  obtain s1 where s1: "page_out t s = Inr (False, s1)" "wrote t p k s (Suc 0) s1"
    using page_out_first [OF t p rdy spot k(1)] page_out_next_ok [OF _ _ k] by force
  have "\<exists>s'. calls 7 (page_out t) s1 = Inr ((), s') \<and> (0 < Suc 0 + 7 \<and> wrote t p k s (Suc 0 + 7) s')"
  proof (rule calls_invariant [where I = "\<lambda>j u. 0 < j \<and> wrote t p k s j u" and m = 8])
    fix j u
    assume "0 < j \<and> wrote t p k s j u" "j < 8"
    then show "\<exists>r s'. page_out t u = Inr (r, s') \<and> 0 < Suc j \<and> wrote t p k s (Suc j) s'"
      using page_out_later [of t p k s j u] page_out_next_ok [OF _ _ k, of t p j u] p by auto
  qed (use s1(2) in simp_all)
  then show ?thesis using s1(1) by (simp add: eval_nat_numeral)
qed

definition readback :: "nat \<Rightarrow> nat \<Rightarrow> nat \<Rightarrow> kstate \<Rightarrow> nat \<Rightarrow> kstate \<Rightarrow> bool" where
  "readback t q k s0 j s \<longleftrightarrow>
     transfer IDE_COM_READ t q k j 8 s0 s \<and> disk (ide s) = disk (ide s0) \<and> (\<forall>f. f \<noteq> q \<longrightarrow> pmem s f = pmem s0 f) \<and>
     (\<forall>i < j. \<forall>x < SECTWORDS. pmem s q (i * SECTWORDS + x) = disk (ide s0) (diskno (ide s0) mod 2) (k + i) x)"

lemma page_in_next_ok:
  assumes w: "readback t q k s0 j s" and j: "j < 8" and k: "k + 8 \<le> SIZE_SWAP_MAP" "k + 8 \<le> 8 * length (swap_map s0)"
  shows "\<exists>s'. page_in_next t q q s = Inr (False, s') \<and> readback t q k s0 (Suc j) s'"
proof -
  have tr: "transfer IDE_COM_READ t q k j 8 s0 s" using w by (simp add: readback_def)
  let ?s = "read_into q j s" and ?v = "diskno (ide s0) mod 2"
  have d: "ide ?s = (ide s)\<lparr>cur_sector := Suc (k + j), secs_left := 8 - Suc j\<rparr>"
     "pmem ?s = (pmem s)(q := \<lambda>i. if j * SECTWORDS \<le> i \<and> i < Suc j * SECTWORDS
        then disk (ide s) ?v (k + j) (i - j * SECTWORDS) else pmem s q i)"
    using tr j by (simp_all add: read_into_def ide_read_sector_def transfer_def IDE_COM_READ_def IDE_COM_IDENTIFY_def)
  have f: "tasklets ?s = tasklets s" "swap_map ?s = swap_map s" "npages ?s = npages s"
    by (simp_all add: read_into_def split: prod.split)
  obtain m where m: "toggle_swap (sector_start (tasklets s t) + t_count (tasklets s t)) ?s = Inr ((), ?s\<lparr>swap_map := m\<rparr>)"
      "length m = length (swap_map s0)" "bits m = toggled (bits (swap_map s0)) {k..<k + Suc j}"
    using transfer_toggle [OF tr j k] f(2) by metis
  let ?u = "upd_task t (\<lambda>x. x\<lparr>t_count := t_count x + 1\<rparr>) (?s\<lparr>swap_map := m\<rparr>)"
  have "transfer IDE_COM_READ t q k (Suc j) 8 s0 ?u"
    using tr m(2,3) by (simp add: transfer_def upd_task_def d f ide_is_ready_def)
  moreover have "disk (ide ?u) = disk (ide s0)" using w by (simp add: readback_def upd_task_def d)
  moreover have "pmem ?u f = pmem s0 f" if "f \<noteq> q" for f using w that by (simp add: readback_def upd_task_def d)
  moreover have "pmem ?u q (i * SECTWORDS + x) = disk (ide s0) ?v (k + i) x" if "i < Suc j" "x < SECTWORDS" for i x
    using w that by (auto simp: readback_def upd_task_def d less_Suc_eq)
  ultimately have "readback t q k s0 (Suc j) ?u" by (simp add: readback_def)
  then show ?thesis using tr transfer_count [OF tr j] m(1) f
    by (simp add: page_in_next_def Let_def transfer_def)
qed

lemma page_in_calls:
  assumes t: "t_pi (tasklets s t) = Some q" "t_count (tasklets s t) = 0" "sector_start (tasklets s t) = of_nat k"
    and p: "q < npages s" "npages s \<le> 1048576" and rdy: "ide_is_ready (ide s)"
    and k: "k + 8 \<le> SIZE_SWAP_MAP" "k + 8 \<le> 8 * length (swap_map s)"
  shows "\<exists>s'. calls 8 (page_in t) s = Inr ((), s') \<and> readback t q k s 8 s'"
proof -
  have kk: "unat (of_nat k :: u32) = k" using k by (simp add: unat_of_nat take_bit_nat_eq_self)
  obtain d where d: "ide_start_readwrite (of_nat k) 8 False (ide s) = (Inr d :: kstate stop + _)" "cur_sector d = k"
     "cur_drive d = diskno (ide s) mod 2" "secs_left d = 8" "disk d = disk (ide s)" "ide_status d = ide_status (ide s)"
     "diskno d = diskno (ide s)" "r_command d = IDE_COM_READ"
    by (rule start_sector [of "of_nat k" 8 "ide s" False, where 's = kstate]) (use kk k rdy in auto)
  have "page_in t s = page_in_next t q q (s\<lparr>ide := d\<rparr>)"
    using t p d(1) by (simp add: page_in_def page2kva_def KADDR_def start_disk_def)
  moreover have "readback t q k s 0 (s\<lparr>ide := d\<rparr>)"
    using t rdy d by (simp add: readback_def transfer_def ide_is_ready_def toggled_def)
  ultimately obtain s1 where s1: "page_in t s = Inr (False, s1)" "readback t q k s (Suc 0) s1"
    using page_in_next_ok [OF _ _ k] by force
  have later: "page_in t u = page_in_next t q q u" if "readback t q k s j u" "0 < j" "j < 8" for j u
  proof -
    have "of_nat j \<noteq> (0 :: u32)" using that(2,3) by (simp add: unat_eq_0 [symmetric] unat_of_nat take_bit_nat_eq_self)
    then show ?thesis using that p by (simp add: readback_def transfer_def page_in_def page2kva_def KADDR_def)
  qed
  have "\<exists>s'. calls 7 (page_in t) s1 = Inr ((), s') \<and> (0 < Suc 0 + 7 \<and> readback t q k s (Suc 0 + 7) s')"
  proof (rule calls_invariant [where I = "\<lambda>j u. 0 < j \<and> readback t q k s j u" and m = 8])
    fix j u
    assume "0 < j \<and> readback t q k s j u" "j < 8"
    then show "\<exists>r s'. page_in t u = Inr (r, s') \<and> 0 < Suc j \<and> readback t q k s (Suc j) s'"
      using later [of j u] page_in_next_ok [OF _ _ k, of t q j u] by auto
  qed (use s1(2) in simp_all)
  then show ?thesis using s1(1) by (simp add: eval_nat_numeral)
qed

section \<open>Entries of swapped pages\<close>

lemma bit_PTE_P: "bit PTE_P n = (n = 0)"
  by (auto simp: PTE_P_def bit_1_iff)

lemma bit_PTE_G: "bit PTE_G n = (n = 8)"
proof -
  have e: "(0x100 :: u32) = 2 ^ 8" by simp
  show ?thesis unfolding PTE_G_def e bit_exp_iff by auto
qed

lemma bit_PTE_AVAIL: "bit PTE_AVAIL n = (n = 9 \<or> n = 10 \<or> n = 11)"
proof -
  have e: "(0xE00 :: u32) = push_bit 9 (mask 3)" by (simp add: mask_eq_exp_minus_1)
  show ?thesis unfolding PTE_AVAIL_def e bit_push_bit_iff bit_mask32 by auto
qed

lemmas swap_bits = low12_mask bit_mask32 bit_and_iff bit_or_iff bit_xor_iff bit_push_bit_iff bit_drop_bit_eq
  bit_PTE_P bit_PTE_G bit_PTE_AVAIL mmu_bits

lemma and_zero_iff: "(x :: u32) AND m = 0 \<longleftrightarrow> (\<forall>n. bit m n \<longrightarrow> \<not> bit x n)"
  by (auto simp: bit_eq_iff bit_and_iff dest: bit_word_bound32)

lemma flag_zero:
  "x AND PTE_P = 0 \<longleftrightarrow> \<not> bit x 0" "x AND PTE_G = 0 \<longleftrightarrow> \<not> bit x 8"
  "x AND PTE_AVAIL = 0 \<longleftrightarrow> \<not> bit x 9 \<and> \<not> bit x 10 \<and> \<not> bit x 11"
  by (auto simp: and_zero_iff bit_PTE_P bit_PTE_G bit_PTE_AVAIL)

lemma bit_swapped_out:
  assumes "\<not> bit e 9 \<and> \<not> bit e 10 \<and> \<not> bit e 11" "n < 32"
  shows "bit (pte_swapped_out False sector e) n =
    (if n < 12 then (n = 0 \<and> \<not> bit e 0 \<or> n = 8 \<or> n \<noteq> 0 \<and> n \<noteq> 8 \<and> bit e n) else bit sector (n - 12))"
proof -
  let ?x = "((e XOR PTE_P) AND 0x00000FFF OR push_bit 12 sector) OR PTE_G"
  have "?x AND PTE_AVAIL = 0" using assms(1) by (simp add: flag_zero swap_bits)
  then have "pte_swapped_out False sector e = ?x" by (simp add: pte_swapped_out_def)
  then show ?thesis using assms(2) by (auto simp: swap_bits)
qed

section \<open>Shared pages\<close>

lemma poke_pages: "poke va w s = Inr (x, t) \<Longrightarrow> pages t = pages s"
  by (auto simp: poke_def wr_def)

lemma upd_task_pages [simp]: "pages (upd_task t f s) = pages s" by (simp add: upd_task_def)
lemma wr_pages [simp]: "pages (wr p w s) = pages s" by (simp add: wr_def)

lemma page_out_cow_shared:
  assumes "1 < pp_ref (pages s pg)"
  shows "\<exists>x. page_out_cow n cow t pg p s = Inl x"
  using assms
proof (induction n arbitrary: p s)
  case (Suc n)
  show ?case
  proof (cases p)
    case (Some e)
    show ?thesis unfolding Some using Suc.prems
      by (auto simp: Let_def rbind_def Suc.IH split: sum.split option.split dest!: poke_pages)
  qed simp
qed simp

section \<open>Properties\<close>

text \<open>
  C10: A page survives swapping.  With a ready disk and a spot returned by \<open>find_swap_spot\<close> that lies at least eight sectors
  before the end of the map, eight calls of \<open>page_out\<close> store the 1024 words of the page in the eight sectors of the
  selected drive from the spot on, and nothing else on either drive; eight calls of \<open>page_in\<close> for the same start sector
  put the same words into the new frame and change no other frame and nothing on the disk.  Both toggle the eight bits of
  the map, so that the map is the old one in the end.  In between it marks exactly these eight sectors in addition when
  they were all free; \<open>find_swap_spot\<close> tests only the first of them, and a sector among the others that was in
  use counts as free in between.
\<close>

theorem swap_out_in_round_trip:
  assumes out: "t_pi (tasklets s t) = Some p" "t_count (tasklets s t) = 0" "p < npages s"
    and "q < npages s" "npages s \<le> 1048576" and rdy: "ide_is_ready (ide s)"
    and spot: "find_swap_spot (swap_map s) = (Inr (of_nat k) :: kstate stop + u32)"
    and k: "k + 8 \<le> SIZE_SWAP_MAP" "length (swap_map s) = ARRAY_SIZE SIZE_SWAP_MAP"
  shows "\<exists>s1 s2. calls 8 (page_out t) s = Inr ((), s1) \<and>
     bits (swap_map s1) = (bits (swap_map s) - {k..<k + 8}) \<union> ({k..<k + 8} - bits (swap_map s)) \<and>
     (\<forall>v x i. disk (ide s1) v x i =
        (if v = diskno (ide s) mod 2 \<and> k \<le> x \<and> x < k + 8 \<and> i < SECTWORDS then pmem s p ((x - k) * SECTWORDS + i)
         else disk (ide s) v x i)) \<and>
     calls 8 (page_in u) (upd_task u (\<lambda>x. x\<lparr>t_pi := Some q, t_count := 0, sector_start := sector_start (tasklets s1 t)\<rparr>) s1)
       = Inr ((), s2) \<and>
     (\<forall>i < 1024. pmem s2 q i = pmem s p i) \<and> (\<forall>f. f \<noteq> q \<longrightarrow> pmem s2 f = pmem s f) \<and>
     disk (ide s2) = disk (ide s1) \<and> bits (swap_map s2) = bits (swap_map s)"
proof -
  have len: "k + 8 \<le> 8 * length (swap_map s)" using k by (simp add: ARRAY_SIZE_def)
  obtain s1 where s1: "calls 8 (page_out t) s = Inr ((), s1)" "wrote t p k s 8 s1"
    using page_out_calls [OF out(1,2,3) assms(5) rdy spot k(1) len] by blast
  let ?s = "upd_task u (\<lambda>x. x\<lparr>t_pi := Some q, t_count := 0, sector_start := sector_start (tasklets s1 t)\<rparr>) s1"
  have f: "tasklets ?s u = (tasklets s1 u)\<lparr>t_pi := Some q, t_count := 0, sector_start := of_nat k\<rparr>" "npages ?s = npages s"
      "ide ?s = ide s1" "swap_map ?s = swap_map s1" "pmem ?s = pmem s" "diskno (ide s1) = diskno (ide s)"
      "length (swap_map s1) = length (swap_map s)" "bits (swap_map s1) = toggled (bits (swap_map s)) {k..<k + 8}"
    using s1(2) by (simp_all add: wrote_def transfer_def upd_task_def)
  obtain s2 where s2: "calls 8 (page_in u) ?s = Inr ((), s2)" "readback u q k ?s 8 s2"
    using page_in_calls [of ?s u q k] f s1(2) assms(4,5) k(1) len by (auto simp: wrote_def transfer_def)
  have words: "pmem s2 q (a * SECTWORDS + x) = pmem s p (a * SECTWORDS + x)" if "a < 8" "x < SECTWORDS" for a x
    using s1(2) s2(2) f that by (simp add: wrote_def readback_def)
  have "pmem s2 q i = pmem s p i" if "i < 1024" for i
    using words [of "i div SECTWORDS" "i mod SECTWORDS"] that by (simp add: less_mult_imp_div_less)
  moreover have "bits (swap_map s2) = bits (swap_map s)"
    using s2(2) f by (simp add: readback_def transfer_def toggled_twice)
  moreover have "disk (ide s2) = disk (ide s1)" "\<forall>f. f \<noteq> q \<longrightarrow> pmem s2 f = pmem s f"
    using s2(2) f by (simp_all add: readback_def)
  ultimately show ?thesis using s1 s2(1) f(8) by (simp add: wrote_def toggled_def)
qed

definition sample_swap :: kstate where
  "sample_swap = sample_k\<lparr>tasklets := (tasklets sample_k)(0 := (tasklets sample_k 0)\<lparr>t_pi := Some 4\<rparr>)\<rparr>"

theorem swap_out_in_round_trip_witness:
  "\<exists>s1 s2. calls 8 (page_out 0) sample_swap = Inr ((), s1) \<and>
     bits (swap_map s1) = {1..<9} \<and>
     calls 8 (page_in 1) (upd_task 1 (\<lambda>x. x\<lparr>t_pi := Some 5, t_count := 0, sector_start := sector_start (tasklets s1 0)\<rparr>) s1)
       = Inr ((), s2) \<and> (\<forall>i < 1024. pmem s2 5 i = pmem sample_swap 4 i)"
proof -
  have map: "swap_map sample_swap = replicate (ARRAY_SIZE SIZE_SWAP_MAP) 0"
    by (simp add: sample_swap_def sample_k_def ARRAY_SIZE_def)
  have none: "bits (swap_map sample_swap) = {}" unfolding map by (auto simp: bits_def)
  have "find_swap_spot (swap_map sample_swap) = (Inr (of_nat 1) :: kstate stop + u32)"
  proof (rule find_swap_spot_ok)
    show "length (swap_map sample_swap) = ARRAY_SIZE SIZE_SWAP_MAP" unfolding map by simp
  qed (simp_all add: none)
  then show ?thesis
    using swap_out_in_round_trip [of sample_swap 0 4 5 1 1] none map
    by (auto simp: sample_swap_def sample_k_def ide_is_ready_def IDE_BSY_def IDE_RDY_def)
qed

text \<open>
  C32: The page-table entry of a page of one environment that is swapped out is not present, carries the global bit that marks it
  as swapped and names the start sector in its address bits, for a sector number of 20 bits; swapping in restores the flag
  bits of the original entry with the new frame, whether or not the entry was marked as being swapped in the meantime.
\<close>

theorem pte_swap_round_trip:
  assumes e: "e AND PTE_P \<noteq> 0" "e AND PTE_G = 0" "e AND PTE_AVAIL = 0" and sec: "sector < 0x100000"
  defines "x \<equiv> pte_swapped_out False sector e"
  shows "x AND PTE_P = 0 \<and> x AND PTE_G \<noteq> 0 \<and> x AND PTE_AVAIL = 0 \<and> drop_bit 12 (PTE_ADDR x) = sector \<and>
     pte_swapped_in x p = page2pa p OR (e AND 0xFFF) \<and> pte_swapped_in (x OR PTE_AVAIL) p = page2pa p OR (e AND 0xFFF)"
proof -
  have b: "bit e 0" "\<not> bit e 8" "\<not> bit e 9 \<and> \<not> bit e 10 \<and> \<not> bit e 11"
    using e by (simp_all add: flag_zero)
  note x = bit_swapped_out [OF b(3), of _ sector, folded x_def]
  have "drop_bit 12 (PTE_ADDR x) = sector"
  proof (rule word_eqI32)
    fix n :: nat
    assume "n < 32"
    show "bit (drop_bit 12 (PTE_ADDR x)) n = bit sector n"
    proof (cases "n < 20")
      case True
      then show ?thesis using x [of "12 + n"] by (simp add: swap_bits)
    next
      case False
      then have "\<not> bit sector n" "\<not> bit x (12 + n)"
        using high_bits_clear [of sector 20 n] sec by (auto dest: bit_word_bound32)
      then show ?thesis by (simp add: swap_bits)
    qed
  qed
  moreover have "x AND PTE_P = 0" "x AND PTE_G \<noteq> 0" "x AND PTE_AVAIL = 0"
    using b by (simp_all add: flag_zero x)
  moreover have "pte_swapped_in x p = page2pa p OR (e AND 0xFFF)"
  proof -
    have "(x XOR PTE_G) AND PTE_AVAIL = 0" using b by (simp add: flag_zero x swap_bits)
    then show ?thesis using b unfolding pte_swapped_in_def Let_def
      by (intro word_eqI32) (auto simp: swap_bits x)
  qed
  moreover have "pte_swapped_in (x OR PTE_AVAIL) p = page2pa p OR (e AND 0xFFF)"
  proof -
    have "((x OR PTE_AVAIL) XOR PTE_G) AND PTE_AVAIL \<noteq> 0" using b by (simp add: flag_zero x swap_bits)
    then show ?thesis using b unfolding pte_swapped_in_def Let_def
      by (intro word_eqI32) (auto simp: swap_bits x)
  qed
  ultimately show ?thesis by blast
qed

theorem pte_swap_round_trip_witness:
  "pte_swapped_out False 41 0x4067 AND PTE_P = 0 \<and> drop_bit 12 (PTE_ADDR (pte_swapped_out False 41 0x4067)) = 41 \<and>
   pte_swapped_in (pte_swapped_out False 41 0x4067) 5 = page2pa 5 OR 0x67"
proof -
  have "(0x4067 :: u32) AND PTE_P \<noteq> 0" "(0x4067 :: u32) AND PTE_G = 0" "(0x4067 :: u32) AND PTE_AVAIL = 0" "(41 :: u32) < 0x100000"
    "(0x4067 :: u32) AND 0xFFF = 0x67"
    by code_simp+
  then show ?thesis using pte_swap_round_trip [of "0x4067" 41 5] by simp
qed

text \<open>
  C36: The killer of last resort never kills.  The score kept is the smallest one, not the largest: with a kernel
  thread in the first slot, whose score is 0, and a machine of at least 256 pages, where no score is negative,
  \<open>oom_kill\<close> changes nothing and reports failure, whatever is asked of it.
\<close>

theorem oom_kill_never_kills:
  assumes "holds ENV_LOCK s" "env_type (envs s 0) \<noteq> ENV_TYPE_USER" "256 \<le> npages s" "npages s \<le> 1048576"
  shows "oom_kill yield e pgs_r s = Inr (False, s)"
proof -
  have "badness s 0 = 0" using assms(2) by (simp add: badness_def)
  then have "badness s (worst_loop NENV 0 0 s) = 0" by (intro worst_loop_min allI badness_nonneg assms)
  then show ?thesis using assms(1) by (simp add: oom_kill_def Let_def del: worst_loop.simps)
qed

theorem oom_kill_never_kills_witness:
  "oom_kill (\<lambda>s. Inr ((), s)) None 5 (sample_envs\<lparr>npages := 4096, envs := (envs sample_envs)(0 := blank_env\<lparr>env_type := ENV_TYPE_KERNEL\<rparr>)\<rparr>) =
     Inr (False, sample_envs\<lparr>npages := 4096, envs := (envs sample_envs)(0 := blank_env\<lparr>env_type := ENV_TYPE_KERNEL\<rparr>)\<rparr>)"
  by (rule oom_kill_never_kills) (simp_all add: sample_envs_def holds_def sample_k_fields)

text \<open>
  Whatever the page tables hold, \<open>page_out\<close> does not return once all sectors of a page with more than one reference
  have been written: the loop over the entries never lowers the reference count it tests.
\<close>

lemma page_out_shared_never_returns:
  assumes "t_pi (tasklets s t) = Some pg" "1 < pp_ref (pages s pg)" "of_nat NSECTORS \<le> t_count (tasklets s t)"
  shows "\<exists>x. page_out t s = Inl x"
proof -
  have "\<exists>x. page_out_done t pg s = Inl x"
  proof -
    have "pp_ref (pages s pg) \<noteq> 0" using assms(2) by auto
    moreover have "pages u = pages s" if "pgdir_walk pgdir va 0 s = Inr (p, u)" for pgdir va p u
      using that by (auto simp: pgdir_walk_def walk_entry_def Let_def split: option.splits if_splits)
    ultimately show ?thesis using assms(2)
      by (auto simp: page_out_done_def rbind_def intro!: page_out_cow_shared simp del: page_out_cow.simps split: option.split sum.split)
  qed
  then show ?thesis using assms(1,3)
    by (auto simp: page_out_def page_out_next_def rbind_def not_less split: sum.split)
qed







end
