(* ===== verification/Sched.thy ===== *)
theory Sched
  imports MemPressure
begin

text \<open>
  The scheduler, \<^verbatim>\<open>kern/sched.c\<close>, the loop body of a kernel thread (\<open>ktask\<close>) and \<open>env_dup\<close> of \<^verbatim>\<open>kern/env.c\<close>.

  \<open>sched_yield\<close> does not return: it ends in \<open>EnterUser\<close>, \<open>Halted\<close> or the monitor.  Reclaiming memory may
  destroy the current environment, which calls the scheduler again; the first argument of \<open>sched_yield\<close>
  bounds that nesting.  The bound is a device of the model that the code does not have; a bound of two gives the outcome
  of every larger one (\<open>sched_yield_bounded\<close>).  The time stamp counter is the field \<open>tsc\<close>.
\<close>

definition LRU_DEFAULT :: u64 where "LRU_DEFAULT = 3000000"
definition SWAP_TRESH :: u32 where "SWAP_TRESH = 1000"

definition invalidate_env_ts :: "nat \<Rightarrow> kstate \<Rightarrow> kstate" where
  "invalidate_env_ts e s = upd_env e (\<lambda>x. x\<lparr>time_slice := TS_DEFAULT * 2\<rparr>) s"

definition calulate_delta :: "u64 \<Rightarrow> u64 \<Rightarrow> u64" where
  "calulate_delta tick prev = (if prev < tick then tick - prev else tick + (0 - prev))"

definition check_time_slice :: "kstate \<Rightarrow> kstate stop + bool" where
  "check_time_slice s =
     with_curenv s (\<lambda>c. Inr (env_status (envs s c) = ENV_RUNNING \<and> time_slice (envs s c) < TS_DEFAULT))"

section \<open>Finding an environment\<close>

definition last_index :: "nat \<Rightarrow> nat" where
  "last_index i = (if i - 1 = NKTHREADS - 1 then NENV - 1 else i - 1)"

text \<open>
  The loop header also runs for \<open>i = NENV\<close>, which the body turns into \<open>NKTHREADS\<close>; the search goes
  round until it meets \<open>last_idx\<close>, so \<open>NENV\<close> rounds are enough when that environment is no kernel thread.
\<close>

fun lookup_loop :: "nat \<Rightarrow> nat \<Rightarrow> nat \<Rightarrow> kstate \<Rightarrow> kstate stop + int" where
  "lookup_loop 0 i last_idx s = Inl Diverge"
| "lookup_loop (Suc fuel) i last_idx s =
     (let i = (if i = NENV then NKTHREADS else i) in
      if env_status (envs s i) = ENV_RUNNABLE \<and> env_type (envs s i) \<noteq> ENV_TYPE_KERNEL then Inr (int i)
      else if env_id (envs s i) = env_id (envs s last_idx) \<and> env_type (envs s i) \<noteq> ENV_TYPE_KERNEL then
        if env_status (envs s i) = ENV_RUNNING \<and> env_cpunum (envs s i) = cpunum s then Inr (int i) else Inr (-1)
      else lookup_loop fuel (Suc i) last_idx s)"

definition runnable_env_lookup :: "nat \<Rightarrow> kstate \<Rightarrow> kstate stop + int" where
  "runnable_env_lookup i s =
     (let i = (if i < NKTHREADS then NKTHREADS else i) in lookup_loop NENV i (last_index i) s)"

fun env2id_loop :: "nat \<Rightarrow> nat \<Rightarrow> u32 \<Rightarrow> kstate \<Rightarrow> int" where
  "env2id_loop 0 i eid s = -1"
| "env2id_loop (Suc n) i eid s = (if env_id (envs s i) = eid then int i else env2id_loop n (Suc i) eid s)"

definition env2id :: "u32 \<Rightarrow> kstate \<Rightarrow> int" where
  "env2id eid s = env2id_loop NENV 0 eid s"

section \<open>Kernel work\<close>

fun resume_loop :: "nat \<Rightarrow> nat \<Rightarrow> kstate \<Rightarrow> (kstate, unit) kres" where
  "resume_loop 0 i s = Inr ((), s)"
| "resume_loop (Suc n) i s =
     rbind (get_bit (drc_map s) i) (\<lambda>b.
     if b = 1 then
       let s = (if env_status (envs s i) = ENV_SLEEPING then upd_env i (\<lambda>x. x\<lparr>env_status := ENV_RUNNABLE\<rparr>) s else s) in
       rbind (toggle_bit (drc_map s) i) (\<lambda>m. resume_loop n (Suc i) (s\<lparr>drc_map := m\<rparr>))
     else resume_loop n (Suc i) s)"

definition resume_env :: "kstate \<Rightarrow> (kstate, unit) kres" where
  "resume_env s = resume_loop NENV 0 s"

definition kthread_ready :: "kstate \<Rightarrow> nat \<Rightarrow> bool" where
  "kthread_ready s i \<longleftrightarrow> env_status (envs s i) = ENV_RUNNABLE \<or>
     env_status (envs s i) = ENV_RUNNING \<and> env_cpunum (envs s i) = cpunum s"

text \<open>The loop over the kernel threads, with \<open>n\<close> of them left; \<open>env_run\<close> does not return.\<close>

fun dispatch :: "nat \<Rightarrow> nat \<Rightarrow> kstate \<Rightarrow> (kstate, unit) kres" where
  "dispatch 0 i s = Inr ((), s)"
| "dispatch (Suc n) i s =
     (if kthread_ready s i then
        let s = upd_env i (\<lambda>x. x\<lparr>time_slice := TS_DEFAULT * 2\<rparr>) s in
        rbind (unlock TASK_LOCK s) (\<lambda>(_, s). env_run i s)
      else dispatch n (Suc i) s)"

text \<open>The first tasklet of the chain at \<open>t\<close> that is waiting for work.\<close>

definition find_work :: "nat option \<Rightarrow> 'z task_state_scheme \<Rightarrow> 's stop + nat option" where
  "find_work t s =
     (case seek (Suc NTASKS) (tnext s) (\<lambda>c. t_state (tasklets s c) = T_WORK) None t of
        None \<Rightarrow> Inl Diverge
      | Some (_, r) \<Rightarrow> Inr r)"

text \<open>The first two steps of \<open>check_work\<close>: balancing the lists, and reclaiming pages or resuming sleepers.\<close>

definition manage_lists :: "kstate \<Rightarrow> (kstate, unit) kres" where
  "manage_lists s =
     (if LRU_DEFAULT < lru_check s
      then rbind (lru_manager (s\<lparr>lru_check := LRU_DEFAULT\<rparr>)) (\<lambda>(_, s). Inr ((), s))
      else Inr ((), s))"

definition relieve :: "(kstate \<Rightarrow> (kstate, unit) kres) \<Rightarrow> kstate \<Rightarrow> (kstate, unit) kres" where
  "relieve yield s =
     (let pgs2swap = sint (SWAP_TRESH - free_pages_count s) in
      if 0 < pgs2swap then rbind (reclaim_pgs yield None pgs2swap s) (\<lambda>(_, s). Inr ((), s))
      else resume_env s)"

definition check_work :: "(kstate \<Rightarrow> (kstate, unit) kres) \<Rightarrow> kstate \<Rightarrow> (kstate, unit) kres" where
  "check_work yield s =
     rbind (assert_lock ENV_LOCK s) (\<lambda>_.
     rbind (lock TASK_LOCK s) (\<lambda>(_, s).
     let t = t_list s in
     rbind (manage_lists s) (\<lambda>(_, s).
     rbind (relieve yield s) (\<lambda>(_, s).
     rbind (find_work t s) (\<lambda>w.
     rbind (if w \<noteq> None then dispatch NKTHREADS 0 s else Inr ((), s)) (\<lambda>(_, s).
     unlock TASK_LOCK s))))))"

section \<open>The scheduler\<close>

fun any_alive :: "nat \<Rightarrow> nat \<Rightarrow> kstate \<Rightarrow> bool" where
  "any_alive 0 i s = False"
| "any_alive (Suc n) i s =
     (env_status (envs s i) \<in> {ENV_RUNNABLE, ENV_RUNNING, ENV_SLEEPING, ENV_DYING} \<or> any_alive n (Suc i) s)"

definition sched_halt :: "(kstate \<Rightarrow> (kstate, unit) kres) \<Rightarrow> kstate \<Rightarrow> (kstate, unit) kres" where
  "sched_halt yield s =
     rbind (assert_lock ENV_LOCK s) (\<lambda>_.
     let alive = any_alive (NENV - NKTHREADS) NKTHREADS s in
     rbind (check_work yield s) (\<lambda>(_, s).
     if \<not> alive then Inl (InMonitor s)
     else
       let s = (case curenv s of
                  None \<Rightarrow> s
                | Some c \<Rightarrow>
                    let s = (if ENVX (env_id (envs s c)) < NKTHREADS
                             then upd_env c (\<lambda>x. x\<lparr>env_tf := kenv_cpy_tf (ktf s) (env_tf x)\<rparr>) s else s) in
                    upd_env c (\<lambda>x. x\<lparr>env_status := ENV_RUNNABLE\<rparr>) s);
           s = set_curenv None s in
       rbind (lcr3 (kern_pgdir s) s) (\<lambda>(_, s).
       let s = s\<lparr>cpu_halted := (cpu_halted s)(cpunum s := True)\<rparr> in
       rbind (unlock ENV_LOCK s) (\<lambda>(_, s). Inl (Halted s)))))"

text \<open>The accounting at the start of \<open>sched_yield\<close>, for the current environment \<open>c\<close>.\<close>

definition account :: "(kstate \<Rightarrow> (kstate, unit) kres) \<Rightarrow> nat \<Rightarrow> kstate \<Rightarrow> (kstate, unit) kres" where
  "account yield c s =
     (if env_status (envs s c) \<noteq> ENV_SLEEPING then
        let delta = calulate_delta (tsc s) (last_tick s);
            s = upd_env c (\<lambda>x. x\<lparr>time_slice := time_slice x - delta\<rparr>) s;
            s = s\<lparr>lru_check := lru_check s - delta, last_tick := tsc s\<rparr> in
        rbind (check_time_slice s) (\<lambda>again.
        if again then env_run c s
        else if env_type (envs s c) \<noteq> ENV_TYPE_KERNEL then check_work yield s
        else Inr ((), s))
      else Inr ((), s))"

definition sched_body :: "(kstate \<Rightarrow> (kstate, unit) kres) \<Rightarrow> kstate \<Rightarrow> (kstate, unit) kres" where
  "sched_body yield s =
     rbind (assert_lock ENV_LOCK s) (\<lambda>_.
     rbind (case curenv s of
              Some c \<Rightarrow> rbind (account yield c s) (\<lambda>(_, s'). Inr (ENVX (env_id (envs s c)), s'))
            | None \<Rightarrow> Inr (NKTHREADS, s\<lparr>last_tick := tsc s\<rparr>)) (\<lambda>(i, s).
     rbind (runnable_env_lookup i s) (\<lambda>e_run.
     if 0 \<le> e_run then env_run (nat e_run) (upd_env (nat e_run) (\<lambda>x. x\<lparr>time_slice := TS_DEFAULT\<rparr>) s)
     else sched_halt yield s)))"

fun sched_yield :: "nat \<Rightarrow> kstate \<Rightarrow> (kstate, unit) kres" where
  "sched_yield 0 s = Inl Diverge"
| "sched_yield (Suc n) s = sched_body (sched_yield n) s"

section \<open>Kernel threads\<close>

definition run_tasklet :: "nat \<Rightarrow> kstate \<Rightarrow> (kstate, bool) kres" where
  "run_tasklet t s =
     (case fptr (tasklets s t) of
        F_page_out \<Rightarrow> page_out t s
      | F_page_in \<Rightarrow> page_in t s
      | F_none \<Rightarrow> Inr (False, s))"

text \<open>\<open>esp\<close> is the stack pointer the first instruction saves.\<close>

definition ktask :: "(kstate \<Rightarrow> (kstate, unit) kres) \<Rightarrow> u32 \<Rightarrow> kstate \<Rightarrow> (kstate, unit) kres" where
  "ktask yield esp s =
     with_curenv s (\<lambda>c.
     let k = ENVX (env_id (envs s c)) in
     if NKTHREADS \<le> k then Inl OutOfBounds
     else
       let s = s\<lparr>kesp := (kesp s)(k := esp)\<rparr> in
       rbind (lock ENV_LOCK s) (\<lambda>(_, s).
       rbind (lock TASK_LOCK s) (\<lambda>(_, s).
       rbind (find_work (t_list s) s) (\<lambda>w.
       case w of
         None \<Rightarrow> rbind (unlock TASK_LOCK s) (\<lambda>(_, s). yield s)
       | Some t \<Rightarrow>
           let s = upd_task t (\<lambda>x. x\<lparr>t_state := T_WORKING\<rparr>) s;
               tid = t_id (tasklets s t) in
           rbind (lock PAGEALLOC_LOCK s) (\<lambda>(_, s).
           rbind (run_tasklet t s) (\<lambda>(status, s).
           rbind (unlock PAGEALLOC_LOCK s) (\<lambda>(_, s).
           rbind (case seek (Suc NTASKS) (tnext s) (\<lambda>c. t_id (tasklets s c) = tid) None (t_list s) of
                    None \<Rightarrow> Inl Diverge
                  | Some (_, None) \<Rightarrow> Inr ((), s)
                  | Some (_, Some u) \<Rightarrow>
                      if status then rbind (task_free (t_id (tasklets s u)) s) (\<lambda>(_, s). Inr ((), s))
                      else Inr ((), upd_task u (\<lambda>x. x\<lparr>t_state := T_WORK\<rparr>) s)) (\<lambda>(_, s).
           rbind (unlock TASK_LOCK s) (\<lambda>(_, s). yield s)))))))))"

section \<open>Fork\<close>

definition env_dup :: "(kstate \<Rightarrow> (kstate, unit) kres) \<Rightarrow> nat \<Rightarrow> kstate \<Rightarrow> (kstate, u32) kres" where
  "env_dup yield parent s =
     rbind (env_alloc (env_id (envs s parent)) (env_type (envs s parent)) s) (\<lambda>((r, child), s).
     if r < 0 then Inr (0, s)
     else
       case child of
         None \<Rightarrow> Inl NullDeref
       | Some ch \<Rightarrow>
           let s = upd_env ch (\<lambda>x. x\<lparr>env_alloc_pages := env_alloc_pages (envs s parent)\<rparr>) s in
           rbind (env_cpy_vmas ch parent s) (\<lambda>(ok, s).
           if \<not> ok then Inr (0, s)
           else
             let s = env_cpy_tf ch parent s;
                 s = upd_env ch (\<lambda>x. x\<lparr>env_tf := (env_tf x)\<lparr>tf_regs := (tf_regs (env_tf x))\<lparr>reg_eax := 0\<rparr>\<rparr>\<rparr>) s;
                 s = upd_env parent (\<lambda>x. x\<lparr>env_tf := (env_tf x)\<lparr>tf_regs := (tf_regs (env_tf x))\<lparr>reg_eax := env_id (envs s ch)\<rparr>\<rparr>\<rparr>) s in
             rbind (env_cpy_pgdir_cow ch parent s) (\<lambda>(ok, s).
             if \<not> ok then Inr (0, s)
             else rbind (yield (invalidate_env_ts parent s)) (\<lambda>(_, s). Inr (env_id (envs s ch), s)))))"

section \<open>The nesting of the scheduler\<close>

lemma env_destroy_cong:
  assumes "\<And>t. curenv t = None \<Longrightarrow> Y t = Z t"
  shows "env_destroy Y e s = env_destroy Z e s"
  unfolding env_destroy_def by (auto intro!: rbind_eq assms)

lemma sched_body_cong:
  assumes "\<And>t. curenv t = None \<Longrightarrow> Y t = Z t"
  shows "sched_body Y s = sched_body Z s"
proof -
  have d: "env_destroy Y = env_destroy Z" by (intro ext env_destroy_cong assms)
  have "oom_kill Y = oom_kill Z" by (intro ext) (simp add: oom_kill_def Let_def d)
  then have "reclaim_pgs Y = reclaim_pgs Z" by (intro ext) (auto simp: reclaim_pgs_def intro!: rbind_eq)
  then have "relieve Y = relieve Z" by (intro ext) (simp add: relieve_def Let_def)
  then have cw: "check_work Y = check_work Z" by (intro ext) (auto simp: check_work_def Let_def intro!: rbind_eq)
  show ?thesis unfolding sched_body_def account_def sched_halt_def cw ..
qed

lemma env_destroy_idle:
  assumes "curenv s = None"
  shows "env_destroy Y e s = env_destroy Z e s"
proof -
  have "curenv u = None" if "lock PAGEALLOC_LOCK s = Inr (x, t)" "env_free e t = Inr (y, t')" "unlock PAGEALLOC_LOCK t' = Inr (z, u)"
    for x y z t t' u
  proof -
    have "cpu_only s t" by (rule framedD [OF lock_framed(1) that(1)]) simp
    moreover have "cpu_locks t t'" by (rule framedD [OF env_free_framed that(2)]) simp
    moreover have "cpu_only t' u" by (rule framedD [OF lock_framed(2) that(3)]) simp
    ultimately show ?thesis using assms by (simp add: cpu_only_def cpu_locks_def curenv_def)
  qed
  then show ?thesis unfolding env_destroy_def by (auto intro!: rbind_eq)
qed

lemma manage_lists_framed: "cpu_only s t \<Longrightarrow> framed cpu_only s (manage_lists t)"
  by (auto simp: manage_lists_def intro!: framed_struct lru_manager_framed)

lemma relieve_idle:
  assumes "curenv s = None"
  shows "relieve Y s = relieve Z s"
proof -
  have "oom_kill Y e k t = oom_kill Z e k t" if "cpu_only s t" for e k t
    using env_destroy_idle [of t Y _ Z] assms cpu_only_curenv [OF that]
    by (simp add: oom_kill_def Let_def)
  moreover have "cpu_only s u" if "reclaim_loop n k s = Inr (r, u)" for n k r u
    by (rule framedD [OF reclaim_loop_framed that]) simp
  ultimately have "reclaim_pgs Y e k s = reclaim_pgs Z e k s" for e k
    by (auto simp: reclaim_pgs_def intro!: rbind_eq)
  then show ?thesis by (simp add: relieve_def Let_def)
qed

lemma check_work_idle:
  assumes "curenv s = None"
  shows "check_work Y s = check_work Z s"
proof -
  have "relieve Y u = relieve Z u" if "lock TASK_LOCK s = Inr (x, t)" "manage_lists t = Inr (y, u)" for x t y u
  proof (rule relieve_idle)
    have "cpu_only s t" by (rule framedD [OF lock_framed(1) that(1)]) simp
    moreover have "cpu_only t u" by (rule framedD [OF manage_lists_framed that(2)]) simp
    ultimately show "curenv u = None" using assms by (simp add: cpu_only_def curenv_def)
  qed
  then show ?thesis unfolding check_work_def Let_def by (auto intro!: rbind_eq)
qed

lemma sched_body_idle:
  assumes "curenv s = None"
  shows "sched_body Y s = sched_body Z s"
proof -
  have "sched_halt Y s' = sched_halt Z s'" if "curenv s' = None" for s'
    unfolding sched_halt_def check_work_idle [OF that, of Y Z] ..
  moreover have "curenv (s\<lparr>last_tick := c\<rparr>) = None" for c using assms by (simp add: curenv_def)
  ultimately show ?thesis using assms by (auto simp: sched_body_def rbind_def split: sum.split)
qed

lemma sched_halt_stops: "\<exists>x. sched_halt yield s = Inl x"
  unfolding sched_halt_def Let_def by (auto intro!: rbind_stops)

lemma sched_body_stops: "\<exists>x. sched_body yield s = Inl x"
  unfolding sched_body_def Let_def by (auto intro!: rbind_stops simp: env_run_stops sched_halt_stops)

lemma sched_yield_stops: "\<exists>x. sched_yield n s = Inl x"
  by (cases n) (simp_all add: sched_body_stops)

lemma sched_nesting: "sched_yield (n + 2) s = sched_yield 2 s"
proof -
  have "sched_yield (Suc n) t = sched_yield 1 t" if "curenv t = None" for t
    using sched_body_idle [OF that] by simp
  then have "sched_body (sched_yield (Suc n)) s = sched_body (sched_yield 1) s" by (rule sched_body_cong)
  then show ?thesis by (simp add: numeral_2_eq_2)
qed

text \<open>Whatever bound of at least two is put on the nesting, the outcome is the same.\<close>

lemma sched_yield_bounded: "\<exists>x. sched_yield (n + 2) s = Inl x \<and> sched_yield 2 s = Inl x"
  unfolding sched_nesting using sched_yield_stops [of 2 s] by blast

section \<open>The search for an environment\<close>

definition runnable :: "kstate \<Rightarrow> nat \<Rightarrow> bool" where
  "runnable s i \<longleftrightarrow> env_status (envs s i) = ENV_RUNNABLE \<and> env_type (envs s i) \<noteq> ENV_TYPE_KERNEL"

definition last_of_round :: "kstate \<Rightarrow> nat \<Rightarrow> nat \<Rightarrow> bool" where
  "last_of_round s l i \<longleftrightarrow> env_id (envs s i) = env_id (envs s l) \<and> env_type (envs s i) \<noteq> ENV_TYPE_KERNEL"

text \<open>The order in which the search visits the environments.\<close>

definition round_from :: "nat \<Rightarrow> nat list" where
  "round_from i = [i..<NENV] @ [NKTHREADS..<i]"

definition rerun :: "kstate \<Rightarrow> nat \<Rightarrow> int" where
  "rerun s l = (if env_status (envs s l) = ENV_RUNNING \<and> env_cpunum (envs s l) = cpunum s then int l else -1)"

fun follows :: "nat \<Rightarrow> nat list \<Rightarrow> bool" where
  "follows i [] = True"
| "follows i (x # xs) = (x = (if i = NENV then NKTHREADS else i) \<and> follows (Suc x) xs)"

lemma lookup_loop_step:
  assumes "x = (if i = NENV then NKTHREADS else i)"
  shows "lookup_loop (Suc m) i l s =
    (if runnable s x then Inr (int x) else if last_of_round s l x then Inr (rerun s x) else lookup_loop m (Suc x) l s)"
  unfolding lookup_loop.simps assms [symmetric] Let_def runnable_def last_of_round_def rerun_def by simp

lemma lookup_loop_find:
  assumes "follows i xs" "length xs \<le> n" "\<exists>x \<in> set xs. last_of_round s l x"
  shows "lookup_loop n i l s =
    Inr (case find (\<lambda>x. runnable s x \<or> last_of_round s l x) xs of
           Some x \<Rightarrow> if runnable s x then int x else rerun s x | None \<Rightarrow> -1)"
  using assms
proof (induction xs arbitrary: i n)
  case (Cons x xs)
  then obtain m where n: "n = Suc m" by (cases n) auto
  have x: "(if i = NENV then NKTHREADS else i) = x" and f: "follows (Suc x) xs" using Cons.prems(1) by auto
  show ?case
  proof (cases "runnable s x \<or> last_of_round s l x")
    case True
    then show ?thesis unfolding n lookup_loop_step [OF x [symmetric]] by auto
  next
    case False
    then have "\<exists>y \<in> set xs. last_of_round s l y" "length xs \<le> m" using Cons.prems(2,3) n by auto
    with Cons.IH [OF f] False show ?thesis unfolding n lookup_loop_step [OF x [symmetric]] by simp
  qed
qed simp

lemma follows_upt: "i + n \<le> NENV \<Longrightarrow> follows (i + n) ys \<Longrightarrow> follows i ([i..<i + n] @ ys)"
proof (induction n arbitrary: i)
  case (Suc n)
  then show ?case using Suc.IH [of "Suc i"] by (simp add: upt_conv_Cons del: upt_Suc)
qed simp

lemma follows_round:
  assumes "NKTHREADS \<le> i" "i < NENV"
  shows "follows i (round_from i)"
proof -
  have "follows 2 ([2..<2 + (i - 2)] @ [])" by (rule follows_upt) (use assms in simp_all)
  moreover have "2 + (i - 2) = i" using assms by simp
  ultimately have "follows 2 [2..<i]" by (metis append_Nil2)
  then have "follows NENV [2..<i]" using assms by (cases "[2..<i]") auto
  then have "follows i ([i..<i + (NENV - i)] @ [2..<i])" by (intro follows_upt) (use assms in auto)
  then show ?thesis using assms by (simp add: round_from_def)
qed

lemma last_index_in: "NKTHREADS \<le> i \<Longrightarrow> i < NENV \<Longrightarrow> last_index i \<in> set (round_from i)"
  by (auto simp: last_index_def round_from_def)

lemma runnable_env_lookup_round:
  assumes "i < NENV" "env_type (envs s (last_index (max i NKTHREADS))) \<noteq> ENV_TYPE_KERNEL"
  shows "runnable_env_lookup i s =
    Inr (case find (\<lambda>x. runnable s x \<or> last_of_round s (last_index (max i NKTHREADS)) x) (round_from (max i NKTHREADS)) of
           Some x \<Rightarrow> if runnable s x then int x else rerun s x | None \<Rightarrow> -1)"
proof -
  let ?i = "max i NKTHREADS"
  have b: "NKTHREADS \<le> ?i" "?i < NENV" using assms(1) by auto
  have "last_of_round s (last_index ?i) (last_index ?i)" using assms(2) by (simp add: last_of_round_def)
  then have "\<exists>x \<in> set (round_from ?i). last_of_round s (last_index ?i) x" using last_index_in [OF b] by blast
  moreover have "length (round_from ?i) \<le> NENV" using b by (simp add: round_from_def)
  moreover have "runnable_env_lookup i s = lookup_loop NENV ?i (last_index ?i) s"
    by (simp add: runnable_env_lookup_def Let_def max_def not_less)
  ultimately show ?thesis using lookup_loop_find [OF follows_round [OF b]] by simp
qed


lemma find_or_last:
  assumes "distinct xs" "j \<in> set xs" "R j" "\<forall>x \<in> set xs. Q x \<longrightarrow> x = last xs"
  shows "\<exists>k \<in> set xs. find (\<lambda>x. R x \<or> Q x) xs = Some k \<and> R k"
  using assms
proof (induction xs)
  case (Cons x xs)
  have "xs = []" if "Q x" using that Cons.prems(1,4) by (cases "xs = []") auto
  then show ?case using Cons by (cases "xs = []") auto
qed simp

lemma round_last:
  assumes "NKTHREADS \<le> i" "i < NENV"
  shows "last (round_from i) = last_index i" "distinct (round_from i)"
proof -
  show "last (round_from i) = last_index i"
  proof (cases "i = NKTHREADS")
    case False
    with assms have "[NKTHREADS..<i] \<noteq> []" by simp
    with False assms show ?thesis unfolding round_from_def last_index_def last_append by simp
  next
    case True
    have "round_from i = [i..<NENV]" unfolding True by (simp only: round_from_def upt_conv_Nil [OF order_refl] append_Nil2)
    moreover have "last [i..<NENV] = NENV - 1" using assms(2) by (rule last_upt)
    moreover have "last_index i = NENV - 1" unfolding True by (simp add: last_index_def)
    ultimately show ?thesis by (simp only:)
  qed
  show "distinct (round_from i)" unfolding round_from_def distinct_append by (simp add: disjoint_iff)
qed

lemma find_stronger: "find (\<lambda>x. R x \<or> Q x) xs = Some k \<Longrightarrow> R k \<Longrightarrow> find R xs = Some k"
  by (induction xs) (auto split: if_splits)

text \<open>Under the condition on the identifiers the search returns the first runnable environment of the round.\<close>

lemma lookup_first_runnable:
  assumes "i < NENV" "env_type (envs s l) \<noteq> ENV_TYPE_KERNEL" "l = last_index (max i NKTHREADS)"
    and ids: "\<forall>j \<in> {NKTHREADS..<NENV}. env_id (envs s j) = env_id (envs s l) \<longrightarrow> j = l"
    and r: "NKTHREADS \<le> j" "j < NENV" "runnable s j"
  shows "\<exists>k. runnable_env_lookup i s = Inr (int k) \<and> find (runnable s) (round_from (max i NKTHREADS)) = Some k \<and>
    NKTHREADS \<le> k \<and> k < NENV \<and> runnable s k"
proof -
  let ?P = "\<lambda>x. runnable s x \<or> last_of_round s l x"
  let ?xs = "round_from (max i NKTHREADS)"
  have sub: "set ?xs = {NKTHREADS..<NENV}" using assms(1) by (auto simp: round_from_def)
  have last: "last ?xs = l" "distinct ?xs"
    using round_last [of "max i NKTHREADS"] assms(1) unfolding assms(3) by simp_all
  have "\<exists>k \<in> set ?xs. find ?P ?xs = Some k \<and> runnable s k"
  proof (rule find_or_last [of _ j])
    show "distinct ?xs" by (rule last)
    show "j \<in> set ?xs" unfolding sub using r by simp
    show "runnable s j" by (rule r)
    show "\<forall>x \<in> set ?xs. last_of_round s l x \<longrightarrow> x = last ?xs"
      unfolding sub last last_of_round_def using ids by blast
  qed
  then obtain k where "find ?P ?xs = Some k" "runnable s k" "NKTHREADS \<le> k" "k < NENV" using sub by auto
  then show ?thesis
    using runnable_env_lookup_round [of i s] find_stronger [of "runnable s" "last_of_round s l" ?xs k] assms(1,2)
    unfolding assms(3) [symmetric] by auto
qed

lemma calulate_delta_eq: "calulate_delta tick p = tick - p"
  by (simp add: calulate_delta_def)

text \<open>Nothing for the kernel to do: no lists to balance, enough free pages, nobody to wake and no tasklet with work.\<close>

definition no_kernel_work :: "kstate \<Rightarrow> bool" where
  "no_kernel_work s \<longleftrightarrow>
     lru_check s \<le> LRU_DEFAULT \<and> sint (SWAP_TRESH - free_pages_count s) \<le> 0 \<and>
     NENV \<le> 8 * length (drc_map s) \<and> bits (drc_map s) \<inter> {..<NENV} = {} \<and>
     find_work (t_list s) s = (Inr None :: kstate stop + nat option) \<and> locks s TASK_LOCK = spin_initlock"

lemma resume_loop_none:
  assumes "i + n \<le> 8 * length (drc_map s)" "\<forall>j \<in> {i..<i + n}. j \<notin> bits (drc_map s)"
  shows "resume_loop n i s = Inr ((), s)"
  using assms
proof (induction n arbitrary: i)
  case (Suc n)
  then have "get_bit (drc_map s) i = (Inr 0 :: kstate stop + _)" by (simp add: get_bit_bits)
  then show ?case using Suc by simp
qed simp

lemma check_work_none:
  assumes "holds ENV_LOCK s" "no_kernel_work s"
  shows "check_work Y s = Inr ((), s)"
proof -
  define t where "t = s\<lparr>locks := (locks s)(TASK_LOCK := \<lparr>locked = 1, lk_cpu = Some (cpunum s)\<rparr>)\<rparr>"
  have l: "lock TASK_LOCK s = Inr ((), t)" using assms(2) by (simp add: lock_free t_def no_kernel_work_def spin_initlock_def)
  have t: "t_list t = t_list s" "find_work (t_list s) t = (find_work (t_list s) s :: kstate stop + nat option)" "lru_check t = lru_check s"
      "free_pages_count t = free_pages_count s" "drc_map t = drc_map s" "holds TASK_LOCK t"
    by (simp_all add: t_def find_work_def holds_def holding_def)
  have m: "manage_lists t = Inr ((), t)" using assms(2) t(3) by (auto simp: manage_lists_def no_kernel_work_def)
  have "resume_env t = Inr ((), t)"
    using assms(2) t(5) by (auto simp: resume_env_def no_kernel_work_def disjoint_iff intro!: resume_loop_none)
  then have r: "relieve Y t = Inr ((), t)" using assms(2) t(4) by (simp add: relieve_def no_kernel_work_def Let_def)
  have u: "unlock TASK_LOCK t = Inr ((), s)"
  proof -
    have "t\<lparr>locks := (locks t)(TASK_LOCK := spin_initlock)\<rparr> = s"
      using assms(2) by (simp add: t_def no_kernel_work_def fun_upd_idem_iff)
    then show ?thesis using unlock_held [OF t(6)] by simp
  qed
  have "assert_lock ENV_LOCK s = Inr ()" using assms(1) by (simp add: assert_lock_def)
  then show ?thesis using l m r u t(1,2) assms(2) by (simp add: check_work_def no_kernel_work_def)
qed

text \<open>The state after the accounting of \<open>sched_yield\<close>.\<close>

definition accounted :: "nat \<Rightarrow> kstate \<Rightarrow> kstate" where
  "accounted c s =
     (let d = tsc s - last_tick s in
      (upd_env c (\<lambda>x. x\<lparr>time_slice := time_slice x - d\<rparr>) s)\<lparr>lru_check := lru_check s - d, last_tick := tsc s\<rparr>)"

lemma accounted_fields:
  "curenv (accounted c s) = curenv s" "holds l (accounted c s) = holds l s" "cpunum (accounted c s) = cpunum s"
  "locks (accounted c s) = locks s" "last_tick (accounted c s) = tsc s" "lru_check (accounted c s) = lru_check s - (tsc s - last_tick s)"
  "envs (accounted c s) = (envs s)(c := (envs s c)\<lparr>time_slice := time_slice (envs s c) - (tsc s - last_tick s)\<rparr>)"
  by (simp_all add: accounted_def Let_def)

lemma account_eq:
  assumes "curenv s = Some c" "env_status (envs s c) = ENV_RUNNING" "env_type (envs s c) \<noteq> ENV_TYPE_KERNEL"
  shows "account Y c s =
    (if time_slice (envs s c) - (tsc s - last_tick s) < TS_DEFAULT then env_run c (accounted c s) else check_work Y (accounted c s))"
  using assms accounted_fields [where c = c and s = s]
  by (simp add: account_def calulate_delta_eq Let_def check_time_slice_def accounted_def [unfolded Let_def, symmetric])

lemma slice_lasts:
  assumes lk: "holds ENV_LOCK s" and cur: "curenv s = Some c" and st: "env_status (envs s c) = ENV_RUNNING"
    and ty: "env_type (envs s c) \<noteq> ENV_TYPE_KERNEL"
    and ts: "time_slice (envs s c) - (tsc s - last_tick s) < TS_DEFAULT"
  shows "\<exists>s'. sched_yield (Suc n) s = Inl (EnterUser c s') \<and> last_tick s' = tsc s \<and> curenv s' = Some c \<and> \<not> holds ENV_LOCK s' \<and>
     lru_check s' = lru_check s - (tsc s - last_tick s) \<and>
     envs s' = (envs s)(c := (envs s c)\<lparr>time_slice := time_slice (envs s c) - (tsc s - last_tick s), env_cpunum := cpunum s\<rparr>)"
proof -
  let ?t = "accounted c s"
  note t = accounted_fields [where c = c and s = s]
  have "env_run c ?t = env_pop_tf c (?t\<lparr>locks := (locks ?t)(ENV_LOCK := spin_initlock)\<rparr>)"
    unfolding env_run_def Let_def t(1) using t cur lk ty unlock_held [of ENV_LOCK ?t] by simp
  then show ?thesis using cur lk ts t account_eq [OF cur st ty] by (simp add: sched_body_def env_pop_tf_def)
qed

lemma slice_over:
  assumes lk: "holds ENV_LOCK s" and cur: "curenv s = Some c" and st: "env_status (envs s c) = ENV_RUNNING"
    and ty: "env_type (envs s c) \<noteq> ENV_TYPE_KERNEL"
  defines "i \<equiv> max (ENVX (env_id (envs s c))) NKTHREADS"
  assumes ts: "TS_DEFAULT \<le> time_slice (envs s c) - (tsc s - last_tick s)"
    and work: "no_kernel_work (s\<lparr>lru_check := lru_check s - (tsc s - last_tick s)\<rparr>)"
    and r: "NKTHREADS \<le> j" "j < NENV" "runnable s j" and last: "env_type (envs s (last_index i)) \<noteq> ENV_TYPE_KERNEL"
    and ids: "\<forall>j \<in> {NKTHREADS..<NENV}. env_id (envs s j) = env_id (envs s (last_index i)) \<longrightarrow> j = last_index i"
    and dirs: "\<forall>j. runnable s j \<longrightarrow> (\<exists>pg pa. env_pgdir (envs s j) = Some pg \<and> PADDR (kva pg) = (Inr pa :: kstate stop + u32))"
  shows "\<exists>k s'. find (runnable s) (round_from i) = Some k \<and> sched_yield (Suc n) s = Inl (EnterUser k s') \<and>
       curenv s' = Some k \<and> \<not> holds ENV_LOCK s' \<and>
       envs s' = (envs s)(c := (envs s c)\<lparr>time_slice := time_slice (envs s c) - (tsc s - last_tick s), env_status := ENV_RUNNABLE\<rparr>,
         k := (envs s k)\<lparr>time_slice := TS_DEFAULT, env_status := ENV_RUNNING, env_runs := env_runs (envs s k) + 1,
           env_cpunum := cpunum s\<rparr>)"
proof -
  let ?t = "accounted c s" and ?i = "ENVX (env_id (envs s c))"
  note t = accounted_fields [where c = c and s = s]
  have same: "env_id (envs ?t x) = env_id (envs s x)" "env_type (envs ?t x) = env_type (envs s x)" for x by (simp_all add: t(7))
  have run: "runnable ?t = runnable s" by (intro ext) (simp add: runnable_def t(7))
  have "no_kernel_work ?t" using work by (simp add: no_kernel_work_def accounted_def Let_def find_work_def)
  then have "check_work Y ?t = Inr ((), ?t)" for Y using lk t(2) by (intro check_work_none) simp_all
  then have acc: "account (sched_yield n) c s = Inr ((), ?t)" using account_eq [OF cur st ty] leD [OF ts] by simp
  obtain k where k: "runnable_env_lookup ?i ?t = Inr (int k)" "find (runnable s) (round_from i) = Some k" "runnable s k"
    using lookup_first_runnable [of ?i ?t "last_index i" j, unfolded same run] last ids r by (auto simp: i_def)
  have neq: "k \<noteq> c" using k(3) st by (auto simp: runnable_def)
  let ?u = "upd_env k (\<lambda>x. x\<lparr>time_slice := TS_DEFAULT\<rparr>) ?t"
  have "sched_yield (Suc n) s = env_run k ?u" using acc k(1) lk cur by (simp add: sched_body_def assert_lock_def)
  moreover obtain pg pa where "env_pgdir (envs s k) = Some pg" "PADDR (kva pg) = (Inr pa :: kstate stop + u32)"
    using dirs k(3) by blast
  ultimately show ?thesis
    using env_run_switches [of ?u c k pg pa] neq k(2,3) lk cur st ty t by (auto simp: runnable_def fun_upd_twist)
qed

section \<open>Properties\<close>

definition sample_sched :: kstate where
  "sample_sched = sample_k\<lparr>envs := (\<lambda>i. blank_env\<lparr>env_id := of_nat i, env_status := (if i = 7 then ENV_RUNNABLE else ENV_FREE)\<rparr>)\<rparr>"

text \<open>
  C11: The search for the next environment is round robin: it returns the first environment, in the circular order
  that starts at the given index and leaves out the kernel threads, that is runnable; it stops at the first
  environment with the identifier of the last one of the round, which may run again if it is running on this
  processor, and otherwise reports that there is none.
\<close>

theorem runnable_env_lookup_round_robin:
  assumes "i < NENV" "env_type (envs s (last_index (max i NKTHREADS))) \<noteq> ENV_TYPE_KERNEL"
  shows "runnable_env_lookup i s =
    Inr (case find (\<lambda>x. runnable s x \<or> last_of_round s (last_index (max i NKTHREADS)) x) (round_from (max i NKTHREADS)) of
           Some x \<Rightarrow> if runnable s x then int x else rerun s x | None \<Rightarrow> -1)"
  using assms by (rule runnable_env_lookup_round)

theorem runnable_env_lookup_round_robin_witness:
  "runnable_env_lookup 5 sample_k = Inr (-1) \<and> runnable_env_lookup 5 sample_sched = Inr 7"
proof -
  have r: "round_from 5 = 5 # 6 # 7 # ([8..<NENV] @ [NKTHREADS..<5])"
    by (simp add: round_from_def upt_conv_Cons del: upt_Suc)
  show ?thesis
    using runnable_env_lookup_round_robin [of 5 sample_k] runnable_env_lookup_round_robin [of 5 sample_sched]
    by (simp add: r sample_k_fields sample_sched_def blank_env_def runnable_def last_of_round_def rerun_def last_index_def del: upt_Suc)
qed

text \<open>
  C12: While there is a runnable environment the scheduler finds one: if no other environment carries the identifier of
  the last one of the round, the search returns a runnable environment that is not a kernel thread.
\<close>

theorem runnable_env_lookup_finds:
  assumes "i < NENV" "env_type (envs s l) \<noteq> ENV_TYPE_KERNEL" "l = last_index (max i NKTHREADS)"
    and ids: "\<forall>j \<in> {NKTHREADS..<NENV}. env_id (envs s j) = env_id (envs s l) \<longrightarrow> j = l"
    and r: "NKTHREADS \<le> j" "j < NENV" "runnable s j"
  shows "\<exists>k. runnable_env_lookup i s = Inr (int k) \<and> NKTHREADS \<le> k \<and> k < NENV \<and> runnable s k"
  using lookup_first_runnable [OF assms] by blast

theorem runnable_env_lookup_finds_witness:
  "\<exists>k. runnable_env_lookup 2 sample_sched = Inr (int k) \<and> NKTHREADS \<le> k \<and> k < NENV \<and> runnable sample_sched k"
proof (rule runnable_env_lookup_finds [where l = 1023 and j = 7])
  show "\<forall>j \<in> {NKTHREADS..<NENV}. env_id (envs sample_sched j) = env_id (envs sample_sched 1023) \<longrightarrow> j = 1023"
  proof (intro ballI impI)
    fix j
    assume j: "j \<in> {NKTHREADS..<NENV}" and eq: "env_id (envs sample_sched j) = env_id (envs sample_sched 1023)"
    then have "unat (of_nat j :: u32) = unat (of_nat 1023 :: u32)" by (simp add: sample_sched_def)
    then show "j = 1023" using j by (simp add: unat_of_nat take_bit_nat_eq_self)
  qed
qed (simp_all add: sample_sched_def blank_env_def last_index_def runnable_def)

text \<open>
  C27: An environment keeps the processor while its time slice lasts, and loses it then.  The ticks that have passed since
  the last call are subtracted modulo 2^64 (also when the counter has wrapped around) from the time slice of
  the running environment and from the time to the next balancing.  While the slice, read as an unsigned number, is
  below the default, the same environment is entered again.  When it is not, as after the slice has run out and wrapped
  around, and the kernel has no work of its own, the first runnable environment of the round that starts at the current
  one is entered with a fresh slice, and the current one becomes runnable.  For this there has to be a runnable environment;
  no other environment carries the identifier of the last one of the round, where the search would stop; and runnable
  environments have a page directory.
\<close>

theorem sched_yield_time_slice:
  assumes lk: "holds ENV_LOCK s" and cur: "curenv s = Some c" and st: "env_status (envs s c) = ENV_RUNNING"
    and ty: "env_type (envs s c) \<noteq> ENV_TYPE_KERNEL"
    and ts: "ts = time_slice (envs s c) - (tsc s - last_tick s)" and lru: "lru = lru_check s - (tsc s - last_tick s)"
    and i: "i = max (ENVX (env_id (envs s c))) NKTHREADS"
  shows "(ts < TS_DEFAULT \<longrightarrow>
     (\<exists>s'. sched_yield (Suc n) s = Inl (EnterUser c s') \<and> last_tick s' = tsc s \<and> curenv s' = Some c \<and> \<not> holds ENV_LOCK s' \<and>
       lru_check s' = lru \<and> envs s' = (envs s)(c := (envs s c)\<lparr>time_slice := ts, env_cpunum := cpunum s\<rparr>))) \<and>
    (TS_DEFAULT \<le> ts \<and> no_kernel_work (s\<lparr>lru_check := lru\<rparr>) \<and> (\<exists>j \<in> {NKTHREADS..<NENV}. runnable s j) \<and>
     env_type (envs s (last_index i)) \<noteq> ENV_TYPE_KERNEL \<and>
     (\<forall>j \<in> {NKTHREADS..<NENV}. env_id (envs s j) = env_id (envs s (last_index i)) \<longrightarrow> j = last_index i) \<and>
     (\<forall>j. runnable s j \<longrightarrow> (\<exists>pg pa. env_pgdir (envs s j) = Some pg \<and> PADDR (kva pg) = (Inr pa :: kstate stop + u32))) \<longrightarrow>
     (\<exists>k s'. find (runnable s) (round_from i) = Some k \<and> sched_yield (Suc n) s = Inl (EnterUser k s') \<and>
       curenv s' = Some k \<and> \<not> holds ENV_LOCK s' \<and>
       envs s' = (envs s)(c := (envs s c)\<lparr>time_slice := ts, env_status := ENV_RUNNABLE\<rparr>,
         k := (envs s k)\<lparr>time_slice := TS_DEFAULT, env_status := ENV_RUNNING, env_runs := env_runs (envs s k) + 1,
           env_cpunum := cpunum s\<rparr>)))"
proof (intro conjI impI; (elim conjE bexE)?)
  assume "ts < TS_DEFAULT"
  then show "\<exists>s'. sched_yield (Suc n) s = Inl (EnterUser c s') \<and> last_tick s' = tsc s \<and> curenv s' = Some c \<and> \<not> holds ENV_LOCK s' \<and>
       lru_check s' = lru \<and> envs s' = (envs s)(c := (envs s c)\<lparr>time_slice := ts, env_cpunum := cpunum s\<rparr>)"
    by (rule slice_lasts [OF lk cur st ty, folded ts lru])
qed (rule slice_over [OF lk cur st ty, folded ts lru, folded i]; simp)

definition sample_preempt :: kstate where
  "sample_preempt = sample_envs\<lparr>free_pages_count := 1000,
     envs := (\<lambda>i. (envs sample_envs i)\<lparr>env_id := of_nat i, time_slice := TS_DEFAULT\<rparr>)\<rparr>"

lemma find_work_end: "find_work None s = Inr None"
  by (simp only: find_work_def seek.simps option.case prod.case)

lemma sample_preempt_work: "no_kernel_work (sample_preempt\<lparr>lru_check := 0\<rparr>)"
proof -
  have "bits (replicate 32768 0) = {}" by (auto simp: bits_def)
  then show ?thesis
    by (simp add: no_kernel_work_def sample_preempt_def sample_envs_def sample_k_def SWAP_TRESH_def find_work_end)
qed

theorem sched_yield_time_slice_witness:
  "(\<exists>s'. sched_yield 3 sample_envs = Inl (EnterUser 2 s') \<and> last_tick s' = 0) \<and>
   (\<exists>s'. sched_yield 3 sample_preempt = Inl (EnterUser 3 s') \<and> env_status (envs s' 2) = ENV_RUNNABLE \<and> time_slice (envs s' 3) = TS_DEFAULT)"
proof
  have z: "tsc sample_envs = 0" "last_tick sample_envs = 0" by (simp_all add: sample_envs_def sample_k_def)
  have e: "env_status (envs sample_envs 2) = ENV_RUNNING" "env_type (envs sample_envs 2) \<noteq> ENV_TYPE_KERNEL"
      "time_slice (envs sample_envs 2) - (tsc sample_envs - last_tick sample_envs) < TS_DEFAULT"
    by (simp_all add: sample_envs_fields blank_env_def TS_DEFAULT_def z)
  show "\<exists>s'. sched_yield 3 sample_envs = Inl (EnterUser 2 s') \<and> last_tick s' = 0"
    using sched_yield_time_slice [OF sample_envs_fields(1,2) e(1,2) refl refl refl, of 2] e(3) z
    unfolding numeral_3_eq_3 numeral_2_eq_2 by auto
  let ?s = sample_preempt
  have f: "holds ENV_LOCK ?s" "curenv ?s = Some 2" "env_status (envs ?s 2) = ENV_RUNNING" "env_type (envs ?s 2) \<noteq> ENV_TYPE_KERNEL"
      "TS_DEFAULT = time_slice (envs ?s 2) - (tsc ?s - last_tick ?s)" "0 = lru_check ?s - (tsc ?s - last_tick ?s)"
    by (simp_all add: sample_preempt_def sample_envs_fields blank_env_def z, simp add: sample_envs_def sample_k_def)
  have i: "2 = max (ENVX (env_id (envs ?s 2))) NKTHREADS" by (simp add: sample_preempt_def ENVX_def)
  have run: "runnable ?s j \<longleftrightarrow> j = 3" for j by (auto simp: runnable_def sample_preempt_def sample_envs_def blank_env_def)
  have l: "last_index 2 = 1023" "env_type (envs ?s 1023) \<noteq> ENV_TYPE_KERNEL"
    by (simp_all add: last_index_def sample_preempt_def sample_envs_def blank_env_def)
  have ids: "\<forall>j \<in> {NKTHREADS..<NENV}. env_id (envs ?s j) = env_id (envs ?s 1023) \<longrightarrow> j = 1023"
  proof (intro ballI impI)
    fix j
    assume j: "j \<in> {NKTHREADS..<NENV}" and "env_id (envs ?s j) = env_id (envs ?s 1023)"
    then have "unat (of_nat j :: u32) = unat (of_nat 1023 :: u32)" by (simp add: sample_preempt_def)
    then show "j = 1023" using j by (simp add: unat_of_nat take_bit_nat_eq_self)
  qed
  have d: "\<exists>pg pa. env_pgdir (envs ?s 3) = Some pg \<and> PADDR (kva pg) = (Inr pa :: kstate stop + u32)"
    by (simp add: sample_preempt_def sample_envs_def PADDR_def kva_def KERNBASE_def page2pa_def)
  obtain k s' where k: "find (runnable ?s) (round_from 2) = Some k" "sched_yield (Suc 2) ?s = Inl (EnterUser k s')"
      "envs s' = (envs ?s)(2 := (envs ?s 2)\<lparr>time_slice := TS_DEFAULT, env_status := ENV_RUNNABLE\<rparr>,
         k := (envs ?s k)\<lparr>time_slice := TS_DEFAULT, env_status := ENV_RUNNING, env_runs := env_runs (envs ?s k) + 1, env_cpunum := cpunum ?s\<rparr>)"
    using sched_yield_time_slice [OF f i, of 2] sample_preempt_work ids d l run by auto
  have "k = 3" using k(1) run by (auto simp: find_Some_iff)
  then show "\<exists>s'. sched_yield 3 ?s = Inl (EnterUser 3 s') \<and> env_status (envs s' 2) = ENV_RUNNABLE \<and> time_slice (envs s' 3) = TS_DEFAULT"
    using k by (simp add: numeral_3_eq_3 numeral_2_eq_2)
qed

end
