(* ===== verification/Syscall.thy ===== *)
theory Syscall
  imports Sched
begin

text \<open>
  The system calls, \<^verbatim>\<open>kern/syscall.c\<close>.  Each handler is a function of its arguments and the state; results
  are words, negative error codes wrapped around as in C.  \<open>sched\<close> is the scheduler.
\<close>

definition sched :: "kstate \<Rightarrow> (kstate, unit) kres" where
  "sched = sched_yield 3"

definition MADV_DONTNEED :: u32 where "MADV_DONTNEED = 0"
definition MADV_WILLNEED :: u32 where "MADV_WILLNEED = 1"

section \<open>Console\<close>

definition user_mem_assert :: "nat \<Rightarrow> u32 \<Rightarrow> u32 \<Rightarrow> u32 \<Rightarrow> kstate \<Rightarrow> (kstate, unit) kres" where
  "user_mem_assert e va len perm s =
     rbind (lock PAGEALLOC_LOCK s) (\<lambda>(_, s).
     rbind (user_mem_check e va len (perm OR PTE_U) s) (\<lambda>(ret, s).
     rbind (unlock PAGEALLOC_LOCK s) (\<lambda>(_, s).
     if ret < 0 then rbind (lock ENV_LOCK s) (\<lambda>(_, s). env_destroy sched e s)
     else Inr ((), s))))"

text \<open>A byte at a user address, read through the page directory that is loaded.\<close>

definition peek :: "u32 \<Rightarrow> kstate \<Rightarrow> kstate stop + u8" where
  "peek va s = rbind (translate False va s) (\<lambda>p. Inr (ucast (drop_bit (8 * unat (va AND 3)) (rd p s))))"

text \<open>The loop of \<open>%s\<close> in \<open>vprintfmt\<close> with precision \<open>n\<close>: a character is read before the precision is tested.\<close>

fun put_string :: "nat \<Rightarrow> u32 \<Rightarrow> kstate \<Rightarrow> (kstate, unit) kres" where
  "put_string n va s =
     rbind (peek va s) (\<lambda>ch.
     if ch = 0 then Inr ((), s)
     else case n of
       0 \<Rightarrow> Inr ((), s)
     | Suc m \<Rightarrow> rbind (cons_putc (scast ch) (cons s)) (\<lambda>c. put_string m (va + 1) (s\<lparr>cons := c\<rparr>)))"

text \<open>A null pointer prints as \<open>(null)\<close>, a string of the kernel, cut off at the precision like any other.\<close>

fun put_literal :: "nat \<Rightarrow> u8 list \<Rightarrow> kstate \<Rightarrow> (kstate, unit) kres" where
  "put_literal n [] s = Inr ((), s)"
| "put_literal n (ch # chs) s =
     (case n of
        0 \<Rightarrow> Inr ((), s)
      | Suc m \<Rightarrow> rbind (cons_putc (scast ch) (cons s)) (\<lambda>c. put_literal m chs (s\<lparr>cons := c\<rparr>)))"

definition null_text :: "u8 list" where
  "null_text = [0x28, 0x6E, 0x75, 0x6C, 0x6C, 0x29]"

definition sys_cputs :: "u32 \<Rightarrow> u32 \<Rightarrow> kstate \<Rightarrow> (kstate, unit) kres" where
  "sys_cputs str len s =
     with_curenv s (\<lambda>c.
     rbind (user_mem_assert c str len PTE_U s) (\<lambda>(_, s).
     rbind (lock CONSOLE_LOCK s) (\<lambda>(_, s).
     let precision = (if sint len < 0 then unat (0xFFFFFFFF :: u32) else unat len) in
     rbind (if str = 0 then put_literal precision null_text s else put_string precision str s) (\<lambda>(_, s).
     unlock CONSOLE_LOCK s))))"

definition sys_cgetc :: "kstate \<Rightarrow> (kstate, u32) kres" where
  "sys_cgetc s =
     rbind (lock CONSOLE_LOCK s) (\<lambda>(_, s).
     rbind (cons_getc (cons s)) (\<lambda>(ch, c).
     rbind (unlock CONSOLE_LOCK (s\<lparr>cons := c\<rparr>)) (\<lambda>(_, s). Inr (ucast ch, s))))"

section \<open>Environments\<close>

definition sys_getenvid :: "kstate \<Rightarrow> (kstate, u32) kres" where
  "sys_getenvid s =
     rbind (lock ENV_LOCK s) (\<lambda>(_, s).
     with_curenv s (\<lambda>c.
     let ret = env_id (envs s c) in
     rbind (unlock ENV_LOCK s) (\<lambda>(_, s). Inr (ret, s))))"

definition sys_env_destroy :: "u32 \<Rightarrow> kstate \<Rightarrow> (kstate, int) kres" where
  "sys_env_destroy envid s =
     rbind (lock ENV_LOCK s) (\<lambda>(_, s).
     rbind (envid2env envid True s) (\<lambda>((r, e), s).
     if r < 0 then rbind (unlock ENV_LOCK s) (\<lambda>(_, s). Inr (r, s))
     else
       case e of
         None \<Rightarrow> Inl NullDeref
       | Some e \<Rightarrow>
           rbind (env_destroy sched e s) (\<lambda>(_, s).
           rbind (unlock ENV_LOCK s) (\<lambda>(_, s). Inr (0, s)))))"

definition sys_yield :: "kstate \<Rightarrow> (kstate, unit) kres" where
  "sys_yield s =
     with_curenv s (\<lambda>c.
     rbind (lock ENV_LOCK (invalidate_env_ts c s)) (\<lambda>(_, s). sched s))"

definition sys_wait :: "u32 \<Rightarrow> kstate \<Rightarrow> (kstate, int) kres" where
  "sys_wait envid s =
     rbind (lock ENV_LOCK s) (\<lambda>(_, s).
     rbind (envid2env envid False s) (\<lambda>((_, e), s).
     if e = None then rbind (unlock ENV_LOCK s) (\<lambda>(_, s). Inr (-1, s))
     else
       with_curenv s (\<lambda>c.
       rbind (sched (upd_env c (\<lambda>x. x\<lparr>wait_id := envid, env_status := ENV_SLEEPING\<rparr>) s)) (\<lambda>(_, s). Inr (0, s)))))"

definition sys_fork :: "kstate \<Rightarrow> (kstate, u32) kres" where
  "sys_fork s =
     rbind (lock ENV_LOCK s) (\<lambda>(_, s).
     with_curenv s (\<lambda>c.
     rbind (env_dup sched c s) (\<lambda>(child_id, s).
     if child_id = 0 then rbind (unlock ENV_LOCK s) (\<lambda>(_, s). Inr (-1, s))
     else Inr (child_id, s))))"

section \<open>Areas\<close>

text \<open>
  The search of \<open>vma_find_spot\<close>.  The value -1 stands for no spot; the code after the loop for the case
  that no gap is found tests the pointer \<open>vma_at_zero\<close>, which is not null, and is never executed.
\<close>

fun spot_loop :: "nat \<Rightarrow> u32 \<Rightarrow> nat \<Rightarrow> u32 \<Rightarrow> u32 \<Rightarrow> u32 \<Rightarrow> 'z vma_space_scheme \<Rightarrow> 's stop + u32" where
  "spot_loop 0 sz temp last_size last_addr total_area x = Inl Diverge"
| "spot_loop (Suc fuel) sz temp last_size last_addr total_area x =
     (let total_area = total_area + v_len (vmas x temp) in
      case vma_link (vmas x temp) of
        None \<Rightarrow> Inr (-1)
      | Some t \<Rightarrow>
          let gap = v_va (vmas x t) - last_addr + last_size in
          if sz < gap then
            if UTOP - 0x00800000 - total_area < -1 + sz then Inr (-1) else Inr (last_addr + last_size)
          else spot_loop fuel sz t (v_len (vmas x t)) (v_va (vmas x t)) total_area x)"

definition vma_find_spot :: "u32 \<Rightarrow> 'z vma_space_scheme \<Rightarrow> 's stop + u32" where
  "vma_find_spot sz x =
     (case alloc_vma_list x of
        None \<Rightarrow> Inl NullDeref
      | Some t \<Rightarrow>
          if sz < v_va (vmas x t) then Inr 0
          else spot_loop (NVMA + 1) sz t (v_len (vmas x t)) (v_va (vmas x t)) 0 x)"

definition unlock_ret :: "klock \<Rightarrow> 'a \<Rightarrow> kstate \<Rightarrow> (kstate, 'a) kres" where
  "unlock_ret l r s = rbind (unlock l s) (\<lambda>(_, s). Inr (r, s))"

text \<open>
  The test \<open>spot < 0\<close> compares a pointer and is never true, and \<open>flags & 0x1 & 0x2\<close> is 0, so the branch
  that would populate an area of huge pages is not taken.
\<close>

definition sys_vma_create :: "u32 \<Rightarrow> u32 \<Rightarrow> u32 \<Rightarrow> kstate \<Rightarrow> (kstate, u32) kres" where
  "sys_vma_create sz perm flags s =
     rbind (lock ENV_LOCK s) (\<lambda>(_, s).
     if flags AND 0x2 \<noteq> 0 \<and> sz mod (PGSIZE * 1024) \<noteq> 0 then unlock_ret ENV_LOCK (-1) s
     else
       with_curenv s (\<lambda>c.
       rbind (vma_find_spot sz (envs s c)) (\<lambda>spot.
       rbind (in_env c (vma_new spot sz VMA_ANON 0 0 0 (perm OR PTE_U)) s) (\<lambda>((r, new), s).
       if r < 1 then unlock_ret ENV_LOCK (-1) s
       else if flags AND 0x1 \<noteq> 0 \<and> flags AND 0x2 = 0 then
         rbind (lock PAGEALLOC_LOCK s) (\<lambda>(_, s).
         rbind (vma_populate spot sz perm False s) (\<lambda>(ok, s).
         rbind (unlock PAGEALLOC_LOCK s) (\<lambda>(_, s).
         unlock_ret ENV_LOCK (if ok then spot else -1) s)))
       else if flags AND 0x1 AND 0x2 \<noteq> 0 then
         rbind (lock PAGEALLOC_LOCK s) (\<lambda>(_, s).
         rbind (vma_populate spot sz perm True s) (\<lambda>(ok, s).
         rbind (unlock PAGEALLOC_LOCK s) (\<lambda>(_, s).
         if \<not> ok then unlock_ret ENV_LOCK (-1) s
         else case new of
           None \<Rightarrow> Inl NullDeref
         | Some n \<Rightarrow> unlock_ret ENV_LOCK spot (upd_env c (upd_vma n (\<lambda>v. v\<lparr>hps := True\<rparr>)) s))))
       else if flags AND 0x2 \<noteq> 0 then
         case new of
           None \<Rightarrow> Inl NullDeref
         | Some n \<Rightarrow> unlock_ret ENV_LOCK spot (upd_env c (upd_vma n (\<lambda>v. v\<lparr>hps := True\<rparr>)) s)
       else unlock_ret ENV_LOCK spot s))))"

definition sys_vma_destroy :: "u32 \<Rightarrow> u32 \<Rightarrow> kstate \<Rightarrow> (kstate, int) kres" where
  "sys_vma_destroy va sz s =
     rbind (lock ENV_LOCK s) (\<lambda>(_, s).
     with_curenv s (\<lambda>c.
     rbind (vma_lookup va (envs s c)) (\<lambda>v.
     case v of
       None \<Rightarrow> Inl NullDeref
     | Some v \<Rightarrow>
         let w = vmas (envs s c) v in
         if hps w \<and> (v_len w \<noteq> sz \<or> v_va w \<noteq> va) then unlock_ret ENV_LOCK (-1) s
         else
           rbind (vma_split_lookup c va sz True s) (\<lambda>(r, s).
           unlock_ret ENV_LOCK (if r = Split_null then -1 else 0) s))))"

definition sys_vma_protect :: "u32 \<Rightarrow> u32 \<Rightarrow> u32 \<Rightarrow> kstate \<Rightarrow> (kstate, int) kres" where
  "sys_vma_protect va sz perm s =
     rbind (lock ENV_LOCK s) (\<lambda>(_, s).
     with_curenv s (\<lambda>c.
     rbind (vma_lookup va (envs s c)) (\<lambda>v.
     case v of
       None \<Rightarrow> unlock_ret ENV_LOCK 0 s
     | Some v \<Rightarrow>
         if v_perm (vmas (envs s c) v) = perm then unlock_ret ENV_LOCK 1 s
         else
           rbind (vma_split_lookup c va sz False s) (\<lambda>(r, s).
           case r of
             Split_null \<Rightarrow> unlock_ret ENV_LOCK 0 s
           | Split_done \<Rightarrow> Inl NullDeref
           | Split_vma w \<Rightarrow>
               rbind (vma_change_perm w perm s) (\<lambda>(ok, s).
               if \<not> ok then unlock_ret ENV_LOCK 0 s
               else
                 rbind (vma_list_merge (Some c) s) (\<lambda>(m, s).
                 unlock_ret ENV_LOCK (if m \<noteq> 0 then 0 else 1) s))))))"

text \<open>With no area at \<open>va\<close> the call returns with the lock still held.\<close>

definition sys_vma_advise :: "u32 \<Rightarrow> u32 \<Rightarrow> u32 \<Rightarrow> kstate \<Rightarrow> (kstate, int) kres" where
  "sys_vma_advise va sz attr s =
     rbind (lock ENV_LOCK s) (\<lambda>(_, s).
     with_curenv s (\<lambda>c.
     rbind (vma_lookup va (envs s c)) (\<lambda>v.
     case v of
       None \<Rightarrow> Inr (0, s)
     | Some v \<Rightarrow>
         let w = vmas (envs s c) v in
         if \<not> vma_size_check va sz w then unlock_ret ENV_LOCK 0 s
         else
           rbind (if attr = MADV_DONTNEED \<and> \<not> hps w then
                    rbind (lock PAGEALLOC_LOCK s) (\<lambda>(_, s).
                    rbind (vma_remove_pages c va sz s) (\<lambda>(_, s). unlock PAGEALLOC_LOCK s))
                  else Inr ((), s)) (\<lambda>(_, s).
           rbind (if attr = MADV_WILLNEED then
                    rbind (lock PAGEALLOC_LOCK s) (\<lambda>(_, s).
                    rbind (vma_populate va sz (v_perm w) (hps w) s) (\<lambda>(_, s). unlock PAGEALLOC_LOCK s))
                  else Inr ((), s)) (\<lambda>(_, s).
           unlock_ret ENV_LOCK 1 s)))))"

section \<open>Dispatch\<close>

definition ret_int :: "(kstate, int) kres \<Rightarrow> (kstate, u32) kres" where
  "ret_int m = rbind m (\<lambda>(r, s). Inr (of_int r, s))"

text \<open>The case of \<open>SYS_yield\<close> has no \<open>break\<close> and falls through to \<open>SYS_wait\<close>.\<close>

definition syscall :: "u32 \<Rightarrow> u32 \<Rightarrow> u32 \<Rightarrow> u32 \<Rightarrow> kstate \<Rightarrow> (kstate, u32) kres" where
  "syscall no a1 a2 a3 s =
     (if no = 0 then rbind (sys_cputs a1 a2 s) (\<lambda>(_, s). Inr (0, s))
      else if no = 1 then sys_cgetc s
      else if no = 2 then sys_getenvid s
      else if no = 3 then ret_int (sys_env_destroy a1 s)
      else if no = 4 then sys_vma_create a1 a2 a3 s
      else if no = 5 then ret_int (sys_vma_destroy a1 a2 s)
      else if no = 6 then ret_int (sys_vma_protect a1 a2 a3 s)
      else if no = 7 then ret_int (sys_vma_advise a1 a2 a3 s)
      else if no = 8 then rbind (sys_yield s) (\<lambda>(_, s). ret_int (sys_wait a1 s))
      else if no = 9 then ret_int (sys_wait a1 s)
      else if no = 10 then sys_fork s
      else Inr (of_int (- E_NO_SYS), s))"

end
