(* ===== verification/Trap.thy ===== *)
theory Trap
  imports Syscall
begin

text \<open>
  Traps, \<^verbatim>\<open>kern/trap.c\<close>: the interrupt descriptor table, the page-fault handler with demand paging,
  copy on write and swapping in, the dispatcher and the entry point \<open>trap\<close>.

  The frame \<open>tf\<close> a trap is dispatched with is either the one on the kernel stack or the copy in the current
  environment; the second is \<open>Some c\<close>, the environment that keeps the copy.  \<open>trap\<close> ends in \<open>env_run\<close> or the
  scheduler and does not return to the frame on the stack.  Acknowledging the timer (\<open>lapic_eoi\<close>) and the
  assertion that interrupts are off have no state in the model.  \<open>trap\<close> also halts a processor when another one has
  panicked (\<open>panicstr\<close>); in the model a panic ends the execution of the whole machine, so that no state that a trap
  starts in has \<open>panicstr\<close> set, and the test is left out.
\<close>

abbreviation T_BRKPT :: u32 where "T_BRKPT \<equiv> 3"
abbreviation T_PGFLT :: u32 where "T_PGFLT \<equiv> 14"
abbreviation T_SYSCALL :: u32 where "T_SYSCALL \<equiv> 48"
abbreviation IRQ_OFFSET :: u32 where "IRQ_OFFSET \<equiv> 32"
abbreviation IRQ_SPURIOUS :: u32 where "IRQ_SPURIOUS \<equiv> 7"

definition excnames :: "string list" where
  "excnames = [''Divide error'', ''Debug'', ''Non-Maskable Interrupt'', ''Breakpoint'', ''Overflow'',
     ''BOUND Range Exceeded'', ''Invalid Opcode'', ''Device Not Available'', ''Double Fault'',
     ''Coprocessor Segment Overrun'', ''Invalid TSS'', ''Segment Not Present'', ''Stack Fault'',
     ''General Protection'', ''Page Fault'', ''(unknown trap)'', ''x87 FPU Floating-Point Error'',
     ''Alignment Check'', ''Machine-Check'', ''SIMD Floating-Point Exception'']"

text \<open>The first comparison is unsigned, because \<open>sizeof\<close> is.\<close>

definition trapname :: "u32 \<Rightarrow> string" where
  "trapname trapno =
     (if trapno < 20 then excnames ! unat trapno
      else if trapno = T_SYSCALL then ''System call''
      else if sint IRQ_OFFSET \<le> sint trapno \<and> sint trapno < sint (IRQ_OFFSET + 16) then ''Hardware Interrupt''
      else ''(unknown trap)'')"

section \<open>The interrupt descriptor table\<close>

record gatedesc =
  gd_off_15_0 :: "16 word"
  gd_sel :: "16 word"
  gd_args :: "5 word"
  gd_rsv1 :: "3 word"
  gd_type :: "4 word"
  gd_s :: "1 word"
  gd_dpl :: "2 word"
  gd_p :: "1 word"
  gd_off_31_16 :: "16 word"

definition STS_IG32 :: "4 word" where "STS_IG32 = 0xE"
definition STS_TG32 :: "4 word" where "STS_TG32 = 0xF"

definition SETGATE :: "bool \<Rightarrow> u16 \<Rightarrow> u32 \<Rightarrow> 2 word \<Rightarrow> gatedesc" where
  "SETGATE istrap sel off dpl =
     \<lparr>gd_off_15_0 = ucast (off AND 0xffff), gd_sel = sel, gd_args = 0, gd_rsv1 = 0,
      gd_type = (if istrap then STS_TG32 else STS_IG32), gd_s = 0, gd_dpl = dpl, gd_p = 1,
      gd_off_31_16 = ucast (drop_bit 16 off)\<rparr>"

text \<open>The vectors with a handler, each with its privilege level; \<open>handler v\<close> is the address of the entry code.\<close>

definition trap_gates :: "(nat \<times> 2 word) list" where
  "trap_gates = [(0, 0), (1, 0), (2, 0), (3, 3), (4, 0), (5, 0), (6, 0), (7, 0), (8, 0),
     (10, 0), (11, 0), (12, 0), (13, 0), (14, 0), (16, 0), (17, 0), (18, 0), (19, 0), (48, 3),
     (32, 0), (32 + 1, 0), (32 + 4, 0), (32 + 7, 0), (32 + 14, 0), (32 + 19, 0)]"

definition trap_init :: "(nat \<Rightarrow> u32) \<Rightarrow> (nat \<Rightarrow> gatedesc) \<Rightarrow> nat \<Rightarrow> gatedesc" where
  "trap_init handler idt =
     fold (\<lambda>(v, dpl) t. t(v := SETGATE False GD_KT (handler v) dpl)) trap_gates idt"

section \<open>Demand paging\<close>

text \<open>A store of one byte.\<close>

definition put_byte :: "u32 \<Rightarrow> u8 \<Rightarrow> kstate \<Rightarrow> (kstate, unit) kres" where
  "put_byte va b s =
     rbind (translate True va s) (\<lambda>p.
     let k = 8 * unat (va AND 3) in
     Inr ((), wr p ((rd p s AND NOT (push_bit k 0xFF)) OR push_bit k (ucast b)) s))"

fun copy_bytes :: "nat \<Rightarrow> u32 \<Rightarrow> u32 \<Rightarrow> kstate \<Rightarrow> (kstate, unit) kres" where
  "copy_bytes 0 dst src s = Inr ((), s)"
| "copy_bytes (Suc n) dst src s =
     rbind (peek src s) (\<lambda>b.
     rbind (put_byte dst b s) (\<lambda>(_, s). copy_bytes n (dst + 1) (src + 1) s))"

fun zero_bytes :: "nat \<Rightarrow> u32 \<Rightarrow> kstate \<Rightarrow> (kstate, unit) kres" where
  "zero_bytes 0 dst s = Inr ((), s)"
| "zero_bytes (Suc n) dst s = rbind (put_byte dst 0 s) (\<lambda>(_, s). zero_bytes n (dst + 1) s)"

fun region_alloc_loop :: "nat \<Rightarrow> nat \<Rightarrow> nat \<Rightarrow> u32 \<Rightarrow> u32 \<Rightarrow> kstate \<Rightarrow> (kstate, unit) kres" where
  "region_alloc_loop 0 i e va_ptr perm s = Inr ((), s)"
| "region_alloc_loop (Suc n) i e va_ptr perm s =
     rbind (page_alloc 0 s) (\<lambda>(p, s).
     case p of
       None \<Rightarrow> Inl (Panic ''region_alloc(): page_alloc failure, Binary is too big'')
     | Some p \<Rightarrow>
         rbind (page_insert (env_pgdir (envs s e)) (Some p) (va_ptr + of_nat i * PGSIZE) perm s) (\<lambda>(r, s).
         if r \<noteq> 0 then Inl (Panic ''region_alloc(): page_insert failure'')
         else
           rbind (lru_ha_insert (Some p) s) (\<lambda>(_, s).
           region_alloc_loop n (Suc i) e va_ptr perm
             (upd_env e (\<lambda>x. x\<lparr>env_alloc_pages := env_alloc_pages x + 1\<rparr>) s))))"

definition region_alloc :: "u32 \<Rightarrow> u32 \<Rightarrow> u32 \<Rightarrow> kstate \<Rightarrow> (kstate, unit) kres" where
  "region_alloc va len perm s =
     with_curenv s (\<lambda>e.
     let va_ptr = ROUNDDOWN va PGSIZE;
         num_pages = ROUNDUP (len + (va - va_ptr)) PGSIZE div PGSIZE in
     region_alloc_loop (unat num_pages) 0 e va_ptr perm s)"

definition kill_env :: "kstate \<Rightarrow> (kstate, unit) kres" where
  "kill_env s = rbind (assert_lock ENV_LOCK s) (\<lambda>_. with_curenv s (\<lambda>c. env_destroy sched c s))"

text \<open>The current environment sleeps until \<open>resume_env\<close> finds its bit in \<open>drc_map\<close>.\<close>

definition sleep_drc :: "nat \<Rightarrow> kstate \<Rightarrow> (kstate, unit) kres" where
  "sleep_drc c s =
     (let s = upd_env c (\<lambda>x. x\<lparr>env_status := ENV_SLEEPING\<rparr>) s in
      rbind (toggle_bit (drc_map s) (ENVX (env_id (envs s c)))) (\<lambda>m. Inr ((), s\<lparr>drc_map := m\<rparr>)))"

text \<open>The two branches of \<open>alloc_page_after_fault\<close> for an area \<open>w\<close> with index \<open>v\<close> of environment \<open>c\<close>.\<close>

definition fault_binary :: "nat \<Rightarrow> vma \<Rightarrow> kstate \<Rightarrow> (kstate, unit) kres" where
  "fault_binary v w s =
     rbind (region_alloc (v_va w) (v_len w) (v_perm w OR PTE_W) s) (\<lambda>(_, s).
     rbind (copy_bytes (unat (src_sz w)) (v_va w + cpy_dst w) (cpy_src w) s) (\<lambda>(_, s).
     rbind (if src_sz w \<noteq> v_len w \<and> v_perm w \<noteq> 0
            then zero_bytes (unat (v_len w - src_sz w - cpy_dst w)) (v_va w + cpy_dst w + src_sz w) s
            else Inr ((), s)) (\<lambda>(_, s).
     if v_perm w AND PTE_W = 0 then rbind (vma_change_perm v (v_perm w) s) (\<lambda>(_, s). Inr ((), s))
     else Inr ((), s))))"

definition demand_page :: "u32 \<Rightarrow> nat \<Rightarrow> vma \<Rightarrow> kstate \<Rightarrow> (kstate, nat option) kres" where
  "demand_page fault_va c w s =
     (if hps w then
        rbind (page_alloc (ALLOC_ZERO OR ALLOC_HUGE) s) (\<lambda>(p, s).
        Inr (p, if p = None then s else upd_env c (\<lambda>x. x\<lparr>env_alloc_pages := env_alloc_pages x + 1024\<rparr>) s))
      else
        rbind (page_alloc ALLOC_ZERO s) (\<lambda>(p, s).
        if p = None then Inr (p, s)
        else
          rbind (if ROUNDDOWN fault_va PGSIZE \<noteq> USTACKTOP - PGSIZE then lru_ha_insert p s else Inr ((), s)) (\<lambda>(_, s).
          Inr (p, upd_env c (\<lambda>x. x\<lparr>env_alloc_pages := env_alloc_pages x + 1\<rparr>) s))))"

definition fault_anon :: "u32 \<Rightarrow> nat \<Rightarrow> vma \<Rightarrow> kstate \<Rightarrow> (kstate, unit) kres" where
  "fault_anon fault_va c w s =
     rbind (demand_page fault_va c w s) (\<lambda>(p, s).
     rbind (if p = None then sleep_drc c s else Inr ((), s)) (\<lambda>(_, s).
     rbind (page_insert (env_pgdir (envs s c)) p fault_va (v_perm w) s) (\<lambda>(ret, s).
     if ret \<noteq> 0 then rbind (unlock PAGEALLOC_LOCK s) (\<lambda>(_, s). kill_env s)
     else Inr ((), s))))"

definition alloc_page_after_fault :: "u32 \<Rightarrow> kstate \<Rightarrow> (kstate, unit) kres" where
  "alloc_page_after_fault fault_va s =
     rbind (lock PAGEALLOC_LOCK s) (\<lambda>(_, s).
     with_curenv s (\<lambda>c.
     rbind (vma_lookup fault_va (envs s c)) (\<lambda>vma_el.
     rbind (case vma_el of
              Some v \<Rightarrow>
                let w = vmas (envs s c) v in
                if v_type w = VMA_BINARY then fault_binary v w s else fault_anon fault_va c w s
            | None \<Rightarrow> rbind (unlock PAGEALLOC_LOCK s) (\<lambda>(_, s). kill_env s)) (\<lambda>(_, s).
     unlock PAGEALLOC_LOCK s))))"

section \<open>Swapping in\<close>

text \<open>The loop over the environments, with \<open>n\<close> of them left; \<open>*pte\<close> is read anew in each round.\<close>

fun mark_swapping :: "nat \<Rightarrow> nat \<Rightarrow> pte_ptr \<Rightarrow> kstate \<Rightarrow> (kstate, unit) kres" where
  "mark_swapping 0 i pte s = Inr ((), s)"
| "mark_swapping (Suc n) i pte s =
     (if scannable (env_status (envs s i)) then
        rbind (seek_pte (rd pte s) i s) (\<lambda>found.
        mark_swapping n (Suc i) pte (case found of None \<Rightarrow> s | Some f \<Rightarrow> wr f (rd f s OR PTE_AVAIL) s))
      else mark_swapping n (Suc i) pte s)"

definition swap_in :: "u32 \<Rightarrow> pte_ptr \<Rightarrow> kstate \<Rightarrow> (kstate, unit) kres" where
  "swap_in fault_va pte s =
     with_curenv s (\<lambda>c.
     let s = upd_env c (\<lambda>x. x\<lparr>env_status := ENV_SLEEPING\<rparr>) s in
     rbind (lock TASK_LOCK s) (\<lambda>(_, s).
     case task_get_free s of
       (None, s) \<Rightarrow>
         rbind (sleep_drc c s) (\<lambda>(_, s).
         rbind (unlock TASK_LOCK s) (\<lambda>(_, s).
         rbind (sched s) (\<lambda>_. Inl NullDeref)))
     | (Some t, s) \<Rightarrow>
         let s = upd_task t (\<lambda>x. x\<lparr>t_state := T_WORK, fptr := F_page_in, requestor_env := Some c, fault_addr := fault_va,
                   t_count := 0\<rparr>) s in
         rbind (mark_swapping (NENV - NKTHREADS) NKTHREADS pte s) (\<lambda>(_, s).
         let s = upd_task t (\<lambda>x. x\<lparr>sector_start := drop_bit 12 (PTE_ADDR (rd pte s))\<rparr>) s in
         rbind (lock PAGEALLOC_LOCK s) (\<lambda>(_, s).
         rbind (page_alloc 0 s) (\<lambda>(p, s).
         rbind (unlock PAGEALLOC_LOCK s) (\<lambda>(_, s).
         if p = None then Inl (Panic ''[KERN] swap_in(): Tried to swap in a page, but alloc failed!'')
         else
           rbind (task_add_alloc t (upd_task t (\<lambda>x. x\<lparr>t_pi := p\<rparr>) s)) (\<lambda>(_, s).
           unlock TASK_LOCK s)))))))"

section \<open>Page faults\<close>

definition page_fault_user :: "trapframe \<Rightarrow> u32 \<Rightarrow> nat \<Rightarrow> pte_ptr option \<Rightarrow> kstate \<Rightarrow> (kstate, unit) kres" where
  "page_fault_user tf fault_va c pte s =
     (let swapped = (case pte of None \<Rightarrow> False | Some p \<Rightarrow> rd p s AND PTE_P = 0 \<and> rd p s AND PTE_G \<noteq> 0) in
      if swapped \<and> rd (the pte) s AND PTE_AVAIL = 0 then swap_in fault_va (the pte) s
      else if swapped then sleep_drc c s
      else if tf_err tf AND 1 = 0 then alloc_page_after_fault fault_va s
      else
        rbind (vma_lookup fault_va (envs s c)) (\<lambda>v.
        if (case v of None \<Rightarrow> False | Some i \<Rightarrow> v_perm (vmas (envs s c) i) AND PTE_W \<noteq> 0) then
          rbind (lock PAGEALLOC_LOCK s) (\<lambda>(_, s).
          rbind (page_dedup c fault_va s) (\<lambda>(_, s).
          unlock PAGEALLOC_LOCK s))
        else kill_env s))"

definition page_fault_handler :: "trapframe \<Rightarrow> kstate \<Rightarrow> (kstate, unit) kres" where
  "page_fault_handler tf s =
     rbind (assert_lock ENV_LOCK s) (\<lambda>_.
     let fault_va = cr2 s in
     if tf_err tf AND 4 = 0 \<and> UTOP < fault_va
     then Inl (Panic ''[KERN_DEBUG] page_fault_handler(): kernel page fault!'')
     else if tf_err tf AND 4 = 0 \<and> tf_err tf AND 1 = 0 then alloc_page_after_fault fault_va s
     else
       with_curenv s (\<lambda>c.
       rbind (pgdir_walk (env_pgdir (envs s c)) fault_va 0 s) (\<lambda>(pte, s).
       page_fault_user tf fault_va c pte s)))"

section \<open>Dispatch\<close>

definition set_eax :: "nat option \<Rightarrow> u32 \<Rightarrow> kstate \<Rightarrow> kstate" where
  "set_eax who ret s =
     (case who of
        None \<Rightarrow> s
      | Some c \<Rightarrow> upd_env c (\<lambda>x. x\<lparr>env_tf := (env_tf x)\<lparr>tf_regs := (tf_regs (env_tf x))\<lparr>reg_eax := ret\<rparr>\<rparr>\<rparr>) s)"

definition trap_dispatch :: "trapframe \<Rightarrow> nat option \<Rightarrow> kstate \<Rightarrow> (kstate, unit) kres" where
  "trap_dispatch tf who s =
     (if tf_trapno tf = IRQ_OFFSET + IRQ_SPURIOUS then Inr ((), s)
      else if tf_trapno tf = T_PGFLT then
        rbind (lock ENV_LOCK s) (\<lambda>(_, s).
        rbind (page_fault_handler tf s) (\<lambda>(_, s).
        unlock ENV_LOCK s))
      else if tf_trapno tf = T_BRKPT then Inl (InMonitor s)
      else if tf_trapno tf = T_SYSCALL then
        rbind (syscall (reg_eax (tf_regs tf)) (reg_edx (tf_regs tf)) (reg_ecx (tf_regs tf)) (reg_ebx (tf_regs tf)) s)
          (\<lambda>(ret, s). Inr ((), set_eax who ret s))
      else if tf_trapno tf = IRQ_OFFSET then rbind (lock ENV_LOCK s) (\<lambda>(_, s). sched s)
      else if tf_cs tf = GD_KT then Inl (Panic ''unhandled trap in kernel'')
      else
        rbind (lock ENV_LOCK s) (\<lambda>(_, s).
        with_curenv s (\<lambda>c.
        rbind (env_destroy sched c s) (\<lambda>(_, s).
        unlock ENV_LOCK s))))"

text \<open>What \<open>trap\<close> does first for a trap from user mode; the result is the environment that keeps the frame.\<close>

definition trap_from_user :: "trapframe \<Rightarrow> kstate \<Rightarrow> (kstate, nat option) kres" where
  "trap_from_user tf s =
     rbind (if holds ENV_LOCK s \<and> tf_trapno tf = IRQ_OFFSET then Inr ((), s) else lock ENV_LOCK s) (\<lambda>(_, s).
     case curenv s of
       None \<Rightarrow> Inl (AssertFail ''curenv'')
     | Some c \<Rightarrow>
         rbind (if env_status (envs s c) = ENV_DYING then
                  rbind (lock PAGEALLOC_LOCK s) (\<lambda>(_, s).
                  rbind (env_free c s) (\<lambda>(_, s).
                  rbind (unlock PAGEALLOC_LOCK s) (\<lambda>(_, s).
                  sched (set_curenv None s))))
                else Inr ((), s)) (\<lambda>(_, s).
         with_curenv s (\<lambda>c.
         let s = upd_env c (\<lambda>x. x\<lparr>env_tf := tf\<rparr>) s in
         rbind (unlock ENV_LOCK s) (\<lambda>(_, s). Inr (Some c, s)))))"

definition trap :: "trapframe \<Rightarrow> kstate \<Rightarrow> (kstate, unit) kres" where
  "trap tf s =
     (if holds ENV_LOCK s then Inl (Panic ''OMG'')
      else
        rbind (if tf_cs tf AND 3 = 3 then trap_from_user tf s else Inr (None, s)) (\<lambda>(who, s).
        rbind (trap_dispatch tf who s) (\<lambda>(_, s).
        rbind (lock ENV_LOCK s) (\<lambda>(_, s).
        case curenv s of
          None \<Rightarrow> sched s
        | Some c \<Rightarrow> if env_status (envs s c) = ENV_RUNNING then env_run c s else sched s))))"

end
