(* ===== verification/Faults.thy ===== *)
theory Faults
  imports Trap
begin

text \<open>
  Traps composed with the address spaces, the page allocator, the page lists and the locks: what a page fault
  and a system call do from the entry of \<open>trap\<close> to the return to user code, and what the descriptor table
  lets user code raise.  The definitions are those of \<open>Trap\<close>.
\<close>

section \<open>Demand paging\<close>

lemma vma_lookup_env [simp]:
  "vma_lookup a (x\<lparr>env_tf := tf\<rparr>) = vma_lookup a (x :: env)"
  by (simp add: vma_lookup_def)

lemma demand_page_small:
  assumes wf: "wf_pgdir s pg (p # ps)" and lru: "lru_ok s as bs" "p \<notin> set as" "p \<notin> set bs" and h: "\<not> hps w"
  shows "\<exists>t cs. demand_page a c w s = Inr (Some p, t) \<and> wf_pgdir t pg ps \<and> lru_ok t cs bs \<and> mappable t pg ps p \<and>
     pp_ref (pages t p) = 0 \<and> pmem t p = (\<lambda>_. 0) \<and>
     vm_only (upd_env c (\<lambda>x. x\<lparr>env_alloc_pages := env_alloc_pages x + 1\<rparr>) s) t \<and>
     (\<forall>d < UDIRS. pt t pg d = pt s pg d \<and> (\<forall>i. pte_at t pg d i = pte_at s pg d i))"
proof -
  have fl: "ALLOC_ZERO AND ALLOC_HUGE = 0" "ALLOC_ZERO AND ALLOC_ZERO \<noteq> 0" "ALLOC_ZERO AND POISON_AFTER_FREE = 0"
    by (simp_all add: ALLOC_ZERO_def ALLOC_HUGE_def POISON_AFTER_FREE_def)
  obtain t where t: "page_alloc ALLOC_ZERO s = Inr (Some p, t)" "wf_pgdir t pg ps" "mappable t pg ps p" "pp_ref (pages t p) = 0"
    "\<forall>i. lru_link (pages t i) = lru_link (pages s i)" "pm_rest_eq s t" "pmem t p = (\<lambda>_. 0)"
    "\<forall>d < UDIRS. pt t pg d = pt s pg d \<and> (\<forall>i. pte_at t pg d i = pte_at s pg d i)"
    using alloc_page_wf [OF wf fl] by blast
  have ok: "lru_ok t as bs" using lru_ok_pm [OF lru(1) t(6)] t(5) by blast
  have p: "p < npages t" using t(3) by (simp add: mappable_def)
  let ?n = "\<lambda>u. upd_env c (\<lambda>x. x\<lparr>env_alloc_pages := env_alloc_pages x + 1\<rparr>) u"
  obtain u cs where u: "(if ROUNDDOWN a PGSIZE \<noteq> USTACKTOP - PGSIZE then lru_ha_insert (Some p) t else Inr ((), t)) = (Inr ((), u) :: (kstate, unit) kres)"
      "lru_ok u cs bs" "lru_frame t u"
    using lru_ha_insert_ok [OF ok p lru(2,3)] ok by (cases "ROUNDDOWN a PGSIZE \<noteq> USTACKTOP - PGSIZE") (auto intro: that)
  note F = lru_frame_wf [OF u(3) t(2)]
  have v: "pmem u = pmem t" "pp_ref (pages u p) = pp_ref (pages t p)" using u(3) by (simp_all add: lru_frame_def)
  have "lru_state.more u = lru_state.more t" using u(3) by (simp add: lru_frame_def)
  have more: "pm_state.more t = pm_state.more s" using t(6) by (simp add: pm_rest_eq_def)
  have "vm_only s t" using more vm_only_more pm_lru_only lru_only_refl unfolding pm_only_def by metis
  moreover have "vm_only t u" using \<open>lru_state.more u = lru_state.more t\<close> by (intro vm_only_more) (simp add: lru_only_def)
  ultimately have "vm_only s u" by (rule vm_only_trans)
  then have vm: "vm_only (?n s) (?n u)" by (cases s; cases u) (simp add: vm_only_def upd_env_def)
  have "demand_page a c w s = Inr (Some p, ?n u)"
    using h t(1) u(1) by (simp add: demand_page_def)
  moreover have "wf_pgdir (?n u) pg ps" "mappable (?n u) pg ps p"
    using F t(3) by (simp_all add: wf_pgdir_cong(1,2) [of "?n u" u])
  moreover have "lru_ok (?n u) cs bs" using u(2) by (simp add: lru_ok_def lru_seq_def)
  ultimately show ?thesis
    using vm t v view_pmem(1,2) [of "?n u" t] by (intro exI [of _ "?n u"] exI [of _ cs]) simp
qed

definition filled :: "kstate \<Rightarrow> nat \<Rightarrow> nat \<Rightarrow> nat \<Rightarrow> u32 \<Rightarrow> u32 \<Rightarrow> kstate \<Rightarrow> bool" where
  "filled s c pg p a perm t \<longleftrightarrow>
     (\<exists>ys. wf_pgdir t pg ys) \<and> lru_chains t \<and> pmem t p = (\<lambda>_. 0) \<and> pp_ref (pages t p) = 1 \<and>
     (\<forall>b. pdx b < UDIRS \<longrightarrow> vmap t pg b = (if same_page a b then Some (p, perm OR PTE_P) else vmap s pg b)) \<and>
     vm_only (upd_env c (\<lambda>x. x\<lparr>env_alloc_pages := env_alloc_pages x + 1\<rparr>) s) t"

lemma fault_anon_ok:
  assumes wf: "wf_pgdir s pg (p # ps)" and lru: "lru_ok s as bs" "p \<notin> set as" "p \<notin> set bs" and h: "\<not> hps w" and p0: "p \<noteq> 0"
    and pg: "env_pgdir (envs s c) = Some pg" and d: "pdx a < UDIRS" and pte: "pte_at s pg (pdx a) (ptx a) = 0"
    and room: "pt s pg (pdx a) \<noteq> None \<or> ps \<noteq> []" and perm: "v_perm w < 0x1000" "v_perm w AND PTE_P = 0" "v_perm w AND PTE_PS = 0"
  shows "\<exists>t. fault_anon a c w s = Inr ((), t) \<and> filled s c pg p a (v_perm w) t"
proof -
  obtain t cs where t: "demand_page a c w s = Inr (Some p, t)" "wf_pgdir t pg ps" "lru_ok t cs bs" "mappable t pg ps p"
     "pp_ref (pages t p) = 0" "pmem t p = (\<lambda>_. 0)" "vm_only (upd_env c (\<lambda>x. x\<lparr>env_alloc_pages := env_alloc_pages x + 1\<rparr>) s) t"
     "\<forall>d < UDIRS. pt t pg d = pt s pg d \<and> (\<forall>i. pte_at t pg d i = pte_at s pg d i)"
    using demand_page_small [OF wf lru h] by blast
  have same: "pt t pg (pdx a) = pt s pg (pdx a)" "\<And>b. pdx b < UDIRS \<Longrightarrow> pte_at t pg (pdx b) (ptx b) = pte_at s pg (pdx b) (ptx b)"
    using t(8) d by auto
  have pte': "pte_at t pg (pdx a) (ptx a) = 0" using same(2) [OF d] pte by simp
  then have fr: "frame (pte_at t pg (pdx a) (ptx a)) = 0" by (simp add: frame_def PGNUM_def)
  obtain u ys where u: "page_insert (Some pg) (Some p) a (v_perm w) t = Inr (0, u)" "wf_pgdir u pg ys" "lru_chains u"
      "inserted t pg p a (v_perm w) u"
    using page_insert_ok [OF t(2) d lru_ok_chains [OF t(3)] t(4) perm] t(5) fr p0 room same(1) by auto
  have pgt: "env_pgdir (envs t c) = Some pg" using vm_onlyD(1) [OF t(7)] pg by simp
  have z: "pmem u p = pmem t p"
    using page_insert_absent_pmem [OF t(2) d perm(2,3) _ u(1)] pte' t(4) by (simp add: mappable_def)
  have np: "p < 1048576" using t(4) wf_pgdirD(10) [OF t(2)] by (simp add: mappable_def)
  have "vmap u pg b = (if same_page a b then Some (p, v_perm w OR PTE_P) else vmap s pg b)" if b: "pdx b < UDIRS" for b
    using inserted_vmap [OF u(4) b np perm(1,2)] vmap_cong [OF same(2) [OF b]] by simp
  moreover have "pp_ref (pages u p) = 1" using u(4) t(5) fr p0 by (simp add: inserted_def)
  moreover have "fault_anon a c w s = Inr ((), u)" using t(1) u(1) pgt by (simp add: fault_anon_def)
  ultimately show ?thesis
    using u(2,3) z t(6) vm_only_trans [OF t(7) page_insert_vm [OF u(1)]] by (auto simp: filled_def)
qed

lemma idle_not_held: "locked (locks s l) = 0 \<Longrightarrow> \<not> holds l s"
  by (simp add: holds_def holding_def)

lemma trap_from_user_ok:
  assumes "locked (locks s ENV_LOCK) = 0" "curenv s = Some c" "env_status (envs s c) \<noteq> ENV_DYING"
  shows "trap_from_user tf s = Inr (Some c, upd_env c (\<lambda>x. x\<lparr>env_tf := tf\<rparr>) s\<lparr>locks := (locks s)(ENV_LOCK := spin_initlock)\<rparr>)"
proof -
  let ?t = "s\<lparr>locks := (locks s)(ENV_LOCK := \<lparr>locked = 1, lk_cpu = Some (cpunum s)\<rparr>)\<rparr>"
  let ?u = "upd_env c (\<lambda>x. x\<lparr>env_tf := tf\<rparr>) ?t"
  have "unlock ENV_LOCK ?u = Inr ((), ?u\<lparr>locks := (locks ?u)(ENV_LOCK := spin_initlock)\<rparr>)"
    by (rule unlock_held) simp
  then show ?thesis
    using assms idle_not_held [OF assms(1)] lock_free [OF assms(1)] by (simp add: trap_from_user_def) (simp add: upd_env_def)
qed

lemma alloc_page_after_fault_anon:
  assumes "locked (locks s PAGEALLOC_LOCK) = 0" "curenv s = Some c" "vma_lookup a (envs s c) = (Inr (Some v) :: kstate stop + _)"
    "v_type (vmas (envs s c) v) \<noteq> VMA_BINARY"
    "fault_anon a c (vmas (envs s c) v) (s\<lparr>locks := (locks s)(PAGEALLOC_LOCK := \<lparr>locked = 1, lk_cpu = Some (cpunum s)\<rparr>)\<rparr>) = Inr ((), t)"
    "vm_only (upd_env c f (s\<lparr>locks := (locks s)(PAGEALLOC_LOCK := \<lparr>locked = 1, lk_cpu = Some (cpunum s)\<rparr>)\<rparr>)) t"
  shows "alloc_page_after_fault a s = Inr ((), t\<lparr>locks := (locks s)(PAGEALLOC_LOCK := spin_initlock)\<rparr>)"
proof -
  have "holds PAGEALLOC_LOCK t" "locks t = (locks s)(PAGEALLOC_LOCK := \<lparr>locked = 1, lk_cpu = Some (cpunum s)\<rparr>)"
    using vm_onlyD(4,16) [OF assms(6)] by simp_all
  then have "unlock PAGEALLOC_LOCK t = Inr ((), t\<lparr>locks := (locks s)(PAGEALLOC_LOCK := spin_initlock)\<rparr>)"
    using unlock_held [of PAGEALLOC_LOCK t] by simp
  then show ?thesis using assms lock_free [OF assms(1)] by (simp add: alloc_page_after_fault_def)
qed

text \<open>A user fault on a page that is not there reaches \<open>alloc_page_after_fault\<close>.\<close>

lemma page_fault_missing:
  assumes wf: "wf_pgdir s pg xs" and d: "pdx (cr2 s) < UDIRS" and pte: "pte_at s pg (pdx (cr2 s)) (ptx (cr2 s)) = 0"
    and c: "holds ENV_LOCK s" "curenv s = Some c" "env_pgdir (envs s c) = Some pg"
    and tf: "tf_err tf AND 4 \<noteq> 0" "tf_err tf AND 1 = 0"
  shows "page_fault_handler tf s = alloc_page_after_fault (cr2 s) s"
proof -
  have "rd (f, ptx (cr2 s)) s = 0" if "pt s pg (pdx (cr2 s)) = Some f" for f
    using pte that by (simp add: rd_def pte_at_def)
  then show ?thesis
    using c tf walk_view [OF wf d]
    by (cases "pt s pg (pdx (cr2 s))") (simp_all add: page_fault_handler_def page_fault_user_def)
qed

text \<open>The way in and out of a page fault whose handler returns.\<close>

lemma trap_page_fault_returns:
  assumes lk: "locked (locks s ENV_LOCK) = 0" and c: "curenv s = Some c" "env_status (envs s c) \<noteq> ENV_DYING"
    and tf: "tf_trapno tf = T_PGFLT" "tf_cs tf AND 3 = 3"
    and h: "page_fault_handler tf (upd_env c (\<lambda>x. x\<lparr>env_tf := tf\<rparr>) s\<lparr>locks := (locks s)(ENV_LOCK := \<lparr>locked = 1, lk_cpu = Some (cpunum s)\<rparr>)\<rparr>) = Inr ((), t)"
    and t: "cpunum t = cpunum s" "curenv t = Some c" "locks t ENV_LOCK = \<lparr>locked = 1, lk_cpu = Some (cpunum s)\<rparr>"
      "env_status (envs t c) = ENV_RUNNING" "env_type (envs t c) \<noteq> ENV_TYPE_KERNEL"
  shows "trap tf s = Inl (EnterUser c (upd_env c (\<lambda>x. x\<lparr>env_cpunum := cpunum s\<rparr>) (t\<lparr>locks := (locks t)(ENV_LOCK := spin_initlock)\<rparr>)))"
proof -
  let ?s1 = "upd_env c (\<lambda>x. x\<lparr>env_tf := tf\<rparr>) s\<lparr>locks := (locks s)(ENV_LOCK := spin_initlock)\<rparr>"
  let ?t1 = "t\<lparr>locks := (locks t)(ENV_LOCK := spin_initlock)\<rparr>"
  have hold: "holds ENV_LOCK t" using t by (simp add: holds_def)
  have "lock ENV_LOCK ?t1 = Inr ((), t\<lparr>locks := (locks t)(ENV_LOCK := locks t ENV_LOCK)\<rparr>)"
    using lock_free [of ?t1 ENV_LOCK] t by (simp add: spin_initlock_def)
  then have "lock ENV_LOCK ?t1 = Inr ((), t)" by simp
  moreover have "lock ENV_LOCK ?s1 = Inr ((), upd_env c (\<lambda>x. x\<lparr>env_tf := tf\<rparr>) s\<lparr>locks := (locks s)(ENV_LOCK := \<lparr>locked = 1, lk_cpu = Some (cpunum s)\<rparr>)\<rparr>)"
    using lock_free [of ?s1 ENV_LOCK] by (simp add: spin_initlock_def)
  ultimately show ?thesis
    using c tf t h idle_not_held [OF lk] trap_from_user_ok [OF lk c] unlock_held [OF hold] env_run_current [OF t(2) hold t(5)]
    by (simp add: trap_def trap_dispatch_def env_pop_tf_def)
qed

lemma trap_anon_fault:
  assumes wf: "wf_pgdir s pg (p # ps)" and lru: "lru_ok s as bs" "p \<notin> set as" "p \<notin> set bs" and p0: "p \<noteq> 0"
    and lk: "locked (locks s ENV_LOCK) = 0" "locked (locks s PAGEALLOC_LOCK) = 0"
    and c: "curenv s = Some c" "env_pgdir (envs s c) = Some pg" "env_status (envs s c) = ENV_RUNNING" "env_type (envs s c) \<noteq> ENV_TYPE_KERNEL"
    and d: "pdx (cr2 s) < UDIRS" and pte: "pte_at s pg (pdx (cr2 s)) (ptx (cr2 s)) = 0" and room: "pt s pg (pdx (cr2 s)) \<noteq> None \<or> ps \<noteq> []"
    and v: "vma_lookup (cr2 s) (envs s c) = (Inr (Some v) :: kstate stop + _)" and w: "vmas (envs s c) v = w" "v_type w \<noteq> VMA_BINARY" "\<not> hps w"
    and perm: "v_perm w < 0x1000" "v_perm w AND PTE_P = 0" "v_perm w AND PTE_PS = 0"
    and tf: "tf_trapno tf = T_PGFLT" "tf_cs tf AND 3 = 3" "tf_err tf AND 4 \<noteq> 0" "tf_err tf AND 1 = 0"
  shows "\<exists>s'. trap tf s = Inl (EnterUser c s') \<and> (\<exists>ys. wf_pgdir s' pg ys) \<and> pmem s' p = (\<lambda>_. 0) \<and> pp_ref (pages s' p) = 1 \<and>
    (\<forall>b. pdx b < UDIRS \<longrightarrow> vmap s' pg b = (if same_page (cr2 s) b then Some (p, v_perm w OR PTE_P) else vmap s pg b)) \<and>
    envs s' = (envs s)(c := (envs s c)\<lparr>env_tf := tf, env_alloc_pages := env_alloc_pages (envs s c) + 1, env_cpunum := cpunum s\<rparr>) \<and>
    curenv s' = Some c \<and> (\<forall>l. \<not> holds l s \<longrightarrow> \<not> holds l s')"
proof -
  define k where "k = \<lparr>locked = 1, lk_cpu = Some (cpunum s)\<rparr>"
  define s2 where "s2 = upd_env c (\<lambda>x. x\<lparr>env_tf := tf\<rparr>) s\<lparr>locks := (locks s)(ENV_LOCK := k)\<rparr>"
  define s3 where "s3 = s2\<lparr>locks := (locks s)(ENV_LOCK := k, PAGEALLOC_LOCK := k)\<rparr>"
  obtain t where t: "fault_anon (cr2 s) c w s3 = Inr ((), t)" "filled s3 c pg p (cr2 s) (v_perm w) t"
    using fault_anon_ok [of s3 pg p ps as bs w c "cr2 s"] assms by (auto simp: s2_def s3_def)
  then have vm: "vm_only (upd_env c (\<lambda>x. x\<lparr>env_alloc_pages := env_alloc_pages x + 1\<rparr>) s3) t" by (simp add: filled_def)
  have f: "cpunum t = cpunum s" "cpu_env t = cpu_env s" "curenv t = Some c"
      "envs t = (envs s)(c := (envs s c)\<lparr>env_tf := tf, env_alloc_pages := env_alloc_pages (envs s c) + 1\<rparr>)"
    using vm_onlyD [OF vm] c by (simp_all add: s3_def s2_def)
  let ?t = "t\<lparr>locks := (locks s)(ENV_LOCK := k, PAGEALLOC_LOCK := spin_initlock)\<rparr>"
  have "alloc_page_after_fault (cr2 s) s2 = Inr ((), t\<lparr>locks := (locks s2)(PAGEALLOC_LOCK := spin_initlock)\<rparr>)"
    by (rule alloc_page_after_fault_anon [where v = v]) (use assms t vm in \<open>simp_all add: s2_def s3_def k_def\<close>)
  then have "page_fault_handler tf s2 = Inr ((), ?t)"
    using page_fault_missing [of s2 pg "p # ps" c tf] assms by (simp add: s2_def k_def)
  then have "trap tf s = Inl (EnterUser c (upd_env c (\<lambda>x. x\<lparr>env_cpunum := cpunum s\<rparr>) (?t\<lparr>locks := (locks ?t)(ENV_LOCK := spin_initlock)\<rparr>)))"
    by (intro trap_page_fault_returns) (use assms f in \<open>simp_all add: s2_def k_def\<close>)
  then show ?thesis
    using t(2) f c by (auto simp: filled_def s3_def s2_def holds_def)
qed

text \<open>
  C2: Demand paging: a user access to a page that is not there, inside an anonymous area of 4 KB pages, makes the
  trap handler take the first free page, fill it with zeros and map it at the faulting address with the
  permissions of the area, and enter the same environment again.  Every other user address is mapped as
  before, the environment is charged one page and the locks are free as they were.
\<close>

theorem trap_demand_zero:
  assumes wf: "wf_pgdir s pg (p # ps)" and lru: "lru_ok s as bs" "p \<notin> set as" "p \<notin> set bs" and p0: "p \<noteq> 0"
    and lk: "locked (locks s ENV_LOCK) = 0" "locked (locks s PAGEALLOC_LOCK) = 0"
    and c: "curenv s = Some c" "env_pgdir (envs s c) = Some pg" "env_status (envs s c) = ENV_RUNNING" "env_type (envs s c) \<noteq> ENV_TYPE_KERNEL"
    and d: "pdx (cr2 s) < UDIRS" and pte: "pte_at s pg (pdx (cr2 s)) (ptx (cr2 s)) = 0" and room: "pt s pg (pdx (cr2 s)) \<noteq> None \<or> ps \<noteq> []"
    and v: "vma_lookup (cr2 s) (envs s c) = (Inr (Some v) :: kstate stop + _)" and w: "vmas (envs s c) v = w" "v_type w \<noteq> VMA_BINARY" "\<not> hps w"
    and perm: "v_perm w < 0x1000" "v_perm w AND PTE_P = 0" "v_perm w AND PTE_PS = 0"
    and tf: "tf_trapno tf = T_PGFLT" "tf_cs tf AND 3 = 3" "tf_err tf AND 4 \<noteq> 0" "tf_err tf AND 1 = 0"
  shows "\<exists>s'. trap tf s = Inl (EnterUser c s') \<and> (\<exists>ys. wf_pgdir s' pg ys) \<and> pmem s' p = (\<lambda>_. 0) \<and> pp_ref (pages s' p) = 1 \<and>
    (\<forall>b. pdx b < UDIRS \<longrightarrow> vmap s' pg b = (if same_page (cr2 s) b then Some (p, v_perm w OR PTE_P) else vmap s pg b)) \<and>
    envs s' = (envs s)(c := (envs s c)\<lparr>env_tf := tf, env_alloc_pages := env_alloc_pages (envs s c) + 1, env_cpunum := cpunum s\<rparr>) \<and>
    curenv s' = Some c \<and> (\<forall>l. \<not> holds l s \<longrightarrow> \<not> holds l s')"
  by (rule trap_anon_fault [OF assms])

definition sample_fault :: kstate where
  "sample_fault = sample_k\<lparr>cr2 := 0x00800010, cpu_env := (\<lambda>_. Some 2),
     envs := (\<lambda>_. blank_env)(2 := blank_env\<lparr>env_status := ENV_RUNNING, env_pgdir := Some 1, alloc_vma_list := Some 0,
       vmas := (\<lambda>_. \<lparr>v_type = VMA_ANON, v_va = 0x00800000, v_len = 0x1000, v_perm = PTE_U OR PTE_W, vma_link = None,
         cpy_src = 0, src_sz = 0, cpy_dst = 0, hps = False\<rparr>)\<rparr>)\<rparr>"

lemma sample_fault_fields:
  "curenv sample_fault = Some 2" "cr2 sample_fault = 0x00800010" "locks sample_fault l = spin_initlock"
  "vma_lookup 0x00800010 (envs sample_fault 2) = (Inr (Some 0) :: kstate stop + _)"
  "envs sample_fault 2 = blank_env\<lparr>env_status := ENV_RUNNING, env_pgdir := Some 1, alloc_vma_list := Some 0,
       vmas := (\<lambda>_. \<lparr>v_type = VMA_ANON, v_va = 0x00800000, v_len = 0x1000, v_perm = PTE_U OR PTE_W, vma_link = None,
         cpy_src = 0, src_sz = 0, cpy_dst = 0, hps = False\<rparr>)\<rparr>"
  "wf_pgdir sample_fault 1 [3, 2]" "lru_ok sample_fault [] []" "pte_at sample_fault = pte_at sample_k" "cpunum sample_fault = 0"
proof -
  show "wf_pgdir sample_fault 1 [3, 2]"
    using sample_k_wf(1) by (subst wf_pgdir_cong(1) [of _ sample_k]) (simp_all add: sample_fault_def pfl_ok_def pfl_shape_def)
  show "pte_at sample_fault = pte_at sample_k" by (rule view_pmem) (simp add: sample_fault_def)
  show "vma_lookup 0x00800010 (envs sample_fault 2) = (Inr (Some 0) :: kstate stop + _)"
    using seek_here [of "\<lambda>c. True" "0 :: nat" 105 "\<lambda>_. None" None] by (simp add: vma_lookup_def sample_fault_def)
qed (simp_all add: sample_fault_def curenv_def sample_k_def lru_ok_def lru_seq_def)

theorem trap_demand_zero_witness:
  "\<exists>s'. trap (zero_tf\<lparr>tf_trapno := 14, tf_cs := 0x1B, tf_err := 6\<rparr>) sample_fault = Inl (EnterUser 2 s') \<and>
     vmap s' 1 0x00800FFF = Some (3, PTE_U OR PTE_W OR PTE_P) \<and> pmem s' 3 = (\<lambda>_. 0)"
proof -
  let ?tf = "zero_tf\<lparr>tf_trapno := 14, tf_cs := 0x1B, tf_err := 6\<rparr>"
  have d: "pdx 0x00800010 < UDIRS" "pdx 0x00800FFF < UDIRS" "same_page 0x00800010 0x00800FFF"
    by (simp_all add: UDIRS_eq pdx_def PDX_def same_page_def ptx_def PTX_def)
  have pt: "pte_at sample_k 1 d i = 0" for d i using sample_k_wf(2) by (simp add: pte_at_def)
  show ?thesis
  proof (rule exE [OF trap_demand_zero [of sample_fault 1 3 "[2]" "[]" "[]" 2 0 "vmas (envs sample_fault 2) 0" ?tf]])
    show "v_type (vmas (envs sample_fault 2) 0) \<noteq> VMA_BINARY" by (simp add: sample_fault_fields(5))
    show "vma_lookup (cr2 sample_fault) (envs sample_fault 2) = (Inr (Some 0) :: kstate stop + _)"
      unfolding sample_fault_fields(2) by (rule sample_fault_fields(4))
  qed (use d in \<open>auto simp: sample_fault_fields pt blank_env_def spin_initlock_def zero_tf_def PTE_U_def PTE_W_def PTE_P_def PTE_PS_def simp del: One_nat_def\<close>)
qed

section \<open>Copy on write\<close>

definition cow_copied :: "kstate \<Rightarrow> nat \<Rightarrow> u32 \<Rightarrow> nat \<Rightarrow> nat \<Rightarrow> u32 \<Rightarrow> kstate \<Rightarrow> bool" where
  "cow_copied s pg a q n perm t \<longleftrightarrow>
     (\<exists>ys. wf_pgdir t pg ys) \<and> vm_only s t \<and> pmem t n = pmem s q \<and> pmem t q = pmem s q \<and>
     pp_ref (pages t q) = pp_ref (pages s q) - 1 \<and> pp_ref (pages t n) = 1 \<and>
     (\<forall>b. pdx b < UDIRS \<longrightarrow> vmap t pg b = (if same_page a b then Some (n, perm OR PTE_P) else vmap s pg b))"

lemma page_dedup_shared:
  assumes wf: "wf_pgdir s pg (n # ns)" and e: "env_pgdir (envs s c) = Some pg" and lk: "holds PAGEALLOC_LOCK s"
    and v: "vma_lookup a (envs s c) = (Inr (Some v) :: kstate stop + _)" and d: "pdx a < UDIRS"
    and m: "vmap s pg a = Some (q, fl)" "fl AND PTE_PS = 0" and shared: "card (mappings s pg q) < unat (pp_ref (pages s q))"
    and perm: "v_perm (vmas (envs s c) v) < 0x1000" "v_perm (vmas (envs s c) v) AND PTE_P = 0"
  shows "\<exists>t. page_dedup c a s = Inr (True, t) \<and> cow_copied s pg a q n (v_perm (vmas (envs s c) v)) t"
proof -
  let ?perm = "v_perm (vmas (envs s c) v)"
  note D = wf_pgdirD [OF wf]
  obtain f where f: "pt s pg (pdx a) = Some f" and pte: "rd (f, ptx a) s AND PTE_P \<noteq> 0" "frame (rd (f, ptx a) s) = q" "rd (f, ptx a) s AND 0xFFF = fl"
    using m(1) by (auto simp: vmap_def pte_at_def Let_def rd_def split: if_splits option.splits)
  have "(pdx a, ptx a) \<in> mappings s pg q" using f pte d by (simp add: mappings_def pte_at_def rd_def)
  then have q: "q < npages s" "q \<notin> set (n # ns)" "q \<noteq> pg" "\<forall>d < UDIRS. pt s pg d \<noteq> Some q" "0 < card (mappings s pg q)"
    using D(8) [of q] card_gt_0_iff [of "mappings s pg q"] by auto
  have ref: "1 < pp_ref (pages s q)" "pp_ref (pages s q) \<noteq> 1" "card (mappings s pg q) \<le> unat (pp_ref (pages s q) - 1)"
    using shared q(5) by (auto simp: word_less_nat_alt unat_sub_if_size)
  let ?s = "upd_page q (\<lambda>x. x\<lparr>pp_ref := pp_ref (pages s q) - 1\<rparr>) s"
  have same: "upd_page q (\<lambda>x. x\<lparr>pp_ref := pp_ref x - 1\<rparr>) s = ?s" by (simp add: upd_page_def)
  have wfs: "wf_pgdir ?s pg (n # ns)" using wf_unref [OF wf q(2) ref(3)] .
  have fl: "CREATE_NORMAL AND ALLOC_HUGE = 0" "CREATE_NORMAL AND ALLOC_ZERO \<noteq> 0" "CREATE_NORMAL AND POISON_AFTER_FREE = 0"
    by (simp_all add: CREATE_NORMAL_def ALLOC_ZERO_def ALLOC_HUGE_def POISON_AFTER_FREE_def)
  obtain t where t: "page_alloc CREATE_NORMAL ?s = Inr (Some n, t)" "wf_pgdir t pg ns" "mappable t pg ns n" "pp_ref (pages t n) = 0"
      "pm_rest_eq ?s t" "\<forall>i. i \<noteq> n \<longrightarrow> pages t i = pages ?s i \<and> pmem t i = pmem ?s i"
      "\<forall>d < UDIRS. pt t pg d = pt ?s pg d \<and> (\<forall>i. pte_at t pg d i = pte_at ?s pg d i)"
    using alloc_page_wf [OF wfs fl] by blast
  have nq: "n \<noteq> q" and npn: "npages t = npages s" "npages s \<le> 1048576" "n < npages t"
    using q(2) t(3,5) D(10) by (auto simp: pm_rest_eq_def mappable_def)
  let ?u = "t\<lparr>pmem := (pmem t)(n := pmem t q)\<rparr>" and ?w = "page2pa n OR ?perm OR PTE_P"
  let ?x = "wr (f, ptx a) ?w (upd_page n (\<lambda>x. x\<lparr>pp_ref := 1\<rparr>) ?u)"
  have "n \<noteq> pg" "\<forall>d < UDIRS. pt t pg d \<noteq> Some n" using t(3) by (auto simp: mappable_def)
  moreover have "pfl_ok ?u ns = pfl_ok t ns" by (simp add: pfl_ok_def pfl_shape_def)
  ultimately have U: "wf_pgdir ?u pg ns" "\<And>d. pt ?u pg d = pt t pg d" "\<And>d i. d < UDIRS \<Longrightarrow> pte_at ?u pg d i = pte_at t pg d i"
    using wf_pgdir_local [of t pg ns n ?u] t(2) by simp_all
  have ptu: "pt ?u pg (pdx a) = Some f" using U(2) t(7) d f by simp
  have mu: "mappable ?u pg ns n" using t(3) U(2) by (simp add: mappable_def)
  note w = new_entry [of n ?perm] npn perm
  have nomap: "mappings ?u pg n = {}" using wf_pgdirD(9) [OF U(1), of n] t(4) by simp
  have wfx: "wf_pgdir ?x pg ns" by (rule wf_store [OF U(1) d ptu mu]) (use w nomap in auto)
  have ps: "rd (f, ptx a) s AND PTE_PS = 0"
    using m(2) unfolding pte(3) [symmetric] by (simp add: and.assoc PTE_PS_def)
  have env: "envs t = envs s" using pm_rest_kfields(1) [OF t(5)] by simp
  have comm: "upd_page n (\<lambda>x. x\<lparr>pp_ref := pp_ref x + 1\<rparr>) (wr (f, ptx a) ?w ?u) = ?x"
    using t(4) by (simp add: upd_page_def wr_def write_mem_def)
  have w1: "CREATE_NORMAL AND CREATE_HUGE = 0" by (simp add: CREATE_NORMAL_def CREATE_HUGE_def)
  have "pgdir_walk (Some pg) a 1 s = Inr (Some (f, ptx a), s)"
    using walk_present [OF wf d f w1] by (simp add: CREATE_NORMAL_def)
  then have run: "page_dedup c a s = Inr (True, ?x)"
    unfolding page_dedup_def using v lk e ps t(1) pte(2) q(1) ref(1,2) nq npn frame_page2pa [of n] frame_page2pa [of q]
    by (simp add: pa2page_def KADDR_def frame_PTE_ADDR same Let_def env comm rd_upd_page)
  have fq: "f \<noteq> q" "f \<noteq> n" using q(4) D(6) [OF d f] d f by auto
  have "vmap ?x pg b = (if same_page a b then Some (n, ?perm OR PTE_P) else vmap s pg b)" if b: "pdx b < UDIRS" for b
    using wf_store_view [OF U(1) d ptu b, of ?w n "\<lambda>x. x\<lparr>pp_ref := 1\<rparr>" "ptx b"] U(3) [OF b] t(7) b w
    by (auto simp: vmap_def same_page_def Let_def)
  moreover have "vm_only s ?x"
    using vm_only_trans [OF upd_page_vm framedD [OF vm_pages_framed(1) [OF vm_only_refl] t(1)]] by simp
  ultimately show ?thesis
    using run wfx fq nq t(4,6) by (auto simp: cow_copied_def)
qed

lemma page_fault_write:
  assumes wf: "wf_pgdir s pg xs" and d: "pdx (cr2 s) < UDIRS" and m: "vmap s pg (cr2 s) = Some (q, fl)"
    and lk: "holds ENV_LOCK s" "locked (locks s PAGEALLOC_LOCK) = 0"
    and c: "curenv s = Some c" "env_pgdir (envs s c) = Some pg"
    and v: "vma_lookup (cr2 s) (envs s c) = (Inr (Some v) :: kstate stop + _)" "v_perm (vmas (envs s c) v) AND PTE_W \<noteq> 0"
    and tf: "tf_err tf AND 4 \<noteq> 0" "tf_err tf AND 1 \<noteq> 0"
    and h: "page_dedup c (cr2 s) (s\<lparr>locks := (locks s)(PAGEALLOC_LOCK := \<lparr>locked = 1, lk_cpu = Some (cpunum s)\<rparr>)\<rparr>) = Inr (r, t)"
    and t: "vm_only (s\<lparr>locks := (locks s)(PAGEALLOC_LOCK := \<lparr>locked = 1, lk_cpu = Some (cpunum s)\<rparr>)\<rparr>) t"
  shows "page_fault_handler tf s = Inr ((), t\<lparr>locks := (locks s)(PAGEALLOC_LOCK := spin_initlock)\<rparr>)"
proof -
  obtain f where f: "pt s pg (pdx (cr2 s)) = Some f" "rd (f, ptx (cr2 s)) s AND PTE_P \<noteq> 0"
    using m by (auto simp: vmap_def pte_at_def Let_def rd_def split: if_splits option.splits)
  have "holds PAGEALLOC_LOCK t" "locks t = (locks s)(PAGEALLOC_LOCK := \<lparr>locked = 1, lk_cpu = Some (cpunum s)\<rparr>)"
    using vm_onlyD(4,16) [OF t] by simp_all
  then have "unlock PAGEALLOC_LOCK t = Inr ((), t\<lparr>locks := (locks s)(PAGEALLOC_LOCK := spin_initlock)\<rparr>)"
    using unlock_held [of PAGEALLOC_LOCK t] by simp
  then show ?thesis
    using lk c v tf h f walk_view [OF wf d] lock_free [OF lk(2)] by (simp add: page_fault_handler_def page_fault_user_def)
qed

text \<open>
  C3: Copy on write: a user write to a present page that another mapping shares, inside a writable area, gives the
  environment its own copy.  The new page has the contents of the old one and is mapped with the permissions
  of the area; the old page keeps its contents and loses one reference, and every other user address is
  mapped as before.
\<close>

theorem trap_copy_on_write:
  assumes wf: "wf_pgdir s pg (n # ns)" and lk: "locked (locks s ENV_LOCK) = 0" "locked (locks s PAGEALLOC_LOCK) = 0"
    and c: "curenv s = Some c" "env_pgdir (envs s c) = Some pg" "env_status (envs s c) = ENV_RUNNING" "env_type (envs s c) \<noteq> ENV_TYPE_KERNEL"
    and d: "pdx (cr2 s) < UDIRS" and m: "vmap s pg (cr2 s) = Some (q, fl)" "fl AND PTE_PS = 0"
    and shared: "card (mappings s pg q) < unat (pp_ref (pages s q))"
    and v: "vma_lookup (cr2 s) (envs s c) = (Inr (Some v) :: kstate stop + _)" and w: "vmas (envs s c) v = w"
    and perm: "v_perm w < 0x1000" "v_perm w AND PTE_P = 0" "v_perm w AND PTE_W \<noteq> 0"
    and tf: "tf_trapno tf = T_PGFLT" "tf_cs tf AND 3 = 3" "tf_err tf AND 4 \<noteq> 0" "tf_err tf AND 1 \<noteq> 0"
  shows "\<exists>s'. trap tf s = Inl (EnterUser c s') \<and> (\<exists>ys. wf_pgdir s' pg ys) \<and> pmem s' n = pmem s q \<and> pmem s' q = pmem s q \<and>
    pp_ref (pages s' q) = pp_ref (pages s q) - 1 \<and> pp_ref (pages s' n) = 1 \<and>
    (\<forall>b. pdx b < UDIRS \<longrightarrow> vmap s' pg b = (if same_page (cr2 s) b then Some (n, v_perm w OR PTE_P) else vmap s pg b)) \<and>
    envs s' = (envs s)(c := (envs s c)\<lparr>env_tf := tf, env_cpunum := cpunum s\<rparr>) \<and> curenv s' = Some c \<and> (\<forall>l. \<not> holds l s \<longrightarrow> \<not> holds l s')"
proof -
  define k where "k = \<lparr>locked = 1, lk_cpu = Some (cpunum s)\<rparr>"
  define s2 where "s2 = upd_env c (\<lambda>x. x\<lparr>env_tf := tf\<rparr>) s\<lparr>locks := (locks s)(ENV_LOCK := k)\<rparr>"
  define s3 where "s3 = s2\<lparr>locks := (locks s)(ENV_LOCK := k, PAGEALLOC_LOCK := k)\<rparr>"
  have s3: "mappings s3 = mappings s" by (rule view_pmem) (simp add: s3_def s2_def)
  obtain t where t: "page_dedup c (cr2 s) s3 = Inr (True, t)" "cow_copied s3 pg (cr2 s) q n (v_perm w) t"
    using page_dedup_shared [of s3 pg n ns c "cr2 s" v q fl] assms s3 by (auto simp: s2_def s3_def k_def)
  then have vm: "vm_only s3 t" by (simp add: cow_copied_def)
  have f: "cpunum t = cpunum s" "cpu_env t = cpu_env s" "curenv t = Some c" "envs t = (envs s)(c := (envs s c)\<lparr>env_tf := tf\<rparr>)"
    using vm_onlyD [OF vm] c by (simp_all add: s3_def s2_def)
  let ?t = "t\<lparr>locks := (locks s)(ENV_LOCK := k, PAGEALLOC_LOCK := spin_initlock)\<rparr>"
  have "page_fault_handler tf s2 = Inr ((), t\<lparr>locks := (locks s2)(PAGEALLOC_LOCK := spin_initlock)\<rparr>)"
    by (rule page_fault_write [where v = v and c = c and q = q and fl = fl and pg = pg and xs = "n # ns" and r = True])
       (use assms t vm in \<open>simp_all add: s2_def s3_def k_def\<close>)
  then have "page_fault_handler tf s2 = Inr ((), ?t)" by (simp add: s2_def)
  then have "trap tf s = Inl (EnterUser c (upd_env c (\<lambda>x. x\<lparr>env_cpunum := cpunum s\<rparr>) (?t\<lparr>locks := (locks ?t)(ENV_LOCK := spin_initlock)\<rparr>)))"
    by (intro trap_page_fault_returns) (use assms f in \<open>simp_all add: s2_def k_def\<close>)
  then show ?thesis
    using t(2) f c by (auto simp: cow_copied_def s3_def s2_def holds_def)
qed

text \<open>Page 4 is mapped at \<open>0x00800000\<close>, read only, through the table in frame 5, and once more elsewhere.\<close>

definition sample_cow :: kstate where
  "sample_cow = sample_fault\<lparr>
     pages := (pages sample_k)(4 := (pages sample_k 4)\<lparr>pp_ref := 2\<rparr>),
     pmem := (\<lambda>_ _. 0)(1 := (\<lambda>_. 0)(2 := 0x5007), 5 := (\<lambda>_. 0)(0 := 0x4005), 4 := (\<lambda>_. 7))\<rparr>"

lemma sample_cow_view:
  "pt sample_cow 1 d = (if d = 2 then Some 5 else None)"
  "pte_at sample_cow 1 d i = (if d = 2 \<and> i = 0 then 0x4005 else 0)"
  "mappings sample_cow 1 q = (if q = 4 then {(2, 0)} else {})"
  "vmap sample_cow 1 0x00800010 = Some (4, 5)"
proof -
  show pt: "pt sample_cow 1 d = (if d = 2 then Some 5 else None)" for d
    by (simp add: pt_def sample_cow_def PTE_P_def frame_def PGNUM_def)
  show pte: "pte_at sample_cow 1 d i = (if d = 2 \<and> i = 0 then 0x4005 else 0)" for d i
    by (simp add: pte_at_def pt del: One_nat_def) (simp add: sample_cow_def)
  have "frame 0x4005 = 4" by (simp add: frame_def PGNUM_def)
  show "mappings sample_cow 1 q = (if q = 4 then {(2, 0)} else {})"
    using \<open>frame 0x4005 = 4\<close> by (auto simp: mappings_def pte UDIRS_eq PTE_P_def simp del: One_nat_def)
  show "vmap sample_cow 1 0x00800010 = Some (4, 5)"
    unfolding vmap_def Let_def pte by (simp add: pdx_def PDX_def ptx_def PTX_def PTE_P_def frame_def PGNUM_def)
qed

lemma sample_cow_wf: "wf_pgdir sample_cow 1 [3, 2]"
proof -
  have pm: "pmem sample_cow 1 = (\<lambda>_. 0)(2 := 0x5007)" by (simp add: sample_cow_def)
  have pg: "npages sample_cow = 8" "\<not> PREMAPPED_FLAG sample_cow" "pages sample_cow = (pages sample_k)(4 := (pages sample_k 4)\<lparr>pp_ref := 2\<rparr>)"
    by (simp_all add: sample_cow_def sample_fault_def sample_k_def)
  have "pfl_ok sample_cow [3, 2] = pfl_ok (upd_page 4 (\<lambda>x. x\<lparr>pp_ref := 2\<rparr>) sample_k) [3, 2]"
    by (simp add: sample_cow_def sample_fault_def upd_page_def pfl_ok_def pfl_shape_def)
  also have "\<dots>" using sample_k_ok(1) by (auto intro!: pfl_ok_upd_outside)
  finally show ?thesis
    by (auto simp: wf_pgdir_def sample_cow_view pm pg sample_k_fields PTE_PS_def ALLOC_def ALLOC_HUGE_def simp del: One_nat_def split: if_splits)
qed

theorem trap_copy_on_write_witness:
  "\<exists>s'. trap (zero_tf\<lparr>tf_trapno := 14, tf_cs := 0x1B, tf_err := 7\<rparr>) sample_cow = Inl (EnterUser 2 s') \<and>
     vmap s' 1 0x00800010 = Some (3, PTE_U OR PTE_W OR PTE_P) \<and> pmem s' 3 = (\<lambda>_. 7) \<and> pp_ref (pages s' 4) = 1"
proof -
  let ?tf = "zero_tf\<lparr>tf_trapno := 14, tf_cs := 0x1B, tf_err := 7\<rparr>"
  have d: "pdx 0x00800010 < UDIRS" by (simp add: UDIRS_eq pdx_def PDX_def)
  have s: "envs sample_cow = envs sample_fault" "cr2 sample_cow = 0x00800010" "locks sample_cow = locks sample_fault"
      "curenv sample_cow = Some 2" "pages sample_cow 4 = (pages sample_k 4)\<lparr>pp_ref := 2\<rparr>" "pmem sample_cow 4 = (\<lambda>_. 7)"
    using sample_fault_fields(1,2) by (simp_all add: sample_cow_def curenv_def)
  show ?thesis
  proof (rule exE [OF trap_copy_on_write [of sample_cow 1 3 "[2]" 2 4 5 0 "vmas (envs sample_fault 2) 0" ?tf]])
    show "vma_lookup (cr2 sample_cow) (envs sample_cow 2) = (Inr (Some 0) :: kstate stop + _)"
      unfolding s by (rule sample_fault_fields(4))
  qed (use d in \<open>auto simp: s sample_cow_view sample_cow_wf sample_fault_fields blank_env_def spin_initlock_def zero_tf_def PTE_U_def PTE_W_def PTE_P_def PTE_PS_def
      same_page_def sample_k_fields simp del: One_nat_def\<close>)
qed

section \<open>System calls\<close>

lemma trap_syscall_returns:
  assumes lk: "locked (locks s ENV_LOCK) = 0" and c: "curenv s = Some c" "env_status (envs s c) \<noteq> ENV_DYING"
    and tf: "tf_trapno tf = T_SYSCALL" "tf_cs tf AND 3 = 3"
    and h: "syscall (reg_eax (tf_regs tf)) (reg_edx (tf_regs tf)) (reg_ecx (tf_regs tf)) (reg_ebx (tf_regs tf))
        (upd_env c (\<lambda>x. x\<lparr>env_tf := tf\<rparr>) s\<lparr>locks := (locks s)(ENV_LOCK := spin_initlock)\<rparr>) = Inr (ret, t)"
    and t: "curenv t = Some c" "locked (locks t ENV_LOCK) = 0"
      "env_status (envs t c) = ENV_RUNNING" "env_type (envs t c) \<noteq> ENV_TYPE_KERNEL"
  shows "trap tf s = Inl (EnterUser c (upd_env c (\<lambda>x. x\<lparr>env_cpunum := cpunum t\<rparr>)
     (set_eax (Some c) ret t\<lparr>locks := (locks t)(ENV_LOCK := spin_initlock)\<rparr>)))"
proof -
  let ?u = "set_eax (Some c) ret t"
  have u: "locked (locks ?u ENV_LOCK) = 0" "curenv ?u = Some c" "env_status (envs ?u c) = ENV_RUNNING"
      "env_type (envs ?u c) \<noteq> ENV_TYPE_KERNEL" "cpunum ?u = cpunum t" "locks ?u = locks t"
    using t by (simp_all add: set_eax_def)
  let ?v = "?u\<lparr>locks := (locks t)(ENV_LOCK := \<lparr>locked = 1, lk_cpu = Some (cpunum t)\<rparr>)\<rparr>"
  have "env_run c ?v = env_pop_tf c (?v\<lparr>locks := (locks ?v)(ENV_LOCK := spin_initlock)\<rparr>)"
    by (rule env_run_current) (use u in simp_all)
  then show ?thesis
    using c tf h idle_not_held [OF lk] trap_from_user_ok [OF lk c] lock_free [OF u(1)] u
    by (simp add: trap_def trap_dispatch_def env_pop_tf_def)
qed

lemma trap_simple_call:
  assumes lk: "locked (locks s ENV_LOCK) = 0" and c: "curenv s = Some c" "env_status (envs s c) = ENV_RUNNING" "env_type (envs s c) \<noteq> ENV_TYPE_KERNEL"
    and tf: "tf_trapno tf = T_SYSCALL" "tf_cs tf AND 3 = 3" and no: "reg_eax (tf_regs tf) = 2 \<or> 10 < reg_eax (tf_regs tf)"
  shows "\<exists>s'. trap tf s = Inl (EnterUser c s') \<and> curenv s' = Some c \<and> \<not> holds ENV_LOCK s' \<and>
    envs s' = (envs s)(c := (envs s c)\<lparr>
      env_tf := tf\<lparr>tf_regs := (tf_regs tf)\<lparr>reg_eax := (if reg_eax (tf_regs tf) = 2 then env_id (envs s c) else - 7)\<rparr>\<rparr>,
      env_cpunum := cpunum s\<rparr>)"
proof -
  let ?s = "upd_env c (\<lambda>x. x\<lparr>env_tf := tf\<rparr>) s\<lparr>locks := (locks s)(ENV_LOCK := spin_initlock)\<rparr>"
  let ?ret = "if reg_eax (tf_regs tf) = 2 then env_id (envs s c) else - 7"
  let ?s1 = "?s\<lparr>locks := (locks s)(ENV_LOCK := \<lparr>locked = 1, lk_cpu = Some (cpunum s)\<rparr>)\<rparr>"
  have get: "sys_getenvid ?s = Inr (env_id (envs s c), ?s)"
    using lock_free [of ?s ENV_LOCK] unlock_held [of ENV_LOCK ?s1] c by (simp add: sys_getenvid_def spin_initlock_def Let_def)
  have un: "syscall n a1 a2 a3 ?s = Inr (- 7, ?s)" if "10 < n" for n a1 a2 a3
    using that by (auto simp: syscall_def E_NO_SYS_def)
  have h: "syscall (reg_eax (tf_regs tf)) (reg_edx (tf_regs tf)) (reg_ecx (tf_regs tf)) (reg_ebx (tf_regs tf)) ?s = Inr (?ret, ?s)"
    using no get un by (cases "reg_eax (tf_regs tf) = 2") (simp_all add: syscall_def [of 2])
  have "trap tf s = Inl (EnterUser c (upd_env c (\<lambda>x. x\<lparr>env_cpunum := cpunum ?s\<rparr>)
     (set_eax (Some c) ?ret ?s\<lparr>locks := (locks ?s)(ENV_LOCK := spin_initlock)\<rparr>)))"
    by (rule trap_syscall_returns [OF lk c(1) _ tf h]) (use c in simp_all)
  then show ?thesis using c by (simp add: set_eax_def)
qed

text \<open>
  C25: A system call trap puts the result in the saved eax and enters the environment again: \<open>sys_getenvid\<close>
  returns its identifier, and a number behind the last system call returns \<open>-E_NO_SYS\<close>.  Besides, the number of the
  processor is recorded in the environment that is entered; nothing else of any environment changes, and the environment lock is
  free.
\<close>

theorem trap_simple_syscalls:
  assumes lk: "locked (locks s ENV_LOCK) = 0" and c: "curenv s = Some c" "env_status (envs s c) = ENV_RUNNING" "env_type (envs s c) \<noteq> ENV_TYPE_KERNEL"
    and tf: "tf_trapno tf = T_SYSCALL" "tf_cs tf AND 3 = 3" and no: "reg_eax (tf_regs tf) = 2 \<or> 10 < reg_eax (tf_regs tf)"
  shows "\<exists>s'. trap tf s = Inl (EnterUser c s') \<and> curenv s' = Some c \<and> \<not> holds ENV_LOCK s' \<and>
    envs s' = (envs s)(c := (envs s c)\<lparr>
      env_tf := tf\<lparr>tf_regs := (tf_regs tf)\<lparr>reg_eax := (if reg_eax (tf_regs tf) = 2 then env_id (envs s c) else - 7)\<rparr>\<rparr>,
      env_cpunum := cpunum s\<rparr>)"
  by (rule trap_simple_call [OF assms])

theorem trap_simple_syscalls_witness:
  "\<exists>s'. trap (zero_tf\<lparr>tf_trapno := 48, tf_cs := 0x1B, tf_regs := (tf_regs zero_tf)\<lparr>reg_eax := 99\<rparr>\<rparr>) sample_fault = Inl (EnterUser 2 s') \<and>
     reg_eax (tf_regs (env_tf (envs s' 2))) = - 7"
  using trap_simple_syscalls [of sample_fault 2 "zero_tf\<lparr>tf_trapno := 48, tf_cs := 0x1B, tf_regs := (tf_regs zero_tf)\<lparr>reg_eax := 99\<rparr>\<rparr>"]
  by (auto simp: sample_fault_fields blank_env_def spin_initlock_def zero_tf_def)

text \<open>
  C34: \<open>sys_vma_advise\<close> on an address in no area panics the kernel: it returns with the environment lock held, and
  \<open>trap\<close> takes the lock again before it leaves.  Any program can do this.
\<close>

theorem trap_advise_unmapped:
  assumes lk: "locked (locks s ENV_LOCK) = 0" and c: "curenv s = Some c" "env_status (envs s c) \<noteq> ENV_DYING"
    and tf: "tf_trapno tf = T_SYSCALL" "tf_cs tf AND 3 = 3" "reg_eax (tf_regs tf) = 7"
    and v: "vma_lookup (reg_edx (tf_regs tf)) (envs s c) = (Inr None :: kstate stop + _)"
  shows "\<exists>m. trap tf s = Inl (Panic m)"
proof -
  let ?s = "upd_env c (\<lambda>x. x\<lparr>env_tf := tf\<rparr>) s\<lparr>locks := (locks s)(ENV_LOCK := spin_initlock)\<rparr>"
  let ?t = "?s\<lparr>locks := (locks s)(ENV_LOCK := \<lparr>locked = 1, lk_cpu = Some (cpunum s)\<rparr>)\<rparr>"
  have "sys_vma_advise (reg_edx (tf_regs tf)) sz attr ?s = Inr (0, ?t)" for sz attr
    using lock_free [of ?s ENV_LOCK] c v by (simp add: sys_vma_advise_def spin_initlock_def)
  then have "trap tf s = rbind (lock ENV_LOCK (set_eax (Some c) 0 ?t)) (\<lambda>(_, s). case curenv s of None \<Rightarrow> sched s
      | Some c \<Rightarrow> if env_status (envs s c) = ENV_RUNNING then env_run c s else sched s)"
    using tf idle_not_held [OF lk] trap_from_user_ok [OF lk c] by (simp add: trap_def trap_dispatch_def syscall_def ret_int_def)
  moreover have "holds ENV_LOCK (set_eax (Some c) 0 ?t)" by (simp add: set_eax_def)
  ultimately show ?thesis using lock_twice by fastforce
qed

theorem trap_advise_unmapped_witness:
  "\<exists>m. trap (zero_tf\<lparr>tf_trapno := 48, tf_cs := 0x1B, tf_regs := (tf_regs zero_tf)\<lparr>reg_eax := 7\<rparr>\<rparr>) (sample_envs\<lparr>locks := \<lambda>_. spin_initlock\<rparr>) = Inl (Panic m)"
  by (rule trap_advise_unmapped [where c = 2])
     (simp_all add: sample_envs_fields blank_env_def spin_initlock_def zero_tf_def vma_lookup_def seek_empty [where fuel = 105, simplified])

section \<open>The descriptor table\<close>

lemma trap_init_at:
  "v \<notin> fst ` set gs \<Longrightarrow> fold (\<lambda>(v, dpl) t. t(v := SETGATE False GD_KT (handler v) dpl)) gs idt v = idt v"
  "distinct (map fst gs) \<Longrightarrow> (v, p) \<in> set gs \<Longrightarrow>
     fold (\<lambda>(v, dpl) t. t(v := SETGATE False GD_KT (handler v) dpl)) gs idt v = SETGATE False GD_KT (handler v) p"
proof -
  show none: "v \<notin> fst ` set gs \<Longrightarrow> fold (\<lambda>(v, dpl) t. t(v := SETGATE False GD_KT (handler v) dpl)) gs idt v = idt v" for gs idt
    by (induction gs arbitrary: idt) auto
  show "distinct (map fst gs) \<Longrightarrow> (v, p) \<in> set gs \<Longrightarrow>
     fold (\<lambda>(v, dpl) t. t(v := SETGATE False GD_KT (handler v) dpl)) gs idt v = SETGATE False GD_KT (handler v) p"
    by (induction gs arbitrary: idt) (auto simp: none)
qed

lemma gate_offset:
  "push_bit 16 (ucast (gd_off_31_16 (SETGATE t sel off p))) OR ucast (gd_off_15_0 (SETGATE t sel off p)) = (off :: u32)"
proof (rule bit_word_eqI)
  have m: "(0xffff :: u32) = mask 16" by (simp add: mask_eq_exp_minus_1)
  fix n assume "n < LENGTH(32)"
  then show "bit (push_bit 16 (ucast (gd_off_31_16 (SETGATE t sel off p))) OR ucast (gd_off_15_0 (SETGATE t sel off p)) :: u32) n = bit off n"
    by (cases "16 \<le> n") (auto simp: SETGATE_def m bit_or_iff bit_push_bit_iff bit_ucast_iff bit_and_iff bit_drop_bit_eq bit_mask_iff)
qed

text \<open>
  C26: The descriptor table: exactly the listed vectors have a gate, user code may raise exactly the breakpoint and
  the system call, every gate is an interrupt gate into the kernel code segment, and the two halves of the
  offset are the address of the entry code.
\<close>

theorem trap_init_gates:
  fixes idt :: "nat \<Rightarrow> gatedesc"
  assumes blank: "\<forall>v. gd_p (idt v) = 0 \<and> gd_dpl (idt v) = 0"
  shows "(gd_p (trap_init handler idt v) = 1 \<longleftrightarrow> v \<le> 8 \<or> v \<in> {10..14} \<or> v \<in> {16..19} \<or> v \<in> {32, 33, 36, 39, 46, 48, 51}) \<and>
    (gd_dpl (trap_init handler idt v) = 3 \<longleftrightarrow> v = 3 \<or> v = 48) \<and>
    (gd_p (trap_init handler idt v) = 1 \<longrightarrow> gd_sel (trap_init handler idt v) = GD_KT \<and> gd_type (trap_init handler idt v) = STS_IG32 \<and>
      push_bit 16 (ucast (gd_off_31_16 (trap_init handler idt v))) OR ucast (gd_off_15_0 (trap_init handler idt v)) = handler v)"
proof -
  have d: "distinct (map fst trap_gates)" by (simp add: trap_gates_def)
  have vs: "v \<in> fst ` set trap_gates \<longleftrightarrow> v \<le> 8 \<or> v \<in> {10..14} \<or> v \<in> {16..19} \<or> v \<in> {32, 33, 36, 39, 46, 48, 51}"
    by (simp add: trap_gates_def) presburger
  show ?thesis
  proof (cases "v \<in> fst ` set trap_gates")
    case True
    then obtain p where p: "(v, p) \<in> set trap_gates" by auto
    then have "p = (if v = 3 \<or> v = 48 then 3 else 0)" by (auto simp: trap_gates_def)
    moreover have "trap_init handler idt v = SETGATE False GD_KT (handler v) p"
      using trap_init_at(2) [OF d p] by (simp add: trap_init_def)
    ultimately show ?thesis using True vs gate_offset [of False GD_KT "handler v" p] by (simp add: SETGATE_def)
  next
    case False
    then have "trap_init handler idt v = idt v" using trap_init_at(1) by (simp add: trap_init_def)
    then show ?thesis using False vs blank by auto
  qed
qed

theorem trap_init_gates_witness:
  "gd_dpl (trap_init (\<lambda>v. of_nat v) (\<lambda>_. (SETGATE False 0 0 0)\<lparr>gd_p := 0\<rparr>) 48) = 3"
  using trap_init_gates [of "\<lambda>_. (SETGATE False 0 0 0)\<lparr>gd_p := 0\<rparr>" "\<lambda>v. of_nat v" 48] by (simp add: SETGATE_def)

end
