(* ===== verification/Areas.thy ===== *)
theory Areas
  imports Faults
begin

text \<open>
  The operations of \<^verbatim>\<open>kern/vma.c\<close> on whole areas, over the definitions of \<open>Vma\<close>: cutting an area in two or
  three, joining adjacent areas, populating an area and removing its pages.  What an address belongs to is
  described by \<open>area_kind\<close>, the type and permissions of the area it lies in.
\<close>

section \<open>Cutting an area\<close>

text \<open>What an address belongs to: the type and permissions of the area it lies in.\<close>

definition area_kind :: "'z vma_space_scheme \<Rightarrow> u32 \<Rightarrow> (vma_type \<times> u32) option" where
  "area_kind e b =
     (case vma_lookup b e :: unit stop + nat option of
        Inr (Some i) \<Rightarrow> Some (v_type (vmas e i), v_perm (vmas e i))
      | _ \<Rightarrow> None)"

lemma area_kind_eq:
  assumes ok: "vma_ok e as fs"
  shows "area_kind e b = Some k \<longleftrightarrow> (\<exists>i \<in> set as. inside b (vmas e i) \<and> k = (v_type (vmas e i), v_perm (vmas e i)))"
proof (cases "\<exists>i \<in> set as. inside b (vmas e i)")
  case True
  then obtain i where i: "i \<in> set as" "inside b (vmas e i)" by blast
  have "area_kind e b = Some (v_type (vmas e i), v_perm (vmas e i))"
    by (simp add: area_kind_def vma_lookup_Some [OF ok i])
  moreover have "j = i" if "j \<in> set as" "inside b (vmas e j)" for j using areas_unique [OF ok that i] .
  ultimately show ?thesis using i by (metis option.inject)
next
  case False
  moreover from this have "vma_lookup b e = (Inr None :: unit stop + _)" by (intro vma_lookup_None [OF ok]) blast
  ultimately show ?thesis by (auto simp: area_kind_def)
qed

lemma area_kind_cong:
  assumes "vma_ok e as fs" "vma_ok e' as' fs'"
    and "\<And>k. (\<exists>i \<in> set as'. inside b (vmas e' i) \<and> k = (v_type (vmas e' i), v_perm (vmas e' i))) \<longleftrightarrow>
             (\<exists>i \<in> set as. inside b (vmas e i) \<and> k = (v_type (vmas e i), v_perm (vmas e i)))"
  shows "area_kind e' b = area_kind e b"
proof -
  have "area_kind e' b = Some k \<longleftrightarrow> area_kind e b = Some k" for k
    unfolding area_kind_eq [OF assms(1)] area_kind_eq [OF assms(2)] by (rule assms(3))
  then show ?thesis by (metis option.exhaust)
qed

lemma vma_shrink_ok:
  assumes ok: "vma_ok e as fs" and v: "v \<in> set as"
    and sub: "unat (v_va (vmas e v)) \<le> unat a" "unat a + unat l \<le> unat (v_va (vmas e v)) + unat (v_len (vmas e v))" "0 < unat l"
  shows "vma_ok (upd_vma v (\<lambda>x. x\<lparr>v_va := a, v_len := l\<rparr>) e) as fs"
proof -
  note D = vma_okD [OF ok]
  let ?e = "upd_vma v (\<lambda>x. x\<lparr>v_va := a, v_len := l\<rparr>) e"
  have vf: "v \<notin> set fs" using D(3) v by auto
  have bf: "before (vmas ?e i) (vmas ?e j)" if "before (vmas e i) (vmas e j)" for i j
    using that sub by (auto simp: before_def)
  have lk: "vlink ?e = vlink e" by auto
  have "sorted_wrt (\<lambda>i j. before (vmas ?e i) (vmas ?e j)) as" using bf D(7) by (rule sorted_wrt_mono_rel)
  moreover have "area_ok (vmas ?e i)" if "i \<in> set as" for i using D(6) [OF that] sub by (auto simp: area_ok_def)
  ultimately show ?thesis unfolding vma_ok_def lk using D(1-5) vf by auto
qed

lemma vma_cut_ok:
  assumes ok: "vma_ok e as (n # fs)" and v: "v \<in> set as" and w: "vmas e v = w"
    and parts: "unat l' + unat l = unat (v_len w)"
      "unat a' = unat (v_va w) \<and> unat a = unat a' + unat l' \<or> unat a = unat (v_va w) \<and> unat a' = unat a + unat l"
    and ends: "0 < unat l'" "0 < unat l" "a mod PGSIZE = 0" "l mod PGSIZE = 0"
    and ty: "v_type w = VMA_ANON"
  shows "\<exists>e2 as2. vma_new a l (v_type w) 0 0 0 (v_perm w) (upd_vma v (\<lambda>x. x\<lparr>v_va := a', v_len := l'\<rparr>) e) = (Inr ((1, Some n), e2) :: 's stop + _) \<and>
     vma_ok e2 as2 fs \<and> v \<in> set as2 \<and> vma_space.more e2 = vma_space.more e \<and>
     (vmas e2 v)\<lparr>vma_link := None\<rparr> = w\<lparr>v_va := a', v_len := l', vma_link := None\<rparr> \<and> (\<forall>b. area_kind e2 b = area_kind e b)"
proof -
  note D = vma_okD [OF ok]
  let ?e = "upd_vma v (\<lambda>x. x\<lparr>v_va := a', v_len := l'\<rparr>) e"
  have x: "unat (v_va w) \<le> b \<and> b < unat (v_va w) + unat (v_len w) \<longleftrightarrow>
       unat a' \<le> b \<and> b < unat a' + unat l' \<or> unat a \<le> b \<and> b < unat a + unat l" for b
    using parts by linarith
  have wok: "unat (v_va w) + unat (v_len w) < 4294967296" "0 < unat (v_len w)" using D(6) [OF v] w by (auto simp: area_ok_def)
  have sub: "unat (v_va w) \<le> unat a'" "unat a' + unat l' \<le> unat (v_va w) + unat (v_len w)"
      "unat (v_va w) \<le> unat a" "unat a + unat l \<le> unat (v_va w) + unat (v_len w)"
    using parts by auto
  have ok1: "vma_ok ?e as (n # fs)" using vma_shrink_ok [OF ok v] sub ends(1) w by simp
  have fit: "vma_fit a l" using ends wok sub by (simp add: vma_fit_def)
  have ap: "unat (v_va (vmas ?e i)) + unat (v_len (vmas ?e i)) \<le> unat a \<or> unat a + unat l \<le> unat (v_va (vmas ?e i))"
    if i: "i \<in> set as" for i
  proof (cases "i = v")
    case False
    then have "before (vmas e i) w \<or> before w (vmas e i)" using sorted_wrt_related [OF D(7) i v] w by auto
    then show ?thesis using False sub by (auto simp: before_def)
  qed (use parts in auto)
  obtain e2 where e2: "vma_new a l (v_type w) 0 0 0 (v_perm w) ?e = (Inr ((1, Some n), e2) :: 's stop + _)"
      "vma_ok e2 (insert_pos ?e a n as) fs" "vma_space.more e2 = vma_space.more ?e"
      "(vmas e2 n)\<lparr>vma_link := None\<rparr> = \<lparr>v_type = v_type w, v_va = a, v_len = l, v_perm = v_perm w, vma_link = None,
         cpy_src = 0, src_sz = 0, cpy_dst = 0, hps = hps (vmas ?e n)\<rparr>"
      "\<forall>i. i \<noteq> n \<longrightarrow> (vmas e2 i)\<lparr>vma_link := None\<rparr> = (vmas ?e i)\<lparr>vma_link := None\<rparr>"
    using vma_new_ok [OF ok1, of "v_type w" 0 0 a l l 0 "v_perm w"] ty fit vma_fit_ROUNDUP [OF fit] ap by (auto simp: vma_fit_def)
  have nv: "n \<noteq> v" "n \<notin> set as" using D(3) v by auto
  have fn: "v_type (vmas e2 n) = v_type w" "v_va (vmas e2 n) = a" "v_len (vmas e2 n) = l" "v_perm (vmas e2 n) = v_perm w"
    using e2(4) by (cases "vmas e2 n"; simp)+
  have fi: "v_type (vmas e2 i) = v_type (vmas ?e i) \<and> v_va (vmas e2 i) = v_va (vmas ?e i) \<and> v_len (vmas e2 i) = v_len (vmas ?e i) \<and>
      v_perm (vmas e2 i) = v_perm (vmas ?e i)" if "i \<noteq> n" for i
    using e2(5) that by (cases "vmas e2 i"; cases "vmas ?e i") (force simp del: upd_vma_simps)
  have "area_kind e2 b = area_kind e b" for b
  proof (rule area_kind_cong [OF ok e2(2)])
    fix k
    let ?K = "\<lambda>e i. inside b (vmas e i) \<and> k = (v_type (vmas e i), v_perm (vmas e i))"
    have other: "?K e2 i = ?K e i" if "i \<noteq> n" "i \<noteq> v" for i using fi [OF that(1)] that by (simp add: inside_def)
    have vn: "?K e v \<longleftrightarrow> ?K e2 v \<or> ?K e2 n"
      using fi [of v] nv fn x [of "unat b"] w by (auto simp: inside_def)
    show "(\<exists>i \<in> set (insert_pos ?e a n as). ?K e2 i) \<longleftrightarrow> (\<exists>i \<in> set as. ?K e i)"
      using other vn v nv(2) by (metis insert_iff set_insert_pos)
  qed
  moreover have "(vmas e2 v)\<lparr>vma_link := None\<rparr> = w\<lparr>v_va := a', v_len := l', vma_link := None\<rparr>"
    using e2(5) nv w by auto
  ultimately show ?thesis using e2(1-3) v by (intro exI [of _ e2] exI [of _ "insert_pos ?e a n as"]) simp
qed


lemma page_aligned: "(x :: u32) mod PGSIZE = 0 \<longleftrightarrow> 4096 dvd unat x"
  unfolding word_unat_eq_iff unat_mod4096 by (auto simp: dvd_eq_mod_eq_0)

lemma in_env_upd: "in_env c f (upd_env c g s) = rbind (f (g (envs s c))) (\<lambda>(r, x). Inr (r, upd_env c (\<lambda>_. x) s))"
  by (simp add: in_env_def upd_env_def)

lemma upd_vma_eq: "f (vmas e v) = g (vmas e v) \<Longrightarrow> upd_vma v f e = upd_vma v g e"
  by (simp add: upd_vma_def)

lemma split_cut:
  assumes ok: "vma_ok (envs s c) as (n # fs)" and v: "v \<in> set as" and w: "vmas (envs s c) v = w"
    and f: "f w = w\<lparr>v_va := a', v_len := l'\<rparr>" and old: "v_type old = v_type w" "v_perm old = v_perm w"
    and parts: "unat l' + unat l = unat (v_len w)"
      "unat a' = unat (v_va w) \<and> unat a = unat a' + unat l' \<or> unat a = unat (v_va w) \<and> unat a' = unat a + unat l"
    and ends: "0 < unat l'" "0 < unat l" "a mod PGSIZE = 0" "l mod PGSIZE = 0"
    and ty: "v_type w = VMA_ANON"
  shows "\<exists>e2 as2. split_new c a l old (upd_env c (upd_vma v f) s) = Inr ((), upd_env c (\<lambda>_. e2) s) \<and>
     vma_ok e2 as2 fs \<and> v \<in> set as2 \<and> vma_space.more e2 = vma_space.more (envs s c) \<and>
     (vmas e2 v)\<lparr>vma_link := None\<rparr> = w\<lparr>v_va := a', v_len := l', vma_link := None\<rparr> \<and> (\<forall>b. area_kind e2 b = area_kind (envs s c) b)"
proof -
  have u: "upd_vma v f (envs s c) = upd_vma v (\<lambda>x. x\<lparr>v_va := a', v_len := l'\<rparr>) (envs s c)"
    using f w by (intro upd_vma_eq) simp
  show ?thesis
    using vma_cut_ok [OF ok v w parts ends ty, where 's = kstate] by (auto simp: split_new_def in_env_upd u old)
qed

lemma same_area:
  assumes "(vmas e v)\<lparr>vma_link := None\<rparr> = w\<lparr>vma_link := None\<rparr>"
  shows "v_type (vmas e v) = v_type w" "v_va (vmas e v) = v_va w" "v_len (vmas e v) = v_len w" "v_perm (vmas e v) = v_perm w"
  using assms by (cases "vmas e v"; cases w; simp)+

text \<open>The piece in front, and the piece behind.\<close>

lemma split_front_ok:
  assumes ok: "vma_ok (envs s c) as (m # n # fs)" and v: "v \<in> set as" and w: "vmas (envs s c) v = w" and ty: "v_type w = VMA_ANON"
    and al: "v_va w mod PGSIZE = 0" "va mod PGSIZE = 0" and sub: "unat (v_va w) < unat va" "unat va < unat (v_va w) + unat (v_len w)"
  shows "\<exists>e1 as1. split_new c (v_va w) (va - v_va w) w (upd_env c (upd_vma v (\<lambda>x. x\<lparr>v_va := va, v_len := v_len x - (va - v_va w)\<rparr>)) s) =
      Inr ((), upd_env c (\<lambda>_. e1) s) \<and>
     vma_ok e1 as1 (n # fs) \<and> v \<in> set as1 \<and> vma_space.more e1 = vma_space.more (envs s c) \<and>
     (vmas e1 v)\<lparr>vma_link := None\<rparr> = w\<lparr>v_va := va, v_len := v_len w - (va - v_va w), vma_link := None\<rparr> \<and>
     (\<forall>b. area_kind e1 b = area_kind (envs s c) b)"
proof -
  have ul: "unat (va - v_va w) = unat va - unat (v_va w)" using sub by (simp add: unat_sub word_le_nat_alt)
  have "unat (v_len w - (va - v_va w)) = unat (v_len w) - (unat va - unat (v_va w))"
    using ul sub by (subst unat_sub) (auto simp: word_le_nat_alt)
  moreover have "(va - v_va w) mod PGSIZE = 0" using al unfolding page_aligned ul by (intro dvd_diff_nat) auto
  ultimately show ?thesis
    using ul sub al ty by (intro split_cut [OF ok v w]) auto
qed

lemma split_back_ok:
  assumes ok: "vma_ok e as (n # fs)" and v: "v \<in> set as"
    and F: "v_type (vmas e v) = VMA_ANON" "v_va (vmas e v) = va" "v_len (vmas e v) = sz + t" "v_type w = VMA_ANON" "v_perm (vmas e v) = v_perm w"
    and al: "va mod PGSIZE = 0" "sz mod PGSIZE = 0" "t mod PGSIZE = 0" and pos: "0 < unat sz" "0 < unat t"
    and sum: "unat (sz + t) = unat sz + unat t"
  shows "\<exists>e2 as2. split_new c (va + sz) t w (upd_env c (upd_vma v (\<lambda>x. x\<lparr>v_len := v_len x - t\<rparr>)) (upd_env c (\<lambda>_. e) s)) =
      Inr ((), upd_env c (\<lambda>_. e2) s) \<and> vma_ok e2 as2 fs \<and> v \<in> set as2 \<and> vma_space.more e2 = vma_space.more e \<and>
     (vmas e2 v)\<lparr>vma_link := None\<rparr> = (vmas e v)\<lparr>v_va := va, v_len := sz, vma_link := None\<rparr> \<and> (\<forall>b. area_kind e2 b = area_kind e b)"
proof -
  have "unat va + unat (sz + t) < 4294967296" using vma_okD(6) [OF ok v] F by (simp add: area_ok_def)
  then have uva: "unat (va + sz) = unat va + unat sz" using sum by (simp add: unat_word_ariths)
  have al': "(va + sz) mod PGSIZE = 0" using al uva by (simp add: page_aligned dvd_add)
  have f: "(vmas e v)\<lparr>v_len := v_len (vmas e v) - t\<rparr> = (vmas e v)\<lparr>v_va := va, v_len := sz\<rparr>" using F by simp
  have twice: "upd_env c (\<lambda>_. x) (upd_env c (\<lambda>_. e) s) = upd_env c (\<lambda>_. x) s" for x by (simp add: upd_env_def)
  have e: "envs (upd_env c (\<lambda>_. e) s) c = e" by simp
  have parts: "unat sz + unat t = unat (v_len (vmas e v))" "unat va = unat (v_va (vmas e v)) \<and> unat (va + sz) = unat va + unat sz"
    using F sum uva by simp_all
  show ?thesis
    using split_cut [of "upd_env c (\<lambda>_. e) s" c as n fs v "vmas e v" "\<lambda>x. x\<lparr>v_len := v_len x - t\<rparr>", unfolded e twice,
        OF ok v refl f _ _ parts(1) disjI1 [OF parts(2)] pos al' al(3) F(1)] F by simp
qed

lemma split_pieces_ok:
  assumes ok: "vma_ok (envs s c) as (m # n # fs)" and v: "v \<in> set as" and w: "vmas (envs s c) v = w" and ty: "v_type w = VMA_ANON"
    and al: "v_va w mod PGSIZE = 0" "v_len w mod PGSIZE = 0" "va mod PGSIZE = 0" "sz mod PGSIZE = 0"
    and sub: "unat (v_va w) \<le> unat va" "unat va + unat sz \<le> unat (v_va w) + unat (v_len w)" "0 < unat sz"
  shows "\<exists>e2 as2 gs. split_pieces c c v va sz False w s = Inr ((), upd_env c (\<lambda>_. e2) s) \<and>
     vma_ok e2 as2 gs \<and> v \<in> set as2 \<and> vma_space.more e2 = vma_space.more (envs s c) \<and>
     (vmas e2 v)\<lparr>vma_link := None\<rparr> = w\<lparr>v_va := va, v_len := sz, vma_link := None\<rparr> \<and> (\<forall>b. area_kind e2 b = area_kind (envs s c) b)"
proof -
  have bound: "unat (v_va w) + unat (v_len w) < 4294967296" using vma_okD(6) [OF ok v] w by (simp add: area_ok_def)
  define t where "t = v_len w - (va + sz - v_va w)"
  have uva: "unat (va + sz) = unat va + unat sz" using sub bound by (simp add: unat_word_ariths)
  have ud: "unat (va + sz - v_va w) = unat va + unat sz - unat (v_va w)" using sub uva by (simp add: unat_sub word_le_nat_alt)
  have ut: "unat t = unat (v_va w) + unat (v_len w) - (unat va + unat sz)"
    unfolding t_def using ud sub by (subst unat_sub) (auto simp: word_le_nat_alt)
  have bk: "va + sz < v_va w + v_len w \<longleftrightarrow> 0 < unat t" using uva ut bound by (simp add: word_less_nat_alt unat_word_ariths)
  have ltt: "v_len w - (va - v_va w) = sz + t" by (simp add: t_def)
  have "unat (sz + t) = unat sz + unat t" using ut bound sub by (simp add: unat_word_ariths)
  note sum = this
  have td: "t mod PGSIZE = 0" using al unfolding page_aligned ut by (intro dvd_diff_nat dvd_add) auto
  obtain e1 as1 k gs where e1: "(if v_va w < va then
         split_new c (v_va w) (va - v_va w) w (upd_env c (upd_vma v (\<lambda>x. x\<lparr>v_va := va, v_len := v_len x - (va - v_va w)\<rparr>)) s)
       else Inr ((), s)) = Inr ((), upd_env c (\<lambda>_. e1) s)"
     "vma_ok e1 as1 (k # gs)" "v \<in> set as1" "vma_space.more e1 = vma_space.more (envs s c)"
     "(vmas e1 v)\<lparr>vma_link := None\<rparr> = w\<lparr>v_va := va, v_len := sz + t, vma_link := None\<rparr>" "\<forall>b. area_kind e1 b = area_kind (envs s c) b"
  proof (cases "v_va w < va")
    case True
    then show ?thesis using split_front_ok [OF ok v w ty al(1,3)] sub ltt that by (auto simp: word_less_nat_alt)
  next
    case False
    then have "va = v_va w" using sub by (simp add: word_le_nat_alt word_unat_eq_iff word_less_nat_alt)
    then show ?thesis using ok v w False ltt by (intro that [of "envs s c" as m "n # fs"]) (auto simp: upd_env_def)
  qed
  have F: "v_type (vmas e1 v) = VMA_ANON" "v_va (vmas e1 v) = va" "v_len (vmas e1 v) = sz + t" "v_perm (vmas e1 v) = v_perm w"
    using same_area [of e1 v "w\<lparr>v_va := va, v_len := sz + t\<rparr>"] e1(5) ty by auto
  show ?thesis
  proof (cases "0 < unat t")
    case True
    obtain e2 as2 where e2: "split_new c (va + sz) t w (upd_env c (upd_vma v (\<lambda>x. x\<lparr>v_len := v_len x - t\<rparr>)) (upd_env c (\<lambda>_. e1) s)) =
          Inr ((), upd_env c (\<lambda>_. e2) s)" "vma_ok e2 as2 gs" "v \<in> set as2" "vma_space.more e2 = vma_space.more e1"
        "(vmas e2 v)\<lparr>vma_link := None\<rparr> = (vmas e1 v)\<lparr>v_va := va, v_len := sz, vma_link := None\<rparr>" "\<forall>b. area_kind e2 b = area_kind e1 b"
      using split_back_ok [OF e1(2,3) F(1-3) ty F(4) al(3,4) td sub(3) True sum] by blast
    then have "split_pieces c c v va sz False w s = Inr ((), upd_env c (\<lambda>_. e2) s)"
      unfolding split_pieces_def Let_def if_False e1(1) using True bk by (simp add: t_def)
    moreover have "(vmas e2 v)\<lparr>vma_link := None\<rparr> = w\<lparr>v_va := va, v_len := sz, vma_link := None\<rparr>"
      using e2(5) e1(5) by (cases "vmas e1 v"; cases w) simp
    ultimately show ?thesis using e1(4,6) e2(2-6) by (intro exI [of _ e2] exI [of _ as2] exI [of _ gs]) simp
  next
    case False
    then have "sz + t = sz" using sum by (simp add: word_unat_eq_iff)
    moreover have "split_pieces c c v va sz False w s = Inr ((), upd_env c (\<lambda>_. e1) s)"
      unfolding split_pieces_def Let_def if_False e1(1) using False bk by simp
    ultimately show ?thesis using e1(2-6) by (intro exI [of _ e1] exI [of _ as1] exI [of _ "k # gs"]) simp
  qed
qed

text \<open>
  C21: Splitting an anonymous area, in the mode that does not remove it, loses nothing: \<open>vma_split_lookup\<close> cuts the area so that one descriptor covers
  exactly the requested range, inserts the piece in front and the piece behind as areas of their own, and
  keeps the list sorted and disjoint; every address has the type and permissions it had.
\<close>

theorem vma_split_covers:
  assumes lk: "holds ENV_LOCK s" and c: "curenv s = Some c" and ok: "vma_ok (envs s c) as (m # n # fs)"
    and v: "v \<in> set as" "vmas (envs s c) v = w" and ty: "v_type w = VMA_ANON" "cpy_src w = 0" "src_sz w = 0" "cpy_dst w = 0" "\<not> hps w"
    and al: "v_va w mod PGSIZE = 0" "v_len w mod PGSIZE = 0" "va mod PGSIZE = 0" "sz mod PGSIZE = 0"
    and sub: "unat (v_va w) \<le> unat va" "unat va + unat sz \<le> unat (v_va w) + unat (v_len w)" "0 < unat sz"
  shows "\<exists>e. vma_split_lookup c va sz False s = Inr (Split_vma v, upd_env c (\<lambda>_. e) s) \<and> vma_inv e \<and>
     vma_space.more e = vma_space.more (envs s c) \<and> v_va (vmas e v) = va \<and> v_len (vmas e v) = sz \<and>
     vma_lookup va e = (Inr (Some v) :: kstate stop + _) \<and> (\<forall>b. area_kind e b = area_kind (envs s c) b)"
proof -
  have ins: "inside va (vmas (envs s c) v)" using sub v by (auto simp: inside_def)
  have look: "vma_lookup va (envs s c) = (Inr (Some v) :: kstate stop + _)" by (rule vma_lookup_Some [OF ok v(1) ins])
  have bound: "unat (v_va w) + unat (v_len w) < 4294967296" "v_len w \<noteq> 0" using vma_okD(6) [OF ok v(1)] v by (auto simp: area_ok_def)
  obtain e2 as2 gs where e2: "split_pieces c c v va sz False w s = Inr ((), upd_env c (\<lambda>_. e2) s)" "vma_ok e2 as2 gs" "v \<in> set as2"
      "vma_space.more e2 = vma_space.more (envs s c)" "(vmas e2 v)\<lparr>vma_link := None\<rparr> = w\<lparr>v_va := va, v_len := sz, vma_link := None\<rparr>"
      "\<forall>b. area_kind e2 b = area_kind (envs s c) b"
    using split_pieces_ok [OF ok v ty(1) al sub] by blast
  have F: "v_va (vmas e2 v) = va" "v_len (vmas e2 v) = sz" using same_area [of e2 v "w\<lparr>v_va := va, v_len := sz\<rparr>"] e2(5) by auto
  have "vma_size_check va sz w"
    using sub bound by (simp add: vma_size_check_def word_less_nat_alt unat_word_ariths)
  moreover have "vma_consistency_check w VMA_ANON" using ty bound by (simp add: vma_consistency_check_def)
  ultimately have "vma_split_lookup c va sz False s = Inr (Split_vma v, upd_env c (\<lambda>_. e2) s)"
    using lk c ty v e2(1) look by (simp add: vma_split_lookup_def Let_def)
  moreover have "inside va (vmas e2 v)" using F sub by (simp add: inside_def)
  ultimately show ?thesis
    using e2 F vma_lookup_Some [OF e2(2,3)] by (intro exI [of _ e2]) (auto simp: vma_inv_def)
qed


text \<open>One area of four pages at \<open>0x00800000\<close>, the other descriptors free.\<close>

definition sample_area :: env where
  "sample_area = blank_env\<lparr>alloc_vma_list := Some 0, free_vma_list := Some 1,
     vmas := (\<lambda>i. \<lparr>v_type = (if i = 0 then VMA_ANON else VMA_UNUSED), v_va = (if i = 0 then 0x00800000 else 0),
       v_len = (if i = 0 then 0x4000 else 0), v_perm = (if i = 0 then PTE_U else 0),
       vma_link = (if i = 0 \<or> NVMA - 1 \<le> i then None else Some (Suc i)), cpy_src = 0, src_sz = 0, cpy_dst = 0, hps = False\<rparr>)\<rparr>"

lemma sample_area_ok: "vma_ok sample_area [0] (1 # 2 # [3..<NVMA])"
proof -
  have "(1 :: nat) < NVMA" "(2 :: nat) < NVMA" "Suc 2 = 3" by simp_all
  then have u: "1 # 2 # [3..<NVMA] = [1..<NVMA]" using upt_conv_Cons [of 1 NVMA] upt_conv_Cons [of 2 NVMA] Suc_1 by metis
  have f: "llist (vlink sample_area) (Some 1) [1..<NVMA]"
    using llist_upt [of 1 NVMA "vlink sample_area"] by (simp add: sample_area_def)
  have s: "set [0 :: nat] \<union> set [1..<NVMA] = {..<NVMA}" by auto
  show ?thesis unfolding u vma_ok_def s using f
    by (auto simp: sample_area_def area_ok_def blank_vma_def)
qed

theorem vma_split_covers_witness:
  "\<exists>e. vma_split_lookup 2 0x00801000 0x2000 False (upd_env 2 (\<lambda>_. sample_area) sample_envs) =
      Inr (Split_vma 0, upd_env 2 (\<lambda>_. e) (upd_env 2 (\<lambda>_. sample_area) sample_envs)) \<and>
    v_va (vmas e 0) = 0x00801000 \<and> v_len (vmas e 0) = 0x2000"
  using vma_split_covers [of "upd_env 2 (\<lambda>_. sample_area) sample_envs" 2 "[0]" 1 2 "[3..<NVMA]" 0 "vmas sample_area 0" "0x00801000" "0x2000"]
    sample_area_ok sample_envs_fields(1,2) by (auto simp: sample_area_def simp del: upt_Suc)

section \<open>Merging\<close>

lemma vma_grow_ok:
  assumes ok: "vma_ok e (us @ i # vs) fs" and l: "unat (v_len (vmas e i)) \<le> unat l" "unat (v_va (vmas e i)) + unat l < 4294967296"
    and vs: "\<And>k. k \<in> set vs \<Longrightarrow> unat (v_va (vmas e i)) + unat l \<le> unat (v_va (vmas e k))"
  shows "vma_ok (upd_vma i (\<lambda>x. x\<lparr>v_len := l\<rparr>) e) (us @ i # vs) fs"
proof -
  note D = vma_okD [OF ok]
  let ?e = "upd_vma i (\<lambda>x. x\<lparr>v_len := l\<rparr>) e"
  have i: "i \<notin> set us" "i \<notin> set vs" "i \<notin> set fs" using D(3,8) by auto
  have same: "before (vmas ?e x) (vmas ?e y) = before (vmas e x) (vmas e y)" if "x \<noteq> i" for x y
    using that by (simp add: before_def)
  have "sorted_wrt (\<lambda>x y. before (vmas ?e x) (vmas ?e y)) us" "sorted_wrt (\<lambda>x y. before (vmas ?e x) (vmas ?e y)) vs"
    using D(7) i same by (auto simp: sorted_wrt_append intro: sorted_wrt_mono_rel [rotated])
  moreover have "before (vmas ?e i) (vmas ?e k)" if "k \<in> set vs" for k using vs [OF that] that i by (auto simp: before_def)
  moreover have "before (vmas ?e u) (vmas ?e k)" if "u \<in> set us" "k \<in> set (i # vs)" for u k
    using that D(7) same [of u k] i by (auto simp: sorted_wrt_append)
  ultimately have so: "sorted_wrt (\<lambda>x y. before (vmas ?e x) (vmas ?e y)) (us @ i # vs)" by (auto simp: sorted_wrt_append)
  have lk: "vlink ?e = vlink e" by auto
  have "area_ok (vmas ?e k)" if "k \<in> set (us @ i # vs)" for k using D(6) [OF that] l by (auto simp: area_ok_def)
  then show ?thesis unfolding vma_ok_def lk using D(1-5) so i by auto
qed

lemma find_area_none:
  assumes "vma_ok e as fs"
  shows "find_area 0 0 e = Inr (if as = [] then alloc_vma_list e else Some (last as), None)"
proof -
  note D = vma_okD [OF assms]
  have "v_len (vmas e k) \<noteq> 0" if "k \<in> set as" for k using D(6) [OF that] by (auto simp: area_ok_def)
  then show ?thesis using seek_none [OF D(1), of "NVMA + 1" "\<lambda>c. v_va (vmas e c) = 0 \<and> v_len (vmas e c) = 0" "alloc_vma_list e"] D(10)
    by (auto simp: find_area_def)
qed

definition joined :: "nat \<Rightarrow> nat \<Rightarrow> 'z vma_space_scheme \<Rightarrow> 'z vma_space_scheme" where
  "joined i j e = vma_unlink i j (upd_vma i (\<lambda>v. v\<lparr>v_len := v_len v + v_len (vmas e j)\<rparr>) e)"

lemma mergeable_adjacent:
  assumes ok: "vma_ok e (us @ i # j # vs) fs" and m: "mergeable (vmas e i) (vmas e j)"
  shows "unat (v_va (vmas e j)) = unat (v_va (vmas e i)) + unat (v_len (vmas e i))"
  using vma_okD(6) [OF ok, of i] m by (auto simp: mergeable_def area_ok_def unat_word_ariths dest!: arg_cong [of _ _ unat])

lemma find_area_grown:
  assumes ok: "vma_ok e (us @ i # j # vs) fs" and m: "mergeable (vmas e i) (vmas e j)"
  shows "find_area (v_va (vmas e j)) (v_len (vmas e j)) (upd_vma i (\<lambda>v. v\<lparr>v_len := v_len v + v_len (vmas e j)\<rparr>) e) = Inr (Some i, Some j)"
proof -
  note D = vma_okD [OF ok]
  let ?e1 = "upd_vma i (\<lambda>v. v\<lparr>v_len := v_len v + v_len (vmas e j)\<rparr>) e"
  let ?P = "\<lambda>c. v_va (vmas ?e1 c) = v_va (vmas e j) \<and> v_len (vmas ?e1 c) = v_len (vmas e j)"
  have lk: "vlink ?e1 = vlink e" and ij: "i \<noteq> j" "i \<notin> set us" using D(8) by auto
  have "\<not> ?P u" if "u \<in> set us" for u
  proof -
    have "before (vmas e u) (vmas e j)" "area_ok (vmas e u)" "u \<noteq> i" using that D(6,7) ij by (auto simp: sorted_wrt_append)
    then show ?thesis by (auto simp: before_def area_ok_def)
  qed
  moreover have "\<not> ?P i" using mergeable_adjacent [OF ok m] D(6) [of i] by (auto simp: area_ok_def)
  ultimately have "seek (NVMA + 1) (vlink ?e1) ?P (alloc_vma_list ?e1) (alloc_vma_list ?e1) = Some (Some i, Some j)"
    unfolding lk using D(1,10) ij by (intro seek_hit_prev [of _ _ us i j vs]) auto
  then show ?thesis by (simp add: find_area_def)
qed

lemma joined_ok:
  assumes ok: "vma_ok e (us @ i # j # vs) fs" and m: "mergeable (vmas e i) (vmas e j)"
  shows "vma_ok (joined i j e) (us @ i # vs) (j # fs)" and "vma_space.more (joined i j e) = vma_space.more e"
    and "vmas (joined i j e) j = (blank (vmas e j))\<lparr>vma_link := free_vma_list e\<rparr>"
    and "area_kind (joined i j e) b = area_kind e b"
    and "v_va (vmas (joined i j e) i) = v_va (vmas e i)" "v_len (vmas (joined i j e) i) = v_len (vmas e i) + v_len (vmas e j)"
proof -
  note D = vma_okD [OF ok]
  let ?l = "v_len (vmas e i) + v_len (vmas e j)"
  have ij: "i \<noteq> j" "i \<notin> set us" "j \<notin> set us" "i \<notin> set vs" "j \<notin> set vs" using D(8) by auto
  have aok: "area_ok (vmas e i)" "area_ok (vmas e j)" using D(6) by auto
  have adj: "unat (v_va (vmas e j)) = unat (v_va (vmas e i)) + unat (v_len (vmas e i))" using mergeable_adjacent [OF ok m] .
  then have ul: "unat ?l = unat (v_len (vmas e i)) + unat (v_len (vmas e j))"
    using aok by (simp add: area_ok_def unat_word_ariths)
  have ok': "vma_ok e ((us @ [i]) @ j # vs) fs" using ok by simp
  note U = vma_unlink_ok [OF ok', of i, simplified]
  have eq: "joined i j e = upd_vma i (\<lambda>x. x\<lparr>v_len := ?l\<rparr>) (vma_unlink i j e)"
    using ij(1) by (auto simp: joined_def vma_unlink_def upd_vma_def Let_def fun_eq_iff)
  have ui: "v_va (vmas (vma_unlink i j e) k) = v_va (vmas e k)" "v_len (vmas (vma_unlink i j e) k) = v_len (vmas e k)"
      "v_type (vmas (vma_unlink i j e) k) = v_type (vmas e k)" "v_perm (vmas (vma_unlink i j e) k) = v_perm (vmas e k)" if "k \<noteq> j" for k
    using same_area [OF U(3) [OF that]] by auto
  have "unat (v_va (vmas e i)) + unat ?l \<le> unat (v_va (vmas (vma_unlink i j e) k))" if "k \<in> set vs" for k
  proof -
    have "k \<noteq> j" using ij that by auto
    then show ?thesis using D(7) that adj ul ui(1) by (auto simp: sorted_wrt_append before_def)
  qed
  then show okj: "vma_ok (joined i j e) (us @ i # vs) (j # fs)"
    unfolding eq using U(1) ui ij aok adj ul by (intro vma_grow_ok) (auto simp: area_ok_def)
  show "vma_space.more (joined i j e) = vma_space.more e" using U(2) by (simp add: eq)
  show "vmas (joined i j e) j = (blank (vmas e j))\<lparr>vma_link := free_vma_list e\<rparr>" using U(4) ij(1) by (simp add: eq)
  show f: "v_va (vmas (joined i j e) i) = v_va (vmas e i)" "v_len (vmas (joined i j e) i) = ?l" using ui [of i] ij(1) by (simp_all add: eq)
  show "area_kind (joined i j e) b = area_kind e b"
  proof (rule area_kind_cong [OF ok okj])
    fix k
    let ?K = "\<lambda>e x. inside b (vmas e x) \<and> k = (v_type (vmas e x), v_perm (vmas e x))"
    have other: "?K (joined i j e) x = ?K e x" if "x \<noteq> i" "x \<noteq> j" for x using that ui [of x] by (simp add: eq inside_def)
    have ty: "v_type (vmas e i) = v_type (vmas e j)" "v_perm (vmas e i) = v_perm (vmas e j)"
      using m aok by (cases "v_type (vmas e i)"; cases "v_type (vmas e j)"; auto simp: mergeable_def area_ok_def)+
    have "?K (joined i j e) i \<longleftrightarrow> ?K e i \<or> ?K e j"
      using f ui [of i] ij(1) adj ul ty by (auto simp: inside_def eq)
    moreover have "x \<noteq> i \<and> x \<noteq> j" if "x \<in> set us \<union> set vs" for x using that ij by auto
    ultimately have "(\<exists>x \<in> insert i (set us \<union> set vs). ?K (joined i j e) x) \<longleftrightarrow> (\<exists>x \<in> insert i (insert j (set us \<union> set vs)). ?K e x)"
      using other by (metis insert_iff)
    then show "(\<exists>x \<in> set (us @ i # vs). ?K (joined i j e) x) \<longleftrightarrow> (\<exists>x \<in> set (us @ i # j # vs). ?K e x)" by simp
  qed
qed

lemma merge_loop_skip:
  assumes "llist (vlink (envs s c)) (Some x) (x # ys @ zs)"
    and "successively (\<lambda>a b. \<not> mergeable (vmas (envs s c) a) (vmas (envs s c) b)) (x # ys)" and "length ys \<le> fuel"
  shows "vma_list_merge_loop fuel c x (vma_link (vmas (envs s c) x)) s =
    vma_list_merge_loop (fuel - length ys) c (last (x # ys)) (vma_link (vmas (envs s c) (last (x # ys)))) s"
  using assms
proof (induction ys arbitrary: x fuel)
  case (Cons y ys)
  then obtain n where n: "fuel = Suc n" by (cases fuel) auto
  have "vma_list_merge_loop fuel c x (vma_link (vmas (envs s c) x)) s = vma_list_merge_loop n c y (vma_link (vmas (envs s c) y)) s"
    using Cons.prems n by simp
  also have "\<dots> = vma_list_merge_loop (n - length ys) c (last (y # ys)) (vma_link (vmas (envs s c) (last (y # ys)))) s"
    using Cons.prems n by (intro Cons.IH) auto
  finally show ?case using n by simp
qed simp

lemma merge_loop_blank:
  assumes ok: "vma_ok (envs s c) as (j # f # fs)"
  shows "vma_list_merge_loop (Suc fuel) c j (vma_link (vmas (envs s c) j)) s = Inr (- 1, s)"
proof -
  note D = vma_okD [OF ok]
  have b: "blank_vma (vmas (envs s c) j)" "blank_vma (vmas (envs s c) f)" "vma_link (vmas (envs s c) j) = Some f" "j \<noteq> f"
    using D(2,5,9) by auto
  have none: "find_area 0 0 (envs s c) = (Inr (if as = [] then alloc_vma_list (envs s c) else Some (last as), None) :: kstate stop + _)"
    by (rule find_area_none [OF ok])
  have "upd_env c (\<lambda>x. upd_vma j (\<lambda>v. v\<lparr>v_len := v_len v + v_len (vmas x f)\<rparr>) x) s = s"
    using b by (simp add: upd_env_def upd_vma_def blank_vma_def fun_upd_idem)
  then have "vma_merge c j f s = Inr (- 1, s)"
    using b none by (simp add: vma_merge_def vma_remove_alloced_def Let_def blank_vma_def)
  moreover have "mergeable (vmas (envs s c) j) (vmas (envs s c) f)" using b by (simp add: mergeable_def blank_vma_def)
  ultimately show ?thesis using b by simp
qed

lemma vma_merge_joined:
  assumes ok: "vma_ok (envs s c) (us @ i # j # vs) fs" and m: "mergeable (vmas (envs s c) i) (vmas (envs s c) j)"
  shows "vma_merge c i j s = Inr (0, upd_env c (\<lambda>_. joined i j (envs s c)) s)"
proof -
  have "i \<noteq> j" using vma_okD(8) [OF ok] by auto
  moreover have "find_area (v_va (vmas (envs s c) j)) (v_len (vmas (envs s c) j))
      (upd_vma i (\<lambda>v. v\<lparr>v_len := v_len v + v_len (vmas (envs s c) j)\<rparr>) (envs s c)) = (Inr (Some i, Some j) :: kstate stop + _)"
    by (rule find_area_grown [OF ok m])
  ultimately show ?thesis
    by (simp add: vma_merge_def vma_remove_alloced_def Let_def joined_def) (simp add: upd_env_def)
qed

text \<open>
  \<open>vma_list_merge\<close> joins the first two adjacent areas with equal permissions into one and keeps the type and
  permissions of every address, but then reports failure and does not look further: the removed descriptor is
  on the free list, so the loop goes on there, takes two free descriptors for adjacent areas and fails to
  remove one.
\<close>

lemma vma_list_merge_first_pair:
  assumes ok: "vma_ok (envs s c) (us @ i # j # vs) (f # fs)" and m: "mergeable (vmas (envs s c) i) (vmas (envs s c) j)"
    and none: "successively (\<lambda>a b. \<not> mergeable (vmas (envs s c) a) (vmas (envs s c) b)) (us @ [i])"
  shows "\<exists>e. vma_list_merge (Some c) s = Inr (- 1, upd_env c (\<lambda>_. e) s) \<and> vma_ok e (us @ i # vs) (j # f # fs) \<and>
    v_va (vmas e i) = v_va (vmas (envs s c) i) \<and> v_len (vmas e i) = v_len (vmas (envs s c) i) + v_len (vmas (envs s c) j) \<and>
    (\<forall>b. area_kind e b = area_kind (envs s c) b)"
proof -
  note D = vma_okD [OF ok] and J = joined_ok [OF ok m]
  let ?e = "joined i j (envs s c)"
  obtain x ys where x: "us @ [i] = x # ys" by (cases us) auto
  then have ll: "llist (vlink (envs s c)) (Some x) (x # ys @ j # vs)" and hd: "alloc_vma_list (envs s c) = Some x"
    using D(1) by (cases us; auto)+
  have las: "last (x # ys) = i" using x by (metis last_snoc)
  have len: "length ys + 2 < NVMA"
  proof -
    have "length (us @ i # j # vs @ f # fs) \<le> NVMA"
      using distinct_bounded_length [of "us @ i # j # vs @ f # fs" NVMA] D(3,4,8,9) by auto
    moreover have "length ys = length us" using x by (metis length_append_singleton length_Cons nat.inject)
    ultimately show ?thesis by simp
  qed
  then obtain n where n: "NVMA - length ys = Suc (Suc n)" by (metis less_imp_Suc_add add_diff_cancel_left' add_Suc_right add_2_eq_Suc' add_Suc)
  have lj: "vma_link (vmas (envs s c) i) = Some j" using D(1) by (auto simp: llist_append)
  have "vma_list_merge (Some c) s = vma_list_merge_loop (Suc (Suc n)) c i (Some j) s"
    using merge_loop_skip [OF ll, of NVMA] none len hd n unfolding las x lj by (simp add: vma_list_merge_def)
  also have "\<dots> = vma_list_merge_loop (Suc n) c j (vma_link (vmas ?e j)) (upd_env c (\<lambda>_. ?e) s)"
    using m vma_merge_joined [OF ok m] by simp
  also have "\<dots> = Inr (- 1, upd_env c (\<lambda>_. ?e) s)"
    using merge_loop_blank [of "upd_env c (\<lambda>_. ?e) s" c] J(1) by simp
  finally show ?thesis using J by blast
qed


section \<open>Populating\<close>







section \<open>Removing pages\<close>

lemma lru_chains_env [simp]: "lru_chains (upd_env c f s) = lru_chains s"
  by (simp add: lru_chains_def)

lemma vm_only_upd_env: "vm_only s t \<Longrightarrow> vm_only (upd_env c f s) (upd_env c f t)"
  by (cases s; cases t) (simp add: vm_only_def upd_env_def)

lemma rd_pte_at: "pt s pg (pdx a) = Some f \<Longrightarrow> rd (f, ptx a) s = pte_at s pg (pdx a) (ptx a)"
  by (simp add: rd_def pte_at_def)

text \<open>
  The pages that the loop reaches from page \<open>i\<close> on: it stops at the first one without a page table.  Those of them that are
  present are removed.
\<close>

definition reached :: "kstate \<Rightarrow> nat \<Rightarrow> u32 \<Rightarrow> nat \<Rightarrow> nat \<Rightarrow> nat set" where
  "reached s pg va i n =
     {k. i \<le> k \<and> k < i + n \<and> (\<forall>j. i \<le> j \<and> j \<le> k \<longrightarrow> pt s pg (pdx (va + of_nat j * PGSIZE)) \<noteq> None)}"

definition victims :: "kstate \<Rightarrow> nat \<Rightarrow> u32 \<Rightarrow> nat \<Rightarrow> nat \<Rightarrow> nat set" where
  "victims s pg va i n = {k \<in> reached s pg va i n. vmap s pg (va + of_nat k * PGSIZE) \<noteq> None}"

lemma reached_bounds: "k \<in> reached s pg va i n \<Longrightarrow> i \<le> k \<and> k < i + n"
  by (simp add: reached_def)

lemma finite_victims [simp]: "finite (victims s pg va i n)"
  by (rule finite_subset [of _ "{i..<i + n}"]) (auto simp: victims_def reached_def)

lemma reached_0 [simp]: "reached s pg va i 0 = {}" "victims s pg va i 0 = {}"
  by (simp_all add: reached_def victims_def)

lemma reached_stop: "pt s pg (pdx (va + of_nat i * PGSIZE)) = None \<Longrightarrow> reached s pg va i n = {}"
  by (auto simp: reached_def)

lemma reached_Suc:
  assumes "pt s pg (pdx (va + of_nat i * PGSIZE)) \<noteq> None"
  shows "reached s pg va i (Suc n) = insert i (reached s pg va (Suc i) n)"
proof (rule set_eqI)
  fix k
  have "(\<forall>j. i \<le> j \<and> j \<le> k \<longrightarrow> pt s pg (pdx (va + of_nat j * PGSIZE)) \<noteq> None) \<longleftrightarrow>
      (\<forall>j. Suc i \<le> j \<and> j \<le> k \<longrightarrow> pt s pg (pdx (va + of_nat j * PGSIZE)) \<noteq> None)"
    using assms by (metis Suc_leD le_eq_less_or_eq Suc_le_eq)
  then show "k \<in> reached s pg va i (Suc n) \<longleftrightarrow> k \<in> insert i (reached s pg va (Suc i) n)"
    using assms by (auto simp: reached_def le_Suc_eq)
qed

lemma victims_Suc:
  assumes "pt s pg (pdx (va + of_nat i * PGSIZE)) \<noteq> None"
  shows "card (victims s pg va i (Suc n)) =
    (if vmap s pg (va + of_nat i * PGSIZE) \<noteq> None then 1 else 0) + card (victims s pg va (Suc i) n)"
proof -
  have "victims s pg va i (Suc n) =
      (if vmap s pg (va + of_nat i * PGSIZE) \<noteq> None then insert i (victims s pg va (Suc i) n) else victims s pg va (Suc i) n)"
    using reached_Suc [OF assms] by (auto simp: victims_def)
  moreover have "i \<notin> victims s pg va (Suc i) n" by (auto simp: victims_def reached_def)
  ultimately show ?thesis by simp
qed

lemma page_no_inj:
  assumes "same_page (va + of_nat i * PGSIZE) (va + of_nat k * PGSIZE)" "i < 1048576" "k < 1048576"
  shows "i = k"
proof -
  let ?a = "\<lambda>i. va + of_nat i * PGSIZE"
  have off: "unat (?a i) mod 4096 = unat va mod 4096" for i
    by (simp add: unat_word_ariths unat_of_nat take_bit_eq_mod mod_mod_cancel mod_simps)
  have "unat (?a i) div 4096 = unat (?a k) div 4096"
  proof -
    have parts: "unat x div 4096 = unat x div 4194304 mod 1024 * 1024 + unat x div 4096 mod 1024" for x :: u32
    proof -
      have "unat x div 4194304 = unat x div 4096 div 1024" by (simp add: div_mult2_eq)
      moreover have "unat x div 4194304 < 1024"
      proof -
        have "unat x < 1024 * 4194304" using unsigned_less [of x] by simp
        then show ?thesis by (rule less_mult_imp_div_less)
      qed
      ultimately show ?thesis by (metis div_mult_mod_eq mod_less)
    qed
    show ?thesis using assms(1) unfolding same_page_def pdx_ptx_div by (metis parts)
  qed
  then have "unat (?a i) = unat (?a k)" using off [of i] off [of k] by (metis div_mult_mod_eq)
  then have "?a i = ?a k" by (rule unsigned_word_eqI)
  then have "(of_nat i * PGSIZE :: u32) = of_nat k * PGSIZE" by (simp only: add_left_cancel)
  then have "unat (of_nat (i * 4096) :: u32) = unat (of_nat (k * 4096) :: u32)" by simp
  then show ?thesis using assms(2,3) unfolding unat_of_nat by (simp add: take_bit_nat_eq_self)
qed

text \<open>Removing one page leaves the later ones of the range as they are.\<close>

lemma victims_later:
  assumes "\<forall>d. pt u pg d = pt s pg d" and "\<And>b. pdx b < UDIRS \<Longrightarrow> vmap u pg b = (if same_page (va + of_nat i * PGSIZE) b then None else vmap s pg b)"
    and "Suc i + n \<le> 1048576" and "\<And>k. Suc i \<le> k \<Longrightarrow> k < Suc i + n \<Longrightarrow> pdx (va + of_nat k * PGSIZE) < UDIRS"
  shows "reached u pg va (Suc i) n = reached s pg va (Suc i) n" "victims u pg va (Suc i) n = victims s pg va (Suc i) n"
proof -
  show r: "reached u pg va (Suc i) n = reached s pg va (Suc i) n" using assms(1) by (simp add: reached_def)
  have "vmap u pg (va + of_nat k * PGSIZE) = vmap s pg (va + of_nat k * PGSIZE)" if "k \<in> reached s pg va (Suc i) n" for k
    using reached_bounds [OF that] assms(2) [of "va + of_nat k * PGSIZE"] assms(3,4) page_no_inj [of va i k] by auto
  then show "victims u pg va (Suc i) n = victims s pg va (Suc i) n" using r by (auto simp: victims_def)
qed

lemma remove_present:
  assumes wf: "wf_pgdir s pg xs" "lru_chains s" and d: "pdx a < UDIRS" and f: "pt s pg (pdx a) = Some f"
    and "vmap s pg a \<noteq> None"
  obtains u ys where "page_remove (Some pg) a s = Inr ((), u)" "lru_chains u" "wf_pgdir u pg ys" "\<forall>d'. pt u pg d' = pt s pg d'"
    "vm_only s u" "rd (f, ptx a) u = 0" "\<And>b. pdx b < UDIRS \<Longrightarrow> vmap u pg b = (if same_page a b then None else vmap s pg b)"
proof -
  have pte: "pte_at s pg (pdx a) (ptx a) AND PTE_P \<noteq> 0" using assms(5) vmap_present by fastforce
  obtain u ys where u: "page_remove (Some pg) a s = Inr ((), u)" "lru_chains u" "wf_pgdir u pg ys" "\<forall>d'. pt u pg d' = pt s pg d'"
      "\<forall>d' t. d' < UDIRS \<longrightarrow> pte_at u pg d' t = (if d' = pdx a \<and> t = ptx a then 0 else pte_at s pg d' t)"
    using page_remove_ok [OF wf(1) d pte refl wf(2)] by blast
  moreover have "vm_only s u" by (rule framedD [OF page_remove_framed [OF vm_only_refl] u(1)])
  moreover have "rd (f, ptx a) u = 0" using u(4,5) d f rd_pte_at [of u pg a f] by simp
  moreover have "vmap u pg b = (if same_page a b then None else vmap s pg b)" if "pdx b < UDIRS" for b
    using u(5) that by (auto simp: vmap_def same_page_def)
  ultimately show ?thesis using that by blast
qed

definition removed_from :: "kstate \<Rightarrow> nat \<Rightarrow> nat \<Rightarrow> u32 \<Rightarrow> nat \<Rightarrow> nat \<Rightarrow> kstate \<Rightarrow> bool" where
  "removed_from s e pg va i n t \<longleftrightarrow>
     (\<exists>ys. wf_pgdir t pg ys) \<and> lru_chains t \<and>
     vm_only (upd_env e (\<lambda>x. x\<lparr>env_alloc_pages := env_alloc_pages x - of_nat (card (victims s pg va i n))\<rparr>) s) t \<and>
     (\<forall>b. pdx b < UDIRS \<longrightarrow> vmap t pg b = (if \<exists>k \<in> reached s pg va i n. same_page (va + of_nat k * PGSIZE) b then None else vmap s pg b))"

lemma removed_from_absent:
  assumes d: "pt s pg (pdx (va + of_nat i * PGSIZE)) \<noteq> None" "vmap s pg (va + of_nat i * PGSIZE) = None"
    and t: "removed_from s e pg va (Suc i) n t"
  shows "removed_from s e pg va i (Suc n) t"
proof -
  have "vmap s pg b = None" if "same_page (va + of_nat i * PGSIZE) b" for b
    using d(2) that by (simp add: vmap_def same_page_def)
  then show ?thesis using t d victims_Suc [OF d(1), of n] reached_Suc [OF d(1), of n] by (auto simp: removed_from_def)
qed

lemma removed_from_present:
  assumes d: "pt s pg (pdx (va + of_nat i * PGSIZE)) \<noteq> None" "vmap s pg (va + of_nat i * PGSIZE) \<noteq> None"
    and u: "vm_only s u" "\<forall>d'. pt u pg d' = pt s pg d'"
      "\<And>b. pdx b < UDIRS \<Longrightarrow> vmap u pg b = (if same_page (va + of_nat i * PGSIZE) b then None else vmap s pg b)"
    and bound: "Suc i + n \<le> 1048576" "\<And>k. Suc i \<le> k \<Longrightarrow> k < Suc i + n \<Longrightarrow> pdx (va + of_nat k * PGSIZE) < UDIRS"
    and t: "removed_from (upd_env e (\<lambda>x. x\<lparr>env_alloc_pages := env_alloc_pages x - 1\<rparr>) u) e pg va (Suc i) n t"
  shows "removed_from s e pg va i (Suc n) t"
proof -
  let ?u = "upd_env e (\<lambda>x. x\<lparr>env_alloc_pages := env_alloc_pages x - 1\<rparr>) u"
  have same: "reached ?u pg va (Suc i) n = reached s pg va (Suc i) n" "victims ?u pg va (Suc i) n = victims s pg va (Suc i) n"
    using victims_later [of ?u pg s va i n] u(2,3) bound by auto
  let ?m = "card (victims s pg va (Suc i) n)"
  have eq: "upd_env e (\<lambda>x. x\<lparr>env_alloc_pages := env_alloc_pages x - of_nat ?m\<rparr>) ?u =
      upd_env e (\<lambda>x. x\<lparr>env_alloc_pages := env_alloc_pages x - of_nat (Suc ?m)\<rparr>) u"
    by (simp add: upd_env_def algebra_simps)
  have "vm_only (upd_env e (\<lambda>x. x\<lparr>env_alloc_pages := env_alloc_pages x - of_nat (Suc ?m)\<rparr>) s) t"
    using t unfolding removed_from_def same eq by (blast intro: vm_only_trans [OF vm_only_upd_env [OF u(1)]])
  moreover have "card (victims s pg va i (Suc n)) = Suc ?m" using victims_Suc [OF d(1)] d(2) by simp
  moreover have "vmap ?u pg b = (if same_page (va + of_nat i * PGSIZE) b then None else vmap s pg b)" if "pdx b < UDIRS" for b
    using u(3) [OF that] by simp
  ultimately show ?thesis using t reached_Suc [OF d(1), of n] unfolding removed_from_def same by auto
qed

text \<open>One round of the loop at a page with a page table.\<close>

lemma remove_loop_absent:
  assumes "wf_pgdir s pg xs" "env_pgdir (envs s e) = Some pg" "pdx (va + of_nat i * PGSIZE) < UDIRS"
    and f: "pt s pg (pdx (va + of_nat i * PGSIZE)) = Some f" "vmap s pg (va + of_nat i * PGSIZE) = None"
  shows "vma_remove_pages_loop (Suc n) i e va s = vma_remove_pages_loop n (Suc i) e va s"
  using walk_view [OF assms(1,3)] assms(2) f rd_pte_at [OF f(1)] by (simp add: vmap_def Let_def split: if_splits)

lemma remove_loop_present:
  assumes wf: "wf_pgdir s pg xs" "lru_chains s" and pg: "env_pgdir (envs s e) = Some pg"
    and d: "pdx (va + of_nat i * PGSIZE) < UDIRS"
    and f: "pt s pg (pdx (va + of_nat i * PGSIZE)) = Some f" "vmap s pg (va + of_nat i * PGSIZE) \<noteq> None"
  obtains u ys where "lru_chains u" "wf_pgdir u pg ys" "\<forall>d'. pt u pg d' = pt s pg d'" "vm_only s u"
    "\<And>b. pdx b < UDIRS \<Longrightarrow> vmap u pg b = (if same_page (va + of_nat i * PGSIZE) b then None else vmap s pg b)"
    "\<And>n. vma_remove_pages_loop (Suc n) i e va s =
       (if env_alloc_pages (envs s e) = 1 then Inl (AssertFail ''e->env_alloc_pages > 0'')
        else vma_remove_pages_loop n (Suc i) e va (upd_env e (\<lambda>x. x\<lparr>env_alloc_pages := env_alloc_pages x - 1\<rparr>) u))"
proof -
  let ?a = "va + of_nat i * PGSIZE"
  have walk: "pgdir_walk (Some pg) ?a 0 s = Inr (Some (f, ptx ?a), s)" using walk_view [OF wf(1) d] f by simp
  have present: "rd (f, ptx ?a) s AND PTE_P \<noteq> 0" using f(2) rd_pte_at [OF f(1)] by (simp add: vmap_def Let_def split: if_splits)
  obtain u ys where u: "page_remove (Some pg) ?a s = Inr ((), u)" "lru_chains u" "wf_pgdir u pg ys" "\<forall>d'. pt u pg d' = pt s pg d'"
    "vm_only s u" "rd (f, ptx ?a) u = 0" "\<And>b. pdx b < UDIRS \<Longrightarrow> vmap u pg b = (if same_page ?a b then None else vmap s pg b)"
    using remove_present [OF wf d f] by metis
  moreover have "vma_remove_pages_loop (Suc n) i e va s =
       (if env_alloc_pages (envs s e) = 1 then Inl (AssertFail ''e->env_alloc_pages > 0'')
        else vma_remove_pages_loop n (Suc i) e va (upd_env e (\<lambda>x. x\<lparr>env_alloc_pages := env_alloc_pages x - 1\<rparr>) u))" for n
    using walk pg present u(1,6) vm_onlyD(1) [OF u(5)] by (simp add: Let_def)
  ultimately show ?thesis using that by blast
qed

lemma pred_count:
  assumes "0 < (p :: u32)" "p \<noteq> 1"
  shows "unat (p - 1) = unat p - 1" "0 < p - 1"
proof -
  have p: "0 < unat p" "unat p \<noteq> 1" using assms word_eq_iff_unsigned [of p 1, where ?'a = nat] by (auto simp: word_less_nat_alt)
  then show e: "unat (p - 1) = unat p - 1" by (subst unat_sub) (simp_all add: word_le_nat_alt)
  show "0 < p - 1" using p by (simp add: word_less_nat_alt e)
qed

lemma vma_remove_pages_loop_ok:
  assumes "wf_pgdir s pg xs" "lru_chains s" "env_pgdir (envs s e) = Some pg" "0 < env_alloc_pages (envs s e)"
    and "i + n \<le> 1048576" "\<And>k. i \<le> k \<Longrightarrow> k < i + n \<Longrightarrow> pdx (va + of_nat k * PGSIZE) < UDIRS"
  shows "if card (victims s pg va i n) < unat (env_alloc_pages (envs s e))
    then \<exists>t. vma_remove_pages_loop n i e va s = Inr ((), t) \<and> removed_from s e pg va i n t
    else vma_remove_pages_loop n i e va s = Inl (AssertFail ''e->env_alloc_pages > 0'')"
  using assms
proof (induction n arbitrary: i s xs)
  case 0
  have "upd_env e (\<lambda>x. x\<lparr>env_alloc_pages := env_alloc_pages x - of_nat 0\<rparr>) s = s" by (simp add: upd_env_def)
  then show ?case using 0 by (auto simp: removed_from_def word_less_nat_alt)
next
  case (Suc n)
  let ?a = "va + of_nat i * PGSIZE" and ?p = "env_alloc_pages (envs s e)"
  have d: "pdx ?a < UDIRS" using Suc.prems(6) [of i] by simp
  have p: "0 < unat ?p" using Suc.prems(4) by (simp add: word_less_nat_alt)
  have later: "Suc i + n \<le> 1048576" "\<And>k. Suc i \<le> k \<Longrightarrow> k < Suc i + n \<Longrightarrow> pdx (va + of_nat k * PGSIZE) < UDIRS"
    using Suc.prems(5,6) by auto
  show ?case
  proof (cases "pt s pg (pdx ?a)")
    case None
    then have "vma_remove_pages_loop (Suc n) i e va s = Inr ((), s)"
      using walk_view [OF Suc.prems(1) d] Suc.prems(3) by simp
    moreover have "removed_from s e pg va i (Suc n) s"
      using reached_stop [OF None] Suc.prems(1,2) by (auto simp: removed_from_def victims_def upd_env_def)
    moreover have "victims s pg va i (Suc n) = {}" using reached_stop [OF None] by (simp add: victims_def)
    ultimately show ?thesis using p by simp
  next
    case (Some f)
    have f: "pt s pg (pdx ?a) \<noteq> None" using Some by simp
    note card = victims_Suc [OF f, of n]
    show ?thesis
    proof (cases "vmap s pg ?a = None")
      case True
      then show ?thesis
        using remove_loop_absent [OF Suc.prems(1,3) d Some True, of n] Suc.IH [OF Suc.prems(1-4) later] card
          removed_from_absent [OF f True] by (auto split: if_splits)
    next
      case False
      obtain u ys where u: "lru_chains u" "wf_pgdir u pg ys" "\<forall>d'. pt u pg d' = pt s pg d'" "vm_only s u"
        "\<And>b. pdx b < UDIRS \<Longrightarrow> vmap u pg b = (if same_page ?a b then None else vmap s pg b)"
        "\<And>n. vma_remove_pages_loop (Suc n) i e va s = (if ?p = 1 then Inl (AssertFail ''e->env_alloc_pages > 0'')
           else vma_remove_pages_loop n (Suc i) e va (upd_env e (\<lambda>x. x\<lparr>env_alloc_pages := env_alloc_pages x - 1\<rparr>) u))"
        by (rule remove_loop_present [OF Suc.prems(1-3) d Some False]) blast
      let ?u = "upd_env e (\<lambda>x. x\<lparr>env_alloc_pages := env_alloc_pages x - 1\<rparr>) u"
      have env: "envs u = envs s" using vm_onlyD(1) [OF u(4)] .
      note step = u(6) [of n]
      show ?thesis
      proof (cases "?p = 1")
        case True
        then show ?thesis using step card False by simp
      next
        case neq: False
        have cnt: "unat (?p - 1) = unat ?p - 1" "0 < ?p - 1"
          using Suc.prems(4) neq by (rule pred_count)+
        have same: "victims ?u pg va (Suc i) n = victims s pg va (Suc i) n"
          using victims_later [of ?u pg s va i n] u(3,5) later by auto
        have "if card (victims ?u pg va (Suc i) n) < unat (env_alloc_pages (envs ?u e))
            then \<exists>t. vma_remove_pages_loop n (Suc i) e va ?u = Inr ((), t) \<and> removed_from ?u e pg va (Suc i) n t
            else vma_remove_pages_loop n (Suc i) e va ?u = Inl (AssertFail ''e->env_alloc_pages > 0'')"
          using u(1,2) Suc.prems(3) cnt env later by (intro Suc.IH [of _ ys]) simp_all
        then show ?thesis using step card False neq cnt same env
            removed_from_present [OF f False u(4,3,5) later] by (auto split: if_splits)
      qed
    qed
  qed
qed

text \<open>
  C22: \<open>vma_remove_pages\<close> on a range of user addresses of an environment with at least one page to its account.  The loop
  reaches the pages of the range up to the first one that has no page table.  When fewer of these are present than the
  account holds, it unmaps exactly the pages it reaches, every other user address keeps its mapping, no
  other environment changes, and the account is lowered by exactly the number of pages that were present; otherwise the
  assertion that pages are left on the account fails.
\<close>

theorem vma_remove_pages_unmaps:
  assumes wf: "wf_pgdir s pg xs" "lru_chains s" and pg: "env_pgdir (envs s e) = Some pg" "0 < env_alloc_pages (envs s e)"
    and n: "n = unat (ROUNDUP sz PGSIZE div PGSIZE)"
    and user: "\<And>k. k < n \<Longrightarrow> pdx (va + of_nat k * PGSIZE) < UDIRS"
  shows "if card (victims s pg va 0 n) < unat (env_alloc_pages (envs s e))
    then \<exists>t ys. vma_remove_pages e va sz s = Inr ((), t) \<and> wf_pgdir t pg ys \<and>
      (\<forall>b. pdx b < UDIRS \<longrightarrow>
         vmap t pg b = (if \<exists>k \<in> reached s pg va 0 n. same_page (va + of_nat k * PGSIZE) b then None else vmap s pg b)) \<and>
      (\<forall>i. i \<noteq> e \<longrightarrow> envs t i = envs s i) \<and>
      envs t e = (envs s e)\<lparr>env_alloc_pages := env_alloc_pages (envs s e) - of_nat (card (victims s pg va 0 n))\<rparr>
    else vma_remove_pages e va sz s = Inl (AssertFail ''e->env_alloc_pages > 0'')"
proof -
  have "n \<le> 1048576"
  proof -
    have "unat (ROUNDUP sz PGSIZE) < 1048576 * 4096" using unsigned_less [of "ROUNDUP sz PGSIZE"] by simp
    then show ?thesis unfolding n unat_div by (simp add: less_mult_imp_div_less less_imp_le)
  qed
  then have L: "if card (victims s pg va 0 n) < unat (env_alloc_pages (envs s e))
      then \<exists>t. vma_remove_pages e va sz s = Inr ((), t) \<and> removed_from s e pg va 0 n t
      else vma_remove_pages e va sz s = Inl (AssertFail ''e->env_alloc_pages > 0'')"
    unfolding vma_remove_pages_def n [symmetric] by (intro vma_remove_pages_loop_ok [OF wf pg]) (simp_all add: user)
  show ?thesis
  proof (cases "card (victims s pg va 0 n) < unat (env_alloc_pages (envs s e))")
    case True
    then obtain t where t: "vma_remove_pages e va sz s = Inr ((), t)" "removed_from s e pg va 0 n t" using L by auto
    then have "envs t = envs (upd_env e (\<lambda>x. x\<lparr>env_alloc_pages := env_alloc_pages x - of_nat (card (victims s pg va 0 n))\<rparr>) s)"
      using vm_onlyD(1) unfolding removed_from_def by blast
    then show ?thesis using True t by (auto simp: removed_from_def)
  qed (use L in simp)
qed

theorem vma_remove_pages_unmaps_witness:
  "\<exists>t. vma_remove_pages 2 0x00800000 0x2000 (upd_env 2 (\<lambda>x. x\<lparr>env_alloc_pages := 5\<rparr>) sample_cow) = Inr ((), t) \<and>
     vmap t 1 0x00800010 = None"
proof -
  let ?s = "upd_env 2 (\<lambda>x. x\<lparr>env_alloc_pages := 5\<rparr>) sample_cow"
  have l: "lru_chains ?s" unfolding lru_chains_def by (intro exI [of _ "[]"]) (simp add: sample_cow_def sample_fault_def sample_k_def)
  have n: "2 = unat (ROUNDUP 0x2000 PGSIZE div PGSIZE :: u32)" by (simp add: ROUNDUP_def ROUNDDOWN_def)
  have e: "env_pgdir (envs ?s 2) = Some 1" "0 < env_alloc_pages (envs ?s 2)" "unat (env_alloc_pages (envs ?s 2)) = 5"
    by (simp_all add: sample_cow_def sample_fault_def blank_env_def)
  have d: "pdx (0x00800000 + of_nat k * PGSIZE) = 2" if "k < 2" for k
    using that by (cases "k = 0") (auto simp: less_2_cases_iff pdx_def PDX_def)
  have "card (victims ?s 1 0x00800000 0 2) \<le> card {0..<0 + 2 :: nat}"
    by (intro card_mono) (auto simp: victims_def reached_def)
  then have c: "card (victims ?s 1 0x00800000 0 2) < unat (env_alloc_pages (envs ?s 2))" using e(3) by simp
  have "pt ?s 1 2 \<noteq> None" by (simp add: sample_cow_view(1) del: One_nat_def)
  then have r: "0 \<in> reached ?s 1 0x00800000 0 2" using d [of 0] by (simp add: reached_def del: One_nat_def)
  have "pdx 0x00800010 < UDIRS" "same_page (0x00800000 + of_nat 0 * PGSIZE) 0x00800010"
    by (simp_all add: UDIRS_eq pdx_def PDX_def same_page_def ptx_def PTX_def)
  moreover have "wf_pgdir ?s 1 [3, 2]" using sample_cow_wf by simp
  moreover have "pdx (0x00800000 + of_nat k * PGSIZE) < UDIRS" if "k < 2" for k using d [OF that] by (simp add: UDIRS_eq)
  ultimately have "\<exists>t. vma_remove_pages 2 0x00800000 0x2000 ?s = Inr ((), t) \<and>
      (\<forall>b. pdx b < UDIRS \<longrightarrow>
         vmap t 1 b = (if \<exists>k \<in> reached ?s 1 0x00800000 0 2. same_page (0x00800000 + of_nat k * PGSIZE) b then None else vmap ?s 1 b))"
    using vma_remove_pages_unmaps [of ?s 1 "[3, 2]" 2 2 "0x2000" "0x00800000", OF _ l e(1,2) n] c by (simp only: if_True) blast
  then obtain t where t: "vma_remove_pages 2 0x00800000 0x2000 ?s = Inr ((), t)"
    "vmap t 1 0x00800010 = (if \<exists>k \<in> reached ?s 1 0x00800000 0 2. same_page (0x00800000 + of_nat k * PGSIZE) 0x00800010 then None else vmap ?s 1 0x00800010)"
    using \<open>pdx 0x00800010 < UDIRS\<close> by blast
  have "\<exists>k \<in> reached ?s 1 0x00800000 0 2. same_page (0x00800000 + of_nat k * PGSIZE) 0x00800010"
    using r \<open>same_page (0x00800000 + of_nat 0 * PGSIZE) 0x00800010\<close> by (rule bexI [rotated])
  then have "vmap t 1 0x00800010 = None" unfolding t(2) by (rule if_P)
  then show ?thesis using t(1) by blast
qed

end
