(* ===== verification/StringLib.thy ===== *)
theory StringLib
  imports Mmu
begin

text \<open>
  The string routines of \<^verbatim>\<open>lib/string.c\<close>, which the kernel and the user programs share, over a memory of
  bytes.  A pointer is a 32-bit word and 0 is the null pointer; a \<open>char\<close> is a byte.  A loop that runs to a
  terminating null character is a \<^theory_text>\<open>partial_function\<close>: \<open>None\<close> means that it does not end.  Signed
  arithmetic wraps around as the compiled code does.

  \<open>memset\<close> and \<open>memmove\<close> are the variants with string instructions, \<open>rep stos\<close> and \<open>rep movs\<close>, which are
  modelled instruction by instruction with the direction flag as the sign of the step.
\<close>

type_synonym bytes = "u32 \<Rightarrow> u8"

lemma unat_lt: "unat (x :: u32) < 4294967296"
  using unsigned_less [of x] by simp

lemma unat_plus: "unat (x :: u32) + unat y < 4294967296 \<Longrightarrow> unat (x + y) = unat x + unat y"
  by (simp add: unat_word_ariths)

section \<open>Strings\<close>

partial_function (option) strlen_loop :: "bytes \<Rightarrow> u32 \<Rightarrow> u32 \<Rightarrow> u32 option" where
  "strlen_loop m s n = (if m s = 0 then Some n else strlen_loop m (s + 1) (n + 1))"

definition strlen :: "u32 \<Rightarrow> bytes \<Rightarrow> u32 option" where
  "strlen s m = strlen_loop m s 0"

fun strnlen_loop :: "nat \<Rightarrow> bytes \<Rightarrow> u32 \<Rightarrow> u32 \<Rightarrow> u32" where
  "strnlen_loop 0 m s n = n"
| "strnlen_loop (Suc sz) m s n = (if m s = 0 then n else strnlen_loop sz m (s + 1) (n + 1))"

definition strnlen :: "u32 \<Rightarrow> u32 \<Rightarrow> bytes \<Rightarrow> u32" where
  "strnlen s sz m = strnlen_loop (unat sz) m s 0"

partial_function (option) strcpy_loop :: "u32 \<Rightarrow> u32 \<Rightarrow> bytes \<Rightarrow> bytes option" where
  "strcpy_loop dst src m =
     (let c = m src; m = m(dst := c) in if c = 0 then Some m else strcpy_loop (dst + 1) (src + 1) m)"

definition strcpy :: "u32 \<Rightarrow> u32 \<Rightarrow> bytes \<Rightarrow> (u32 \<times> bytes) option" where
  "strcpy dst src m = map_option (Pair dst) (strcpy_loop dst src m)"

definition strcat :: "u32 \<Rightarrow> u32 \<Rightarrow> bytes \<Rightarrow> (u32 \<times> bytes) option" where
  "strcat dst src m =
     Option.bind (strlen dst m) (\<lambda>len. map_option (\<lambda>(_, m). (dst, m)) (strcpy (dst + len) src m))"

fun strncpy_loop :: "nat \<Rightarrow> u32 \<Rightarrow> u32 \<Rightarrow> bytes \<Rightarrow> bytes" where
  "strncpy_loop 0 dst src m = m"
| "strncpy_loop (Suc n) dst src m =
     (let m = m(dst := m src) in strncpy_loop n (dst + 1) (if m src \<noteq> 0 then src + 1 else src) m)"

definition strncpy :: "u32 \<Rightarrow> u32 \<Rightarrow> u32 \<Rightarrow> bytes \<Rightarrow> u32 \<times> bytes" where
  "strncpy dst src sz m = (dst, strncpy_loop (unat sz) dst src m)"

text \<open>The loop \<open>while (--size > 0 && *src)\<close>, with \<open>n\<close> the size after the next decrement.\<close>

fun strlcpy_loop :: "nat \<Rightarrow> u32 \<Rightarrow> u32 \<Rightarrow> bytes \<Rightarrow> u32 \<times> bytes" where
  "strlcpy_loop 0 dst src m = (dst, m)"
| "strlcpy_loop (Suc n) dst src m =
     (if m src = 0 then (dst, m) else strlcpy_loop n (dst + 1) (src + 1) (m(dst := m src)))"

definition strlcpy :: "u32 \<Rightarrow> u32 \<Rightarrow> u32 \<Rightarrow> bytes \<Rightarrow> u32 \<times> bytes" where
  "strlcpy dst src sz m =
     (if 0 < sz then
        let (d, m) = strlcpy_loop (unat (sz - 1)) dst src m in (d - dst, m(d := 0))
      else (0, m))"

partial_function (option) strcmp :: "u32 \<Rightarrow> u32 \<Rightarrow> bytes \<Rightarrow> int option" where
  "strcmp p q m =
     (if m p \<noteq> 0 \<and> m p = m q then strcmp (p + 1) (q + 1) m else Some (uint (m p) - uint (m q)))"

fun strncmp_loop :: "nat \<Rightarrow> u32 \<Rightarrow> u32 \<Rightarrow> bytes \<Rightarrow> int" where
  "strncmp_loop 0 p q m = 0"
| "strncmp_loop (Suc n) p q m =
     (if m p \<noteq> 0 \<and> m p = m q then strncmp_loop n (p + 1) (q + 1) m else uint (m p) - uint (m q))"

definition strncmp :: "u32 \<Rightarrow> u32 \<Rightarrow> u32 \<Rightarrow> bytes \<Rightarrow> int" where
  "strncmp p q n m = strncmp_loop (unat n) p q m"

partial_function (option) strchr :: "u32 \<Rightarrow> u8 \<Rightarrow> bytes \<Rightarrow> u32 option" where
  "strchr s c m = (if m s = 0 then Some 0 else if m s = c then Some s else strchr (s + 1) c m)"

partial_function (option) strfind :: "u32 \<Rightarrow> u8 \<Rightarrow> bytes \<Rightarrow> u32 option" where
  "strfind s c m = (if m s = 0 \<or> m s = c then Some s else strfind (s + 1) c m)"

section \<open>Memory\<close>

definition get32 :: "u32 \<Rightarrow> bytes \<Rightarrow> u32" where
  "get32 a m = ucast (m a) OR push_bit 8 (ucast (m (a + 1))) OR push_bit 16 (ucast (m (a + 2))) OR push_bit 24 (ucast (m (a + 3)))"

definition put32 :: "u32 \<Rightarrow> u32 \<Rightarrow> bytes \<Rightarrow> bytes" where
  "put32 a w m = m(a := ucast w, a + 1 := ucast (drop_bit 8 w), a + 2 := ucast (drop_bit 16 w), a + 3 := ucast (drop_bit 24 w))"

fun stosb :: "nat \<Rightarrow> u32 \<Rightarrow> u32 \<Rightarrow> bytes \<Rightarrow> bytes" where
  "stosb 0 d a m = m"
| "stosb (Suc n) d a m = stosb n (d + 1) a (m(d := ucast a))"

fun stosl :: "nat \<Rightarrow> u32 \<Rightarrow> u32 \<Rightarrow> bytes \<Rightarrow> bytes" where
  "stosl 0 d a m = m"
| "stosl (Suc n) d a m = stosl n (d + 4) a (put32 d a m)"

definition memset :: "u32 \<Rightarrow> u32 \<Rightarrow> u32 \<Rightarrow> bytes \<Rightarrow> u32 \<times> bytes" where
  "memset v c n m =
     (if n = 0 then (v, m)
      else if v mod 4 = 0 \<and> n mod 4 = 0 then
        let c = c AND 0xFF;
            c = push_bit 24 c OR push_bit 16 c OR push_bit 8 c OR c in
        (v, stosl (unat (n div 4)) v c m)
      else (v, stosb (unat n) v c m))"

fun movsb :: "nat \<Rightarrow> u32 \<Rightarrow> u32 \<Rightarrow> u32 \<Rightarrow> bytes \<Rightarrow> bytes" where
  "movsb 0 d s step m = m"
| "movsb (Suc n) d s step m = movsb n (d + step) (s + step) step (m(d := m s))"

fun movsl :: "nat \<Rightarrow> u32 \<Rightarrow> u32 \<Rightarrow> u32 \<Rightarrow> bytes \<Rightarrow> bytes" where
  "movsl 0 d s step m = m"
| "movsl (Suc n) d s step m = movsl n (d + 4 * step) (s + 4 * step) step (put32 d (get32 s m) m)"

definition memmove :: "u32 \<Rightarrow> u32 \<Rightarrow> u32 \<Rightarrow> bytes \<Rightarrow> u32 \<times> bytes" where
  "memmove dst src n m =
     (if src < dst \<and> dst < src + n then
        let s = src + n; d = dst + n in
        if s mod 4 = 0 \<and> d mod 4 = 0 \<and> n mod 4 = 0
        then (dst, movsl (unat (n div 4)) (d - 4) (s - 4) (- 1) m)
        else (dst, movsb (unat n) (d - 1) (s - 1) (- 1) m)
      else
        if src mod 4 = 0 \<and> dst mod 4 = 0 \<and> n mod 4 = 0
        then (dst, movsl (unat (n div 4)) dst src 1 m)
        else (dst, movsb (unat n) dst src 1 m))"

definition memcpy :: "u32 \<Rightarrow> u32 \<Rightarrow> u32 \<Rightarrow> bytes \<Rightarrow> u32 \<times> bytes" where
  "memcpy dst src n m = memmove dst src n m"

fun memcmp_loop :: "nat \<Rightarrow> u32 \<Rightarrow> u32 \<Rightarrow> bytes \<Rightarrow> int" where
  "memcmp_loop 0 s1 s2 m = 0"
| "memcmp_loop (Suc n) s1 s2 m =
     (if m s1 \<noteq> m s2 then uint (m s1) - uint (m s2) else memcmp_loop n (s1 + 1) (s2 + 1) m)"

definition memcmp :: "u32 \<Rightarrow> u32 \<Rightarrow> u32 \<Rightarrow> bytes \<Rightarrow> int" where
  "memcmp v1 v2 n m = memcmp_loop (unat n) v1 v2 m"

function memfind_loop :: "u32 \<Rightarrow> u32 \<Rightarrow> u8 \<Rightarrow> bytes \<Rightarrow> u32" where
  "memfind_loop s ends c m = (if s < ends \<and> m s \<noteq> c then memfind_loop (s + 1) ends c m else s)"
  by auto
termination
proof (relation "measure (\<lambda>(s, ends, c, m). unat ends - unat s)")
  fix s ends :: u32 and c :: u8 and m :: bytes
  assume "s < ends \<and> m s \<noteq> c"
  then have "unat s < unat ends" by (simp add: word_less_nat_alt)
  moreover from this have "unat (s + 1) = unat s + 1" using unat_plus [of s 1] unat_lt [of ends] by simp
  ultimately show "((s + 1, ends, c, m), s, ends, c, m) \<in> measure (\<lambda>(s, ends, c, m). unat ends - unat s)" by simp
qed simp

definition memfind :: "u32 \<Rightarrow> u32 \<Rightarrow> u32 \<Rightarrow> bytes \<Rightarrow> u32" where
  "memfind s c n m = memfind_loop s (s + n) (ucast c) m"

section \<open>Numbers\<close>

partial_function (option) skip_blanks :: "u32 \<Rightarrow> bytes \<Rightarrow> u32 option" where
  "skip_blanks s m = (if m s = 0x20 \<or> m s = 0x09 then skip_blanks (s + 1) m else Some s)"

definition digit :: "u8 \<Rightarrow> u32 option" where
  "digit c =
     (if 0x30 \<le> c \<and> c \<le> 0x39 then Some (ucast c - 0x30)
      else if 0x61 \<le> c \<and> c \<le> 0x7A then Some (ucast c - 0x61 + 10)
      else if 0x41 \<le> c \<and> c \<le> 0x5A then Some (ucast c - 0x41 + 10)
      else None)"

partial_function (option) strtol_digits :: "u32 \<Rightarrow> u32 \<Rightarrow> u32 \<Rightarrow> bytes \<Rightarrow> (u32 \<times> u32) option" where
  "strtol_digits s val base m =
     (case digit (m s) of
        None \<Rightarrow> Some (val, s)
      | Some dig \<Rightarrow>
          if sint base \<le> sint dig then Some (val, s)
          else strtol_digits (s + 1) (val * base + dig) base m)"

text \<open>The result is the value and the pointer stored through \<open>endptr\<close>.\<close>

definition strtol :: "u32 \<Rightarrow> u32 \<Rightarrow> bytes \<Rightarrow> (u32 \<times> u32) option" where
  "strtol s base m =
     Option.bind (skip_blanks s m) (\<lambda>s.
     let (s, neg) = (if m s = 0x2B then (s + 1, False) else if m s = 0x2D then (s + 1, True) else (s, False));
         (s, base) = (if (base = 0 \<or> base = 16) \<and> m s = 0x30 \<and> m (s + 1) = 0x78 then (s + 2, 16)
                      else if base = 0 \<and> m s = 0x30 then (s + 1, 8)
                      else if base = 0 then (s, 10) else (s, base)) in
     map_option (\<lambda>(val, e). (if neg then - val else val, e)) (strtol_digits s 0 base m))"

section \<open>Copying memory\<close>

text \<open>\<open>n\<close> bytes from \<open>s\<close> have been copied to \<open>d\<close>, as they were before.\<close>

definition copied :: "u32 \<Rightarrow> u32 \<Rightarrow> nat \<Rightarrow> bytes \<Rightarrow> bytes \<Rightarrow> bool" where
  "copied d s n m m' \<longleftrightarrow> (\<forall>a. m' a = (if unat d \<le> unat a \<and> unat a < unat d + n then m (s + (a - d)) else m a))"

lemma copied_0 [simp]: "copied d s 0 m m"
  by (auto simp: copied_def)

lemma copiedD: "copied d s n m m' \<Longrightarrow> m' a = (if unat d \<le> unat a \<and> unat a < unat d + n then m (s + (a - d)) else m a)"
  by (simp add: copied_def)

lemma unat_minus: "unat y \<le> unat x \<Longrightarrow> unat (x - y :: u32) = unat x - unat y"
  by (simp add: unat_sub word_le_nat_alt)

lemma in_source:
  fixes a d s :: u32
  assumes "unat d \<le> unat a" "unat a < unat d + n" "unat s + n \<le> 4294967296"
  shows "unat (s + (a - d)) = unat s + (unat a - unat d)"
proof -
  have "unat (a - d) = unat a - unat d" using assms(1) by (rule unat_minus)
  then show ?thesis using assms by (subst unat_plus) auto
qed

lemma copied_byte: "copied d s 1 m (m(d := m s))"
proof -
  have "a = d" if "unat d \<le> unat a" "unat a < unat d + 1" for a using that by (intro word_unat_eq_iff [THEN iffD2]) simp
  then show ?thesis by (auto simp: copied_def)
qed

lemma byte_of_get32:
  "ucast (get32 a m) = m a" "ucast (drop_bit 8 (get32 a m)) = m (a + 1)"
  "ucast (drop_bit 16 (get32 a m)) = m (a + 2)" "ucast (drop_bit 24 (get32 a m)) = m (a + 3)"
  by (rule bit_word_eqI; auto simp: get32_def bit_ucast_iff bit_or_iff bit_push_bit_iff bit_drop_bit_eq dest: bit_imp_le_length)+

lemma copied_dword:
  assumes "unat d + 4 \<le> 4294967296"
  shows "copied d s 4 m (put32 d (get32 s m) m)"
proof -
  have "a - d = 0 \<or> a - d = 1 \<or> a - d = 2 \<or> a - d = 3" if "unat d \<le> unat a" "unat a < unat d + 4" for a
  proof -
    have "unat (a - d) < 4" using that unat_minus [OF that(1)] by simp
    then have "unat (a - d) \<in> {0, 1, 2, 3}" by auto
    then show ?thesis by (auto simp: word_unat_eq_iff)
  qed
  then have "a = d \<or> a = d + 1 \<or> a = d + 2 \<or> a = d + 3" if "unat d \<le> unat a" "unat a < unat d + 4" for a
    using that by (metis add.commute diff_eq_eq add_0)
  moreover have "unat (d + k) = unat d + unat k" if "unat k < 4" for k using that assms by (intro unat_plus) simp
  from this [of 1] this [of 2] this [of 3] have "unat (d + 1) = unat d + 1" "unat (d + 2) = unat d + 2" "unat (d + 3) = unat d + 3" by simp_all
  ultimately show ?thesis
    unfolding copied_def put32_def byte_of_get32 by (auto simp: algebra_simps)
qed

lemma copied_forward:
  assumes 1: "copied d s k m m1" and 2: "copied (d + of_nat k) (s + of_nat k) n m1 m2"
    and w: "unat d + (k + n) \<le> 4294967296" "unat s + (k + n) \<le> 4294967296" and dir: "unat d \<le> unat s \<or> unat s + (k + n) \<le> unat d"
  shows "copied d s (k + n) m m2"
proof (cases "n = 0")
  case True
  then show ?thesis using 1 2 by (auto simp: copied_def)
next
  case False
  have "unat (of_nat k :: u32) = k" using w False by (simp add: unat_of_nat)
  then have dk: "unat (d + of_nat k) = unat d + k" using w False by (subst unat_plus) auto
  have "m2 a = (if unat d \<le> unat a \<and> unat a < unat d + (k + n) then m (s + (a - d)) else m a)" for a
  proof (cases "unat d + k \<le> unat a \<and> unat a < unat d + (k + n)")
    case True
    then have "unat (s + (a - d)) = unat s + (unat a - unat d)" using w by (intro in_source [of _ _ "k + n"]) auto
    then have "m1 (s + (a - d)) = m (s + (a - d))" using copiedD [OF 1] True dir by auto
    moreover have "m2 a = m1 (s + (a - d))" using copiedD [OF 2, of a] True dk by (simp add: algebra_simps)
    ultimately show ?thesis using True by auto
  next
    case False
    then have "m2 a = m1 a" using copiedD [OF 2, of a] dk by auto
    then show ?thesis using copiedD [OF 1, of a] False by auto
  qed
  then show ?thesis by (simp add: copied_def)
qed

lemma copied_backward:
  assumes 1: "copied (d + of_nat n) (s + of_nat n) k m m1" and 2: "copied d s n m1 m2"
    and w: "unat d + (n + k) \<le> 4294967296" "unat s < unat d" "0 < k"
  shows "copied d s (n + k) m m2"
proof -
  have "unat (of_nat n :: u32) = n" using w by (simp add: unat_of_nat)
  then have dn: "unat (d + of_nat n) = unat d + n" using w by (subst unat_plus) auto
  have "m2 a = (if unat d \<le> unat a \<and> unat a < unat d + (n + k) then m (s + (a - d)) else m a)" for a
  proof (cases "unat d \<le> unat a \<and> unat a < unat d + n")
    case True
    then have "unat (s + (a - d)) = unat s + (unat a - unat d)" using w by (intro in_source [of _ _ n]) auto
    then have "m1 (s + (a - d)) = m (s + (a - d))" using copiedD [OF 1] True dn w(2) by auto
    then show ?thesis using copiedD [OF 2, of a] True by auto
  next
    case False
    then have "m2 a = m1 a" using copiedD [OF 2, of a] by auto
    then show ?thesis using copiedD [OF 1, of a] False dn by (auto simp: algebra_simps)
  qed
  then show ?thesis by (simp add: copied_def)
qed

lemma movsb_forward:
  "unat d + n \<le> 4294967296 \<Longrightarrow> unat s + n \<le> 4294967296 \<Longrightarrow> unat d \<le> unat s \<or> unat s + n \<le> unat d \<Longrightarrow> copied d s n m (movsb n d s 1 m)"
proof (induction n arbitrary: d s m)
  case (Suc n)
  show ?case
  proof (cases "n = 0")
    case True
    then show ?thesis using copied_byte [of d s m] by (simp del: fun_upd_apply)
  next
    case False
    then have u: "unat (d + 1) = unat d + 1" "unat (s + 1) = unat s + 1" using Suc.prems(1,2) by (subst unat_plus; simp)+
    then have "copied (d + 1) (s + 1) n (m(d := m s)) (movsb n (d + 1) (s + 1) 1 (m(d := m s)))" using Suc.prems by (intro Suc.IH) auto
    then have "copied d s (1 + n) m (movsb n (d + 1) (s + 1) 1 (m(d := m s)))"
      using Suc.prems by (intro copied_forward [OF copied_byte]) auto
    then show ?thesis by simp
  qed
qed simp

lemma movsl_forward:
  "unat d + 4 * n \<le> 4294967296 \<Longrightarrow> unat s + 4 * n \<le> 4294967296 \<Longrightarrow> unat d \<le> unat s \<or> unat s + 4 * n \<le> unat d \<Longrightarrow>
    copied d s (4 * n) m (movsl n d s 1 m)"
proof (induction n arbitrary: d s m)
  case (Suc n)
  have one: "copied d s 4 m (put32 d (get32 s m) m)" using Suc.prems(1) by (intro copied_dword) simp
  show ?case
  proof (cases "n = 0")
    case True
    then show ?thesis using one by simp
  next
    case False
    then have u: "unat (d + 4) = unat d + 4" "unat (s + 4) = unat s + 4" using Suc.prems(1,2) by (subst unat_plus; simp)+
    then have "copied (d + 4) (s + 4) (4 * n) (put32 d (get32 s m) m) (movsl n (d + 4) (s + 4) 1 (put32 d (get32 s m) m))"
      using Suc.prems by (intro Suc.IH) auto
    then have "copied d s (4 + 4 * n) m (movsl n (d + 4) (s + 4) 1 (put32 d (get32 s m) m))"
      using Suc.prems by (intro copied_forward [OF one]) auto
    then show ?thesis by simp
  qed
qed simp

lemma movsb_backward:
  "unat d + n \<le> 4294967296 \<Longrightarrow> unat s < unat d \<Longrightarrow> copied d s n m (movsb n (d + of_nat n - 1) (s + of_nat n - 1) (- 1) m)"
proof (induction n arbitrary: m)
  case (Suc n)
  have "copied d s n (m(d + of_nat n := m (s + of_nat n))) (movsb n (d + of_nat n - 1) (s + of_nat n - 1) (- 1) (m(d + of_nat n := m (s + of_nat n))))"
    using Suc.prems by (intro Suc.IH) auto
  then have "copied d s (n + 1) m (movsb n (d + of_nat n - 1) (s + of_nat n - 1) (- 1) (m(d + of_nat n := m (s + of_nat n))))"
    using Suc.prems by (intro copied_backward [OF copied_byte]) auto
  then show ?case by (simp add: algebra_simps)
qed simp

lemma movsl_backward:
  "unat d + 4 * n \<le> 4294967296 \<Longrightarrow> unat s < unat d \<Longrightarrow>
     copied d s (4 * n) m (movsl n (d + of_nat (4 * n) - 4) (s + of_nat (4 * n) - 4) (- 1) m)"
proof (induction n arbitrary: m)
  case (Suc n)
  let ?d = "d + of_nat (4 * n)" and ?s = "s + of_nat (4 * n)"
  have "unat (of_nat (4 * n) :: u32) = 4 * n" using Suc.prems unfolding unat_of_nat by simp
  then have "unat ?d = unat d + 4 * n" using Suc.prems by (subst unat_plus) auto
  then have one: "copied ?d ?s 4 m (put32 ?d (get32 ?s m) m)" using Suc.prems by (intro copied_dword) simp
  have "copied d s (4 * n) (put32 ?d (get32 ?s m) m) (movsl n (?d - 4) (?s - 4) (- 1) (put32 ?d (get32 ?s m) m))"
    using Suc.prems by (intro Suc.IH) auto
  then have "copied d s (4 * n + 4) m (movsl n (?d - 4) (?s - 4) (- 1) (put32 ?d (get32 ?s m) m))"
    using Suc.prems by (intro copied_backward [OF one]) auto
  then show ?case by (simp add: algebra_simps)
qed simp

lemma memmove_copied:
  assumes w: "unat src + unat n \<le> 4294967295" "unat dst + unat n \<le> 4294967295"
  shows "copied dst src (unat n) m (snd (memmove dst src n m))"
proof -
  have un: "of_nat (unat n) = n" by simp
  have u: "unat (src + n) = unat src + unat n" using w by (intro unat_plus) simp
  have lt: "src < dst \<and> dst < src + n \<longleftrightarrow> unat src < unat dst \<and> unat dst < unat src + unat n" using u by (simp add: word_less_nat_alt)
  have q: "4 * unat (n div 4) = unat n" if "n mod 4 = 0"
  proof -
    have "unat n mod 4 = 0" using arg_cong [OF that, of unat] by (simp add: unat_mod)
    then show ?thesis using mult_div_mod_eq [of 4 "unat n"] by (simp add: unat_div)
  qed
  show ?thesis
  proof (cases "src < dst \<and> dst < src + n")
    case True
    then have s: "unat src < unat dst" using lt by simp
    have "copied dst src (unat n) m (movsl (unat (n div 4)) (dst + n - 4) (src + n - 4) (- 1) m)" if "n mod 4 = 0"
      using movsl_backward [of dst "unat (n div 4)" src m, unfolded q [OF that] un] w s by simp
    moreover have "copied dst src (unat n) m (movsb (unat n) (dst + n - 1) (src + n - 1) (- 1) m)"
      using movsb_backward [of dst "unat n" src m, unfolded un] w s by simp
    ultimately show ?thesis using True by (simp add: memmove_def Let_def)
  next
    case False
    then have s: "unat dst \<le> unat src \<or> unat src + unat n \<le> unat dst" using lt by auto
    have "copied dst src (unat n) m (movsl (unat (n div 4)) dst src 1 m)" if "n mod 4 = 0"
      using movsl_forward [of dst "unat (n div 4)" src m, unfolded q [OF that]] w s by simp
    then show ?thesis unfolding memmove_def if_not_P [OF False] using movsb_forward [of dst "unat n" src m] w s by simp
  qed
qed

text \<open>
  C18: \<open>memmove\<close> returns its first argument, and afterwards every byte of the destination is the byte that the
  corresponding place of the source held before, whatever the overlap, the direction or the unit of the copy; every
  other byte of the memory keeps its value.
\<close>

theorem memmove_moves:
  assumes w: "unat src + unat n \<le> 4294967295" "unat dst + unat n \<le> 4294967295"
  shows "fst (memmove dst src n m) = dst \<and>
    snd (memmove dst src n m) a = (if unat dst \<le> unat a \<and> unat a < unat dst + unat n then m (src + (a - dst)) else m a)"
  using memmove_copied [OF w] copiedD by (auto simp: memmove_def Let_def)

theorem memmove_moves_witness:
  "snd (memmove 0x1003 0x1000 8 (\<lambda>a. ucast a)) 0x1005 = 0x02"
  using memmove_moves [of "0x1000" 8 "0x1003" "\<lambda>a. ucast a" "0x1005"] by simp

section \<open>Strings in memory\<close>

fun cstr :: "bytes \<Rightarrow> u32 \<Rightarrow> u8 list \<Rightarrow> bool" where
  "cstr m s [] \<longleftrightarrow> m s = 0"
| "cstr m s (c # cs) \<longleftrightarrow> m s = c \<and> c \<noteq> 0 \<and> cstr m (s + 1) cs"

lemma strlen_loop_ok: "cstr m s cs \<Longrightarrow> strlen_loop m s n = Some (n + of_nat (length cs))"
  by (induction cs arbitrary: s n) (simp_all add: strlen_loop.simps algebra_simps)

lemma strlen_ok: "cstr m s cs \<Longrightarrow> strlen s m = Some (of_nat (length cs))"
  by (simp add: strlen_def strlen_loop_ok)

lemma strnlen_loop_ok: "cstr m s cs \<Longrightarrow> strnlen_loop k m s n = n + of_nat (min k (length cs))"
proof (induction k arbitrary: s n cs)
  case (Suc k)
  then show ?case by (cases cs) (auto simp: algebra_simps)
qed simp

text \<open>The memory outside an interval is the same.\<close>

definition same_outside :: "u32 \<Rightarrow> nat \<Rightarrow> bytes \<Rightarrow> bytes \<Rightarrow> bool" where
  "same_outside d n m m' \<longleftrightarrow> (\<forall>a. \<not> (unat d \<le> unat a \<and> unat a < unat d + n) \<longrightarrow> m' a = m a)"

lemma cstr_outside:
  assumes "cstr m s cs" and "same_outside d n m m'" and "unat s + length cs < 4294967296"
    and "unat s + length cs < unat d \<or> unat d + n \<le> unat s"
  shows "cstr m' s cs"
  using assms
proof (induction cs arbitrary: s)
  case Nil
  then show ?case by (auto simp: same_outside_def)
next
  case (Cons c cs)
  have "unat (s + 1) = unat s + 1" using Cons.prems(3) by (subst unat_plus) auto
  then have "cstr m' (s + 1) cs" using Cons.prems by (intro Cons.IH) auto
  moreover have "m' s = m s" using Cons.prems by (auto simp: same_outside_def)
  ultimately show ?case using Cons.prems by simp
qed

lemma strlcpy_loop_ok:
  assumes "cstr m src cs" "unat src + length cs < 4294967296" "unat dst + n < 4294967296"
    and "unat src + length cs < unat dst \<or> unat dst + n < unat src"
  shows "\<exists>m'. strlcpy_loop n dst src m = (dst + of_nat (min n (length cs)), m') \<and> same_outside dst (min n (length cs)) m m' \<and>
    cstr (m'(dst + of_nat (min n (length cs)) := 0)) dst (take n cs)"
  using assms
proof (induction n arbitrary: dst src m cs)
  case 0
  then show ?case by (auto simp: same_outside_def)
next
  case (Suc n)
  show ?case
  proof (cases cs)
    case Nil
    then show ?thesis using Suc.prems by (auto simp: same_outside_def)
  next
    case (Cons c ds)
    let ?m = "m(dst := m src)" and ?k = "min n (length ds)"
    have us: "unat (src + 1) = unat src + 1" using Suc.prems(2) Cons by (subst unat_plus) auto
    have ud: "unat (dst + 1) = unat dst + 1" using Suc.prems(3) by (subst unat_plus) auto
    have p: "cstr ?m (src + 1) ds"
      by (rule cstr_outside [of m _ _ dst 1]) (use Suc.prems Cons us in \<open>auto simp: same_outside_def\<close>)
    have r: "unat (src + 1) + length ds < 4294967296" "unat (dst + 1) + n < 4294967296"
        "unat (src + 1) + length ds < unat (dst + 1) \<or> unat (dst + 1) + n < unat (src + 1)"
      using Suc.prems(2-4) Cons us ud by auto
    obtain m' where m': "strlcpy_loop n (dst + 1) (src + 1) ?m = (dst + 1 + of_nat ?k, m')" "same_outside (dst + 1) ?k ?m m'"
        "cstr (m'(dst + 1 + of_nat ?k := 0)) (dst + 1) (take n ds)"
      using Suc.IH [OF p r] by blast
    have k: "unat (of_nat ?k :: u32) = ?k" "unat (dst + 1 + of_nat ?k) = unat dst + 1 + ?k"
    proof -
      show "unat (of_nat ?k :: u32) = ?k" using Suc.prems(3) unfolding unat_of_nat by (simp add: min_def)
      then show "unat (dst + 1 + of_nat ?k) = unat dst + 1 + ?k" using ud Suc.prems(3) by (subst unat_plus) auto
    qed
    have eq: "dst + of_nat (min (Suc n) (length cs)) = dst + 1 + of_nat ?k" using Cons by (simp add: algebra_simps)
    have "m' dst = m src" using m'(2) ud by (auto simp: same_outside_def)
    moreover have "dst \<noteq> dst + 1 + of_nat ?k" using k(2) by (metis add_leD1 add_le_same_cancel1 not_one_le_zero order_refl)
    ultimately have "cstr (m'(dst + 1 + of_nat ?k := 0)) dst (take (Suc n) cs)" using m'(3) Suc.prems(1) Cons by auto
    moreover have "same_outside dst (min (Suc n) (length cs)) m m'"
      using m'(2) ud Cons by (auto simp: same_outside_def)
    moreover have "strlcpy_loop (Suc n) dst src m = (dst + 1 + of_nat ?k, m')" using m'(1) Suc.prems(1) Cons by auto
    ultimately show ?thesis unfolding eq by blast
  qed
qed

text \<open>
  A string that does not fit is cut off after \<open>sz - 1\<close> characters and still terminated, the result is the length
  of the copy, and nothing is written outside the \<open>sz\<close> bytes of the destination.
\<close>

lemma strlcpy_truncates:
  assumes s: "cstr m src cs" "unat src + length cs < 4294967296" and d: "0 < sz" "unat dst + unat sz \<le> 4294967296"
    and ap: "unat src + length cs < unat dst \<or> unat dst + unat sz \<le> unat src"
  shows "\<exists>m'. strlcpy dst src sz m = (of_nat (min (unat sz - 1) (length cs)), m') \<and>
    cstr m' dst (take (unat sz - 1) cs) \<and> same_outside dst (unat sz) m m'"
proof -
  have pos: "0 < unat sz" using d(1) by (simp add: word_less_nat_alt)
  then have us: "unat (sz - 1) = unat sz - 1" by (subst unat_minus) simp_all
  let ?k = "min (unat sz - 1) (length cs)"
  obtain m' where m': "strlcpy_loop (unat sz - 1) dst src m = (dst + of_nat ?k, m')" "same_outside dst ?k m m'"
      "cstr (m'(dst + of_nat ?k := 0)) dst (take (unat sz - 1) cs)"
    using strlcpy_loop_ok [OF s, of dst "unat sz - 1"] d(2) ap pos by fastforce
  have "unat (of_nat ?k :: u32) = ?k" using unat_lt [of sz] unfolding unat_of_nat by (simp add: min_def)
  then have "unat (dst + of_nat ?k) = unat dst + ?k" using d(2) pos by (subst unat_plus) auto
  then have "same_outside dst (unat sz) m (m'(dst + of_nat ?k := 0))"
    using m'(2) pos by (auto simp: same_outside_def)
  then show ?thesis using m' d(1) us by (simp add: strlcpy_def)
qed

text \<open>On strings that end, the sign of the result is the lexicographic order.\<close>

lemma strcmp_ok:
  "cstr m p cs \<Longrightarrow> cstr m q ds \<Longrightarrow>
     \<exists>r. strcmp p q m = Some r \<and> (r = 0 \<longleftrightarrow> cs = ds) \<and> (r < 0 \<longleftrightarrow> ord_class.lexordp cs ds)"
proof (induction cs arbitrary: p q ds)
  case Nil
  have "0 < uint x" if "x \<noteq> 0" for x :: u8 using that uint_0_iff [of x] uint_ge_0 [of x] by linarith
  then show ?case using Nil by (cases ds) (auto simp: strcmp.simps uint_0_iff)
next
  case (Cons c cs)
  note IH = Cons.IH and P = Cons.prems
  show ?case
  proof (cases ds)
    case Nil
    then show ?thesis using P unsigned_greater_eq [of c] by (auto simp: strcmp.simps uint_0_iff)
  next
    case (Cons e es)
    show ?thesis
    proof (cases "c = e")
      case True
      then have "strcmp p q m = strcmp (p + 1) (q + 1) m" using P Cons by (subst strcmp.simps) simp
      then show ?thesis using IH [of "p + 1" "q + 1" es] P Cons True by simp
    next
      case False
      then have "strcmp p q m = Some (uint c - uint e)" using P Cons by (subst strcmp.simps) simp
      moreover have "uint c \<noteq> uint e" using False by (simp add: word_uint_eq_iff)
      ultimately show ?thesis using False Cons by (auto simp: word_less_def)
    qed
  qed
qed

end
