(* ===== verification/Printf.thy ===== *)
theory Printf
  imports Console KState StringLib
begin

text \<open>
  Formatted output: \<^verbatim>\<open>lib/printfmt.c\<close>, which interprets a format and hands every character to a callback
  \<open>putch\<close>, and its three users: \<open>snprintf\<close>, which stores the characters in a buffer, the kernel's \<open>cprintf\<close>
  (\<^verbatim>\<open>kern/printf.c\<close>), which writes them to the console, and the \<open>cprintf\<close> of user programs
  (\<^verbatim>\<open>lib/printf.c\<close>), which collects them and calls \<open>sys_cputs\<close>.

  The callback is a function on its own data, the \<open>putdat\<close> of the code; \<open>mem\<close> reads the memory that goes with the
  data, since a callback may write to it.  A pointer to characters is an address or a place in a string literal,
  which the compiler puts at an address of its own choice.  The variable arguments are a list of 32-bit words, an
  argument of type \<open>long long\<close> takes two of them, and reading more arguments than there are stops with
  \<open>OutOfBounds\<close>.  The loops over the format are bounded by fuel, one unit for each character read.
  The call of \<open>printfmt\<close> with the format \<open>%s\<close> for a known error code is the printing of that string without flags.
\<close>

datatype cptr = At u32 | Lit string nat

fun deref :: "bytes \<Rightarrow> cptr \<Rightarrow> u8" where
  "deref m (At a) = m a"
| "deref m (Lit cs i) = (if i < length cs then of_char (cs ! i) else 0)"

fun fwd :: "cptr \<Rightarrow> cptr" where
  "fwd (At a) = At (a + 1)"
| "fwd (Lit cs i) = Lit cs (i + 1)"

fun bwd :: "cptr \<Rightarrow> cptr" where
  "bwd (At a) = At (a - 1)"
| "bwd (Lit cs i) = Lit cs (i - 1)"

text \<open>The bytes from a pointer on, as a memory that starts at 0.\<close>

fun from_ptr :: "bytes \<Rightarrow> cptr \<Rightarrow> bytes" where
  "from_ptr m (At a) = (\<lambda>i. m (a + i))"
| "from_ptr m (Lit cs i) = (\<lambda>j. deref m (Lit cs (i + unat j)))"

type_synonym ('d, 's) putch = "u32 \<Rightarrow> 'd \<Rightarrow> 's stop + 'd"

section \<open>Numbers\<close>

definition hexdigit :: "u64 \<Rightarrow> u32" where
  "hexdigit d = of_char (''0123456789abcdef'' ! unat d)"

fun put_times :: "('d, 's) putch \<Rightarrow> nat \<Rightarrow> u32 \<Rightarrow> 'd \<Rightarrow> 's stop + 'd" where
  "put_times put 0 c d = Inr d"
| "put_times put (Suc n) c d = rbind (put c d) (put_times put n c)"

lemma unat_ucast64 [simp]: "unat (ucast (x :: u32) :: u64) = unat x"
  using unat_lt [of x] by (simp add: unsigned_ucast_eq take_bit_nat_eq_self)

lemma unat_div_base:
  fixes num :: u64 and base :: u32
  assumes "ucast base \<le> num" and "\<not> base < 2"
  shows "unat (num div ucast base) < unat num"
proof -
  have "2 \<le> unat base" using assms(2) by (simp add: word_less_nat_alt)
  moreover have "unat base \<le> unat num" using assms(1) by (simp add: word_le_nat_alt)
  ultimately show ?thesis by (simp add: unat_div div_less_dividend)
qed

text \<open>The callers use the bases 8, 10 and 16; with a base below 2 the recursion does not end.\<close>

function printnum :: "('d, 's) putch \<Rightarrow> u64 \<Rightarrow> u32 \<Rightarrow> u32 \<Rightarrow> u32 \<Rightarrow> 'd \<Rightarrow> 's stop + 'd" where
  "printnum put num base width padc d =
     rbind (if ucast base \<le> num
            then if base < 2 then Inl Diverge else printnum put (num div ucast base) base (width - 1) padc d
            else put_times put (nat (sint (width - 1))) padc d)
       (put (hexdigit (num mod ucast base)))"
  by auto
termination
  by (relation "measure (\<lambda>(put, num, base, width, padc, d). unat num)") (simp_all add: unat_div_base)

declare printnum.simps [simp del]

fun va_arg :: "u32 list \<Rightarrow> 's stop + (u32 \<times> u32 list)" where
  "va_arg [] = Inl OutOfBounds"
| "va_arg (x # ap) = Inr (x, ap)"

fun va_arg64 :: "u32 list \<Rightarrow> 's stop + (u64 \<times> u32 list)" where
  "va_arg64 (lo # hi # ap) = Inr (ucast lo OR push_bit 32 (ucast hi), ap)"
| "va_arg64 _ = Inl OutOfBounds"

definition getuint :: "u32 list \<Rightarrow> u32 \<Rightarrow> 's stop + (u64 \<times> u32 list)" where
  "getuint ap lflag =
     (if 2 \<le> sint lflag then va_arg64 ap
      else if lflag \<noteq> 0 then rbind (va_arg ap) (\<lambda>(x, ap). Inr (ucast x, ap))
      else rbind (va_arg ap) (\<lambda>(x, ap). Inr (ucast x, ap)))"

definition getint :: "u32 list \<Rightarrow> u32 \<Rightarrow> 's stop + (u64 \<times> u32 list)" where
  "getint ap lflag =
     (if 2 \<le> sint lflag then va_arg64 ap
      else if lflag \<noteq> 0 then rbind (va_arg ap) (\<lambda>(x, ap). Inr (scast x, ap))
      else rbind (va_arg ap) (\<lambda>(x, ap). Inr (scast x, ap)))"

section \<open>Formats\<close>

text \<open>The table has no entry for \<open>E_NO_SYS\<close>, 7.\<close>

definition MAXERROR :: nat where "MAXERROR = 10"

definition error_string :: "u32 \<Rightarrow> string option" where
  "error_string e =
     (if e = 1 then Some ''unspecified error''
      else if e = 2 then Some ''bad environment''
      else if e = 3 then Some ''invalid parameter''
      else if e = 4 then Some ''out of memory''
      else if e = 5 then Some ''out of environments''
      else if e = 6 then Some ''segmentation fault''
      else if e = 8 then Some ''env is not recving''
      else if e = 9 then Some ''unexpected end of file''
      else None)"

record fmtflags =
  f_padc :: u32
  f_width :: u32
  f_precision :: u32
  f_lflag :: u32
  f_altflag :: bool

definition no_flags :: fmtflags where
  "no_flags = \<lparr>f_padc = 0x20, f_width = - 1, f_precision = - 1, f_lflag = 0, f_altflag = False\<rparr>"

text \<open>The decimal number that starts with the digit \<open>ch\<close>; \<open>p\<close> points behind that digit.\<close>

fun number_field :: "nat \<Rightarrow> bytes \<Rightarrow> cptr \<Rightarrow> u8 \<Rightarrow> u32 \<Rightarrow> 's stop + (u32 \<times> cptr)" where
  "number_field 0 m p ch precision = Inl Diverge"
| "number_field (Suc k) m p ch precision =
     (let precision = precision * 10 + scast ch - 0x30;
          ch = deref m p in
      if sint ch < 0x30 \<or> 0x39 < sint ch then Inr (precision, p)
      else number_field k m (fwd p) ch precision)"

definition process_precision :: "u32 \<Rightarrow> fmtflags \<Rightarrow> fmtflags" where
  "process_precision precision f =
     (if sint (f_width f) < 0 then f\<lparr>f_width := precision, f_precision := - 1\<rparr> else f\<lparr>f_precision := precision\<rparr>)"

fun print_chars :: "nat \<Rightarrow> ('d, 's) putch \<Rightarrow> ('d \<Rightarrow> bytes) \<Rightarrow> cptr \<Rightarrow> fmtflags \<Rightarrow> 'd \<Rightarrow> 's stop + (u32 \<times> 'd)" where
  "print_chars 0 put mem p f d = Inl Diverge"
| "print_chars (Suc k) put mem p f d =
     (let ch = deref (mem d) p in
      if ch \<noteq> 0 \<and> (sint (f_precision f) < 0 \<or> 0 \<le> sint (f_precision f - 1)) then
        let precision = (if sint (f_precision f) < 0 then f_precision f else f_precision f - 1) in
        rbind (put (if f_altflag f \<and> (sint ch < 0x20 \<or> 0x7E < sint ch) then 0x3F else scast ch) d)
          (print_chars k put mem (fwd p) (f\<lparr>f_precision := precision, f_width := f_width f - 1\<rparr>))
      else Inr (f_width f, d))"

definition put_s :: "nat \<Rightarrow> ('d, 's) putch \<Rightarrow> ('d \<Rightarrow> bytes) \<Rightarrow> cptr \<Rightarrow> fmtflags \<Rightarrow> 'd \<Rightarrow> 's stop + 'd" where
  "put_s k put mem p f d =
     rbind (if 0 < sint (f_width f) \<and> f_padc f \<noteq> 0x2D then
              let width = f_width f - strnlen 0 (f_precision f) (from_ptr (mem d) p) in
              rbind (put_times put (nat (sint width)) (f_padc f) d) (\<lambda>d. Inr (if 0 < sint width then 0 else width, d))
            else Inr (f_width f, d)) (\<lambda>(width, d).
     rbind (print_chars k put mem p (f\<lparr>f_width := width\<rparr>) d) (\<lambda>(width, d).
     put_times put (nat (sint width)) 0x20 d))"

definition put_signed :: "('d, 's) putch \<Rightarrow> u64 \<Rightarrow> fmtflags \<Rightarrow> 'd \<Rightarrow> 's stop + 'd" where
  "put_signed put num f d =
     (if sint num < 0 then rbind (put 0x2D d) (printnum put (- num) 10 (f_width f) (f_padc f))
      else printnum put num 10 (f_width f) (f_padc f) d)"

text \<open>An unknown escape is printed as it stands: \<open>for (fmt--; fmt[-1] != '%'; fmt--)\<close>.\<close>

fun rewind :: "nat \<Rightarrow> bytes \<Rightarrow> cptr \<Rightarrow> 's stop + cptr" where
  "rewind 0 m p = Inl Diverge"
| "rewind (Suc k) m p = (if deref m (bwd p) \<noteq> 0x25 then rewind k m (bwd p) else Inr p)"

text \<open>The characters that only change the flags.\<close>

definition fmt_flag :: "u8 \<Rightarrow> fmtflags \<Rightarrow> fmtflags option" where
  "fmt_flag ch f =
     (if ch = 0x2D then Some (f\<lparr>f_padc := 0x2D\<rparr>)
      else if ch = 0x30 then Some (f\<lparr>f_padc := 0x30\<rparr>)
      else if ch = 0x2E then Some (if sint (f_width f) < 0 then f\<lparr>f_width := 0\<rparr> else f)
      else if ch = 0x23 then Some (f\<lparr>f_altflag := True\<rparr>)
      else if ch = 0x6C then Some (f\<lparr>f_lflag := f_lflag f + 1\<rparr>)
      else None)"

text \<open>The conversions \<open>%c\<close>, \<open>%s\<close>, \<open>%d\<close>, \<open>%u\<close>, \<open>%o\<close>, \<open>%p\<close>, \<open>%x\<close> and \<open>%%\<close>; \<open>None\<close> is the default case of the switch.\<close>

definition put_number :: "('d, 's) putch \<Rightarrow> u32 \<Rightarrow> fmtflags \<Rightarrow> u32 list \<Rightarrow> 'd \<Rightarrow> 's stop + (u32 list \<times> 'd)" where
  "put_number put base f ap d =
     rbind (getuint ap (f_lflag f)) (\<lambda>(num, ap).
     rbind (printnum put num base (f_width f) (f_padc f) d) (\<lambda>d. Inr (ap, d)))"

definition conversion ::
  "nat \<Rightarrow> ('d, 's) putch \<Rightarrow> ('d \<Rightarrow> bytes) \<Rightarrow> u8 \<Rightarrow> fmtflags \<Rightarrow> u32 list \<Rightarrow> 'd \<Rightarrow> ('s stop + (u32 list \<times> 'd)) option" where
  "conversion k put mem ch f ap d =
     (if ch = 0x63 then
        Some (rbind (va_arg ap) (\<lambda>(c, ap). rbind (put c d) (\<lambda>d. Inr (ap, d))))
      else if ch = 0x73 then
        Some (rbind (va_arg ap) (\<lambda>(p, ap).
          rbind (put_s k put mem (if p = 0 then Lit ''(null)'' 0 else At p) f d) (\<lambda>d. Inr (ap, d))))
      else if ch = 0x64 then
        Some (rbind (getint ap (f_lflag f)) (\<lambda>(num, ap). rbind (put_signed put num f d) (\<lambda>d. Inr (ap, d))))
      else if ch = 0x75 then Some (put_number put 10 f ap d)
      else if ch = 0x6F then Some (put_number put 8 f ap d)
      else if ch = 0x70 then
        Some (rbind (put 0x30 d) (\<lambda>d. rbind (put 0x78 d) (\<lambda>d. rbind (va_arg ap) (\<lambda>(p, ap).
          rbind (printnum put (ucast p) 16 (f_width f) (f_padc f) d) (\<lambda>d. Inr (ap, d))))))
      else if ch = 0x78 then Some (put_number put 16 f ap d)
      else if ch = 0x25 then Some (rbind (put (ucast ch) d) (\<lambda>d. Inr (ap, d)))
      else None)"

fun vprintfmt :: "nat \<Rightarrow> ('d, 's) putch \<Rightarrow> ('d \<Rightarrow> bytes) \<Rightarrow> cptr \<Rightarrow> u32 list \<Rightarrow> 'd \<Rightarrow> 's stop + 'd"
  and reswitch :: "nat \<Rightarrow> ('d, 's) putch \<Rightarrow> ('d \<Rightarrow> bytes) \<Rightarrow> cptr \<Rightarrow> u32 list \<Rightarrow> fmtflags \<Rightarrow> 'd \<Rightarrow> 's stop + 'd" where
  "vprintfmt 0 put mem fmt ap d = Inl Diverge"
| "vprintfmt (Suc k) put mem fmt ap d =
     (let ch = deref (mem d) fmt; fmt = fwd fmt in
      if ch = 0x25 then reswitch k put mem fmt ap no_flags d
      else if ch = 0 then Inr d
      else rbind (put (ucast ch) d) (\<lambda>d. vprintfmt k put mem fmt ap d))"
| "reswitch 0 put mem fmt ap f d = Inl Diverge"
| "reswitch (Suc k) put mem fmt ap f d =
     (let ch = deref (mem d) fmt; fmt = fwd fmt in
      case fmt_flag ch f of Some f \<Rightarrow> reswitch k put mem fmt ap f d
      | None \<Rightarrow>
      if 0x31 \<le> ch \<and> ch \<le> 0x39 then
        rbind (number_field k (mem d) fmt ch 0) (\<lambda>(precision, fmt).
          reswitch k put mem fmt ap (process_precision precision f) d)
      else if ch = 0x2A then
        rbind (va_arg ap) (\<lambda>(precision, ap). reswitch k put mem fmt ap (process_precision precision f) d)
      else if ch = 0x65 then
        rbind (va_arg ap) (\<lambda>(err, ap).
          let err = (if sint err < 0 then - err else err) in
          rbind (if sint err < 0 then Inl OutOfBounds
                 else case (if int MAXERROR \<le> sint err then None else error_string err) of
                   None \<Rightarrow> vprintfmt k put mem (Lit ''error %d'' 0) [err] d
                 | Some p \<Rightarrow> put_s k put mem (Lit p 0) no_flags d)
            (\<lambda>d. vprintfmt k put mem fmt ap d))
      else
        case conversion k put mem ch f ap d of
          Some r \<Rightarrow> rbind r (\<lambda>(ap, d). vprintfmt k put mem fmt ap d)
        | None \<Rightarrow>
            rbind (put 0x25 d) (\<lambda>d.
            rbind (rewind k (mem d) (bwd fmt)) (\<lambda>fmt. vprintfmt k put mem fmt ap d)))"

definition printfmt :: "nat \<Rightarrow> ('d, 's) putch \<Rightarrow> ('d \<Rightarrow> bytes) \<Rightarrow> cptr \<Rightarrow> u32 list \<Rightarrow> 'd \<Rightarrow> 's stop + 'd" where
  "printfmt k put mem fmt args d = vprintfmt k put mem fmt args d"

section \<open>Printing into a buffer\<close>

record sprintbuf =
  sb_buf :: u32
  sb_ebuf :: u32
  sb_cnt :: u32
  sb_mem :: bytes

definition sprintputch :: "(sprintbuf, 's) putch" where
  "sprintputch ch b =
     (let b = b\<lparr>sb_cnt := sb_cnt b + 1\<rparr> in
      if sb_buf b < sb_ebuf b
      then Inr (b\<lparr>sb_mem := (sb_mem b)(sb_buf b := ucast ch), sb_buf := sb_buf b + 1\<rparr>)
      else Inr b)"

definition E_INVAL :: u32 where "E_INVAL = 3"

definition vsnprintf :: "nat \<Rightarrow> u32 \<Rightarrow> u32 \<Rightarrow> cptr \<Rightarrow> u32 list \<Rightarrow> bytes \<Rightarrow> 's stop + (u32 \<times> bytes)" where
  "vsnprintf k buf n fmt ap m =
     (let b = \<lparr>sb_buf = buf, sb_ebuf = buf + n - 1, sb_cnt = 0, sb_mem = m\<rparr> in
      if buf = 0 \<or> sint n < 1 then Inr (- E_INVAL, m)
      else rbind (vprintfmt k sprintputch sb_mem fmt ap b)
        (\<lambda>b. Inr (sb_cnt b, (sb_mem b)(sb_buf b := 0))))"

definition snprintf :: "nat \<Rightarrow> u32 \<Rightarrow> u32 \<Rightarrow> cptr \<Rightarrow> u32 list \<Rightarrow> bytes \<Rightarrow> 's stop + (u32 \<times> bytes)" where
  "snprintf k buf n fmt args m = vsnprintf k buf n fmt args m"

section \<open>Printing to the console\<close>

text \<open>The kernel: \<open>*cnt++\<close> advances the pointer and not the number it points to.\<close>

definition putch_console :: "(cons_state \<times> u32, 's) putch" where
  "putch_console ch x = (let (c, cnt) = x in rbind (cons_putc ch c) (\<lambda>c. Inr (c, cnt)))"

definition vcprintf :: "nat \<Rightarrow> bytes \<Rightarrow> cptr \<Rightarrow> u32 list \<Rightarrow> cons_state \<Rightarrow> 's stop + (u32 \<times> cons_state)" where
  "vcprintf k m fmt ap c =
     rbind (vprintfmt k putch_console (\<lambda>_. m) fmt ap (c, 0)) (\<lambda>(c, cnt). Inr (cnt, c))"

definition cprintf :: "nat \<Rightarrow> bytes \<Rightarrow> cptr \<Rightarrow> u32 list \<Rightarrow> cons_state \<times> kstate \<Rightarrow> kstate stop + (u32 \<times> cons_state \<times> kstate)" where
  "cprintf k m fmt args x =
     (let (c, s) = x in
      rbind (lock CONSOLE_LOCK s) (\<lambda>(_, s).
      rbind (vcprintf k m fmt args c) (\<lambda>(cnt, c).
      rbind (unlock CONSOLE_LOCK s) (\<lambda>(_, s). Inr (cnt, c, s)))))"

text \<open>User programs: a buffer of 256 characters, handed to \<open>sys_cputs\<close> when 255 are in it and at the end.\<close>

record printbuf =
  pb_idx :: nat
  pb_cnt :: u32
  pb_buf :: "u8 list"
  cputs_log :: "u8 list list"

definition sys_cputs_user :: "printbuf \<Rightarrow> printbuf" where
  "sys_cputs_user b = b\<lparr>cputs_log := cputs_log b @ [take (pb_idx b) (pb_buf b)]\<rparr>"

definition putch_user :: "(printbuf, 's) putch" where
  "putch_user ch b =
     (if length (pb_buf b) \<le> pb_idx b then Inl OutOfBounds
      else
        let b = b\<lparr>pb_buf := (pb_buf b)[pb_idx b := ucast ch], pb_idx := pb_idx b + 1\<rparr>;
            b = (if pb_idx b = 256 - 1 then (sys_cputs_user b)\<lparr>pb_idx := 0\<rparr> else b) in
        Inr (b\<lparr>pb_cnt := pb_cnt b + 1\<rparr>))"

definition vcprintf_user :: "nat \<Rightarrow> bytes \<Rightarrow> cptr \<Rightarrow> u32 list \<Rightarrow> u8 list \<Rightarrow> 's stop + (u32 \<times> u8 list list)" where
  "vcprintf_user k m fmt ap stack =
     rbind (vprintfmt k putch_user (\<lambda>_. m) fmt ap \<lparr>pb_idx = 0, pb_cnt = 0, pb_buf = take 256 stack, cputs_log = []\<rparr>)
       (\<lambda>b. let b = sys_cputs_user b in Inr (pb_cnt b, cputs_log b))"

section \<open>Callbacks that simulate each other\<close>

lemma rel_rbind:
  "rel_sum (=) A m m' \<Longrightarrow> (\<And>x y. A x y \<Longrightarrow> rel_sum (=) B (f x) (g y)) \<Longrightarrow> rel_sum (=) B (rbind m f) (rbind m' g)"
  by (cases m; cases m') auto

lemma rel_rbind_eq: "rel_sum (=) A m m' \<Longrightarrow> (\<And>x y. A x y \<Longrightarrow> f x = g y) \<Longrightarrow> rbind m f = rbind m' g"
  by (cases m; cases m') auto

lemma rel_rbind_left:
  "rel_sum (=) A m m' \<Longrightarrow> (\<And>x y. A x y \<Longrightarrow> rel_sum (=) B (f x) (Inr y)) \<Longrightarrow> rel_sum (=) B (rbind m f) m'"
  by (cases m; cases m') auto

lemma rel_if:
  "(b \<Longrightarrow> rel_sum A B x y) \<Longrightarrow> (\<not> b \<Longrightarrow> rel_sum A B x' y') \<Longrightarrow> rel_sum A B (if b then x else x') (if b then y else y')"
  by simp

text \<open>
  \<open>vprintfmt\<close> sees its callback only through the state of the callback: two callbacks with related states, which read
  the same memory, produce related results, and stop in the same way, for every format.
\<close>

locale sink_sim =
  fixes put :: "('d, 's) putch" and mem :: "'d \<Rightarrow> bytes" and put' :: "('e, 's) putch" and mem' :: "'e \<Rightarrow> bytes"
    and R :: "'d \<Rightarrow> 'e \<Rightarrow> bool"
  assumes step: "R d e \<Longrightarrow> rel_sum (=) R (put c d) (put' c e)"
    and same_mem: "R d e \<Longrightarrow> mem d = mem' e"
begin

lemma put_times_sim: "R d e \<Longrightarrow> rel_sum (=) R (put_times put n c d) (put_times put' n c e)"
  by (induction n arbitrary: d e) (auto intro: rel_rbind step)

lemma printnum_sim: "R d e \<Longrightarrow> rel_sum (=) R (printnum put num base width padc d) (printnum put' num base width padc e)"
proof (induction "unat num" arbitrary: num width rule: less_induct)
  case less
  have "rel_sum (=) R (printnum put (num div ucast base) base (width - 1) padc d) (printnum put' (num div ucast base) base (width - 1) padc e)"
    if "ucast base \<le> num" "\<not> base < 2" using that less by (intro less.hyps unat_div_base)
  then show ?case
    unfolding printnum.simps [of _ num] using less.prems by (auto intro!: rel_rbind step put_times_sim)
qed

lemma print_chars_sim:
  "R d e \<Longrightarrow> rel_sum (=) (rel_prod (=) R) (print_chars k put mem p f d) (print_chars k put' mem' p f e)"
proof (induction k arbitrary: p f d e)
  case (Suc k)
  from same_mem [OF Suc.prems] show ?case
    by (auto simp: Let_def intro!: rel_rbind [where A = R] step Suc)
qed simp

lemma put_s_sim: "R d e \<Longrightarrow> rel_sum (=) R (put_s k put mem p f d) (put_s k put' mem' p f e)"
  unfolding put_s_def using same_mem [of d e]
  by (auto simp: Let_def intro!: rel_rbind [where A = "rel_prod (=) R"] rel_rbind [where A = R] put_times_sim print_chars_sim)

lemma put_signed_sim: "R d e \<Longrightarrow> rel_sum (=) R (put_signed put num f d) (put_signed put' num f e)"
  unfolding put_signed_def by (auto intro!: rel_rbind [where A = R] printnum_sim step)

lemma get_sim: "rel_sum (=) (=) (x :: 's stop + 'x) x"
  by (cases x) simp_all

lemma put_number_sim: "R d e \<Longrightarrow> rel_sum (=) (rel_prod (=) R) (put_number put base f ap d) (put_number put' base f ap e)"
  unfolding put_number_def
  by (rule rel_rbind [where A = "(=)"]) (auto intro!: get_sim rel_rbind [where A = R] printnum_sim)

lemma conversion_sim:
  assumes "R d e"
  shows "rel_option (rel_sum (=) (rel_prod (=) R)) (conversion k put mem ch f ap d) (conversion k put' mem' ch f ap e)"
  unfolding conversion_def using assms
  by (auto intro!: put_number_sim rel_rbind [where A = "(=)"] rel_rbind [where A = R] get_sim step put_s_sim put_signed_sim printnum_sim)

lemma vprintfmt_sim:
  "R d e \<Longrightarrow> rel_sum (=) R (vprintfmt k put mem fmt ap d) (vprintfmt k put' mem' fmt ap e)"
  "R d e \<Longrightarrow> rel_sum (=) R (reswitch k put mem fmt ap f d) (reswitch k put' mem' fmt ap f e)"
proof (induction k arbitrary: fmt ap f d e)
  case (Suc k)
  { case 1
    from same_mem [OF this] show ?case using Suc.IH(2) [OF 1]
      by (auto simp: Let_def intro!: rel_rbind [where A = R] step Suc.IH(1) 1)
  next
    case 2
    have m: "mem d = mem' e" by (rule same_mem [OF 2])
    let ?ch = "deref (mem' e) fmt"
    have err: "rel_sum (=) R
        (if b then Inl OutOfBounds else case q of None \<Rightarrow> vprintfmt k put mem (Lit ''error %d'' 0) [x] d | Some p \<Rightarrow> put_s k put mem (Lit p 0) no_flags d)
        (if b then Inl OutOfBounds else case q of None \<Rightarrow> vprintfmt k put' mem' (Lit ''error %d'' 0) [x] e | Some p \<Rightarrow> put_s k put' mem' (Lit p 0) no_flags e)"
      for b q x by (auto split: option.split intro!: put_s_sim Suc.IH(1) 2)
    have conv: "rel_sum (=) R
        (case conversion k put mem ?ch f ap d of
           Some r \<Rightarrow> rbind r (\<lambda>(ap, d). vprintfmt k put mem (fwd fmt) ap d)
         | None \<Rightarrow> rbind (put 0x25 d) (\<lambda>d. rbind (rewind k (mem d) (bwd (fwd fmt))) (\<lambda>fmt. vprintfmt k put mem fmt ap d)))
        (case conversion k put' mem' ?ch f ap e of
           Some r \<Rightarrow> rbind r (\<lambda>(ap, d). vprintfmt k put' mem' (fwd fmt) ap d)
         | None \<Rightarrow> rbind (put' 0x25 e) (\<lambda>d. rbind (rewind k (mem' d) (bwd (fwd fmt))) (\<lambda>fmt. vprintfmt k put' mem' fmt ap d)))"
      using conversion_sim [OF 2, of k ?ch f ap]
      by (cases rule: option.rel_cases)
        (auto simp: same_mem intro!: rel_rbind [where A = R] rel_rbind [where A = "rel_prod (=) R"] rel_rbind [where A = "(=)"]
          get_sim Suc.IH(1) step 2)
    show ?case
    proof (cases "fmt_flag ?ch f")
      case None
      have num: "rel_sum (=) R (rbind (number_field k (mem' e) (fwd fmt) ?ch 0) (\<lambda>(precision, fmt). reswitch k put mem fmt ap (process_precision precision f) d))
          (rbind (number_field k (mem' e) (fwd fmt) ?ch 0) (\<lambda>(precision, fmt). reswitch k put' mem' fmt ap (process_precision precision f) e))"
        by (rule rel_rbind [OF get_sim]) (auto intro!: Suc.IH(2) 2)
      have star: "rel_sum (=) R (rbind (va_arg ap) (\<lambda>(precision, ap). reswitch k put mem (fwd fmt) ap (process_precision precision f) d))
          (rbind (va_arg ap) (\<lambda>(precision, ap). reswitch k put' mem' (fwd fmt) ap (process_precision precision f) e))"
        by (rule rel_rbind [OF get_sim]) (auto intro!: Suc.IH(2) 2)
      show ?thesis
        unfolding reswitch.simps m Let_def None option.case
        by (intro rel_if conv num star)
          (rule rel_rbind [OF get_sim], clarify, simp only: prod.case, rule rel_rbind [OF err], rule Suc.IH(1))
    qed (simp add: m Let_def Suc.IH(2) 2)
  }
qed simp_all

end

end
