(* ===== verification/KDebug.thy ===== *)
theory KDebug
  imports Printf Syscall
begin

text \<open>
  The lookup of an instruction address in the symbol table of the kernel or of a user program, \<^verbatim>\<open>kern/kdebug.c\<close>.
  The table is read through the page tables with \<open>peek\<close>.  Indices are integers: a table of 12-byte entries has fewer
  than \<open>2 ^ 29\<close> of them, so that no index computation overflows.  The addresses of the kernel's own table come from the
  linker and are an argument.
\<close>

definition N_FUN :: u8 where "N_FUN = 0x24"
definition N_SLINE :: u8 where "N_SLINE = 0x44"
definition N_SO :: u8 where "N_SO = 0x64"
definition N_SOL :: u8 where "N_SOL = 0x84"
definition N_PSYM :: u8 where "N_PSYM = 0xA0"

record stab =
  n_strx :: u32
  n_type :: u8
  n_other :: u8
  n_desc :: u16
  n_value :: u32

section \<open>Searching the table\<close>

function stab_down :: "(int \<Rightarrow> 's stop + stab) \<Rightarrow> int \<Rightarrow> int \<Rightarrow> u8 \<Rightarrow> 's stop + int" where
  "stab_down tab l m ty =
     (if l \<le> m then rbind (tab m) (\<lambda>st. if n_type st \<noteq> ty then stab_down tab l (m - 1) ty else Inr m) else Inr m)"
  by auto
termination
  by (relation "measure (\<lambda>(tab, l, m, ty). nat (m - l + 1))") auto

declare stab_down.simps [simp del]

text \<open>The loop of the search; \<open>left\<close> and \<open>right\<close> are the values behind \<open>region_left\<close> and \<open>region_right\<close>.\<close>

fun binsearch_loop ::
  "nat \<Rightarrow> (int \<Rightarrow> 's stop + stab) \<Rightarrow> u8 \<Rightarrow> int \<Rightarrow> int \<Rightarrow> bool \<Rightarrow> u32 \<Rightarrow> int \<Rightarrow> int \<Rightarrow> 's stop + (bool \<times> int \<times> int)" where
  "binsearch_loop k tab ty l r any_matches addr left right =
     (if l \<le> r then
        case k of 0 \<Rightarrow> Inl Diverge
        | Suc k \<Rightarrow>
            let true_m = (l + r) div 2 in
            rbind (stab_down tab l true_m ty) (\<lambda>m.
            if m < l then binsearch_loop k tab ty (true_m + 1) r any_matches addr left right
            else rbind (tab m) (\<lambda>st.
              if n_value st < addr then binsearch_loop k tab ty (true_m + 1) r True addr m right
              else if n_value st > addr then binsearch_loop k tab ty l (m - 1) True addr left (m - 1)
              else binsearch_loop k tab ty m r True (addr + 1) m right))
      else Inr (any_matches, left, right))"

declare binsearch_loop.simps [simp del]

definition stab_binsearch :: "(int \<Rightarrow> 's stop + stab) \<Rightarrow> u8 \<Rightarrow> u32 \<Rightarrow> int \<Rightarrow> int \<Rightarrow> 's stop + (int \<times> int)" where
  "stab_binsearch tab ty addr region_left region_right =
     rbind (binsearch_loop (nat (2 * (region_right - region_left + 2))) tab ty region_left region_right False addr region_left region_right)
       (\<lambda>(any_matches, left, right).
        if \<not> any_matches then Inr (left, left - 1)
        else rbind (stab_down tab (left + 1) right ty) (\<lambda>l. Inr (l, right)))"

section \<open>The entry of an address\<close>

record eip_debuginfo =
  eip_file :: cptr
  eip_line :: u32
  eip_fn_name :: cptr
  eip_fn_namelen :: u32
  eip_fn_addr :: u32
  eip_fn_narg :: u32

record stab_syms =
  sym_stabs :: u32
  sym_stab_end :: u32
  sym_stabstr :: u32
  sym_stabstr_end :: u32

definition USTABDATA :: u32 where "USTABDATA = PTSIZE div 2"

definition peek32 :: "u32 \<Rightarrow> kstate \<Rightarrow> kstate stop + u32" where
  "peek32 a s =
     rbind (peek a s) (\<lambda>b0. rbind (peek (a + 1) s) (\<lambda>b1. rbind (peek (a + 2) s) (\<lambda>b2. rbind (peek (a + 3) s) (\<lambda>b3.
     Inr (ucast b0 OR push_bit 8 (ucast b1) OR push_bit 16 (ucast b2) OR push_bit 24 (ucast b3))))))"

definition get_stab :: "u32 \<Rightarrow> kstate \<Rightarrow> int \<Rightarrow> kstate stop + stab" where
  "get_stab stabs s i =
     (let a = stabs + of_int (12 * i) in
      rbind (peek32 a s) (\<lambda>strx. rbind (peek (a + 4) s) (\<lambda>ty. rbind (peek (a + 5) s) (\<lambda>other.
      rbind (peek (a + 6) s) (\<lambda>d0. rbind (peek (a + 7) s) (\<lambda>d1. rbind (peek32 (a + 8) s) (\<lambda>v.
      Inr \<lparr>n_strx = strx, n_type = ty, n_other = other, n_desc = ucast d0 OR push_bit 8 (ucast d1), n_value = v\<rparr>)))))))"

text \<open>The four pointers, or \<open>None\<close> when the memory of the user cannot be read.\<close>

definition user_stabs :: "kstate \<Rightarrow> (kstate, stab_syms option) kres" where
  "user_stabs s =
     with_curenv s (\<lambda>e.
     rbind (user_mem_check e USTABDATA 16 PTE_U s) (\<lambda>(r, s).
     if r \<noteq> 0 then Inr (None, s)
     else rbind (peek32 USTABDATA s) (\<lambda>stabs. rbind (peek32 (USTABDATA + 4) s) (\<lambda>stab_end.
     rbind (peek32 (USTABDATA + 8) s) (\<lambda>stabstr. rbind (peek32 (USTABDATA + 12) s) (\<lambda>stabstr_end.
     rbind (user_mem_check e stabs (stab_end - stabs) PTE_U s) (\<lambda>(r, s).
     if r \<noteq> 0 then Inr (None, s)
     else rbind (user_mem_check e stabs (stabstr_end - stabstr) PTE_U s) (\<lambda>(r, s).
     if r \<noteq> 0 then Inr (None, s)
     else Inr (Some \<lparr>sym_stabs = stabs, sym_stab_end = stab_end, sym_stabstr = stabstr, sym_stabstr_end = stabstr_end\<rparr>, s)))))))))"

text \<open>\<open>strfind(info->eip_fn_name, ':') - info->eip_fn_name\<close>, with fuel for a name that does not end.\<close>

fun colon_at :: "nat \<Rightarrow> u32 \<Rightarrow> u32 \<Rightarrow> kstate \<Rightarrow> kstate stop + u32" where
  "colon_at 0 a n s = Inl Diverge"
| "colon_at (Suc k) a n s =
     rbind (peek (a + n) s) (\<lambda>c. if c = 0 \<or> c = 0x3A then Inr n else colon_at k a (n + 1) s)"

fun name_length :: "nat \<Rightarrow> cptr \<Rightarrow> kstate \<Rightarrow> kstate stop + u32" where
  "name_length k (At a) s = colon_at k a 0 s"
| "name_length k (Lit cs i) s = Inr (of_nat (length (takeWhile (\<lambda>c. c \<noteq> CHR '':'') (drop i cs))))"

function file_stab :: "(int \<Rightarrow> 's stop + stab) \<Rightarrow> int \<Rightarrow> int \<Rightarrow> 's stop + int" where
  "file_stab tab lfile lline =
     (if lfile \<le> lline then
        rbind (tab lline) (\<lambda>st.
        if n_type st \<noteq> N_SOL \<and> (n_type st \<noteq> N_SO \<or> n_value st = 0) then file_stab tab lfile (lline - 1)
        else Inr lline)
      else Inr lline)"
  by auto
termination
  by (relation "measure (\<lambda>(tab, lfile, lline). nat (lline - lfile + 1))") auto

declare file_stab.simps [simp del]

function count_params :: "(int \<Rightarrow> 's stop + stab) \<Rightarrow> int \<Rightarrow> int \<Rightarrow> u32 \<Rightarrow> 's stop + u32" where
  "count_params tab lline rfun narg =
     (if lline < rfun then
        rbind (tab lline) (\<lambda>st. if n_type st = N_PSYM then count_params tab (lline + 1) rfun (narg + 1) else Inr narg)
      else Inr narg)"
  by auto
termination
  by (relation "measure (\<lambda>(tab, lline, rfun, narg). nat (rfun - lline))") auto

declare count_params.simps [simp del]

definition unknown_info :: "u32 \<Rightarrow> eip_debuginfo" where
  "unknown_info addr = \<lparr>eip_file = Lit ''<unknown>'' 0, eip_line = 0, eip_fn_name = Lit ''<unknown>'' 0,
     eip_fn_namelen = 9, eip_fn_addr = addr, eip_fn_narg = 0\<rparr>"

text \<open>The part behind the search for the function: line, file and number of arguments.\<close>

definition debuginfo_line ::
  "(int \<Rightarrow> kstate stop + stab) \<Rightarrow> stab_syms \<Rightarrow> u32 \<Rightarrow> int \<Rightarrow> int \<Rightarrow> int \<Rightarrow> int \<Rightarrow> int \<Rightarrow> eip_debuginfo \<Rightarrow> kstate stop + (int \<times> eip_debuginfo)" where
  "debuginfo_line tab sy addr lfile lfun rfun lline rline info =
     rbind (stab_binsearch tab N_SLINE addr lline rline) (\<lambda>(lline, rline).
     if rline < lline then Inr (- 1, info)
     else rbind (tab rline) (\<lambda>st.
     let info = info\<lparr>eip_line := ucast (n_desc st)\<rparr> in
     rbind (file_stab tab lfile lline) (\<lambda>lline.
     rbind (if lfile \<le> lline then
              rbind (tab lline) (\<lambda>st.
              Inr (if n_strx st < sym_stabstr_end sy - sym_stabstr sy
                   then info\<lparr>eip_file := At (sym_stabstr sy + n_strx st)\<rparr> else info))
            else Inr info) (\<lambda>info.
     rbind (if lfun < rfun then count_params tab (lfun + 1) rfun (eip_fn_narg info) else Inr (eip_fn_narg info)) (\<lambda>narg.
     Inr (0, info\<lparr>eip_fn_narg := narg\<rparr>))))))"

definition debuginfo_table ::
  "nat \<Rightarrow> stab_syms \<Rightarrow> u32 \<Rightarrow> kstate \<Rightarrow> kstate stop + (int \<times> eip_debuginfo)" where
  "debuginfo_table k sy addr s =
     (let info = unknown_info addr; tab = get_stab (sym_stabs sy) s in
      if sym_stabstr_end sy \<le> sym_stabstr sy then Inr (- 1, info)
      else rbind (peek (sym_stabstr_end sy - 1) s) (\<lambda>c.
      if c \<noteq> 0 then Inr (- 1, info)
      else
        rbind (stab_binsearch tab N_SO addr 0 (sint (sym_stab_end sy - sym_stabs sy) div 12 - 1)) (\<lambda>(lfile, rfile).
        if lfile = 0 then Inr (- 1, info)
        else rbind (stab_binsearch tab N_FUN addr lfile rfile) (\<lambda>(lfun, rfun).
          rbind (if lfun \<le> rfun then
                   rbind (tab lfun) (\<lambda>st.
                   let info = (if n_strx st < sym_stabstr_end sy - sym_stabstr sy
                               then info\<lparr>eip_fn_name := At (sym_stabstr sy + n_strx st)\<rparr> else info);
                       info = info\<lparr>eip_fn_addr := n_value st\<rparr> in
                   Inr (info, addr - n_value st, lfun, rfun))
                 else Inr (info\<lparr>eip_fn_addr := addr\<rparr>, addr, lfile, rfile)) (\<lambda>(info, addr, lline, rline).
          rbind (name_length k (eip_fn_name info) s) (\<lambda>len.
          debuginfo_line tab sy addr lfile lfun rfun lline rline (info\<lparr>eip_fn_namelen := len\<rparr>)))))))"

definition debuginfo_eip :: "nat \<Rightarrow> stab_syms \<Rightarrow> u32 \<Rightarrow> kstate \<Rightarrow> (kstate, int \<times> eip_debuginfo) kres" where
  "debuginfo_eip k kern addr s =
     (if ULIM \<le> addr then rbind (debuginfo_table k kern addr s) (\<lambda>r. Inr (r, s))
      else rbind (user_stabs s) (\<lambda>(sy, s).
        case sy of
          None \<Rightarrow> Inr ((- 1, unknown_info addr), s)
        | Some sy \<Rightarrow> rbind (debuginfo_table k sy addr s) (\<lambda>r. Inr (r, s))))"

section \<open>What the search finds\<close>

definition matches_in :: "(int \<Rightarrow> stab) \<Rightarrow> u8 \<Rightarrow> int \<Rightarrow> int \<Rightarrow> bool" where
  "matches_in T ty i j \<longleftrightarrow> (\<exists>k. i \<le> k \<and> k \<le> j \<and> n_type (T k) = ty)"

text \<open>
  The promise of the comment on \<open>stab_binsearch\<close>: \<open>left\<close> is the entry that contains the address, \<open>right\<close> stands just
  before the next entry of the type.
\<close>

definition stab_contains :: "(int \<Rightarrow> stab) \<Rightarrow> u8 \<Rightarrow> u32 \<Rightarrow> int \<Rightarrow> int \<Rightarrow> int \<Rightarrow> int \<Rightarrow> bool" where
  "stab_contains T ty addr L R left right \<longleftrightarrow>
     L \<le> left \<and> left \<le> right \<and> right \<le> R \<and> n_type (T left) = ty \<and> n_value (T left) \<le> addr \<and>
     \<not> matches_in T ty (left + 1) right \<and>
     (right < R \<longrightarrow> n_type (T (right + 1)) = ty \<and> addr < n_value (T (right + 1)))"

definition stabs_sorted :: "(int \<Rightarrow> stab) \<Rightarrow> u8 \<Rightarrow> int \<Rightarrow> int \<Rightarrow> bool" where
  "stabs_sorted T ty L R \<longleftrightarrow>
     (\<forall>i j. L \<le> i \<and> i \<le> j \<and> j \<le> R \<and> n_type (T i) = ty \<and> n_type (T j) = ty \<longrightarrow> n_value (T i) \<le> n_value (T j))"

lemma matches_in_split:
  assumes "i \<le> j + 1" "j \<le> k"
  shows "matches_in T ty i k \<longleftrightarrow> matches_in T ty i j \<or> matches_in T ty (j + 1) k"
proof
  assume "matches_in T ty i k"
  then obtain h where h: "i \<le> h" "h \<le> k" "n_type (T h) = ty" by (auto simp: matches_in_def)
  show "matches_in T ty i j \<or> matches_in T ty (j + 1) k"
  proof (cases "h \<le> j")
    case True
    then have "matches_in T ty i j" using h unfolding matches_in_def by blast
    then show ?thesis ..
  next
    case False
    then have "j + 1 \<le> h" by simp
    then have "matches_in T ty (j + 1) k" using h unfolding matches_in_def by blast
    then show ?thesis ..
  qed
next
  have "i \<le> h \<and> h \<le> k" if "i \<le> h \<and> h \<le> j \<or> j + 1 \<le> h \<and> h \<le> k" for h using that assms by linarith
  moreover assume "matches_in T ty i j \<or> matches_in T ty (j + 1) k"
  ultimately show "matches_in T ty i k" unfolding matches_in_def by blast
qed

lemma stab_down_ok:
  "(\<And>i. l \<le> i \<Longrightarrow> i \<le> m \<Longrightarrow> tab i = Inr (T i)) \<Longrightarrow> l \<le> m + 1 \<Longrightarrow>
   \<exists>m'. stab_down tab l m ty = Inr m' \<and> l - 1 \<le> m' \<and> m' \<le> m \<and> \<not> matches_in T ty (m' + 1) m \<and> (l \<le> m' \<longrightarrow> n_type (T m') = ty)"
proof (induction "nat (m - l + 1)" arbitrary: m)
  case 0
  then show ?case by (auto simp: stab_down.simps [of tab l m] matches_in_def)
next
  case (Suc k)
  have lm: "l \<le> m" using Suc.hyps(2) by simp
  show ?case
  proof (cases "n_type (T m) = ty")
    case True
    then show ?thesis using lm Suc.prems by (auto simp: stab_down.simps [of tab l m] matches_in_def)
  next
    case False
    have "k = nat (m - 1 - l + 1)" "l \<le> m - 1 + 1" using Suc.hyps(2) lm by auto
    from Suc.hyps(1) [OF this(1) Suc.prems(1) this(2)] lm obtain m' where m': "stab_down tab l (m - 1) ty = Inr m'" "l - 1 \<le> m'"
        "m' \<le> m - 1" "\<not> matches_in T ty (m' + 1) (m - 1)" "l \<le> m' \<longrightarrow> n_type (T m') = ty" by fastforce
    moreover have "stab_down tab l m ty = stab_down tab l (m - 1) ty"
      using False lm Suc.prems(1) by (subst stab_down.simps) simp
    moreover have "\<not> matches_in T ty (m' + 1) m"
      using m'(4) False unfolding matches_in_def by (metis dual_order.order_iff_strict zle_diff1_eq)
    ultimately show ?thesis by auto
  qed
qed

text \<open>The state of the loop: the entry found so far, if any, and what has been excluded on both sides.\<close>

definition search_inv :: "(int \<Rightarrow> stab) \<Rightarrow> u8 \<Rightarrow> u32 \<Rightarrow> int \<Rightarrow> int \<Rightarrow> int \<Rightarrow> int \<Rightarrow> bool \<Rightarrow> u32 \<Rightarrow> int \<Rightarrow> bool" where
  "search_inv T ty A L R l r any a left \<longleftrightarrow>
     L \<le> l \<and> l \<le> r + 1 \<and> r \<le> R \<and> (a = A \<or> a = A + 1) \<and>
     (\<forall>i. r < i \<and> i \<le> R \<and> n_type (T i) = ty \<longrightarrow> A < n_value (T i)) \<and> (r < R \<longrightarrow> n_type (T (r + 1)) = ty) \<and>
     (any \<and> L \<le> left \<and> left \<le> l \<and> left \<le> r \<and> n_type (T left) = ty \<and> n_value (T left) \<le> A \<and> \<not> matches_in T ty (left + 1) (l - 1) \<or>
      a = A \<and> left = L \<and> \<not> matches_in T ty L (l - 1))"

lemma binsearch_loop_ok:
  assumes tab: "\<And>i. L \<le> i \<Longrightarrow> i \<le> R \<Longrightarrow> tab i = Inr (T i)" and sorted: "stabs_sorted T ty L R"
    and gap: "\<And>i. L \<le> i \<Longrightarrow> i \<le> R \<Longrightarrow> n_type (T i) = ty \<Longrightarrow> n_value (T i) \<noteq> A + 1" and A: "A + 1 \<noteq> 0"
  shows "search_inv T ty A L R l r any a left \<Longrightarrow> nat (2 * (r - l + 1)) + (if a = A then 1 else 0) \<le> k \<Longrightarrow>
    \<exists>any' a' left' r'. binsearch_loop k tab ty l r any a left r = Inr (any', left', r') \<and> search_inv T ty A L R (r' + 1) r' any' a' left'"
proof (induction k arbitrary: l r any a left)
  case 0
  then have "l = r + 1" by (auto simp: search_inv_def split: if_splits)
  then show ?case using 0 by (auto simp: binsearch_loop.simps)
next
  case (Suc k)
  note inv = Suc.prems(1) [unfolded search_inv_def]
  show ?case
  proof (cases "l \<le> r")
    case False
    then have "l = r + 1" using inv by simp
    then show ?thesis using Suc.prems(1) by (auto simp: binsearch_loop.simps)
  next
    case True
    let ?t = "(l + r) div 2"
    have t: "l \<le> ?t" "?t \<le> r" using True by auto
    obtain m where m: "stab_down tab l ?t ty = Inr m" "l - 1 \<le> m" "m \<le> ?t" "\<not> matches_in T ty (m + 1) ?t" "l \<le> m \<longrightarrow> n_type (T m) = ty"
      using stab_down_ok [of l ?t tab T ty] tab inv t by fastforce
    have step: "binsearch_loop (Suc k) tab ty l r any a left r =
      (if m < l then binsearch_loop k tab ty (?t + 1) r any a left r
       else if n_value (T m) < a then binsearch_loop k tab ty (?t + 1) r True a m r
       else if n_value (T m) > a then binsearch_loop k tab ty l (m - 1) True a left (m - 1)
       else binsearch_loop k tab ty m r True (a + 1) m r)"
      using True m tab [of m] inv t by (subst binsearch_loop.simps) (auto simp: Let_def)
    have uA: "unat (A + 1) = unat A + 1" using A unatSuc [of A] by (simp add: add.commute)
    have lt: "n_value (T m) \<le> A" if "n_value (T m) < a" using that inv uA by (auto simp: word_less_nat_alt word_le_nat_alt)
    have gt: "A < n_value (T m)" if "a < n_value (T m)" using that inv uA by (auto simp: word_less_nat_alt)
    consider "m < l" | "l \<le> m" "n_value (T m) < a" | "l \<le> m" "a < n_value (T m)" | "l \<le> m" "n_value (T m) = a" by fastforce
    then show ?thesis
    proof cases
      case 1
      then have ml: "m = l - 1" using m(2) by simp
      have none: "matches_in T ty i ?t \<longleftrightarrow> matches_in T ty i (l - 1)" if "i \<le> l" for i
        using matches_in_split [of i "l - 1" ?t T ty] m(4) that t ml by simp
      moreover have "left \<noteq> l" if "n_type (T left) = ty" using m(4) t ml that by (auto simp: matches_in_def)
      ultimately have "search_inv T ty A L R (?t + 1) r any a left" using inv t none [of L] none [of "left + 1"] by (auto simp: search_inv_def)
      then show ?thesis using Suc.IH [of "?t + 1" r any a left] Suc.prems(2) step 1 t by (auto split: if_splits)
    next
      case 2
      then have "search_inv T ty A L R (?t + 1) r True a m" using inv t m lt by (auto simp: search_inv_def)
      then show ?thesis using Suc.IH [of "?t + 1" r True a m] Suc.prems(2) step 2 t by (auto split: if_splits)
    next
      case 3
      have after: "A < n_value (T i)" if "m - 1 < i" "i \<le> R" "n_type (T i) = ty" for i
      proof -
        have "L \<le> m" "m \<le> i" "n_type (T m) = ty" using that 3(1) m(5) inv by auto
        then have "n_value (T m) \<le> n_value (T i)" using that sorted unfolding stabs_sorted_def by blast
        then show ?thesis using gt [OF 3(2)] by simp
      qed
      have "left \<le> m - 1" if "n_type (T left) = ty" "n_value (T left) \<le> A" "left \<le> r"
        using after [of left] that inv by (cases "m - 1 < left") auto
      then have "search_inv T ty A L R l (m - 1) True a left" using inv t m 3(1) after by (auto simp: search_inv_def)
      then show ?thesis using Suc.IH [of l "m - 1" True a left] Suc.prems(2) step 3 t m by (auto split: if_splits)
    next
      case 4
      then have "a = A" using inv gap [of m] m t by auto
      then have "search_inv T ty A L R m r True (a + 1) m" using inv t m 4 by (auto simp: search_inv_def matches_in_def)
      then show ?thesis using Suc.IH [of m r True "a + 1" m] Suc.prems(2) step 4 t m \<open>a = A\<close> by (auto split: if_splits)
    qed
  qed
qed


text \<open>
  C24: in a table whose entries of the type searched for are sorted by address, \<open>stab_binsearch\<close> ends and finds the last
  entry of the type at or below the address, with \<open>region_right\<close> just before the next entry of the type, provided that
  there is such an entry and that no entry of the type begins exactly one byte behind the address.
\<close>

theorem stab_binsearch_finds:
  assumes tab: "\<And>i. L \<le> i \<Longrightarrow> i \<le> R \<Longrightarrow> tab i = Inr (T i)" and sorted: "stabs_sorted T ty L R"
    and gap: "\<And>i. L \<le> i \<Longrightarrow> i \<le> R \<Longrightarrow> n_type (T i) = ty \<Longrightarrow> n_value (T i) \<noteq> addr + 1" and wrap: "addr + 1 \<noteq> 0"
    and some: "L \<le> i" "i \<le> R" "n_type (T i) = ty" "n_value (T i) \<le> addr"
  shows "\<exists>left right. stab_binsearch tab ty addr L R = Inr (left, right) \<and> stab_contains T ty addr L R left right"
proof -
  let ?k = "nat (2 * (R - L + 2))"
  have start: "search_inv T ty addr L R L R False addr L" using some(1,2) by (auto simp: search_inv_def matches_in_def)
  have "nat (2 * (R - L + 1)) + (if addr = addr then 1 else 0) \<le> ?k" using some(1,2) by simp
  from binsearch_loop_ok [of L R tab T ty addr, OF tab sorted gap wrap start this]
  obtain any a left r where e: "binsearch_loop ?k tab ty L R False addr L R = Inr (any, left, r)" "search_inv T ty addr L R (r + 1) r any a left"
    by blast
  note inv = e(2) [unfolded search_inv_def]
  have "i \<le> r" using inv some by (metis linorder_not_less order_less_le)
  then have "matches_in T ty L r" using some unfolding matches_in_def by blast
  then have found: "any" "L \<le> left" "left \<le> r" "n_type (T left) = ty" "n_value (T left) \<le> addr" "\<not> matches_in T ty (left + 1) r"
    using inv by auto
  have "\<And>j. left + 1 \<le> j \<Longrightarrow> j \<le> r \<Longrightarrow> tab j = Inr (T j)" using tab found(2) inv by auto
  from stab_down_ok [of "left + 1" r tab T ty, OF this] found(3) obtain m where
    "stab_down tab (left + 1) r ty = Inr m" "left \<le> m" "m \<le> r" "left + 1 \<le> m \<longrightarrow> n_type (T m) = ty" by auto
  moreover have "m = left" using calculation found(6) unfolding matches_in_def by force
  ultimately have "stab_binsearch tab ty addr L R = Inr (left, r)" using e(1) found(1) by (simp add: stab_binsearch_def)
  moreover have "stab_contains T ty addr L R left r" using inv found by (auto simp: stab_contains_def)
  ultimately show ?thesis by blast
qed

definition sample_stabs :: "int \<Rightarrow> stab" where
  "sample_stabs i = \<lparr>n_strx = 0, n_type = (if i mod 2 = 0 then N_SO else N_FUN), n_other = 0, n_desc = 0, n_value = of_int (16 * i)\<rparr>"

theorem stab_binsearch_finds_witness:
  "\<exists>left right. (stab_binsearch (\<lambda>i. Inr (sample_stabs i)) N_SO 40 0 5 :: unit stop + _) = Inr (left, right) \<and> stab_contains sample_stabs N_SO 40 0 5 left right"
proof (rule stab_binsearch_finds [where i = 2])
  have small: "i = 0 \<or> i = 1 \<or> i = 2 \<or> i = 3 \<or> i = 4 \<or> i = 5" if "0 \<le> i" "i \<le> 5" for i :: int using that by arith
  have "n_value (sample_stabs i) \<le> n_value (sample_stabs j)" if "0 \<le> i" "i \<le> j" "j \<le> 5" for i j
    using small [of i] small [of j] that by (auto simp: sample_stabs_def)
  then show "stabs_sorted sample_stabs N_SO 0 5" by (auto simp: stabs_sorted_def)
  show "n_value (sample_stabs i) \<noteq> 40 + 1" if "0 \<le> i" "i \<le> 5" for i using small [OF that] by (auto simp: sample_stabs_def)
qed (simp_all add: sample_stabs_def)

text \<open>Without entries of the type the result is the empty region that the comment promises.\<close>

lemma binsearch_loop_none:
  assumes tab: "\<And>i. L \<le> i \<Longrightarrow> i \<le> R \<Longrightarrow> tab i = Inr (T i)" and none: "\<not> matches_in T ty L R"
  shows "L \<le> l \<Longrightarrow> nat (R - l + 1) \<le> k \<Longrightarrow> binsearch_loop k tab ty l R any a left right = Inr (any, left, right)"
proof (induction k arbitrary: l)
  case 0
  then show ?case by (simp add: binsearch_loop.simps)
next
  case (Suc k)
  show ?case
  proof (cases "l \<le> R")
    case True
    let ?t = "(l + R) div 2"
    obtain m where m: "stab_down tab l ?t ty = Inr m" "m \<le> ?t" "l \<le> m \<longrightarrow> n_type (T m) = ty"
      using stab_down_ok [of l ?t tab T ty] tab Suc.prems(1) True by fastforce
    have "m < l"
    proof (rule ccontr)
      assume "\<not> m < l"
      then have "L \<le> m" "m \<le> R" "n_type (T m) = ty" using m True Suc.prems(1) by auto
      then show False using none unfolding matches_in_def by blast
    qed
    then have "binsearch_loop (Suc k) tab ty l R any a left right = binsearch_loop k tab ty (?t + 1) R any a left right"
      using True m(1) by (subst binsearch_loop.simps) (simp add: Let_def)
    also have "\<dots> = Inr (any, left, right)" using Suc.prems True by (intro Suc.IH) auto
    finally show ?thesis .
  qed (simp add: binsearch_loop.simps)
qed

lemma stab_binsearch_none:
  assumes "\<And>i. L \<le> i \<Longrightarrow> i \<le> R \<Longrightarrow> tab i = Inr (T i)" and "\<not> matches_in T ty L R"
  shows "stab_binsearch tab ty addr L R = Inr (L, L - 1)"
  using binsearch_loop_none [of L R tab T ty L, OF assms] by (simp add: stab_binsearch_def)

text \<open>
  Two cases in which the result is not what the comment says.  After an exact match the search goes on for the next
  address, so that an entry that begins there is taken instead; and when all entries lie above the address, the region is
  not empty and its first entry need not even have the type.
\<close>

definition line_stabs :: "int \<Rightarrow> stab" where
  "line_stabs i = \<lparr>n_strx = 0, n_type = N_SLINE, n_other = 0, n_desc = 0, n_value = 100 + of_int i\<rparr>"

lemma stab_binsearch_next_byte:
  "(stab_binsearch (\<lambda>i. Inr (line_stabs i)) N_SLINE 100 0 1 :: unit stop + _) = Inr (1, 1) \<and> 100 < n_value (line_stabs 1)"
  by code_simp

lemma stab_binsearch_above:
  "(stab_binsearch (\<lambda>i. Inr (sample_stabs i)) N_FUN 3 0 5 :: unit stop + _) = Inr (0, 0) \<and> n_type (sample_stabs 0) \<noteq> N_FUN"
  by code_simp

end
