(* ===== verification/Monitor.thy ===== *)
theory Monitor
  imports KDebug Trap
begin

text \<open>
  The command line of the kernel: \<open>readline\<close> of \<^verbatim>\<open>lib/readline.c\<close> and the monitor of \<^verbatim>\<open>kern/monitor.c\<close>.  The state is
  the console, the kernel and the memory of bytes that the text is kept in.  \<open>lit\<close> gives the addresses of the string
  literals, \<open>syms\<close> those of the symbols that the linker defines.  Loops that wait for input or follow a chain in memory
  are bounded by fuel.  The register dump of \<^verbatim>\<open>kern/trap.c\<close>, which the monitor prints, and \<open>_panic\<close> and \<open>_warn\<close> of
  \<^verbatim>\<open>kern/init.c\<close>, of which the first ends in the monitor, are here too.
\<close>

record mon_state =
  mcons :: cons_state
  mkern :: kstate
  mmem :: bytes

definition mprintf :: "nat \<Rightarrow> string \<Rightarrow> u32 list \<Rightarrow> mon_state \<Rightarrow> kstate stop + mon_state" where
  "mprintf k fmt args st =
     rbind (cprintf k (mmem st) (Lit fmt 0) args (mcons st, mkern st)) (\<lambda>(_, c, s). Inr (st\<lparr>mcons := c, mkern := s\<rparr>))"

section \<open>Reading a line\<close>

definition cputchar :: "u32 \<Rightarrow> mon_state \<Rightarrow> kstate stop + mon_state" where
  "cputchar c st = rbind (cons_putc c (mcons st)) (\<lambda>c. Inr (st\<lparr>mcons := c\<rparr>))"

fun getchar :: "nat \<Rightarrow> mon_state \<Rightarrow> kstate stop + (u32 \<times> mon_state)" where
  "getchar 0 st = Inl Diverge"
| "getchar (Suc k) st =
     rbind (cons_getc (mcons st)) (\<lambda>(c, cs).
     let st = st\<lparr>mcons := cs\<rparr> in if c = 0 then getchar k st else Inr (ucast c, st))"

definition BUFLEN :: nat where "BUFLEN = 1024"

text \<open>
  The loop of \<open>readline\<close>; \<open>iscons\<close> always says that the input is a console, so every character is echoed.  The kernel's
  \<open>getchar\<close> returns no negative number, but the code tests for one.
\<close>

fun readline_loop :: "nat \<Rightarrow> u32 \<Rightarrow> nat \<Rightarrow> mon_state \<Rightarrow> kstate stop + (bool \<times> mon_state)" where
  "readline_loop 0 buf i st = Inl Diverge"
| "readline_loop (Suc k) buf i st =
     rbind (getchar k st) (\<lambda>(c, st).
     if sint c < 0 then rbind (mprintf k (''read error: %e'' @ [CHR 0x0A]) [c] st) (\<lambda>st. Inr (False, st))
     else if (c = 8 \<or> c = 0x7F) \<and> 0 < i then
       rbind (cputchar 8 st) (readline_loop k buf (i - 1))
     else if 0x20 \<le> sint c \<and> i < BUFLEN - 1 then
       rbind (cputchar c st) (\<lambda>st.
       readline_loop k buf (i + 1) (st\<lparr>mmem := (mmem st)(buf + of_nat i := ucast c)\<rparr>))
     else if c = 10 \<or> c = 13 then
       rbind (cputchar 10 st) (\<lambda>st. Inr (True, st\<lparr>mmem := (mmem st)(buf + of_nat i := 0)\<rparr>))
     else readline_loop k buf i st)"

text \<open>The result says whether the line is in the buffer; \<open>False\<close> is the null pointer.\<close>

definition readline :: "nat \<Rightarrow> u32 \<Rightarrow> u32 \<Rightarrow> mon_state \<Rightarrow> kstate stop + (bool \<times> mon_state)" where
  "readline k buf prompt st =
     rbind (if prompt \<noteq> 0 then mprintf k ''%s'' [prompt] st else Inr st) (readline_loop k buf 0)"

section \<open>Commands\<close>

definition MAXARGS :: nat where "MAXARGS = 16"

definition whitespace :: "u8 \<Rightarrow> bool" where
  "whitespace c \<longleftrightarrow> c \<in> {0x09, 0x0D, 0x0A, 0x20}"

fun gobble :: "nat \<Rightarrow> u32 \<Rightarrow> bytes \<Rightarrow> 's stop + (u32 \<times> bytes)" where
  "gobble 0 buf m = Inl Diverge"
| "gobble (Suc k) buf m = (if m buf \<noteq> 0 \<and> whitespace (m buf) then gobble k (buf + 1) (m(buf := 0)) else Inr (buf, m))"

fun skip_word :: "nat \<Rightarrow> u32 \<Rightarrow> bytes \<Rightarrow> 's stop + u32" where
  "skip_word 0 buf m = Inl Diverge"
| "skip_word (Suc k) buf m = (if m buf \<noteq> 0 \<and> \<not> whitespace (m buf) then skip_word k (buf + 1) m else Inr buf)"

text \<open>The words of a line, as addresses; \<open>None\<close> when there are too many.\<close>

fun parse_args :: "nat \<Rightarrow> u32 \<Rightarrow> u32 list \<Rightarrow> bytes \<Rightarrow> 's stop + (u32 list option \<times> bytes)" where
  "parse_args 0 buf argv m = Inl Diverge"
| "parse_args (Suc k) buf argv m =
     rbind (gobble k buf m) (\<lambda>(buf, m).
     if m buf = 0 then Inr (Some argv, m)
     else if length argv = MAXARGS - 1 then Inr (None, m)
     else rbind (skip_word k buf m) (\<lambda>buf'. parse_args k buf' (argv @ [buf]) m))"

record link_syms =
  sym_start :: u32
  sym_entry :: u32
  sym_etext :: u32
  sym_edata :: u32
  sym_end :: u32

definition commands :: "(string \<times> string) list" where
  "commands = [(''help'', ''Display this list of commands''), (''kerninfo'', ''Display information about the kernel''),
     (''backtrace'', ''Display stack backtrace'')]"

fun help_lines :: "nat \<Rightarrow> (string \<Rightarrow> u32) \<Rightarrow> (string \<times> string) list \<Rightarrow> mon_state \<Rightarrow> kstate stop + mon_state" where
  "help_lines k lit [] st = Inr st"
| "help_lines k lit ((name, desc) # cs) st =
     rbind (mprintf k (''%s - %s'' @ [CHR 0x0A]) [lit name, lit desc] st) (help_lines k lit cs)"

definition mon_help :: "nat \<Rightarrow> (string \<Rightarrow> u32) \<Rightarrow> mon_state \<Rightarrow> kstate stop + mon_state" where
  "mon_help k lit st = help_lines k lit commands st"

definition mon_kerninfo :: "nat \<Rightarrow> link_syms \<Rightarrow> mon_state \<Rightarrow> kstate stop + mon_state" where
  "mon_kerninfo k sy st =
     (let nl = [CHR 0x0A] in
      rbind (mprintf k (''Special kernel symbols:'' @ nl) [] st) (\<lambda>st.
      rbind (mprintf k (''  _start                  %08x (phys)'' @ nl) [sym_start sy] st) (\<lambda>st.
      rbind (mprintf k (''  entry  %08x (virt)  %08x (phys)'' @ nl) [sym_entry sy, sym_entry sy - KERNBASE] st) (\<lambda>st.
      rbind (mprintf k (''  etext  %08x (virt)  %08x (phys)'' @ nl) [sym_etext sy, sym_etext sy - KERNBASE] st) (\<lambda>st.
      rbind (mprintf k (''  edata  %08x (virt)  %08x (phys)'' @ nl) [sym_edata sy, sym_edata sy - KERNBASE] st) (\<lambda>st.
      rbind (mprintf k (''  end    %08x (virt)  %08x (phys)'' @ nl) [sym_end sy, sym_end sy - KERNBASE] st) (\<lambda>st.
      mprintf k (''Kernel executable memory footprint: %dKB'' @ nl)
        [ROUNDUP (sym_end sy - sym_entry sy) 1024 div 1024] st)))))))"

fun ptr_addr :: "(string \<Rightarrow> u32) \<Rightarrow> cptr \<Rightarrow> u32" where
  "ptr_addr lit (At a) = a"
| "ptr_addr lit (Lit cs i) = lit cs + of_nat i"

fun print_args :: "nat \<Rightarrow> nat \<Rightarrow> u32 \<Rightarrow> mon_state \<Rightarrow> kstate stop + mon_state" where
  "print_args k 0 a st = Inr st"
| "print_args k (Suc n) a st = rbind (mprintf k ''%08x '' [get32 a (mmem st)] st) (print_args k n (a + 4))"

fun backtrace_loop :: "nat \<Rightarrow> (string \<Rightarrow> u32) \<Rightarrow> stab_syms \<Rightarrow> u32 \<Rightarrow> mon_state \<Rightarrow> kstate stop + mon_state" where
  "backtrace_loop 0 lit sy ebp st = Inl Diverge"
| "backtrace_loop (Suc k) lit sy ebp st =
     (if ebp = 0 then Inr st
      else
        let eip = get32 (ebp + 4) (mmem st) in
        rbind (mprintf k ''  EIP: %08x '' [eip] st) (\<lambda>st.
        rbind (debuginfo_eip k sy eip (mkern st)) (\<lambda>((r, info), s).
        let st = st\<lparr>mkern := s\<rparr> in
        rbind (if r = 0 then
                 rbind (mprintf k (''%s:%d: %.*s+%d'' @ [CHR 0x09])
                   [ptr_addr lit (eip_file info), eip_line info, eip_fn_namelen info, ptr_addr lit (eip_fn_name info),
                    eip - eip_fn_addr info] st) (\<lambda>st. Inr (nat (sint (eip_fn_narg info)), st))
               else rbind (mprintf k (''<no debug info>'' @ [CHR 0x09]) [] st) (\<lambda>st. Inr (6, st))) (\<lambda>(nargs, st).
        rbind (mprintf k ''  EBP: %08x '' [ebp] st) (\<lambda>st.
        rbind (if nargs \<noteq> 0 then mprintf k ''  args '' [] st else Inr st) (\<lambda>st.
        rbind (print_args k nargs (ebp + 8) st) (\<lambda>st.
        rbind (mprintf k [CHR 0x0A] [] st) (\<lambda>st.
        backtrace_loop k lit sy (get32 ebp (mmem st)) st))))))))"

definition mon_backtrace :: "nat \<Rightarrow> (string \<Rightarrow> u32) \<Rightarrow> stab_syms \<Rightarrow> u32 \<Rightarrow> mon_state \<Rightarrow> kstate stop + mon_state" where
  "mon_backtrace k lit sy ebp st =
     rbind (mprintf k (''Stack backtrace:'' @ [CHR 0x0A]) [] st) (backtrace_loop k lit sy ebp)"

text \<open>
  \<open>mon_env\<close> bundles what the commands read besides the line: literals, symbols and the frame pointer.  Every command returns
  0, so the monitor is never left.
\<close>

record mon_env =
  me_lit :: "string \<Rightarrow> u32"
  me_syms :: link_syms
  me_stabs :: stab_syms
  me_ebp :: u32

definition word_is :: "u32 \<Rightarrow> string \<Rightarrow> bytes \<Rightarrow> bool" where
  "word_is a name m \<longleftrightarrow> (\<forall>i < length name. m (a + of_nat i) = of_char (name ! i)) \<and> m (a + of_nat (length name)) = 0"

definition runcmd :: "nat \<Rightarrow> mon_env \<Rightarrow> u32 \<Rightarrow> mon_state \<Rightarrow> kstate stop + (int \<times> mon_state)" where
  "runcmd k e buf st =
     rbind (parse_args k buf [] (mmem st)) (\<lambda>(argv, m).
     let st = st\<lparr>mmem := m\<rparr> in
     case argv of
       None \<Rightarrow> rbind (mprintf k (''Too many arguments (max %d)'' @ [CHR 0x0A]) [of_nat MAXARGS] st) (\<lambda>st. Inr (0, st))
     | Some [] \<Rightarrow> Inr (0, st)
     | Some (a # _) \<Rightarrow>
         rbind (if word_is a ''help'' m then mon_help k (me_lit e) st
                else if word_is a ''kerninfo'' m then mon_kerninfo k (me_syms e) st
                else if word_is a ''backtrace'' m then mon_backtrace k (me_lit e) (me_stabs e) (me_ebp e) st
                else mprintf k (''Unknown command '' @ [CHR 0x27] @ ''%s'' @ [CHR 0x27, CHR 0x0A]) [a] st) (\<lambda>st. Inr (0, st)))"

fun monitor_loop :: "nat \<Rightarrow> mon_env \<Rightarrow> u32 \<Rightarrow> mon_state \<Rightarrow> kstate stop + mon_state" where
  "monitor_loop 0 e buf st = Inl Diverge"
| "monitor_loop (Suc k) e buf st =
     rbind (readline k buf (me_lit e ''K> '') st) (\<lambda>(got, st).
     if got then rbind (runcmd k e buf st) (\<lambda>(r, st). if r < 0 then Inr st else monitor_loop k e buf st)
     else monitor_loop k e buf st)"

section \<open>Registers\<close>

fun mprints :: "nat \<Rightarrow> (string \<times> u32 list) list \<Rightarrow> mon_state \<Rightarrow> kstate stop + mon_state" where
  "mprints k [] st = Inr st"
| "mprints k ((fmt, args) # rest) st = rbind (mprintf k fmt args st) (mprints k rest)"

definition print_regs :: "nat \<Rightarrow> pushregs \<Rightarrow> mon_state \<Rightarrow> kstate stop + mon_state" where
  "print_regs k r st =
     mprints k [(''  edi  0x%08x\<newline>'', [reg_edi r]), (''  esi  0x%08x\<newline>'', [reg_esi r]), (''  ebp  0x%08x\<newline>'', [reg_ebp r]),
       (''  oesp 0x%08x\<newline>'', [reg_oesp r]), (''  ebx  0x%08x\<newline>'', [reg_ebx r]), (''  edx  0x%08x\<newline>'', [reg_edx r]),
       (''  ecx  0x%08x\<newline>'', [reg_ecx r]), (''  eax  0x%08x\<newline>'', [reg_eax r])] st"

text \<open>\<open>a\<close> is the address of the frame, and \<open>last_tf\<close> that of the frame of the last trap.\<close>

definition print_trapframe :: "nat \<Rightarrow> (string \<Rightarrow> u32) \<Rightarrow> u32 \<Rightarrow> u32 \<Rightarrow> trapframe \<Rightarrow> mon_state \<Rightarrow> kstate stop + mon_state" where
  "print_trapframe k lit last_tf a tf st =
     rbind (mprintf k ''TRAP frame at %p from CPU %d\<newline>'' [a, of_nat (cpunum (mkern st))] st) (\<lambda>st.
     rbind (print_regs k (tf_regs tf) st) (\<lambda>st.
     mprints k
       ([(''  es   0x----%04x\<newline>'', [ucast (tf_es tf)]), (''  ds   0x----%04x\<newline>'', [ucast (tf_ds tf)]),
         (''  trap 0x%08x %s\<newline>'', [tf_trapno tf, lit (trapname (tf_trapno tf))])] @
        (if a = last_tf \<and> tf_trapno tf = T_PGFLT then [(''  cr2  0x%08x\<newline>'', [cr2 (mkern st)])] else []) @
        [(''  err  0x%08x'', [tf_err tf])] @
        (if tf_trapno tf = T_PGFLT then
           [('' [%s, %s, %s]\<newline>'', [lit (if tf_err tf AND 4 \<noteq> 0 then ''user'' else ''kernel''),
              lit (if tf_err tf AND 2 \<noteq> 0 then ''write'' else ''read''),
              lit (if tf_err tf AND 1 \<noteq> 0 then ''protection'' else ''not-present'')])]
         else [(''\<newline>'', [])]) @
        [(''  eip  0x%08x\<newline>'', [tf_eip tf]), (''  cs   0x----%04x\<newline>'', [ucast (tf_cs tf)]), (''  flag 0x%08x\<newline>'', [tf_eflags tf])] @
        (if tf_cs tf AND 3 \<noteq> 0 then [(''  esp  0x%08x\<newline>'', [tf_esp tf]), (''  ss   0x----%04x\<newline>'', [ucast (tf_ss tf)])] else [])) st))"

section \<open>The monitor and panics\<close>

text \<open>The frame is given by its address and contents; \<open>None\<close> is the null pointer.\<close>

definition monitor :: "nat \<Rightarrow> mon_env \<Rightarrow> u32 \<Rightarrow> (u32 \<times> trapframe) option \<Rightarrow> u32 \<Rightarrow> mon_state \<Rightarrow> kstate stop + mon_state" where
  "monitor k e last_tf tf buf st =
     rbind (mprintf k (''Welcome to the JOS kernel monitor!'' @ [CHR 0x0A]) [] st) (\<lambda>st.
     rbind (mprintf k (''Type '' @ [CHR 0x27] @ ''help'' @ [CHR 0x27] @ '' for a list of commands.'' @ [CHR 0x0A]) [] st) (\<lambda>st.
     rbind (case tf of None \<Rightarrow> Inr st | Some (a, f) \<Rightarrow> print_trapframe k (me_lit e) last_tf a f st)
       (monitor_loop k e buf)))"

fun monitor_forever :: "nat \<Rightarrow> mon_env \<Rightarrow> u32 \<Rightarrow> u32 \<Rightarrow> mon_state \<Rightarrow> kstate stop + mon_state" where
  "monitor_forever 0 e last_tf buf st = Inl Diverge"
| "monitor_forever (Suc k) e last_tf buf st = rbind (monitor k e last_tf None buf st) (monitor_forever k e last_tf buf)"

definition k_warn :: "nat \<Rightarrow> mon_env \<Rightarrow> string \<Rightarrow> u32 \<Rightarrow> string \<Rightarrow> u32 list \<Rightarrow> mon_state \<Rightarrow> kstate stop + mon_state" where
  "k_warn k e file line fmt args st =
     mprints k [(''kernel warning at %s:%d: '', [me_lit e file, line]), (fmt, args), (''\<newline>'', [])] st"

text \<open>The first panic sets \<open>panicstr\<close> and prints; a panic while there was one goes straight to the monitor.\<close>

definition k_panic :: "nat \<Rightarrow> mon_env \<Rightarrow> u32 \<Rightarrow> u32 \<Rightarrow> string \<Rightarrow> u32 \<Rightarrow> string \<Rightarrow> u32 list \<Rightarrow> string option \<times> mon_state \<Rightarrow>
    kstate stop + (string option \<times> mon_state)" where
  "k_panic k e last_tf buf file line fmt args x =
     (let (panicstr, st) = x in
      rbind (if panicstr \<noteq> None then Inr (panicstr, st)
             else
               rbind (mprints k [(''kernel panic on CPU %d at %s:%d: '', [of_nat (cpunum (mkern st)), me_lit e file, line]),
                   (fmt, args), (''\<newline>'', [])] st) (\<lambda>st. Inr (Some fmt, st))) (\<lambda>(panicstr, st).
      rbind (monitor_forever k e last_tf buf st) (\<lambda>st. Inr (panicstr, st))))"

text \<open>A panic does not return, which the code promises to the compiler.\<close>

lemma monitor_forever_noreturn: "monitor_forever k e last_tf buf st \<noteq> Inr st'"
proof (induction k arbitrary: st)
  case (Suc k)
  then show ?case by (cases "monitor k e last_tf None buf st") simp_all
qed simp

lemma k_panic_noreturn: "k_panic k e last_tf buf file line fmt args x \<noteq> Inr y"
  using monitor_forever_noreturn by (auto simp: k_panic_def Let_def split: prod.splits if_splits)

section \<open>Bounds\<close>

lemma getchar_mmem: "getchar k st = Inr (c, st') \<Longrightarrow> mmem st' = mmem st"
  by (induction k arbitrary: st) (auto simp: Let_def split: if_splits)

lemma mprintf_mmem: "mprintf k fmt args st = Inr st' \<Longrightarrow> mmem st' = mmem st"
  by (auto simp: mprintf_def)

lemma cputchar_mmem: "cputchar c st = Inr st' \<Longrightarrow> mmem st' = mmem st"
  by (auto simp: cputchar_def)

text \<open>\<open>readline\<close> writes only to its buffer, whatever is typed.\<close>

lemma readline_loop_bounds:
  "readline_loop k buf i st = Inr (r, st') \<Longrightarrow> i < BUFLEN \<Longrightarrow> (\<And>j. j < BUFLEN \<Longrightarrow> a \<noteq> buf + of_nat j) \<Longrightarrow> mmem st' a = mmem st a"
proof (induction k arbitrary: i st)
  case (Suc k)
  obtain c st1 where g: "getchar k st = Inr (c, st1)" using Suc.prems(1) by auto
  note m = getchar_mmem [OF g]
  have a: "a \<noteq> buf + of_nat i" using Suc.prems(2,3) by blast
  consider "sint c < 0" | "\<not> sint c < 0" "(c = 8 \<or> c = 0x7F) \<and> 0 < i"
    | "\<not> sint c < 0" "\<not> ((c = 8 \<or> c = 0x7F) \<and> 0 < i)" "0x20 \<le> sint c \<and> i < BUFLEN - 1"
    | "\<not> sint c < 0" "\<not> ((c = 8 \<or> c = 0x7F) \<and> 0 < i)" "\<not> (0x20 \<le> sint c \<and> i < BUFLEN - 1)" "c = 10 \<or> c = 13"
    | "\<not> sint c < 0" "\<not> ((c = 8 \<or> c = 0x7F) \<and> 0 < i)" "\<not> (0x20 \<le> sint c \<and> i < BUFLEN - 1)" "\<not> (c = 10 \<or> c = 13)"
    by blast
  then show ?case
  proof cases
    case 1
    then show ?thesis using Suc.prems(1) g m by (auto dest: mprintf_mmem)
  next
    case 2
    then obtain st2 where "cputchar 8 st1 = Inr st2" "readline_loop k buf (i - 1) st2 = Inr (r, st')" using Suc.prems(1) g by auto
    then show ?thesis using Suc.IH [of "i - 1" st2] Suc.prems(2,3) m cputchar_mmem [of 8 st1 st2] by auto
  next
    case 3
    then obtain st2 where s2: "cputchar c st1 = Inr st2"
        "readline_loop k buf (i + 1) (st2\<lparr>mmem := (mmem st2)(buf + of_nat i := ucast c)\<rparr>) = Inr (r, st')"
      using Suc.prems(1) g by (auto simp del: One_nat_def)
    have "i + 1 < BUFLEN" using 3(3) by auto
    then show ?thesis using Suc.IH [OF s2(2) _ Suc.prems(3)] m cputchar_mmem [OF s2(1)] a by simp
  next
    case 4
    then obtain st2 where "cputchar 10 st1 = Inr st2" "st' = st2\<lparr>mmem := (mmem st2)(buf + of_nat i := 0)\<rparr>"
      using Suc.prems(1) g by (auto simp del: One_nat_def)
    then show ?thesis using m a cputchar_mmem [of 10 st1 st2] by simp
  next
    case 5
    then show ?thesis using Suc.IH [of i st1] Suc.prems g m by auto
  qed
qed simp

text \<open>The array of arguments is never overrun.\<close>

lemma parse_args_bound:
  "(parse_args k buf argv m :: 's stop + _) = Inr (Some argv', m') \<Longrightarrow> length argv \<le> MAXARGS - 1 \<Longrightarrow> length argv' \<le> MAXARGS - 1"
proof (induction k arbitrary: buf argv m)
  case (Suc k)
  then obtain b m1 where g: "gobble k buf m = (Inr (b, m1) :: 's stop + _)" by auto
  show ?case
  proof (cases "m1 b = 0 \<or> length argv = MAXARGS - 1")
    case True
    then show ?thesis using Suc.prems g by (auto split: if_splits)
  next
    case False
    then obtain x where x: "skip_word k b m1 = (Inr x :: 's stop + _)" "parse_args k x (argv @ [b]) m1 = (Inr (Some argv', m') :: 's stop + _)"
      using Suc.prems(1) g by auto
    then show ?thesis using Suc.IH [OF x(2)] Suc.prems(2) False by simp
  qed
qed simp

end
