(* ===== verification/BootLoader.thy ===== *)
theory BootLoader
  imports StringLib Env
begin

text \<open>
  The boot loader, \<^verbatim>\<open>boot/main.c\<close>: it reads the kernel image from the first disk with port instructions and jumps to its
  entry point.  The disk is a function from sector numbers to bytes; \<open>bl_status\<close> lists what the status port will return,
  and waiting beyond its end does not terminate.
\<close>

record boot_state =
  bl_mem :: bytes
  bl_disk :: "u32 \<Rightarrow> nat \<Rightarrow> u8"
  bl_status :: "u8 list"
  bl_lba :: u32
  bl_outw :: "(u16 \<times> u16) list"

datatype boot_end = Entered u32 | Spins

definition SECTSIZE :: u32 where "SECTSIZE = 512"
definition ELFHDR :: u32 where "ELFHDR = 0x10000"

fun wait_status :: "u8 list \<Rightarrow> 's stop + u8 list" where
  "wait_status [] = Inl Diverge"
| "wait_status (x # xs) = (if x AND 0xC0 \<noteq> 0x40 then wait_status xs else Inr xs)"

definition waitdisk :: "boot_state \<Rightarrow> boot_state stop + boot_state" where
  "waitdisk b = rbind (wait_status (bl_status b)) (\<lambda>xs. Inr (b\<lparr>bl_status := xs\<rparr>))"

text \<open>The bytes of a sector go to memory in order, as \<open>insl\<close> stores them.\<close>

fun ins_bytes :: "nat \<Rightarrow> u32 \<Rightarrow> (nat \<Rightarrow> u8) \<Rightarrow> nat \<Rightarrow> bytes \<Rightarrow> bytes" where
  "ins_bytes 0 dst sect i m = m"
| "ins_bytes (Suc n) dst sect i m = ins_bytes n dst sect (Suc i) (m(dst + of_nat i := sect i))"

text \<open>
  The sector number is written to four ports, the last of which takes only its upper byte together with the bits
  that select the first disk and linear addressing; the disk uses the lower four bits of that byte.
\<close>

definition set_lba :: "u8 \<Rightarrow> u8 \<Rightarrow> u8 \<Rightarrow> u8 \<Rightarrow> u32" where
  "set_lba r3 r4 r5 r6 = ucast r3 OR push_bit 8 (ucast r4) OR push_bit 16 (ucast r5) OR push_bit 24 (ucast (r6 AND 0x0F))"

definition readsect :: "u32 \<Rightarrow> u32 \<Rightarrow> boot_state \<Rightarrow> boot_state stop + boot_state" where
  "readsect dst offset b =
     rbind (waitdisk b) (\<lambda>b.
     let b = b\<lparr>bl_lba := set_lba (ucast offset) (ucast (drop_bit 8 offset)) (ucast (drop_bit 16 offset))
                (ucast (drop_bit 24 offset OR 0xE0))\<rparr> in
     rbind (waitdisk b) (\<lambda>b.
     Inr (b\<lparr>bl_mem := ins_bytes (4 * unat (SECTSIZE div 4)) dst (bl_disk b (bl_lba b)) 0 (bl_mem b)\<rparr>)))"

fun readseg_loop :: "nat \<Rightarrow> u32 \<Rightarrow> u32 \<Rightarrow> u32 \<Rightarrow> boot_state \<Rightarrow> boot_state stop + boot_state" where
  "readseg_loop k pa end_pa offset b =
     (if pa < end_pa then
        case k of 0 \<Rightarrow> Inl Diverge
        | Suc k \<Rightarrow> rbind (readsect pa offset b) (\<lambda>b. readseg_loop k (pa + SECTSIZE) end_pa (offset + 1) b)
      else Inr b)"

declare readseg_loop.simps [simp del]

text \<open>There are \<open>2 ^ 23\<close> sector addresses; a segment that ends in the last sector of the address space never ends.\<close>

definition readseg :: "u32 \<Rightarrow> u32 \<Rightarrow> u32 \<Rightarrow> boot_state \<Rightarrow> boot_state stop + boot_state" where
  "readseg pa count offset b =
     (let end_pa = pa + count;
          pa = pa AND NOT (SECTSIZE - 1);
          offset = (offset div SECTSIZE) + 1 in
      readseg_loop 8388608 pa end_pa offset b)"

text \<open>A program header has 32 bytes: the file offset is at 4, the physical address at 12, the size in memory at 20.\<close>

fun load_headers :: "nat \<Rightarrow> u32 \<Rightarrow> boot_state \<Rightarrow> boot_state stop + boot_state" where
  "load_headers 0 ph b = Inr b"
| "load_headers (Suc n) ph b =
     rbind (readseg (get32 (ph + 12) (bl_mem b)) (get32 (ph + 20) (bl_mem b)) (get32 (ph + 4) (bl_mem b)) b)
       (load_headers n (ph + 32))"

definition bootmain :: "boot_state \<Rightarrow> boot_state stop + (boot_end \<times> boot_state)" where
  "bootmain b =
     rbind (readseg ELFHDR (SECTSIZE * 8) 0 b) (\<lambda>b.
     if get32 ELFHDR (bl_mem b) \<noteq> ELF_MAGIC
     then Inr (Spins, b\<lparr>bl_outw := bl_outw b @ [(0x8A00, 0x8A00), (0x8A00, 0x8E00)]\<rparr>)
     else
       let ph = ELFHDR + get32 (ELFHDR + 28) (bl_mem b);
           e_phnum = ucast (bl_mem b (ELFHDR + 44)) OR push_bit 8 (ucast (bl_mem b (ELFHDR + 45))) in
       rbind (load_headers (unat (e_phnum :: u32)) ph b) (\<lambda>b. Inr (Entered (get32 (ELFHDR + 24) (bl_mem b)), b)))"

section \<open>What is loaded\<close>

lemma set_lba_offset:
  assumes "offset < 0x10000000"
  shows "set_lba (ucast offset) (ucast (drop_bit 8 offset)) (ucast (drop_bit 16 offset)) (ucast (drop_bit 24 offset OR 0xE0)) = offset"
proof -
  have "unat offset < 2 ^ 28" using assms by (simp add: word_less_nat_alt)
  then have "take_bit 28 (unat offset) = unat offset" by (rule take_bit_nat_eq_self)
  then have "\<not> bit (unat offset) n" if "28 \<le> n" for n using that by (metis bit_take_bit_iff not_less)
  then have hi: "n < 28" if "bit offset n" for n using that by (auto simp: bit_unsigned_iff not_less [symmetric])
  have e0: "\<not> bit (0xE0 :: u32) n" if "n < 4" for n
  proof -
    have "n = 0 \<or> n = 1 \<or> n = 2 \<or> n = 3" using that by arith
    then show ?thesis by auto
  qed
  have nibble: "w AND 0xF = take_bit 4 w" for w :: u8 by (simp add: take_bit_eq_mask mask_eq_exp_minus_1)
  show ?thesis unfolding set_lba_def nibble
    by (rule bit_word_eqI)
      (auto simp: bit_or_iff bit_take_bit_iff bit_push_bit_iff bit_ucast_iff bit_drop_bit_eq dest: hi e0)
qed

lemma ins_bytes_spec:
  "unat dst + (i + n) \<le> 4294967296 \<Longrightarrow>
   ins_bytes n dst sect i m a = (if unat dst + i \<le> unat a \<and> unat a < unat dst + i + n then sect (unat a - unat dst) else m a)"
proof (induction n arbitrary: i m)
  case (Suc n)
  have "unat (of_nat i :: u32) = i" using Suc.prems by (simp add: unat_of_nat)
  then have "unat (dst + of_nat i) = unat dst + i" using Suc.prems by (subst unat_plus) auto
  then have "a = dst + of_nat i \<longleftrightarrow> unat a = unat dst + i" by (metis word_unat_eq_iff)
  then show ?case using Suc by auto
qed auto

text \<open>The disk answers at once.\<close>

definition disk_ready :: "boot_state \<Rightarrow> nat \<Rightarrow> bool" where
  "disk_ready b n \<longleftrightarrow> take (2 * n) (bl_status b) = replicate (2 * n) 0x40"

lemma disk_ready_mono:
  assumes "disk_ready b n" and "m \<le> n"
  shows "disk_ready b m"
proof -
  have "take (2 * m) (take (2 * n) (bl_status b)) = take (2 * m) (replicate (2 * n) 0x40)" using assms(1) by (simp add: disk_ready_def)
  then show ?thesis using assms(2) by (simp add: disk_ready_def min_def take_replicate)
qed

lemma readsect_ok:
  assumes "disk_ready b (Suc n)" "offset < 0x10000000" "unat dst + 512 \<le> 4294967296"
  shows "\<exists>b'. readsect dst offset b = Inr b' \<and> disk_ready b' n \<and> bl_disk b' = bl_disk b \<and>
    (\<forall>a. bl_mem b' a = (if unat dst \<le> unat a \<and> unat a < unat dst + 512 then bl_disk b offset (unat a - unat dst) else bl_mem b a))"
proof -
  obtain xs where xs: "bl_status b = 0x40 # 0x40 # xs" "take (2 * n) xs = replicate (2 * n) 0x40"
    using assms(1) by (cases "bl_status b"; cases "tl (bl_status b)") (auto simp: disk_ready_def)
  then show ?thesis using assms(2,3) ins_bytes_spec [of dst 0 512]
    by (auto simp: readsect_def waitdisk_def set_lba_offset Let_def SECTSIZE_def disk_ready_def)
qed

lemma readseg_loop_ok:
  "disk_ready b n \<Longrightarrow> unat offset + n \<le> 0x10000000 \<Longrightarrow> unat pa + 512 * n < 4294967296 \<Longrightarrow> n \<le> k \<Longrightarrow>
     unat pa + 512 * n < unat end_pa + 512 \<Longrightarrow> unat end_pa \<le> unat pa + 512 * n \<Longrightarrow>
   \<exists>b'. readseg_loop k pa end_pa offset b = Inr b' \<and> bl_disk b' = bl_disk b \<and>
    (\<forall>a. bl_mem b' a = (if unat pa \<le> unat a \<and> unat a < unat pa + 512 * n
       then bl_disk b (offset + of_nat ((unat a - unat pa) div 512)) ((unat a - unat pa) mod 512) else bl_mem b a))"
proof (induction n arbitrary: k pa offset b)
  case 0
  then have "\<not> pa < end_pa" by (simp add: word_less_nat_alt)
  then show ?case by (auto simp: readseg_loop.simps)
next
  case (Suc n)
  obtain j where k: "k = Suc j" "n \<le> j" using Suc.prems(4) by (cases k) auto
  have lt: "pa < end_pa" using Suc.prems(5) by (simp add: word_less_nat_alt)
  have off: "offset < 0x10000000" "unat (offset + 1) = unat offset + 1"
    using Suc.prems(2) by (simp add: word_less_nat_alt, subst unat_plus) simp_all
  have pa: "unat (pa + 512) = unat pa + 512" using Suc.prems(3) by (subst unat_plus) simp_all
  obtain b1 where b1: "readsect pa offset b = Inr b1" "disk_ready b1 n" "bl_disk b1 = bl_disk b"
      "\<And>a. bl_mem b1 a = (if unat pa \<le> unat a \<and> unat a < unat pa + 512 then bl_disk b offset (unat a - unat pa) else bl_mem b a)"
    using readsect_ok [OF Suc.prems(1) off(1), of pa] Suc.prems(3) by auto
  obtain b2 where b2: "readseg_loop j (pa + 512) end_pa (offset + 1) b1 = Inr b2" "bl_disk b2 = bl_disk b1"
      "\<And>a. bl_mem b2 a = (if unat pa + 512 \<le> unat a \<and> unat a < unat pa + 512 + 512 * n
         then bl_disk b1 (offset + 1 + of_nat ((unat a - (unat pa + 512)) div 512)) ((unat a - (unat pa + 512)) mod 512) else bl_mem b1 a)"
    using Suc.IH [OF b1(2), of "offset + 1" "pa + 512" j] Suc.prems off pa k by auto
  have "readseg_loop k pa end_pa offset b = Inr b2" using lt k(1) b1(1) b2(1) by (subst readseg_loop.simps) (simp add: SECTSIZE_def)
  moreover have "bl_mem b2 a = (if unat pa \<le> unat a \<and> unat a < unat pa + 512 * Suc n
      then bl_disk b (offset + of_nat ((unat a - unat pa) div 512)) ((unat a - unat pa) mod 512) else bl_mem b a)" for a
  proof (cases "unat pa + 512 \<le> unat a")
    case True
    then obtain d where "unat a = unat pa + 512 + d" using le_Suc_ex by blast
    moreover have "(d + 512) div 512 = Suc (d div 512)" by simp
    ultimately show ?thesis using b2(3) [of a] b1(3,4) by (simp add: algebra_simps)
  next
    case False
    then show ?thesis using b2(3) [of a] b1(4) by auto
  qed
  ultimately show ?case using b1(3) b2(2) by auto
qed


lemma sector_base: "unat (pa AND NOT (SECTSIZE - 1)) = unat pa - unat pa mod 512"
proof -
  have "(SECTSIZE - 1) = mask 9" by (simp add: SECTSIZE_def mask_eq_exp_minus_1)
  then have "pa AND NOT (SECTSIZE - 1) = push_bit 9 (drop_bit 9 pa)"
    by (auto intro!: bit_word_eqI simp: bit_and_iff bit_not_iff bit_mask_iff bit_push_bit_iff bit_drop_bit_eq)
  also have "unat \<dots> = unat pa div 512 * 512"
    using unat_lt [of pa] by (simp add: push_bit_eq_mult drop_bit_eq_div unat_word_ariths unat_div)
  finally show ?thesis by (simp add: minus_mod_eq_div_mult)
qed

text \<open>
  A segment whose address and file offset agree modulo the size of a sector is loaded byte by byte from the image, which
  starts at sector 1, when the disk answers and nothing wraps around.
\<close>

lemma readseg_loads:
  assumes cong: "unat pa mod 512 = unat offset mod 512" and fit: "unat pa + unat count + 512 < 4294967296"
    and img: "unat offset + unat count < 0x10000000" and ready: "disk_ready b ((unat count + 1022) div 512)"
  shows "\<exists>b'. readseg pa count offset b = Inr b' \<and>
    (\<forall>i < unat count. bl_mem b' (pa + of_nat i) = bl_disk b (1 + of_nat ((unat offset + i) div 512)) ((unat offset + i) mod 512))"
proof -
  let ?o = "unat pa mod 512" and ?n = "(unat pa mod 512 + unat count + 511) div 512" and ?p = "pa AND NOT (SECTSIZE - 1)"
  have p: "unat ?p = unat pa - ?o" by (rule sector_base)
  have e: "unat (pa + count) = unat pa + unat count" using fit by (subst unat_plus) simp_all
  have o: "unat (offset div SECTSIZE + 1) = unat offset div 512 + 1"
    using img by (subst unat_plus) (simp_all add: SECTSIZE_def unat_div)
  have n: "512 * ?n < ?o + unat count + 512" "?o + unat count \<le> 512 * ?n" by linarith+
  have le: "?o \<le> unat pa" "?o < 512" by simp_all
  have "disk_ready b ?n" using ready by (rule disk_ready_mono) (use le(2) in \<open>simp add: div_le_mono\<close>)
  moreover have "unat (offset div SECTSIZE + 1) + ?n \<le> 0x10000000" using o img n(1) le(2) by linarith
  moreover have "unat ?p + 512 * ?n < 4294967296" using p n(1) fit le by linarith
  moreover have "?n \<le> 8388608" using fit n(1) le by linarith
  moreover have "unat ?p + 512 * ?n < unat (pa + count) + 512" "unat (pa + count) \<le> unat ?p + 512 * ?n"
    using p e n le by linarith+
  ultimately obtain b' where b': "readseg_loop 8388608 ?p (pa + count) (offset div SECTSIZE + 1) b = Inr b'"
      "\<And>a. bl_mem b' a = (if unat ?p \<le> unat a \<and> unat a < unat ?p + 512 * ?n
       then bl_disk b (offset div SECTSIZE + 1 + of_nat ((unat a - unat ?p) div 512)) ((unat a - unat ?p) mod 512) else bl_mem b a)"
    using readseg_loop_ok [of b ?n "offset div SECTSIZE + 1" ?p 8388608 "pa + count"] by blast
  have "bl_mem b' (pa + of_nat i) = bl_disk b (1 + of_nat ((unat offset + i) div 512)) ((unat offset + i) mod 512)" if i: "i < unat count" for i
  proof -
    have "unat (of_nat i :: u32) = i" using i fit by (simp add: unat_of_nat)
    then have a: "unat (pa + of_nat i) = unat pa + i" using i fit by (subst unat_plus) auto
    have d: "unat (pa + of_nat i) - unat ?p = unat offset mod 512 + i" using a p le cong by simp
    have "unat offset + i = 512 * (unat offset div 512) + (unat offset mod 512 + i)" by simp
    then have "(unat offset + i) div 512 = unat offset div 512 + (unat offset mod 512 + i) div 512"
        "(unat offset + i) mod 512 = (unat offset mod 512 + i) mod 512"
      by (metis div_mult_self4 zero_neq_numeral, metis mod_mult_self4)
    moreover have "unat offset div 512 < 4294967296" using unat_lt [of offset] by (meson div_le_dividend le_less_trans)
    then have "offset div SECTSIZE = of_nat (unat offset div 512)"
      by (simp add: SECTSIZE_def word_unat_eq_iff unat_div unat_of_nat take_bit_nat_eq_self)
    moreover have "unat ?p \<le> unat (pa + of_nat i)" "unat (pa + of_nat i) < unat ?p + 512 * ?n" using a p i n(2) le by linarith+
    ultimately show ?thesis using b'(2) [of "pa + of_nat i"] d by (simp add: algebra_simps)
  qed
  then show ?thesis using b'(1) by (auto simp: readseg_def)
qed

end
