(* ===== verification/BootMem.thy ===== *)
theory BootMem
  imports Env
begin

text \<open>
  Memory set-up at boot: \<open>i386_detect_memory\<close>, \<open>page_init\<close>, \<open>mem_init\<close> and \<open>mem_init_mp\<close> of \<^verbatim>\<open>kern/pmap.c\<close>, the
  clock chip of \<^verbatim>\<open>kern/kclock.c\<close> that remembers the memory size, and the page table with which the kernel starts,
  \<^verbatim>\<open>kern/entrypgdir.c\<close>.

  Of \<open>mem_init\<close> there are two parts here, the part up to \<open>page_init\<close> and the part that maps the kernel; the theory
  \<open>SelfTests\<close> has the checks that the code runs in between, and all of \<open>mem_init\<close>.  The bits of \<open>cr0\<close> and \<open>cr4\<close> are left out.  The clock chip is a function from register numbers to bytes.
\<close>

section \<open>The clock chip\<close>

definition mc146818_read :: "u32 \<Rightarrow> (u8 \<Rightarrow> u8) \<Rightarrow> u32" where
  "mc146818_read reg cmos = ucast (cmos (ucast reg))"

definition mc146818_write :: "u32 \<Rightarrow> u32 \<Rightarrow> (u8 \<Rightarrow> u8) \<Rightarrow> (u8 \<Rightarrow> u8)" where
  "mc146818_write reg datum cmos = cmos(ucast reg := ucast datum)"

definition NVRAM_BASELO :: u32 where "NVRAM_BASELO = 0xE + 7"
definition NVRAM_EXTLO :: u32 where "NVRAM_EXTLO = 0xE + 9"

definition nvram_read :: "u32 \<Rightarrow> (u8 \<Rightarrow> u8) \<Rightarrow> u32" where
  "nvram_read r cmos = mc146818_read r cmos OR push_bit 8 (mc146818_read (r + 1) cmos)"

definition i386_detect_memory :: "(u8 \<Rightarrow> u8) \<Rightarrow> 'z pm_state_scheme \<Rightarrow> 'z pm_state_scheme" where
  "i386_detect_memory cmos s =
     (let basemem = unat ((nvram_read NVRAM_BASELO cmos * 1024) div PGSIZE);
          npages_extmem = unat ((nvram_read NVRAM_EXTLO cmos * 1024) div PGSIZE) in
      s\<lparr>npages_basemem := basemem,
        npages := (if npages_extmem \<noteq> 0 then unat (EXTPHYSMEM div PGSIZE) + npages_extmem else basemem)\<rparr>)"

section \<open>The page table at entry\<close>

definition entry_pgtable :: "u32 list" where
  "entry_pgtable = map (\<lambda>i. (of_nat i * 0x1000) OR PTE_P OR PTE_W) [0..<1024]"

text \<open>The address of the table comes from the linker.\<close>

definition entry_pgdir :: "u32 \<Rightarrow> u32 list" where
  "entry_pgdir addr_entry_pgtable =
     (replicate 1024 0)[0 := (addr_entry_pgtable - KERNBASE) + PTE_P,
                        unat (drop_bit 22 KERNBASE) := (addr_entry_pgtable - KERNBASE) + PTE_P + PTE_W]"

section \<open>The free list at boot\<close>

definition clear_page :: "nat \<Rightarrow> 'z pm_state_scheme \<Rightarrow> 'z pm_state_scheme" where
  "clear_page i s = upd_page i (\<lambda>p. p\<lparr>pp_ref := 0, pp_link := None, page_flags := 0\<rparr>) s"

fun clear_pages :: "nat \<Rightarrow> nat \<Rightarrow> 'z pm_state_scheme \<Rightarrow> 'z pm_state_scheme" where
  "clear_pages 0 i s = s"
| "clear_pages (Suc n) i s = clear_pages n (Suc i) (clear_page i s)"

fun page_init_loop :: "nat \<Rightarrow> nat \<Rightarrow> 'z pm_state_scheme \<Rightarrow> ('z pm_state_scheme, unit) kres" where
  "page_init_loop 0 i s = Inr ((), s)"
| "page_init_loop (Suc n) i s =
     rbind (is_allocated_init i (clear_page i s)) (\<lambda>(used, s).
     page_init_loop n (Suc i)
       (if \<not> used then add_head_pfl i s else upd_page i (\<lambda>p. p\<lparr>page_flags := page_flags p OR ALLOC\<rparr>) s))"

definition page_init :: "'z task_state_scheme \<Rightarrow> ('z task_state_scheme, unit) kres" where
  "page_init s =
     (let s = clear_page 0 s;
          s = clear_pages (unat (ROUNDUP (100 * 36) PGSIZE div PGSIZE) - 1) 1 s in
      rbind (task_init 1 s) (\<lambda>(_, s).
      let s = lru_init s; start = RESPGS + CPR_LRU_SZ in
      page_init_loop (unat (of_nat (npages s) - PGSIZE div 16 :: u32) - start) start s))"

section \<open>The kernel's address space\<close>

fun mem_init_mp_loop :: "nat \<Rightarrow> nat \<Rightarrow> u32 \<Rightarrow> u32 \<Rightarrow> kstate \<Rightarrow> (kstate, unit) kres" where
  "mem_init_mp_loop 0 i ktop kstacks s = Inr ((), s)"
| "mem_init_mp_loop (Suc n) i ktop kstacks s =
     rbind (PADDR (kstacks + of_nat i * KSTKSIZE)) (\<lambda>pa.
     rbind (boot_map_region (Some (kern_pgdir s)) (ktop - KSTKSIZE) KSTKSIZE pa PTE_W s) (\<lambda>(_, s).
     mem_init_mp_loop n (Suc i) (ktop - (KSTKGAP + KSTKSIZE)) kstacks s))"

abbreviation NCPU :: nat where "NCPU \<equiv> 8"

definition mem_init_mp :: "u32 \<Rightarrow> kstate \<Rightarrow> (kstate, unit) kres" where
  "mem_init_mp kstacks s = mem_init_mp_loop NCPU 0 KSTACKTOP kstacks s"

text \<open>The result is the address of the array \<open>pages\<close>.  A \<open>struct env\<close> takes 3908 bytes.\<close>

definition mem_init_alloc :: "(u8 \<Rightarrow> u8) \<Rightarrow> kstate \<Rightarrow> (kstate, u32) kres" where
  "mem_init_alloc cmos s =
     (let s = (i386_detect_memory cmos s)\<lparr>PREMAPPED_FLAG := True\<rparr> in
      rbind (boot_alloc PGSIZE s) (\<lambda>(va, s).
      rbind (PADDR va) (\<lambda>pa.
      let s = memset_page (frame pa) 0 (s\<lparr>kern_pgdir := frame pa\<rparr>);
          s = wr (frame pa, pdx UVPT) (pa OR PTE_U OR PTE_P) s in
      rbind (boot_alloc (of_nat (npages s) * 16) s) (\<lambda>(pages_va, s).
      rbind (boot_alloc (3908 * of_nat NENV) s) (\<lambda>(envs_va, s).
      rbind (page_init (s\<lparr>envs_base := envs_va\<rparr>)) (\<lambda>(_, s). Inr (pages_va, s)))))))"

definition mem_init_map :: "u32 \<Rightarrow> u32 \<Rightarrow> kstate \<Rightarrow> (kstate, unit) kres" where
  "mem_init_map pages_va kstacks s =
     (let pgdir = Some (kern_pgdir s) in
      rbind (PADDR pages_va) (\<lambda>pages_pa.
      rbind (boot_map_region pgdir UPAGES (ROUNDUP (16 * of_nat (npages s)) PGSIZE) pages_pa PTE_U s) (\<lambda>(_, s).
      rbind (PADDR (envs_base s)) (\<lambda>envs_pa.
      rbind (boot_map_region pgdir UENVS (3908 * of_nat NENV) envs_pa PTE_U s) (\<lambda>(_, s).
      rbind (boot_map_region pgdir KERNBASE (0 - KERNBASE) 0 PTE_W s) (\<lambda>(_, s).
      mem_init_mp kstacks s))))))"

section \<open>What is free after boot\<close>

text \<open>
  The pages that \<open>is_allocated_init\<close> keeps off the free list; \<open>lim\<close> is the physical end of what \<open>boot_alloc\<close> has handed out.
  The code asks first whether the page lies in base memory, whatever its size is.  Base memory ends at 640 KB, 160 pages;
  were the clock chip to tell of more, pages of the hole for devices would count as free.
\<close>

definition boot_used :: "nat \<Rightarrow> u32 \<Rightarrow> nat \<Rightarrow> bool" where
  "boot_used basemem lim i \<longleftrightarrow>
     \<not> page2pa i < of_nat basemem * PGSIZE \<and>
     (IOPHYSMEM \<le> page2pa i \<and> page2pa i < EXTPHYSMEM \<or> EXTPHYSMEM \<le> page2pa i \<and> page2pa i < lim)"

text \<open>An address for which \<open>PADDR\<close> does not panic.\<close>

definition paddr_ok :: "u32 \<Rightarrow> bool" where
  "paddr_ok va \<longleftrightarrow> KERNBASE \<le> va \<and> \<not> (0xf02a5000 \<le> va \<and> va < 0xf02a6000)"

lemma PADDR_paddr_ok: "paddr_ok va \<Longrightarrow> PADDR va = Inr (va - KERNBASE)"
  by (auto simp: paddr_ok_def PADDR_def)

lemma paddr_ok_pos: "paddr_ok va \<Longrightarrow> va \<noteq> 0"
  by (auto simp: paddr_ok_def KERNBASE_def)

lemma is_allocated_init_ok:
  assumes "paddr_ok (nextfree s)"
  shows "is_allocated_init i s = Inr (boot_used (npages_basemem s) (nextfree s - KERNBASE) i, s)"
  using assms by (auto simp: PADDR_paddr_ok paddr_ok_pos is_allocated_init_def boot_used_def boot_alloc_def Let_def)

definition same_boot :: "'z pm_state_scheme \<Rightarrow> 'z pm_state_scheme \<Rightarrow> bool" where
  "same_boot s s' \<longleftrightarrow> npages s' = npages s \<and> npages_basemem s' = npages_basemem s \<and> nextfree s' = nextfree s \<and> PREMAPPED_FLAG s' = PREMAPPED_FLAG s"

lemma clear_page_ok:
  assumes "pfl_ok s xs" and "i < npages s" and "i \<notin> set xs"
  shows "pfl_ok (clear_page i s) xs" and "same_boot s (clear_page i s)"
proof -
  show "pfl_ok (clear_page i s) xs" unfolding clear_page_def
    by (rule pfl_ok_upd_outside [OF assms(1,3)]) (use pfl_okD(6) [OF assms] in simp)
qed (simp add: clear_page_def same_boot_def upd_page_def)

lemma page_init_loop_ok:
  assumes nf: "paddr_ok nf" and lim: "lim = nf - KERNBASE"
  shows "pfl_ok s xs \<Longrightarrow> (\<And>x. x \<in> set xs \<Longrightarrow> x < i) \<Longrightarrow> i + n \<le> npages s \<Longrightarrow> nextfree s = nf \<Longrightarrow>
    \<exists>s'. page_init_loop n i s = Inr ((), s') \<and> same_boot s s' \<and>
      pfl_ok s' (rev (filter (\<lambda>k. \<not> boot_used (npages_basemem s) lim k) [i..<i + n]) @ xs)"
proof (induction n arbitrary: i s xs)
  case 0
  then show ?case by (simp add: same_boot_def)
next
  case (Suc n)
  let ?s = "clear_page i s"
  have i: "i < npages s" "i \<notin> set xs" using Suc.prems by auto
  note c = clear_page_ok [OF Suc.prems(1) i]
  have used: "is_allocated_init i ?s = Inr (boot_used (npages_basemem s) lim i, ?s)"
    using is_allocated_init_ok [of ?s i] nf lim c(2) Suc.prems(4) by (simp add: same_boot_def)
  have upt: "[i..<i + Suc n] = i # [Suc i..<Suc i + n]" by (subst upt_conv_Cons) auto
  show ?case
  proof (cases "boot_used (npages_basemem s) lim i")
    case True
    let ?t = "upd_page i (\<lambda>p. p\<lparr>page_flags := page_flags p OR ALLOC\<rparr>) ?s"
    have "pfl_ok ?t xs" by (rule pfl_ok_upd_outside [OF c(1) i(2)]) simp
    moreover have same: "same_boot s ?t" using c(2) by (simp add: same_boot_def upd_page_def)
    ultimately obtain s' where "page_init_loop n (Suc i) ?t = Inr ((), s')" "same_boot ?t s'"
        "pfl_ok s' (rev (filter (\<lambda>k. \<not> boot_used (npages_basemem ?t) lim k) [Suc i..<Suc i + n]) @ xs)"
      using Suc.IH [of ?t xs "Suc i"] Suc.prems(2-4) by (auto simp: same_boot_def less_Suc_eq)
    then show ?thesis using used True same unfolding upt by (auto simp: same_boot_def)
  next
    case False
    let ?t = "add_head_pfl i ?s"
    have "pfl_ok ?t (i # xs)" using c i by (intro add_head_pfl_ok) (auto simp: same_boot_def)
    moreover have same: "same_boot s ?t" using c(2) by (simp add: same_boot_def add_head_pfl_def upd_page_def Let_def)
    ultimately obtain s' where "page_init_loop n (Suc i) ?t = Inr ((), s')" "same_boot ?t s'"
        "pfl_ok s' (rev (filter (\<lambda>k. \<not> boot_used (npages_basemem ?t) lim k) [Suc i..<Suc i + n]) @ i # xs)"
      using Suc.IH [of ?t "i # xs" "Suc i"] Suc.prems(2-4) by (auto simp: same_boot_def less_Suc_eq)
    then show ?thesis using used False same unfolding upt by (auto simp: same_boot_def)
  qed
qed

text \<open>The tasklets and the LRU lists do not touch the free list.\<close>

lemma task_init_loop_pm:
  "pages (task_init_loop i n s) = pages s \<and> page_free_list (task_init_loop i n s) = page_free_list s \<and>
   free_pages_count (task_init_loop i n s) = free_pages_count s \<and> same_boot s (task_init_loop i n s)"
  by (induction n arbitrary: i s) (simp_all add: same_boot_def upd_task_def)

lemma pfl_ok_links:
  assumes "pfl_ok s xs" and "page_free_list s' = page_free_list s" and "free_pages_count s' = free_pages_count s"
    and "npages s' = npages s" and "\<And>i. pp_link (pages s' i) = pp_link (pages s i) \<and> pp_ref (pages s' i) = pp_ref (pages s i) \<and>
      page_flags (pages s' i) = page_flags (pages s i)"
  shows "pfl_ok s' xs"
  using assms by (simp add: pfl_ok_def pfl_shape_def)

lemma lru_init_pfl: "pfl_ok s xs \<Longrightarrow> pfl_ok (lru_init s) xs \<and> same_boot s (lru_init s)"
  by (auto simp: lru_init_def CPR_LRU_SZ_def Let_def same_boot_def set_lru_link_def upd_page_def intro: pfl_ok_links)

lemma page_init_ok:
  assumes n: "259 \<le> npages s" "npages s \<le> 1048576" and empty: "page_free_list s = None" "free_pages_count s = 0"
    and links: "\<And>i. i < npages s \<Longrightarrow> pp_link (pages s i) = None"
    and nf: "paddr_ok (nextfree s)" and lim: "lim = nextfree s - KERNBASE"
  obtains s' where "page_init s = Inr ((), s')" and "same_boot s s'"
    and "pfl_ok s' (rev (filter (\<lambda>k. \<not> boot_used (npages_basemem s) lim k) [3..<npages s - 256]))"
proof -
  have "pfl_ok s []" using assms by (simp add: pfl_ok_def pfl_shape_def)
  then have 0: "pfl_ok (clear_page 0 s) []" "same_boot s (clear_page 0 s)" using clear_page_ok [of s "[]" 0] n by simp_all
  let ?t = "task_init_loop 0 NTASKS ((clear_page 0 s)\<lparr>t_flist := Some 0, t_list := None\<rparr>)"
  have "pfl_ok ((clear_page 0 s)\<lparr>t_flist := Some 0, t_list := None\<rparr>) []" using 0(1) by (simp add: pfl_ok_def pfl_shape_def)
  then have t: "pfl_ok ?t []" "same_boot s ?t"
    using task_init_loop_pm [of 0 NTASKS "(clear_page 0 s)\<lparr>t_flist := Some 0, t_list := None\<rparr>"] 0(2)
    by (auto intro: pfl_ok_links simp: same_boot_def)
  have l: "pfl_ok (lru_init ?t) []" "same_boot s (lru_init ?t)" using lru_init_pfl [OF t(1)] t(2) by (auto simp: same_boot_def)
  have start: "RESPGS + CPR_LRU_SZ = 3" "unat (ROUNDUP (100 * 36) PGSIZE div PGSIZE) - 1 = 0"
    by (simp_all add: RESPGS_def CPR_LRU_SZ_def ROUNDUP_def ROUNDDOWN_def)
  have cnt: "unat (of_nat (npages s) - 256 :: u32) = npages s - 256"
    using n unat_of_nat [of "npages s", where 'a = 32] by (simp add: unat_sub word_le_nat_alt)
  obtain s' where s': "page_init_loop (npages s - 256 - 3) 3 (lru_init ?t) = Inr ((), s')" "same_boot (lru_init ?t) s'"
      "pfl_ok s' (rev (filter (\<lambda>k. \<not> boot_used (npages_basemem s) lim k) [3..<npages s - 256]))"
    using page_init_loop_ok [OF nf lim l(1), of 3 "npages s - 256 - 3"] l(2) n by (auto simp: same_boot_def)
  have "page_init s = Inr ((), s')"
    using s'(1) n l(2) unfolding page_init_def start(2) Let_def start(1)
    by (simp add: task_init_def page2kva_ok clear_page_def [unfolded upd_page_def] cnt same_boot_def)
  moreover have "same_boot s s'" using s'(2) l(2) by (simp add: same_boot_def)
  ultimately show ?thesis using that s'(3) by blast
qed

text \<open>With base memory of at most 640 KB, the pages that count as free.\<close>

lemma boot_free_pages:
  assumes "i < 1048576" "basemem \<le> 160"
  shows "\<not> boot_used basemem lim i \<longleftrightarrow> i < 160 \<or> 256 \<le> i \<and> unat lim \<le> 4096 * i"
proof -
  have "unat (of_nat basemem * PGSIZE :: u32) = basemem * 4096"
    using assms(2) by (simp add: unat_word_ariths unat_of_nat take_bit_nat_eq_self)
  then show ?thesis using assms
    by (auto simp: boot_used_def word_less_nat_alt word_le_nat_alt unat_page2pa IOPHYSMEM_def EXTPHYSMEM_def)
qed

lemma boot_used_beyond:
  assumes "160 \<le> i" "i < basemem" "basemem < 1048576"
  shows "\<not> boot_used basemem lim i"
proof -
  have "unat (of_nat basemem * PGSIZE :: u32) = basemem * 4096"
    using assms(3) by (simp add: unat_word_ariths unat_of_nat take_bit_nat_eq_self)
  then show ?thesis using assms by (simp add: boot_used_def word_less_nat_alt unat_page2pa)
qed

text \<open>
  C8: With at most 160 pages (640 KB) of base memory, \<open>page_init\<close> puts on the free list exactly the pages from page 3 up
  to the last 256 that are in the first 640 KB, or in extended memory and behind what the kernel and \<open>boot_alloc\<close>
  occupy, and the count of free pages is right.  No page of the hole for devices and no page of the kernel is on it, but the
  page at \<open>MPENTRY_PADDR\<close>, to which the code of the other processors is copied, is.
\<close>

theorem page_init_free_list:
  assumes n: "259 \<le> npages s" "npages s \<le> 1048576" and base: "npages_basemem s \<le> 160"
    and empty: "page_free_list s = None" "free_pages_count s = 0"
    and links: "\<And>i. i < npages s \<Longrightarrow> pp_link (pages s i) = None"
    and nf: "paddr_ok (nextfree s)" and lim: "lim = nextfree s - KERNBASE"
  shows "\<exists>s' xs. page_init s = Inr ((), s') \<and> pfl_ok s' xs \<and>
    set xs = {i. 3 \<le> i \<and> i < npages s - 256 \<and> (i < 160 \<or> 256 \<le> i \<and> unat lim \<le> 4096 * i)} \<and>
    (263 < npages s \<longrightarrow> frame MPENTRY_PADDR \<in> set xs)"
proof -
  let ?xs = "rev (filter (\<lambda>k. \<not> boot_used (npages_basemem s) lim k) [3..<npages s - 256])"
  have lt: "i < 1048576" if "i < npages s - 256" for i using that n(2) by simp
  obtain s' where s': "page_init s = Inr ((), s')" "pfl_ok s' ?xs" by (rule page_init_ok [OF n empty links nf lim])
  have set: "set ?xs = {i. 3 \<le> i \<and> i < npages s - 256 \<and> (i < 160 \<or> 256 \<le> i \<and> unat lim \<le> 4096 * i)}"
    unfolding set_rev set_filter set_upt using boot_free_pages [OF _ base, of _ lim] lt by (intro Collect_cong) auto
  have "frame MPENTRY_PADDR = 7" by (simp add: MPENTRY_PADDR_def frame_def PGNUM_def)
  then have "263 < npages s \<longrightarrow> frame MPENTRY_PADDR \<in> set ?xs" unfolding set by (simp add: less_diff_conv)
  then show ?thesis using s' set by (intro exI [of _ s'] exI [of _ ?xs] conjI)
qed

definition sample_boot :: task_state where
  "sample_boot = sample_task\<lparr>npages := 1024, npages_basemem := 160, nextfree := 0xF0200000\<rparr>"

theorem page_init_free_list_witness:
  "\<exists>s' xs. page_init sample_boot = Inr ((), s') \<and> pfl_ok s' xs \<and> frame MPENTRY_PADDR \<in> set xs \<and>
     set xs = {i. 3 \<le> i \<and> i < 768 \<and> (i < 160 \<or> 256 \<le> i \<and> 0x200000 \<le> 4096 * i)}"
  using page_init_free_list [of sample_boot "0x200000"]
  by (simp add: sample_boot_def sample_task_def paddr_ok_def KERNBASE_def) blast

section \<open>The page table at entry\<close>

text \<open>It maps the first 4 MB of the addresses and the 4 MB from \<open>KERNBASE\<close> on to the same physical memory.\<close>

lemma entry_pgtable_nth: "i < 1024 \<Longrightarrow> entry_pgtable ! i = of_nat i * 0x1000 OR PTE_P OR PTE_W"
  by (simp add: entry_pgtable_def)

lemma entry_pgdir_slots:
  "entry_pgdir a ! pdx va =
     (if pdx va = pdx KERNBASE then a - KERNBASE + PTE_P + PTE_W else if pdx va = 0 then a - KERNBASE + PTE_P else 0)"
proof -
  have "unat (drop_bit 22 KERNBASE) = 960" "pdx KERNBASE = 960" by (simp_all add: KERNBASE_def pdx_def PDX_def)
  moreover have "pdx va < 1024" by simp
  ultimately show ?thesis by (auto simp: entry_pgdir_def nth_list_update)
qed

end
