(* ===== verification/SelfTests.thy ===== *)
theory SelfTests
  imports BootMem MemPressure
begin

text \<open>
  The checks that \<open>mem_init\<close> of \<^verbatim>\<open>kern/pmap.c\<close> runs on the data structures it has built, and \<open>mem_init\<close> as a whole.
  Each check stops with \<open>AssertFail\<close> when an assertion does not hold.  A read or write through a virtual address goes
  through the page directory that is loaded; a \<open>memset\<close> of a page sets all its words.
\<close>

section \<open>Assertions\<close>

definition ensure :: "bool \<Rightarrow> 's stop + unit" where
  "ensure b = (if b then Inr () else Inl (AssertFail ''assertion failed''))"

text \<open>\<open>assert((pp = page_alloc(flags)))\<close> and \<open>assert(!page_alloc(0))\<close>\<close>

definition must_alloc :: "u32 \<Rightarrow> 'z pm_state_scheme \<Rightarrow> ('z pm_state_scheme, nat) kres" where
  "must_alloc fl s =
     rbind (page_alloc fl s) (\<lambda>(p, s).
     case p of None \<Rightarrow> Inl (AssertFail ''assertion failed'') | Some p \<Rightarrow> Inr (p, s))"

definition must_fail :: "'z pm_state_scheme \<Rightarrow> ('z pm_state_scheme, unit) kres" where
  "must_fail s = rbind (page_alloc 0 s) (\<lambda>(p, s). rbind (ensure (p = None)) (\<lambda>_. Inr ((), s)))"

fun list_count :: "nat \<Rightarrow> (nat \<Rightarrow> nat option) \<Rightarrow> nat option \<Rightarrow> nat \<Rightarrow> 's stop + nat" where
  "list_count 0 lnk p n = Inl Diverge"
| "list_count (Suc fuel) lnk p n = (case p of None \<Rightarrow> Inr n | Some i \<Rightarrow> list_count fuel lnk (lnk i) (Suc n))"

definition nfree_pages :: "'z pm_state_scheme \<Rightarrow> 's stop + nat" where
  "nfree_pages s = list_count (Suc (npages s)) (plink s) (page_free_list s) 0"

section \<open>The free list\<close>

text \<open>The places that the elements of \<open>tp\<close> point to: the local variables \<open>pp1\<close> and \<open>pp2\<close>, or the link of a page.\<close>

datatype slot = PP1 | PP2 | LinkOf nat

fun store :: "slot \<Rightarrow> nat option \<Rightarrow> nat option \<times> nat option \<times> 'z pm_state_scheme
    \<Rightarrow> nat option \<times> nat option \<times> 'z pm_state_scheme" where
  "store PP1 v (a, b, s) = (v, b, s)"
| "store PP2 v (a, b, s) = (a, v, s)"
| "store (LinkOf i) v (a, b, s) = (a, b, upd_page i (\<lambda>p. p\<lparr>pp_link := v\<rparr>) s)"

fun split_loop :: "nat \<Rightarrow> nat option \<Rightarrow> slot \<Rightarrow> slot \<Rightarrow> nat option \<times> nat option \<times> 'z pm_state_scheme
    \<Rightarrow> 's stop + (slot \<times> slot \<times> nat option \<times> nat option \<times> 'z pm_state_scheme)" where
  "split_loop 0 pp tp0 tp1 x = Inl Diverge"
| "split_loop (Suc fuel) pp tp0 tp1 x =
     (case pp of
        None \<Rightarrow> Inr (tp0, tp1, x)
      | Some p \<Rightarrow>
          if pdx (page2pa p) \<ge> 1 then
            let (a, b, s) = store tp1 (Some p) x in split_loop fuel (pp_link (pages s p)) tp0 (LinkOf p) (a, b, s)
          else
            let (a, b, s) = store tp0 (Some p) x in split_loop fuel (pp_link (pages s p)) (LinkOf p) tp1 (a, b, s))"

definition low_first :: "'z pm_state_scheme \<Rightarrow> ('z pm_state_scheme, unit) kres" where
  "low_first s =
     rbind (split_loop (Suc (npages s)) (page_free_list s) PP1 PP2 (None, None, s)) (\<lambda>(tp0, tp1, x).
     let (pp1, pp2, s) = store tp1 None x;
         (pp1, pp2, s) = store tp0 pp2 (pp1, pp2, s) in
     Inr ((), s\<lparr>page_free_list := pp1\<rparr>))"

text \<open>\<open>memset(page2kva(pp), 0x97, 128)\<close>\<close>

fun spoil_loop :: "nat \<Rightarrow> nat \<Rightarrow> nat option \<Rightarrow> 'z pm_state_scheme \<Rightarrow> ('z pm_state_scheme, unit) kres" where
  "spoil_loop 0 lim pp s = Inl Diverge"
| "spoil_loop (Suc fuel) lim pp s =
     (case pp of
        None \<Rightarrow> Inr ((), s)
      | Some p \<Rightarrow>
          if pdx (page2pa p) < lim then
            rbind (page2kva p s) (\<lambda>fr.
            spoil_loop fuel lim (pp_link (pages s p))
              (s\<lparr>pmem := (pmem s)(fr := (\<lambda>k. if k < 32 then 0x97979797 else pmem s fr k))\<rparr>))
          else spoil_loop fuel lim (pp_link (pages s p)) s)"

text \<open>
  The last loop, with the two counters.  A pointer to a page is its number, so of the first three assertions only the
  second says something.
\<close>

fun free_checks :: "nat \<Rightarrow> u32 \<Rightarrow> nat option \<Rightarrow> nat \<Rightarrow> nat \<Rightarrow> 'z pm_state_scheme \<Rightarrow> 'z pm_state_scheme stop + (nat \<times> nat)" where
  "free_checks 0 first_free pp nb ne s = Inl Diverge"
| "free_checks (Suc fuel) first_free pp nb ne s =
     (case pp of
        None \<Rightarrow> Inr (nb, ne)
      | Some p \<Rightarrow>
          rbind (ensure (p < npages s)) (\<lambda>_.
          rbind (ensure (page2pa p \<noteq> 0 \<and> page2pa p \<noteq> IOPHYSMEM \<and> page2pa p \<noteq> EXTPHYSMEM - PGSIZE \<and>
            page2pa p \<noteq> EXTPHYSMEM)) (\<lambda>_.
          rbind (if page2pa p < EXTPHYSMEM then Inr ()
                 else rbind (page2kva p s) (\<lambda>fr. ensure (first_free \<le> page2pa fr + KERNBASE))) (\<lambda>_.
          if page2pa p < EXTPHYSMEM then free_checks fuel first_free (pp_link (pages s p)) (Suc nb) ne s
          else free_checks fuel first_free (pp_link (pages s p)) nb (Suc ne) s))))"

definition check_page_free_list :: "bool \<Rightarrow> 'z pm_state_scheme \<Rightarrow> ('z pm_state_scheme, unit) kres" where
  "check_page_free_list only_low_memory s =
     (let pdx_limit = (if only_low_memory then 1 else NPDENTRIES) in
      if page_free_list s = None then Inl (Panic ''page_free_list is a null pointer!'')
      else
        rbind (if only_low_memory then low_first s else Inr ((), s)) (\<lambda>(_, s).
        rbind (spoil_loop (Suc (npages s)) pdx_limit (page_free_list s) s) (\<lambda>(_, s).
        rbind (boot_alloc 0 s) (\<lambda>(first_free_page, s).
        rbind (free_checks (Suc (npages s)) first_free_page (page_free_list s) 0 0 s) (\<lambda>(nfree_basemem, nfree_extmem).
        rbind (ensure (nfree_basemem > 0)) (\<lambda>_.
        rbind (ensure (nfree_extmem > 0)) (\<lambda>_. Inr ((), s))))))))"

section \<open>The allocator\<close>

definition three_pages :: "'z pm_state_scheme \<Rightarrow> ('z pm_state_scheme, nat \<times> nat \<times> nat) kres" where
  "three_pages s =
     rbind (must_alloc 0 s) (\<lambda>(pp0, s).
     rbind (must_alloc 0 s) (\<lambda>(pp1, s).
     rbind (must_alloc 0 s) (\<lambda>(pp2, s).
     rbind (ensure (pp1 \<noteq> pp0)) (\<lambda>_.
     rbind (ensure (pp2 \<noteq> pp1 \<and> pp2 \<noteq> pp0)) (\<lambda>_. Inr ((pp0, pp1, pp2), s))))))"

definition free_three :: "nat \<Rightarrow> nat \<Rightarrow> nat \<Rightarrow> 'z pm_state_scheme \<Rightarrow> ('z pm_state_scheme, unit) kres" where
  "free_three pp0 pp1 pp2 s =
     rbind (page_free pp0 s) (\<lambda>(_, s). rbind (page_free pp1 s) (\<lambda>(_, s). page_free pp2 s))"

definition check_page_alloc_4K :: "'z pm_state_scheme \<Rightarrow> ('z pm_state_scheme, nat) kres" where
  "check_page_alloc_4K s =
     rbind (nfree_pages s) (\<lambda>nfree.
     rbind (three_pages s) (\<lambda>((pp0, pp1, pp2), s).
     rbind (ensure (page2pa pp0 < of_nat (npages s) * PGSIZE)) (\<lambda>_.
     rbind (ensure (page2pa pp1 < of_nat (npages s) * PGSIZE)) (\<lambda>_.
     rbind (ensure (page2pa pp2 < of_nat (npages s) * PGSIZE)) (\<lambda>_.
     let fl = page_free_list s;
         s = s\<lparr>page_free_list := None\<rparr> in
     rbind (must_fail s) (\<lambda>(_, s).
     rbind (free_three pp0 pp1 pp2 s) (\<lambda>(_, s).
     rbind (three_pages s) (\<lambda>((pp0, pp1, pp2), s).
     rbind (must_fail s) (\<lambda>(_, s).
     rbind (page2kva pp0 s) (\<lambda>fr.
     rbind (page_free pp0 (memset_page fr 0x01010101 s)) (\<lambda>(_, s).
     rbind (must_alloc ALLOC_ZERO s) (\<lambda>(pp, s).
     rbind (ensure (pp0 = pp)) (\<lambda>_.
     rbind (page2kva pp s) (\<lambda>c.
     rbind (ensure (list_all (\<lambda>i. pmem s c i = 0) [0..<1024])) (\<lambda>_.
     rbind (free_three pp0 pp1 pp2 (s\<lparr>page_free_list := fl\<rparr>)) (\<lambda>(_, s).
     rbind (nfree_pages s) (\<lambda>n.
     rbind (ensure (n = nfree)) (\<lambda>_. Inr (nfree, s)))))))))))))))))))"

definition check_page_alloc_4M :: "nat \<Rightarrow> 'z pm_state_scheme \<Rightarrow> ('z pm_state_scheme, unit) kres" where
  "check_page_alloc_4M total_free s =
     rbind (must_alloc 0 s) (\<lambda>(pp0, s).
     rbind (must_alloc ALLOC_HUGE s) (\<lambda>(php0, s).
     rbind (must_alloc 0 s) (\<lambda>(pp1, s).
     rbind (ensure (php0 \<noteq> pp0)) (\<lambda>_.
     rbind (ensure (pp1 \<noteq> php0 \<and> pp1 \<noteq> pp0)) (\<lambda>_.
     rbind (ensure (page2pa php0 mod (1024 * PGSIZE) = 0)) (\<lambda>_.
     rbind (ensure (page2pa php0 < page2pa pp1 \<longrightarrow> 1024 * PGSIZE \<le> page2pa pp1 - page2pa php0)) (\<lambda>_.
     rbind (free_three php0 pp0 pp1 s) (\<lambda>(_, s).
     rbind (must_alloc ALLOC_HUGE s) (\<lambda>(php0, s).
     rbind (must_alloc ALLOC_HUGE s) (\<lambda>(php1, s).
     rbind (ensure (if page2pa php0 < page2pa php1 then 1024 * PGSIZE \<le> page2pa php1 - page2pa php0
                    else 1024 * PGSIZE \<le> page2pa php0 - page2pa php1)) (\<lambda>_.
     rbind (page_free php0 s) (\<lambda>(_, s).
     rbind (page_free php1 s) (\<lambda>(_, s).
     rbind (nfree_pages s) (\<lambda>n.
     rbind (ensure (n = total_free)) (\<lambda>_. Inr ((), s))))))))))))))))"

definition check_page_alloc :: "'z pm_state_scheme \<Rightarrow> ('z pm_state_scheme, unit) kres" where
  "check_page_alloc s = rbind (check_page_alloc_4K s) (\<lambda>(total_free, s). check_page_alloc_4M total_free s)"

section \<open>Page tables\<close>

definition check_va2pa :: "nat \<Rightarrow> u32 \<Rightarrow> 'z pm_state_scheme \<Rightarrow> 'z pm_state_scheme stop + u32" where
  "check_va2pa pgdir va s =
     (let pde = pmem s pgdir (pdx va) in
      if pde AND PTE_P = 0 then Inr (NOT 0)
      else
        rbind (KADDR (PTE_ADDR pde) s) (\<lambda>p.
        if pmem s p (ptx va) AND PTE_P = 0 then Inr (NOT 0) else Inr (PTE_ADDR (pmem s p (ptx va)))))"

definition maps_to :: "nat \<Rightarrow> u32 \<Rightarrow> u32 \<Rightarrow> 'z pm_state_scheme \<Rightarrow> 'z pm_state_scheme stop + unit" where
  "maps_to pgdir va pa s = rbind (check_va2pa pgdir va s) (\<lambda>r. ensure (r = pa))"

fun check_range :: "nat \<Rightarrow> nat \<Rightarrow> u32 \<Rightarrow> u32 \<Rightarrow> 'z pm_state_scheme \<Rightarrow> 'z pm_state_scheme stop + unit" where
  "check_range 0 pgdir va pa s = Inr ()"
| "check_range (Suc n) pgdir va pa s =
     rbind (maps_to pgdir va pa s) (\<lambda>_. check_range n pgdir (va + PGSIZE) (pa + PGSIZE) s)"

fun check_unmapped :: "nat \<Rightarrow> nat \<Rightarrow> u32 \<Rightarrow> 'z pm_state_scheme \<Rightarrow> 'z pm_state_scheme stop + unit" where
  "check_unmapped 0 pgdir va s = Inr ()"
| "check_unmapped (Suc n) pgdir va s =
     rbind (maps_to pgdir va (NOT 0) s) (\<lambda>_. check_unmapped n pgdir (va + PGSIZE) s)"

fun check_kstacks :: "nat \<Rightarrow> nat \<Rightarrow> nat \<Rightarrow> u32 \<Rightarrow> 'z pm_state_scheme \<Rightarrow> 'z pm_state_scheme stop + unit" where
  "check_kstacks 0 n pgdir kstacks s = Inr ()"
| "check_kstacks (Suc k) n pgdir kstacks s =
     (let base = KSTACKTOP - (KSTKSIZE + KSTKGAP) * (of_nat n + 1) in
      rbind (PADDR (kstacks + of_nat n * KSTKSIZE)) (\<lambda>pa.
      rbind (check_range (unat (KSTKSIZE div PGSIZE)) pgdir (base + KSTKGAP) pa s) (\<lambda>_.
      rbind (check_unmapped (unat (KSTKGAP div PGSIZE)) pgdir base s) (\<lambda>_.
      check_kstacks k (Suc n) pgdir kstacks s))))"

definition pde_ok :: "nat \<Rightarrow> u32 \<Rightarrow> bool" where
  "pde_ok i e \<longleftrightarrow>
     (if i = pdx UVPT \<or> i = pdx (KSTACKTOP - 1) \<or> i = pdx UPAGES \<or> i = pdx UENVS \<or> i = pdx MMIOBASE then e AND PTE_P \<noteq> 0
      else if pdx KERNBASE \<le> i then e AND PTE_P \<noteq> 0 \<and> e AND PTE_W \<noteq> 0
      else e = 0)"

definition check_kern_pgdir :: "u32 \<Rightarrow> u32 \<Rightarrow> kstate \<Rightarrow> kstate stop + unit" where
  "check_kern_pgdir pages_va kstacks s =
     (let pgdir = kern_pgdir s in
      rbind (PADDR pages_va) (\<lambda>pages_pa.
      rbind (check_range (unat (ROUNDUP (of_nat (npages s) * 16) PGSIZE div PGSIZE)) pgdir UPAGES pages_pa s) (\<lambda>_.
      rbind (PADDR (envs_base s)) (\<lambda>envs_pa.
      rbind (check_range (unat (ROUNDUP (of_nat NENV * 3908) PGSIZE div PGSIZE)) pgdir UENVS envs_pa s) (\<lambda>_.
      rbind (check_range (npages s) pgdir KERNBASE 0 s) (\<lambda>_.
      rbind (check_kstacks NCPU 0 pgdir kstacks s) (\<lambda>_.
      ensure (list_all (\<lambda>i. pde_ok i (pmem s pgdir i)) [0..<NPDENTRIES]))))))))"

text \<open>\<open>*pgdir_walk(kern_pgdir, va, 0)\<close>\<close>

definition walk_to :: "u32 \<Rightarrow> kstate \<Rightarrow> (kstate, pte_ptr) kres" where
  "walk_to va s =
     rbind (pgdir_walk (Some (kern_pgdir s)) va 0 s) (\<lambda>(p, s).
     case p of None \<Rightarrow> Inl NullDeref | Some e \<Rightarrow> Inr (e, s))"

definition entry_has :: "u32 \<Rightarrow> (u32 \<Rightarrow> bool) \<Rightarrow> kstate \<Rightarrow> (kstate, unit) kres" where
  "entry_has va P s = rbind (walk_to va s) (\<lambda>(e, s). rbind (ensure (P (rd e s))) (\<lambda>_. Inr ((), s)))"

definition insert_is :: "(int \<Rightarrow> bool) \<Rightarrow> nat \<Rightarrow> u32 \<Rightarrow> u32 \<Rightarrow> kstate \<Rightarrow> (kstate, unit) kres" where
  "insert_is P pp va perm s =
     rbind (page_insert (Some (kern_pgdir s)) (Some pp) va perm s) (\<lambda>(r, s). rbind (ensure (P r)) (\<lambda>_. Inr ((), s)))"

definition refs :: "nat \<Rightarrow> u16 \<Rightarrow> kstate \<Rightarrow> kstate stop + unit" where
  "refs pp n s = ensure (pp_ref (pages s pp) = n)"

definition set_ref0 :: "nat \<Rightarrow> kstate \<Rightarrow> kstate" where
  "set_ref0 pp s = upd_page pp (\<lambda>p. p\<lparr>pp_ref := 0\<rparr>) s"

text \<open>The part of \<open>check_page\<close> on mapping and unmapping.\<close>

definition check_page_map :: "nat \<Rightarrow> nat \<Rightarrow> nat \<Rightarrow> kstate \<Rightarrow> (kstate, unit) kres" where
  "check_page_map pp0 pp1 pp2 s =
     rbind (must_fail s) (\<lambda>(_, s).
     rbind (page_lookup (Some (kern_pgdir s)) 0 s) (\<lambda>((r, _), s).
     rbind (ensure (r = None)) (\<lambda>_.
     rbind (insert_is (\<lambda>r. r < 0) pp1 0 PTE_W s) (\<lambda>(_, s).
     rbind (page_free pp0 s) (\<lambda>(_, s).
     rbind (insert_is (\<lambda>r. r = 0) pp1 0 PTE_W s) (\<lambda>(_, s).
     rbind (ensure (PTE_ADDR (pmem s (kern_pgdir s) 0) = page2pa pp0)) (\<lambda>_.
     rbind (maps_to (kern_pgdir s) 0 (page2pa pp1) s) (\<lambda>_.
     rbind (refs pp1 1 s) (\<lambda>_.
     rbind (refs pp0 1 s) (\<lambda>_.
     rbind (insert_is (\<lambda>r. r = 0) pp2 PGSIZE PTE_W s) (\<lambda>(_, s).
     rbind (maps_to (kern_pgdir s) PGSIZE (page2pa pp2) s) (\<lambda>_.
     rbind (refs pp2 1 s) (\<lambda>_.
     rbind (must_fail s) (\<lambda>(_, s).
     rbind (insert_is (\<lambda>r. r = 0) pp2 PGSIZE PTE_W s) (\<lambda>(_, s).
     rbind (maps_to (kern_pgdir s) PGSIZE (page2pa pp2) s) (\<lambda>_.
     rbind (refs pp2 1 s) (\<lambda>_.
     rbind (must_fail s) (\<lambda>(_, s). Inr ((), s)))))))))))))))))))"

definition check_page_perm :: "nat \<Rightarrow> nat \<Rightarrow> nat \<Rightarrow> kstate \<Rightarrow> (kstate, unit) kres" where
  "check_page_perm pp0 pp1 pp2 s =
     rbind (KADDR (PTE_ADDR (pmem s (kern_pgdir s) (pdx PGSIZE))) s) (\<lambda>ptep.
     rbind (walk_to PGSIZE s) (\<lambda>(e, s).
     rbind (ensure (e = (ptep, ptx PGSIZE))) (\<lambda>_.
     rbind (insert_is (\<lambda>r. r = 0) pp2 PGSIZE (PTE_W OR PTE_U) s) (\<lambda>(_, s).
     rbind (maps_to (kern_pgdir s) PGSIZE (page2pa pp2) s) (\<lambda>_.
     rbind (refs pp2 1 s) (\<lambda>_.
     rbind (entry_has PGSIZE (\<lambda>w. w AND PTE_U \<noteq> 0) s) (\<lambda>(_, s).
     rbind (ensure (pmem s (kern_pgdir s) 0 AND PTE_U \<noteq> 0)) (\<lambda>_.
     rbind (insert_is (\<lambda>r. r = 0) pp2 PGSIZE PTE_W s) (\<lambda>(_, s).
     rbind (entry_has PGSIZE (\<lambda>w. w AND PTE_W \<noteq> 0) s) (\<lambda>(_, s).
     rbind (entry_has PGSIZE (\<lambda>w. w AND PTE_U = 0) s) (\<lambda>(_, s).
     rbind (insert_is (\<lambda>r. r < 0) pp0 PTSIZE PTE_W s) (\<lambda>(_, s).
     rbind (insert_is (\<lambda>r. r = 0) pp1 PGSIZE PTE_W s) (\<lambda>(_, s).
     entry_has PGSIZE (\<lambda>w. w AND PTE_U = 0) s)))))))))))))"

definition check_page_unmap :: "nat \<Rightarrow> nat \<Rightarrow> nat \<Rightarrow> kstate \<Rightarrow> (kstate, unit) kres" where
  "check_page_unmap pp0 pp1 pp2 s =
     rbind (maps_to (kern_pgdir s) 0 (page2pa pp1) s) (\<lambda>_.
     rbind (maps_to (kern_pgdir s) PGSIZE (page2pa pp1) s) (\<lambda>_.
     rbind (refs pp1 2 s) (\<lambda>_.
     rbind (refs pp2 0 s) (\<lambda>_.
     rbind (must_alloc 0 s) (\<lambda>(pp, s).
     rbind (ensure (pp = pp2)) (\<lambda>_.
     rbind (page_remove (Some (kern_pgdir s)) 0 s) (\<lambda>(_, s).
     rbind (maps_to (kern_pgdir s) 0 (NOT 0) s) (\<lambda>_.
     rbind (maps_to (kern_pgdir s) PGSIZE (page2pa pp1) s) (\<lambda>_.
     rbind (refs pp1 1 s) (\<lambda>_.
     rbind (refs pp2 0 s) (\<lambda>_.
     rbind (insert_is (\<lambda>r. r = 0) pp1 PGSIZE 0 s) (\<lambda>(_, s).
     rbind (ensure (pp_ref (pages s pp1) \<noteq> 0)) (\<lambda>_.
     rbind (ensure (pp_link (pages s pp1) = None)) (\<lambda>_.
     rbind (page_remove (Some (kern_pgdir s)) PGSIZE s) (\<lambda>(_, s).
     rbind (maps_to (kern_pgdir s) 0 (NOT 0) s) (\<lambda>_.
     rbind (maps_to (kern_pgdir s) PGSIZE (NOT 0) s) (\<lambda>_.
     rbind (refs pp1 0 s) (\<lambda>_.
     rbind (refs pp2 0 s) (\<lambda>_.
     rbind (must_alloc 0 s) (\<lambda>(pp, s).
     rbind (ensure (pp = pp1)) (\<lambda>_.
     must_fail s)))))))))))))))))))))"

definition check_page_walk :: "nat \<Rightarrow> kstate \<Rightarrow> (kstate, unit) kres" where
  "check_page_walk pp0 s =
     (let pgdir = kern_pgdir s; va = PGSIZE * of_nat NPDENTRIES + PGSIZE in
      rbind (ensure (PTE_ADDR (pmem s pgdir 0) = page2pa pp0)) (\<lambda>_.
      let s = wr (pgdir, 0) 0 s in
      rbind (refs pp0 1 s) (\<lambda>_.
      rbind (page_free pp0 (set_ref0 pp0 s)) (\<lambda>(_, s).
      rbind (pgdir_walk (Some pgdir) va 1 s) (\<lambda>(ptep, s).
      rbind (KADDR (PTE_ADDR (pmem s pgdir (pdx va))) s) (\<lambda>ptep1.
      rbind (ensure (ptep = Some (ptep1, ptx va))) (\<lambda>_.
      let s = set_ref0 pp0 (wr (pgdir, pdx va) 0 s) in
      rbind (page2kva pp0 s) (\<lambda>fr.
      rbind (page_free pp0 (memset_page fr 0xFFFFFFFF s)) (\<lambda>(_, s).
      rbind (pgdir_walk (Some pgdir) 0 1 s) (\<lambda>(_, s).
      rbind (page2kva pp0 s) (\<lambda>fr.
      rbind (ensure (list_all (\<lambda>i. pmem s fr i AND PTE_P = 0) [0..<NPTENTRIES])) (\<lambda>_.
      Inr ((), set_ref0 pp0 (wr (pgdir, 0) 0 s))))))))))))))"

definition check_page_mmio :: "kstate \<Rightarrow> (kstate, unit) kres" where
  "check_page_mmio s =
     rbind (mmio_map_region 0 4097 s) (\<lambda>(mm1, s).
     rbind (mmio_map_region 0 4096 s) (\<lambda>(mm2, s).
     rbind (ensure (MMIOBASE \<le> mm1 \<and> mm1 + 8096 < MMIOLIM)) (\<lambda>_.
     rbind (ensure (MMIOBASE \<le> mm2 \<and> mm2 + 8096 < MMIOLIM)) (\<lambda>_.
     rbind (ensure (mm1 mod PGSIZE = 0 \<and> mm2 mod PGSIZE = 0)) (\<lambda>_.
     rbind (ensure (mm1 + 8096 \<le> mm2)) (\<lambda>_.
     rbind (maps_to (kern_pgdir s) mm1 0 s) (\<lambda>_.
     rbind (maps_to (kern_pgdir s) (mm1 + PGSIZE) PGSIZE s) (\<lambda>_.
     rbind (maps_to (kern_pgdir s) mm2 0 s) (\<lambda>_.
     rbind (maps_to (kern_pgdir s) (mm2 + PGSIZE) (NOT 0) s) (\<lambda>_.
     rbind (entry_has mm1 (\<lambda>w. w AND (PTE_W OR PTE_PWT OR PTE_PCD) \<noteq> 0) s) (\<lambda>(_, s).
     rbind (entry_has mm1 (\<lambda>w. w AND PTE_U = 0) s) (\<lambda>(_, s).
     rbind (walk_to mm1 s) (\<lambda>(e1, s).
     rbind (walk_to (mm1 + PGSIZE) (wr e1 0 s)) (\<lambda>(e2, s).
     rbind (walk_to mm2 (wr e2 0 s)) (\<lambda>(e3, s).
     Inr ((), wr e3 0 s))))))))))))))))"

definition check_page :: "kstate \<Rightarrow> (kstate, unit) kres" where
  "check_page s =
     rbind (three_pages s) (\<lambda>((pp0, pp1, pp2), s).
     let fl = page_free_list s in
     rbind (check_page_map pp0 pp1 pp2 (s\<lparr>page_free_list := None\<rparr>)) (\<lambda>(_, s).
     rbind (check_page_perm pp0 pp1 pp2 s) (\<lambda>(_, s).
     rbind (check_page_unmap pp0 pp1 pp2 s) (\<lambda>(_, s).
     rbind (check_page_walk pp0 s) (\<lambda>(_, s).
     rbind (free_three pp0 pp1 pp2 (s\<lparr>page_free_list := fl\<rparr>)) (\<lambda>(_, s).
     check_page_mmio s))))))"

section \<open>With the page directory loaded\<close>

definition reads :: "u32 \<Rightarrow> u32 \<Rightarrow> kstate \<Rightarrow> kstate stop + unit" where
  "reads va w s = rbind (translate False va s) (\<lambda>p. ensure (rd p s = w))"

definition fill_page :: "nat \<Rightarrow> u32 \<Rightarrow> kstate \<Rightarrow> (kstate, unit) kres" where
  "fill_page pp w s = rbind (page2kva pp s) (\<lambda>fr. Inr ((), memset_page fr w s))"

definition check_page_installed_pgdir :: "kstate \<Rightarrow> (kstate, unit) kres" where
  "check_page_installed_pgdir s =
     (let pgdir = kern_pgdir s in
      rbind (must_alloc 0 s) (\<lambda>(pp0, s).
      rbind (must_alloc 0 s) (\<lambda>(pp1, s).
      rbind (must_alloc 0 s) (\<lambda>(pp2, s).
      rbind (page_free pp0 s) (\<lambda>(_, s).
      rbind (fill_page pp1 0x01010101 s) (\<lambda>(_, s).
      rbind (fill_page pp2 0x02020202 s) (\<lambda>(_, s).
      rbind (page_insert (Some pgdir) (Some pp1) PGSIZE PTE_W s) (\<lambda>(_, s).
      rbind (refs pp1 1 s) (\<lambda>_.
      rbind (reads PGSIZE 0x01010101 s) (\<lambda>_.
      rbind (page_insert (Some pgdir) (Some pp2) PGSIZE PTE_W s) (\<lambda>(_, s).
      rbind (reads PGSIZE 0x02020202 s) (\<lambda>_.
      rbind (refs pp2 1 s) (\<lambda>_.
      rbind (refs pp1 0 s) (\<lambda>_.
      rbind (poke PGSIZE 0x03030303 s) (\<lambda>(_, s).
      rbind (page2kva pp2 s) (\<lambda>fr.
      rbind (ensure (pmem s fr 0 = 0x03030303)) (\<lambda>_.
      rbind (page_remove (Some pgdir) PGSIZE s) (\<lambda>(_, s).
      rbind (refs pp2 0 s) (\<lambda>_.
      rbind (ensure (PTE_ADDR (pmem s pgdir 0) = page2pa pp0)) (\<lambda>_.
      let s = wr (pgdir, 0) 0 s in
      rbind (refs pp0 1 s) (\<lambda>_.
      page_free pp0 (set_ref0 pp0 s))))))))))))))))))))))"

text \<open>
  The address \<open>2 * 1024 * PGSIZE - 42\<close> is not aligned: the word lies in two words of the memory, which the processor
  accesses through one translation because it does not cross the page.
\<close>

definition read_unaligned :: "u32 \<Rightarrow> kstate \<Rightarrow> kstate stop + u32" where
  "read_unaligned va s =
     rbind (translate False va s) (\<lambda>(fr, k).
     let sh = 8 * unat (va AND 3) in
     Inr (drop_bit sh (pmem s fr k) OR push_bit (32 - sh) (pmem s fr (k + 1))))"

definition write_unaligned :: "u32 \<Rightarrow> u32 \<Rightarrow> kstate \<Rightarrow> (kstate, unit) kres" where
  "write_unaligned va w s =
     rbind (translate True va s) (\<lambda>(fr, k).
     let sh = 8 * unat (va AND 3);
         s = wr (fr, k) (take_bit sh (pmem s fr k) OR push_bit sh w) s in
     Inr ((), wr (fr, k + 1) (push_bit sh (drop_bit sh (pmem s fr (k + 1))) OR drop_bit (32 - sh) w) s))"

definition check_page_hugepages :: "kstate \<Rightarrow> (kstate, unit) kres" where
  "check_page_hugepages s =
     (let pgdir = kern_pgdir s in
      rbind (must_alloc ALLOC_HUGE s) (\<lambda>(php0, s).
      rbind (insert_is (\<lambda>r. r = 0) php0 (1024 * PGSIZE) (PTE_W OR PTE_PS) s) (\<lambda>(_, s).
      rbind (refs php0 1 s) (\<lambda>_.
      rbind (fill_page php0 0x01010101 s) (\<lambda>(_, s).
      rbind (reads (1024 * PGSIZE) 0x01010101 s) (\<lambda>_.
      rbind (fill_page (php0 + 1) 0x02020202 s) (\<lambda>(_, s).
      rbind (reads (1025 * PGSIZE) 0x02020202 s) (\<lambda>_.
      rbind (write_unaligned (2 * 1024 * PGSIZE - 42) 0x42424242 s) (\<lambda>(_, s).
      rbind (read_unaligned (2 * 1024 * PGSIZE - 42) s) (\<lambda>w.
      rbind (ensure (w = 0x42424242)) (\<lambda>_.
      rbind (fill_page (php0 + 1021) 0x37373737 s) (\<lambda>(_, s).
      rbind (fill_page (php0 + 1022) 0x38383838 s) (\<lambda>(_, s).
      rbind (reads ((1024 + 1021) * PGSIZE) 0x37373737 s) (\<lambda>_.
      rbind (reads ((1024 + 1022) * PGSIZE) 0x38383838 s) (\<lambda>_.
      rbind (pgdir_walk (Some pgdir) (1024 * PGSIZE) 0 s) (\<lambda>(p_pte1, s).
      rbind (ensure (case p_pte1 of None \<Rightarrow> False | Some e \<Rightarrow> rd e s AND PTE_PS \<noteq> 0)) (\<lambda>_.
      rbind (pgdir_walk (Some pgdir) (1025 * PGSIZE) 0 s) (\<lambda>(p_pte2, s).
      rbind (ensure (p_pte2 \<noteq> None)) (\<lambda>_.
      rbind (ensure (p_pte1 = p_pte2)) (\<lambda>_.
      rbind (page_remove (Some pgdir) (1024 * PGSIZE) s) (\<lambda>(_, s).
      rbind (refs php0 0 s) (\<lambda>_.
      rbind (refs (php0 + 1022) 0 s) (\<lambda>_.
      rbind (pgdir_walk (Some pgdir) (1024 * PGSIZE) CREATE_HUGE s) (\<lambda>(p_pte1, s).
      rbind (ensure (p_pte1 \<noteq> None)) (\<lambda>_.
      rbind (must_alloc ALLOC_HUGE s) (\<lambda>(php0, s).
      rbind (insert_is (\<lambda>r. r = 0) php0 (2 * 1024 * PGSIZE) (PTE_W OR PTE_PS) s) (\<lambda>(_, s).
      rbind (page_remove (Some pgdir) (2 * 1024 * PGSIZE) s) (\<lambda>(_, s).
      rbind (refs php0 0 s) (\<lambda>_. Inr ((), s))))))))))))))))))))))))))))))"

section \<open>All of \<open>mem_init\<close>\<close>

definition mem_init :: "(u8 \<Rightarrow> u8) \<Rightarrow> u32 \<Rightarrow> kstate \<Rightarrow> (kstate, unit) kres" where
  "mem_init cmos kstacks s =
     rbind (mem_init_alloc cmos s) (\<lambda>(pages_va, s).
     rbind (check_page_free_list True s) (\<lambda>(_, s).
     rbind (check_page_alloc s) (\<lambda>(_, s).
     rbind (check_page s) (\<lambda>(_, s).
     rbind (mem_init_map pages_va kstacks s) (\<lambda>(_, s).
     rbind (check_kern_pgdir pages_va kstacks s) (\<lambda>_.
     rbind (lcr3 (kern_pgdir s) s) (\<lambda>(_, s).
     rbind (check_page_free_list False s) (\<lambda>(_, s).
     rbind (check_page_installed_pgdir (s\<lparr>PREMAPPED_FLAG := False\<rparr>)) (\<lambda>(_, s).
     check_page_hugepages s)))))))))"

end
