(* ===== verification/BootChecks.thy ===== *)
theory BootChecks
  imports SelfTests VirtMap
begin

text \<open>
  The checks of \<open>SelfTests\<close> on the state that boot has built: the reordering of the free list is a stable partition of the
  chain, the list that \<open>page_init\<close> builds passes, the allocator passes its first test and gives back the list as it was,
  and a page directory that passes \<open>check_kern_pgdir\<close> maps the physical memory.
\<close>

section \<open>Reordering the free list\<close>

text \<open>
  The value that the slot of \<open>tp\<close> will get completes the chain of one kind: \<open>open_chain s v slot ns tp\<close> says that
  the chain from the variable \<open>v\<close> leads through \<open>ns\<close> and that \<open>tp\<close> is the place where it goes on.
\<close>

definition open_chain :: "(nat \<Rightarrow> nat option) \<Rightarrow> nat option \<Rightarrow> slot \<Rightarrow> nat list \<Rightarrow> slot \<Rightarrow> bool" where
  "open_chain lnk v var ns tp \<longleftrightarrow>
     (if ns = [] then tp = var
      else tp = LinkOf (last ns) \<and> lseg lnk v (butlast ns) (Some (last ns)))"

lemma open_chain_snoc_eq: "open_chain lnk v var (ns @ [l]) tp \<longleftrightarrow> tp = LinkOf l \<and> lseg lnk v ns (Some l)"
  by (simp add: open_chain_def)

lemma open_chain_close:
  assumes "open_chain lnk v var (ns @ [l]) tp" and "l \<notin> set ns" and "llist lnk q ms" and "l \<notin> set ms"
  shows "llist (lnk(l := q)) v (ns @ l # ms)"
  using assms by (auto simp: open_chain_snoc_eq llist_append)

text \<open>Storing a page in the slot extends the chain, whatever the link of that page is.\<close>

lemma open_chain_extend:
  assumes "open_chain lnk v var ns tp" and "distinct ns" and "p \<notin> set ns"
  shows "ns = [] \<Longrightarrow> open_chain lnk (Some p) var (ns @ [p]) (LinkOf p)"
    and "ns \<noteq> [] \<Longrightarrow> open_chain (lnk(last ns := Some p)) v var (ns @ [p]) (LinkOf p)"
proof -
  show "ns = [] \<Longrightarrow> open_chain lnk (Some p) var (ns @ [p]) (LinkOf p)" by (simp add: open_chain_def)
  assume "ns \<noteq> []"
  then obtain us l where ns: "ns = us @ [l]" by (cases ns rule: rev_cases) auto
  then show "open_chain (lnk(last ns := Some p)) v var (ns @ [p]) (LinkOf p)"
    using assms open_chain_snoc_eq [of _ _ _ "us @ [l]" p] by (simp add: open_chain_snoc_eq lseg_append)
qed

lemma open_chain_other:
  assumes "open_chain lnk v var ns tp" and "a \<notin> set ns"
  shows "open_chain (lnk(a := w)) v var ns tp"
proof -
  have "a \<notin> set (butlast ns)" using assms(2) in_set_butlastD by fast
  then show ?thesis using assms by (simp add: open_chain_def)
qed

definition is_low :: "nat \<Rightarrow> bool" where "is_low p \<longleftrightarrow> pdx (page2pa p) < 1"

text \<open>
  The loop: \<open>ls\<close> and \<open>hs\<close> are the pages of the two kinds seen so far, \<open>xs\<close> the pages still to come.  It changes links of
  the pages in \<open>ls\<close>, \<open>hs\<close> and \<open>xs\<close> only.
\<close>

definition relinked :: "'z pm_state_scheme \<Rightarrow> (nat \<Rightarrow> nat option) \<Rightarrow> 'z pm_state_scheme" where
  "relinked s lnk = s\<lparr>pages := (\<lambda>i. (pages s i)\<lparr>pp_link := lnk i\<rparr>)\<rparr>"

lemma relinked_simps [simp]:
  "plink (relinked s lnk) = lnk" "npages (relinked s lnk) = npages s" "page_free_list (relinked s lnk) = page_free_list s"
  "pp_link (pages (relinked s lnk) i) = lnk i" "relinked s (plink s) = s"
  "upd_page i (\<lambda>p. p\<lparr>pp_link := v\<rparr>) (relinked s lnk) = relinked s (lnk(i := v))"
  by (auto simp: relinked_def upd_page_def fun_eq_iff)

lemma chain_step:
  assumes "open_chain lnk v var ns tp" "open_chain lnk w war ms tq" "distinct (ns @ ms @ p # xs)" "llist lnk (Some p) (p # xs)"
  obtains v' lnk' where "tp = var \<and> v' = Some p \<and> lnk' = lnk \<or> (\<exists>l \<in> set ns. tp = LinkOf l \<and> v' = v \<and> lnk' = lnk(l := Some p))"
    and "open_chain lnk' v' var (ns @ [p]) (LinkOf p)" and "open_chain lnk' w war ms tq" and "llist lnk' (lnk' p) xs"
proof (cases "ns = []")
  case True
  then have "tp = var" using assms(1) by (simp add: open_chain_def)
  then show ?thesis using True assms(2,4) open_chain_extend(1) [OF assms(1)] that [of "Some p" lnk] by simp
next
  case False
  let ?l = "last ns"
  have l: "?l \<in> set ns" "tp = LinkOf ?l" using False assms(1) by (auto simp: open_chain_def)
  then have out: "?l \<notin> set ms" "?l \<noteq> p" "?l \<notin> set xs" "p \<notin> set ns" using assms(3) by auto
  have "open_chain (lnk(?l := Some p)) v var (ns @ [p]) (LinkOf p)"
    using open_chain_extend(2) [OF assms(1)] assms(3) out(4) False by simp
  moreover have "llist (lnk(?l := Some p)) ((lnk(?l := Some p)) p) xs" using assms(4) out by simp
  ultimately show ?thesis using that [of v "lnk(?l := Some p)"] l open_chain_other [OF assms(2) out(1)] by blast
qed

lemma split_loop_ok:
  assumes "open_chain lnk a PP1 ls tp0" "open_chain lnk b PP2 hs tp1" "distinct (ls @ hs @ xs)" "llist lnk pp xs" "length xs < n"
  shows "\<exists>tp0' tp1' a' b' lnk'. (split_loop n pp tp0 tp1 (a, b, relinked s lnk) :: 's stop + _) = Inr (tp0', tp1', a', b', relinked s lnk') \<and>
    open_chain lnk' a' PP1 (ls @ filter is_low xs) tp0' \<and> open_chain lnk' b' PP2 (hs @ filter (\<lambda>p. \<not> is_low p) xs) tp1' \<and>
    (\<forall>i. i \<notin> set (ls @ hs @ xs) \<longrightarrow> lnk' i = lnk i)"
  using assms
proof (induction n arbitrary: xs pp tp0 tp1 ls hs a b lnk)
  case 0
  then show ?case by simp
next
  case (Suc n)
  show ?case
  proof (cases xs)
    case Nil
    then show ?thesis using Suc.prems by auto
  next
    case (Cons p ys)
    note P = Suc.prems [unfolded Cons]
    have pp: "pp = Some p" and ll: "llist lnk (Some p) (p # ys)" using P(4) by auto
    show ?thesis
    proof (cases "is_low p")
      case True
      obtain v l' where v: "tp0 = PP1 \<and> v = Some p \<and> l' = lnk \<or> (\<exists>l \<in> set ls. tp0 = LinkOf l \<and> v = a \<and> l' = lnk(l := Some p))"
        "open_chain l' v PP1 (ls @ [p]) (LinkOf p)" "open_chain l' b PP2 hs tp1" "llist l' (l' p) ys"
        by (rule chain_step [OF P(1,2,3) ll])
      have st: "store tp0 (Some p) (a, b, relinked s lnk) = (v, b, relinked s l')" using v(1) by auto
      have keep: "\<forall>i. i \<notin> set ls \<longrightarrow> l' i = lnk i" using v(1) by auto
      have "distinct ((ls @ [p]) @ hs @ ys)" using P(3) by auto
      from Suc.IH [OF v(2,3) this v(4)] show ?thesis
        using P(5) st keep pp True Cons by (auto simp: is_low_def)
    next
      case False
      have d: "distinct (hs @ ls @ p # ys)" using P(3) by auto
      obtain v l' where v: "tp1 = PP2 \<and> v = Some p \<and> l' = lnk \<or> (\<exists>l \<in> set hs. tp1 = LinkOf l \<and> v = b \<and> l' = lnk(l := Some p))"
        "open_chain l' v PP2 (hs @ [p]) (LinkOf p)" "open_chain l' a PP1 ls tp0" "llist l' (l' p) ys"
        by (rule chain_step [OF P(2,1) d ll])
      have st: "store tp1 (Some p) (a, b, relinked s lnk) = (a, v, relinked s l')" using v(1) by auto
      have keep: "\<forall>i. i \<notin> set hs \<longrightarrow> l' i = lnk i" using v(1) by auto
      have "distinct (ls @ (hs @ [p]) @ ys)" using P(3) by auto
      from Suc.IH [OF v(3,2) this v(4)] show ?thesis
        using P(5) st keep pp False Cons by (auto simp: is_low_def)
    qed
  qed
qed

lemma close_both:
  assumes "open_chain lnk a PP1 ls tp0" "open_chain lnk b PP2 hs tp1" "distinct (ls @ hs)"
  shows "\<exists>b' lnk' a'' lnk''. store tp1 None (a, b, relinked s lnk) = (a, b', relinked s lnk') \<and>
    store tp0 b' (a, b', relinked s lnk') = (a'', b', relinked s lnk'') \<and> llist lnk'' a'' (ls @ hs) \<and>
    (\<forall>i. i \<notin> set (ls @ hs) \<longrightarrow> lnk'' i = lnk i)"
proof -
  obtain b' lnk' where 1: "store tp1 None (a, b, relinked s lnk) = (a, b', relinked s lnk')" "llist lnk' b' hs"
    "open_chain lnk' a PP1 ls tp0" "\<forall>i. i \<notin> set hs \<longrightarrow> lnk' i = lnk i"
  proof (cases hs rule: rev_cases)
    case Nil
    then show ?thesis using that [of None lnk] assms(1,2) by (simp add: open_chain_def)
  next
    case (snoc us l)
    have "llist (lnk(l := None)) b (us @ l # [])" using assms(2,3) snoc by (intro open_chain_close [of _ _ PP2 _ _ tp1]) auto
    moreover have "tp1 = LinkOf l" using assms(2) snoc by (simp add: open_chain_snoc_eq)
    moreover have "open_chain (lnk(l := None)) a PP1 ls tp0" using assms(1,3) snoc by (intro open_chain_other) auto
    ultimately show ?thesis using that [of b "lnk(l := None)"] snoc by simp
  qed
  obtain a'' lnk'' where "store tp0 b' (a, b', relinked s lnk') = (a'', b', relinked s lnk'')" "llist lnk'' a'' (ls @ hs)"
    "\<forall>i. i \<notin> set ls \<longrightarrow> lnk'' i = lnk' i"
  proof (cases ls rule: rev_cases)
    case Nil
    then show ?thesis using that [of b' lnk'] 1 by (simp add: open_chain_def)
  next
    case (snoc us l)
    have "llist (lnk'(l := b')) a (us @ l # hs)" using 1 assms(3) snoc by (intro open_chain_close [of _ _ PP1 _ _ tp0]) auto
    moreover have "tp0 = LinkOf l" using 1(3) snoc by (simp add: open_chain_snoc_eq)
    ultimately show ?thesis using that [of a "lnk'(l := b')"] snoc by simp
  qed
  moreover from this have "\<forall>i. i \<notin> set (ls @ hs) \<longrightarrow> lnk'' i = lnk i" using 1(4) by simp
  ultimately show ?thesis using 1(1) by blast
qed

lemma low_first_ok:
  assumes "pfl_ok s xs"
  shows "\<exists>s'. low_first s = Inr ((), s') \<and> pfl_ok s' (filter is_low xs @ filter (\<lambda>p. \<not> is_low p) xs) \<and>
    (\<exists>lnk p. s' = (relinked s lnk)\<lparr>page_free_list := p\<rparr>)"
proof -
  note D = pfl_okD [OF assms]
  let ?l = "filter is_low xs" and ?h = "filter (\<lambda>p. \<not> is_low p) xs"
  have n: "length xs < Suc (npages s)" using D(9) by simp
  obtain tp0 tp1 a b lnk where 1: "(split_loop (Suc (npages s)) (page_free_list s) PP1 PP2 (None, None, s) :: 'a pm_state_scheme stop + _)
      = Inr (tp0, tp1, a, b, relinked s lnk)" "open_chain lnk a PP1 ?l tp0" "open_chain lnk b PP2 ?h tp1"
    "\<forall>i. i \<notin> set xs \<longrightarrow> lnk i = plink s i"
    using split_loop_ok [of "plink s" None "[]" PP1 None "[]" PP2 xs "page_free_list s" "Suc (npages s)" s] D(1,2) n
    by (auto simp: open_chain_def)
  have "distinct (?l @ ?h)" using D(2) by auto
  from close_both [OF 1(2,3) this, of s] obtain b' lnk' a'' lnk'' where 2:
    "store tp1 None (a, b, relinked s lnk) = (a, b', relinked s lnk')"
    "store tp0 b' (a, b', relinked s lnk') = (a'', b', relinked s lnk'')" "llist lnk'' a'' (?l @ ?h)"
    "\<forall>i. i \<notin> set xs \<longrightarrow> lnk'' i = lnk i" by auto
  have "low_first s = Inr ((), (relinked s lnk'')\<lparr>page_free_list := a''\<rparr>)"
    using 1(1) 2(1,2) unfolding low_first_def by simp
  moreover have "pfl_ok ((relinked s lnk'')\<lparr>page_free_list := a''\<rparr>) (?l @ ?h)"
    using 2(3,4) 1(4) D sum_length_filter_compl [of is_low xs]
    by (auto simp: pfl_ok_def pfl_shape_def relinked_def simp flip: of_nat_add)
  ultimately show ?thesis by blast
qed

section \<open>The free list at boot passes its check\<close>

lemma spoil_loop_ok:
  assumes "llist (plink s) pp xs" and "\<forall>x \<in> set xs. x < npages s" and "npages s \<le> 1048576" and "length xs < n"
  shows "\<exists>m. spoil_loop n lim pp s = Inr ((), s\<lparr>pmem := m\<rparr>)"
  using assms
proof (induction n arbitrary: pp xs s)
  case 0
  then show ?case by simp
next
  case (Suc n)
  show ?case
  proof (cases xs)
    case Nil
    then show ?thesis using Suc.prems(1) by (auto intro: exI [of _ "pmem s"])
  next
    case (Cons p ys)
    let ?m = "(pmem s)(p := (\<lambda>k. if k < 32 then 0x97979797 else pmem s p k))"
    have "page2kva p s = Inr p" using Suc.prems(2,3) Cons by (simp add: page2kva_ok)
    moreover obtain m where "spoil_loop n lim (pp_link (pages s p)) s = Inr ((), s\<lparr>pmem := m\<rparr>)"
      using Suc.IH [of s "pp_link (pages s p)" ys] Suc.prems Cons by auto
    moreover obtain m' where "spoil_loop n lim (pp_link (pages s p)) (s\<lparr>pmem := ?m\<rparr>) = Inr ((), s\<lparr>pmem := m'\<rparr>)"
      using Suc.IH [of "s\<lparr>pmem := ?m\<rparr>" "pp_link (pages s p)" ys] Suc.prems Cons by auto
    ultimately show ?thesis using Suc.prems(1) Cons by simp blast
  qed
qed

definition passes :: "u32 \<Rightarrow> nat \<Rightarrow> bool" where
  "passes first_free p \<longleftrightarrow> page2pa p \<noteq> 0 \<and> page2pa p \<noteq> IOPHYSMEM \<and> page2pa p \<noteq> EXTPHYSMEM - PGSIZE \<and>
     page2pa p \<noteq> EXTPHYSMEM \<and> (page2pa p < EXTPHYSMEM \<or> first_free \<le> page2pa p + KERNBASE)"

lemma free_checks_ok:
  assumes "llist (plink s) pp xs" and "\<forall>x \<in> set xs. x < npages s \<and> passes ff x" and "npages s \<le> 1048576" and "length xs < n"
  shows "free_checks n ff pp nb ne s =
    Inr (nb + length (filter (\<lambda>p. page2pa p < EXTPHYSMEM) xs), ne + length (filter (\<lambda>p. \<not> page2pa p < EXTPHYSMEM) xs))"
  using assms
proof (induction n arbitrary: pp xs nb ne)
  case 0
  then show ?case by simp
next
  case (Suc n)
  show ?case
  proof (cases xs)
    case Nil
    then show ?thesis using Suc.prems(1) by simp
  next
    case (Cons p ys)
    have "page2kva p s = Inr p" using Suc.prems(2,3) Cons by (simp add: page2kva_ok)
    then show ?thesis using Suc.IH [of "pp_link (pages s p)" ys] Suc.prems Cons
      by (auto simp: passes_def ensure_def)
  qed
qed

lemma check_page_free_list_ok:
  assumes ok: "pfl_ok s xs" and ps: "\<forall>x \<in> set xs. passes (nextfree s) x" and nf: "nextfree s \<noteq> 0"
    and some: "\<exists>x \<in> set xs. page2pa x < EXTPHYSMEM" "\<exists>x \<in> set xs. \<not> page2pa x < EXTPHYSMEM"
  shows "\<exists>s'. check_page_free_list low s = Inr ((), s') \<and>
    pfl_ok s' (if low then filter is_low xs @ filter (\<lambda>p. \<not> is_low p) xs else xs) \<and>
    PREMAPPED_FLAG s' = PREMAPPED_FLAG s \<and> npages s' = npages s"
proof -
  let ?ys = "if low then filter is_low xs @ filter (\<lambda>p. \<not> is_low p) xs else xs"
  obtain t where t: "(if low then low_first s else Inr ((), s)) = Inr ((), t)" "pfl_ok t ?ys" "nextfree t = nextfree s"
      "PREMAPPED_FLAG t = PREMAPPED_FLAG s" "npages t = npages s"
  proof (cases low)
    case True
    then show ?thesis using low_first_ok [OF ok] that by (auto simp: relinked_def)
  next
    case False
    then show ?thesis using ok that [of s] by simp
  qed
  note D = pfl_okD [OF t(2)]
  have len: "length ?ys < Suc (npages t)" using D(9) by simp
  have sety: "set ?ys = set xs" by auto
  obtain m where m: "spoil_loop (Suc (npages t)) (if low then 1 else NPDENTRIES) (page_free_list t) t = Inr ((), t\<lparr>pmem := m\<rparr>)"
    using spoil_loop_ok [OF D(1) _ D(8) len] D(3) by blast
  have c: "free_checks (Suc (npages t)) (nextfree s) (page_free_list t) 0 0 (t\<lparr>pmem := m\<rparr>) =
      Inr (length (filter (\<lambda>p. page2pa p < EXTPHYSMEM) ?ys), length (filter (\<lambda>p. \<not> page2pa p < EXTPHYSMEM) ?ys))"
    using free_checks_ok [of "t\<lparr>pmem := m\<rparr>" "page_free_list t" ?ys "nextfree s" "Suc (npages t)" 0 0] D(1,3,8) len ps sety
    by simp
  have pos: "0 < length (filter (\<lambda>p. page2pa p < EXTPHYSMEM) ?ys)" "0 < length (filter (\<lambda>p. \<not> page2pa p < EXTPHYSMEM) ?ys)"
    using some unfolding sety [symmetric] by (auto simp: filter_empty_conv)
  have ne: "page_free_list s \<noteq> None" using some(1) pfl_okD(1) [OF ok] by (cases xs) auto
  have b: "boot_alloc 0 (t\<lparr>pmem := m\<rparr>) = Inr (nextfree s, t\<lparr>pmem := m\<rparr>)" using nf t(3) by (simp add: boot_alloc_0)
  have "check_page_free_list low s = Inr ((), t\<lparr>pmem := m\<rparr>)"
    using ne t(1) m b c pos unfolding check_page_free_list_def Let_def
    by (simp add: ensure_def del: spoil_loop.simps free_checks.simps)
  moreover have "pfl_ok (t\<lparr>pmem := m\<rparr>) ?ys" using t(2) by (simp add: pfl_ok_def pfl_shape_def)
  ultimately show ?thesis using t(4,5) by auto
qed

lemma page_below:
  assumes "i < 1048576" and "n < 1048576"
  shows "page2pa i < of_nat n * PGSIZE \<longleftrightarrow> i < n"
proof -
  have "unat (of_nat n * PGSIZE :: u32) = n * 4096" using assms(2) unat_page2pa [of n] by (simp add: page2pa_def push_bit_eq_mult)
  then show ?thesis using unat_page2pa [OF assms(1)] by (simp add: word_less_nat_alt)
qed

lemma page_vs_const:
  assumes "i < 1048576"
  shows "page2pa i < a \<longleftrightarrow> i * 4096 < unat a" "a \<le> page2pa i \<longleftrightarrow> unat a \<le> i * 4096" "page2pa i = a \<longleftrightarrow> i * 4096 = unat a"
  using unat_page2pa [OF assms] by (auto simp: word_less_nat_alt word_le_nat_alt simp flip: word_unat_eq_iff)

lemma boot_used_pages:
  assumes "i < 1048576" and "base \<le> 160"
  shows "boot_used base lim i \<longleftrightarrow> base \<le> i \<and> (160 \<le> i \<and> i < 256 \<or> 256 \<le> i \<and> i * 4096 < unat lim)"
proof -
  have "page2pa i < of_nat base * PGSIZE \<longleftrightarrow> i < base" using page_below [OF assms(1), of base] assms(2) by simp
  then show ?thesis unfolding boot_used_def page_vs_const [OF assms(1)]
    by (auto simp: IOPHYSMEM_def EXTPHYSMEM_def)
qed

lemma boot_free_passes:
  assumes "3 \<le> i" and "i < 65536" and "base \<le> 160" and "\<not> boot_used base (nf - KERNBASE) i" and "KERNBASE \<le> nf" and "EXTPHYSMEM < nf - KERNBASE"
  shows "passes nf i"
proof -
  have i: "i < 1048576" using assms(2) by simp
  have e: "256 * 4096 < unat (nf - KERNBASE)" using assms(6) by (simp add: EXTPHYSMEM_def word_less_nat_alt)
  have u: "i < base \<or> \<not> (160 \<le> i \<and> i < 256) \<and> (256 \<le> i \<longrightarrow> unat (nf - KERNBASE) \<le> i * 4096)"
    using assms(4) unfolding boot_used_pages [OF i assms(3)] by auto
  have "nf \<le> page2pa i + KERNBASE" if "256 \<le> i"
  proof -
    have "unat (page2pa i + KERNBASE) = i * 4096 + unat KERNBASE"
      using unat_page2pa [OF i] assms(2) by (subst unat_add_lem [THEN iffD1]) (simp_all add: KERNBASE_def)
    moreover have "unat (nf - KERNBASE) = unat nf - unat KERNBASE" using assms(5) by (simp add: unat_sub)
    ultimately show ?thesis using u that assms(3) by (simp add: word_le_nat_alt)
  qed
  then show ?thesis using u assms(1,3) e unfolding passes_def page_vs_const [OF i]
    by (auto simp: IOPHYSMEM_def EXTPHYSMEM_def)
qed

section \<open>The allocator passes its check\<close>

text \<open>While only 4 MB are mapped, a page is taken from the head of the list and the count of free pages stays as it is.\<close>

definition taken :: "nat \<Rightarrow> u32 \<Rightarrow> 'z pm_state_scheme \<Rightarrow> 'z pm_state_scheme" where
  "taken x fl s = s\<lparr>page_free_list := pp_link (pages s x), pages := (pages s)(x := (pages s x)\<lparr>pp_link := None, page_flags := ALLOC\<rparr>),
     pmem := (if fl AND ALLOC_ZERO = 0 then pmem s else (pmem s)(x := (\<lambda>_. 0)))\<rparr>"

definition given_back :: "nat \<Rightarrow> 'z pm_state_scheme \<Rightarrow> 'z pm_state_scheme" where
  "given_back x s = s\<lparr>page_free_list := Some x,
     pages := (pages s)(x := (pages s x)\<lparr>pp_link := page_free_list s, pp_ref := 0, page_flags := 0\<rparr>),
     free_pages_count := free_pages_count s + 1\<rparr>"

lemma low_page: "x < 1024 \<Longrightarrow> page2pa x < 0x400000"
  by (simp add: page_vs_const)

lemma premapped_alloc:
  assumes "page_free_list s = Some x" and "PREMAPPED_FLAG s" and "x < 1024" and "page_flags (pages s x) = 0"
    and "fl = 0 \<or> fl = ALLOC_ZERO" and "x < npages s" and "npages s \<le> 1048576"
  shows "must_alloc fl s = Inr (x, taken x fl s)"
proof -
  have "fl AND ALLOC_HUGE = 0" "fl AND POISON_AFTER_FREE = 0"
    using assms(5) by (auto simp: ALLOC_ZERO_def ALLOC_HUGE_def POISON_AFTER_FREE_def)
  moreover have "page2kva x t = Inr x" if "npages t = npages s" for t :: "'a pm_state_scheme"
    using that assms(6,7) by (simp add: page2kva_ok)
  ultimately show ?thesis using assms(1-4) low_page [OF assms(3)]
    by (simp add: must_alloc_def page_alloc_def page_alloc_single_def remove_element_4MB_pfl_def poison_mark_def zero_fill_def
        upd_page_def memset_page_def taken_def)
qed

lemma held_free:
  assumes "pp_link (pages s x) = None" and "pp_ref (pages s x) = 0" and "page_flags (pages s x) = ALLOC"
  shows "page_free x s = Inr ((), given_back x s)"
  using assms alloc_flag_tests
  by (simp add: page_free_def unpoison_def ALLOC_def ALLOC_HUGE_def POISON_AFTER_FREE_def add_head_pfl_def upd_page_def given_back_def)

lemma list_count_ok: "llist lnk p xs \<Longrightarrow> length xs < n \<Longrightarrow> (list_count n lnk p k :: 's stop + _) = Inr (k + length xs)"
proof (induction n arbitrary: p xs k)
  case 0
  then show ?case by simp
next
  case (Suc n)
  then show ?case by (cases xs) auto
qed

lemma nfree_pages_ok:
  assumes "pfl_ok s xs"
  shows "(nfree_pages s :: 's stop + _) = Inr (length xs)"
  unfolding nfree_pages_def using list_count_ok [OF pfl_okD(1) [OF assms], of "Suc (npages s)" 0] pfl_okD(9) [OF assms] by simp

lemma taken_simps [simp]:
  "npages (taken x fl s) = npages s" "PREMAPPED_FLAG (taken x fl s) = PREMAPPED_FLAG s" "page_free_list (taken x fl s) = pp_link (pages s x)"
  "pages (taken x fl s) = (pages s)(x := (pages s x)\<lparr>pp_link := None, page_flags := ALLOC\<rparr>)"
  "npages (given_back x s) = npages s" "PREMAPPED_FLAG (given_back x s) = PREMAPPED_FLAG s" "page_free_list (given_back x s) = Some x"
  "pages (given_back x s) = (pages s)(x := (pages s x)\<lparr>pp_link := page_free_list s, pp_ref := 0, page_flags := 0\<rparr>)"
  "pmem (given_back x s) = pmem s"
  by (simp_all add: taken_def given_back_def)

lemma three_pages_ok:
  assumes "page_free_list s = Some a" "pp_link (pages s a) = Some b" "pp_link (pages s b) = Some c" "PREMAPPED_FLAG s"
    and "distinct [a, b, c]" "\<forall>x \<in> {a, b, c}. x < 1024 \<and> x < npages s \<and> page_flags (pages s x) = 0" "npages s \<le> 1048576"
  shows "three_pages s = Inr ((a, b, c), taken c 0 (taken b 0 (taken a 0 s)))"
  using assms by (simp add: three_pages_def premapped_alloc ensure_def)

lemma free_three_ok:
  assumes "\<forall>x \<in> {a, b, c}. pp_link (pages s x) = None \<and> pp_ref (pages s x) = 0 \<and> page_flags (pages s x) = ALLOC" "distinct [a, b, c]"
  shows "free_three a b c s = Inr ((), given_back c (given_back b (given_back a s)))"
  using assms by (simp add: free_three_def held_free)

definition held :: "page_info \<Rightarrow> page_info" where
  "held p = p\<lparr>pp_link := None, page_flags := ALLOC\<rparr>"

definition free_as :: "nat option \<Rightarrow> page_info \<Rightarrow> page_info" where
  "free_as l p = p\<lparr>pp_link := l, pp_ref := 0, page_flags := 0\<rparr>"

lemma held_simps [simp]:
  "pp_link (held p) = None" "pp_ref (held p) = pp_ref p" "page_flags (held p) = ALLOC" "held (held p) = held p"
  "pp_link (free_as l p) = l" "pp_ref (free_as l p) = 0" "page_flags (free_as l p) = 0"
  "free_as l (held p) = free_as l p" "pp_ref p = 0 \<Longrightarrow> held (free_as l p) = held p"
  by (simp_all add: held_def free_as_def)

lemma free_as_id: "pp_ref p = 0 \<Longrightarrow> page_flags p = 0 \<Longrightarrow> free_as (pp_link p) p = p"
  by (cases p) (simp add: free_as_def)

lemma taken_three:
  assumes "distinct [a, b, c]"
  shows "taken c 0 (taken b 0 (taken a 0 s)) = s\<lparr>page_free_list := pp_link (pages s c),
    pages := (pages s)(a := held (pages s a), b := held (pages s b), c := held (pages s c))\<rparr>"
  using assms by (simp add: taken_def held_def)

lemma given_back_three:
  assumes "distinct [a, b, c]"
  shows "given_back c (given_back b (given_back a s)) = s\<lparr>page_free_list := Some c,
    pages := (pages s)(a := free_as (page_free_list s) (pages s a), b := free_as (Some a) (pages s b), c := free_as (Some b) (pages s c)),
    free_pages_count := free_pages_count s + 3\<rparr>"
  using assms by (simp add: given_back_def free_as_def)

lemma check_page_alloc_4K_ok:
  assumes ok: "pfl_ok s (a # b # c # r)" and pre: "PREMAPPED_FLAG s" and low: "a < 1024" "b < 1024" "c < 1024" and n: "npages s < 1048576"
  shows "check_page_alloc_4K s = Inr (length r + 3, s\<lparr>free_pages_count := free_pages_count s + 7, pmem := (pmem s)(c := (\<lambda>_. 0))\<rparr>)"
proof -
  note D = pfl_okD [OF ok]
  have l: "page_free_list s = Some a" "pp_link (pages s a) = Some b" "pp_link (pages s b) = Some c" using D(1) by auto
  have d: "a \<noteq> b" "a \<noteq> c" "b \<noteq> c" using D(2) by auto
  have in_pages: "a < npages s" "b < npages s" "c < npages s" using D(3) by auto
  have z: "pp_ref (pages s x) = 0" "page_flags (pages s x) = 0" if "x \<in> {a, b, c}" for x using D(4,5) that by auto
  note z3 = z [of a, simplified] z [of b, simplified] z [of c, simplified]
  define H where "H = (pages s)(a := held (pages s a), b := held (pages s b), c := held (pages s c))"
  have H: "H a = held (pages s a)" "H b = held (pages s b)" "H c = held (pages s c)" using d by (simp_all add: H_def)
  have HH: "H(c := held (pages s c), b := held (pages s b), a := held (pages s a)) = H" by (auto simp: fun_eq_iff H_def)
  define s1 where "s1 = s\<lparr>page_free_list := None, pages := H\<rparr>"
  have 1: "three_pages s = Inr ((a, b, c), s1\<lparr>page_free_list := pp_link (pages s c)\<rparr>)"
    using three_pages_ok [OF l pre] d in_pages low n z taken_three [of a b c s] by (simp add: s1_def H_def)
  define s2 where "s2 = s1\<lparr>page_free_list := Some c,
    pages := H(a := free_as None (pages s a), b := free_as (Some a) (pages s b), c := free_as (Some b) (pages s c)),
    free_pages_count := free_pages_count s + 3\<rparr>"
  have 2: "free_three a b c s1 = Inr ((), s2)"
    using free_three_ok [of a b c s1] given_back_three [of a b c s1] d z3 H by (simp add: s1_def s2_def)
  have 3: "three_pages s2 = Inr ((c, b, a), s1\<lparr>free_pages_count := free_pages_count s + 3\<rparr>)"
    using three_pages_ok [of s2 c b a] taken_three [of c b a s2] d in_pages low n pre z3 H HH
    by (simp add: s1_def s2_def fun_upd_twist)
  define s3 where "s3 = s1\<lparr>free_pages_count := free_pages_count s + 3\<rparr>"
  define s4 where "s4 = s3\<lparr>page_free_list := Some c, pages := H(c := free_as None (pages s c)),
    free_pages_count := free_pages_count s + 4, pmem := (pmem s)(c := (\<lambda>_. 0x01010101))\<rparr>"
  have 4: "page_free c (memset_page c 0x01010101 s3) = Inr ((), s4)"
    using held_free [of "memset_page c 0x01010101 s3" c] z3 H
    by (simp add: s1_def s3_def s4_def given_back_def memset_page_def flip: free_as_def)
  define s5 where "s5 = s1\<lparr>free_pages_count := free_pages_count s + 4, pmem := (pmem s)(c := (\<lambda>_. 0))\<rparr>"
  have 5: "must_alloc ALLOC_ZERO s4 = Inr (c, s5)"
    using premapped_alloc [of s4 c ALLOC_ZERO] low in_pages pre n z3 H
    by (simp add: s1_def s3_def s4_def s5_def taken_def ALLOC_ZERO_def fun_upd_idem flip: held_def)
  define s6 where "s6 = s\<lparr>free_pages_count := free_pages_count s + 7, pmem := (pmem s)(c := (\<lambda>_. 0))\<rparr>"
  have restored: "H(c := free_as (pp_link (pages s c)) (pages s c), b := free_as (Some c) (pages s b), a := free_as (Some b) (pages s a)) = pages s"
    using z3 l d free_as_id [of "pages s a"] free_as_id [of "pages s b"] free_as_id [of "pages s c"] by (auto simp: fun_eq_iff H_def)
  have 6: "free_three c b a (s5\<lparr>page_free_list := pp_link (pages s c)\<rparr>) = Inr ((), s6)"
    using free_three_ok [of c b a "s5\<lparr>page_free_list := pp_link (pages s c)\<rparr>"]
      given_back_three [of c b a "s5\<lparr>page_free_list := pp_link (pages s c)\<rparr>"] d z3 H restored l
    by (simp add: s1_def s5_def s6_def)
  have pa: "page2pa x < of_nat (npages s) * PGSIZE" if "x < npages s" for x using page_below that n by simp
  have cnt: "(nfree_pages s :: 'a pm_state_scheme stop + _) = Inr (length r + 3)" "(nfree_pages s6 :: 'a pm_state_scheme stop + _) = Inr (length r + 3)"
    using nfree_pages_ok [OF ok, where 's = "'a pm_state_scheme"] by (simp_all add: nfree_pages_def s6_def)
  have empty: "must_fail s1 = Inr ((), s1)" "must_fail s3 = Inr ((), s3)"
    by (simp_all add: must_fail_def page_alloc_def ensure_def s1_def s3_def)
  have kva: "page2kva c s3 = Inr c" "page2kva c s5 = Inr c" using in_pages n by (simp_all add: page2kva_ok s1_def s3_def s5_def)
  have np: "npages (s1\<lparr>page_free_list := pp_link (pages s c)\<rparr>) = npages s" "s1\<lparr>page_free_list := None\<rparr> = s1" by (simp_all add: s1_def)
  have zero: "pmem s5 c i = 0" for i by (simp add: s5_def)
  have "check_page_alloc_4K s = Inr (length r + 3, s6)"
    unfolding check_page_alloc_4K_def cnt(1) rbind_simps prod.case 1 Let_def np
    using pa in_pages 2 3 4 5 6 empty kva zero cnt(2) by (simp add: ensure_def list_all_iff np s3_def [symmetric])
  then show ?thesis by (simp add: s6_def)
qed

lemma is_low_iff:
  assumes "i < 1048576"
  shows "is_low i \<longleftrightarrow> i < 1024"
proof -
  have "PDX (page2pa i) = take_bit 10 (drop_bit 22 (page2pa i))"
    by (simp add: PDX_def take_bit_eq_mask mask_eq_exp_minus_1)
  then have "pdx (page2pa i) = take_bit 10 (drop_bit 22 (i * 4096))"
    using unat_page2pa [OF assms] by (simp only: pdx_def unsigned_take_bit_eq unat_drop_bit_eq)
  then have "pdx (page2pa i) = i * 4096 div 4194304 mod 1024" by (simp add: take_bit_eq_mod drop_bit_eq_div)
  then show ?thesis using assms by (auto simp: is_low_def)
qed

lemma three_first:
  assumes "distinct xs" and "\<forall>x \<in> set xs. x < 1048576" and "{3, 4, 5} \<subseteq> set xs"
  obtains a b c r where "filter is_low xs @ ys = a # b # c # r" and "a < 1024" "b < 1024" "c < 1024"
proof -
  let ?l = "filter is_low xs"
  have "card {3, 4, 5 :: nat} \<le> card (set ?l)" using assms(2,3) by (intro card_mono) (auto simp: is_low_iff)
  also have "card (set ?l) = length ?l" using assms(1) by (intro distinct_card) simp
  finally have "3 \<le> length ?l" by simp
  then obtain a b c r where l: "?l = a # b # c # r"
    by (cases ?l; cases "tl ?l"; cases "tl (tl ?l)") auto
  have "x < 1024" if "x \<in> {a, b, c}" for x
  proof -
    have "x \<in> set ?l" unfolding l using that by auto
    then show ?thesis using assms(2) is_low_iff by auto
  qed
  then show ?thesis using that [of a b c "r @ ys"] l by simp
qed

text \<open>
  C13: on a machine with at least 6 pages of base memory and a page of extended memory behind the kernel, the free list
  that \<open>page_init\<close> builds passes \<open>check_page_free_list\<close>, which puts the pages below 4 MB first and keeps the order
  otherwise, and the first part of \<open>check_page_alloc\<close> succeeds and gives back the list as it was; only the count of
  free pages is too large by 7 afterwards, because taking a page below 4 MB does not decrease it.
\<close>

theorem boot_checks_pass:
  assumes n: "259 \<le> npages s" "npages s \<le> 65536" and empty: "page_free_list s = None" "free_pages_count s = 0"
    and links: "\<And>i. i < npages s \<Longrightarrow> pp_link (pages s i) = None" and pre: "PREMAPPED_FLAG s"
    and nf: "paddr_ok (nextfree s)" and lim: "lim = nextfree s - KERNBASE"
    and base: "6 \<le> npages_basemem s" "npages_basemem s \<le> 160"
    and ext: "EXTPHYSMEM < lim" "unat lim \<le> (npages s - 257) * 4096"
  shows "\<exists>s1 s2 s3 xs. page_init s = Inr ((), s1) \<and> pfl_ok s1 xs \<and> check_page_free_list True s1 = Inr ((), s2) \<and>
    pfl_ok s2 (filter is_low xs @ filter (\<lambda>p. \<not> is_low p) xs) \<and>
    check_page_alloc_4K s2 = Inr (length xs, s3) \<and> page_free_list s3 = page_free_list s2 \<and> pages s3 = pages s2 \<and>
    free_pages_count s3 = of_nat (length xs) + 7"
proof -
  let ?xs = "rev (filter (\<lambda>k. \<not> boot_used (npages_basemem s) lim k) [3..<npages s - 256])"
  have n': "npages s \<le> 1048576" using n by simp
  obtain s1 where s1: "page_init s = Inr ((), s1)" "same_boot s s1" "pfl_ok s1 ?xs"
    by (rule page_init_ok [OF n(1) n' empty links nf lim])
  have nf1: "nextfree s1 = nextfree s" using s1(2) by (simp add: same_boot_def)
  have pass: "passes (nextfree s1) x" if "x \<in> set ?xs" for x
    using that n base(2) nf ext(1) unfolding nf1 lim by (intro boot_free_passes) (auto simp: paddr_ok_def)
  have big: "256 * 4096 < unat lim" using ext(1) by (simp add: EXTPHYSMEM_def word_less_nat_alt)
  have lo: "3 \<in> set ?xs" "4 \<in> set ?xs" "5 \<in> set ?xs"
    using boot_used_pages [OF _ base(2), of _ lim] base(1) ext(2) big by auto
  have hi: "npages s - 257 \<in> set ?xs"
    using boot_used_pages [OF _ base(2), of "npages s - 257" lim] n ext(2) big by auto
  have low3: "page2pa 3 < EXTPHYSMEM" by (simp add: page_vs_const EXTPHYSMEM_def)
  have high: "\<not> page2pa (npages s - 257) < EXTPHYSMEM"
    using page_vs_const(1) [of "npages s - 257" EXTPHYSMEM] n ext(2) big by (auto simp: EXTPHYSMEM_def)
  let ?ys = "filter is_low ?xs @ filter (\<lambda>p. \<not> is_low p) ?xs"
  obtain s2 where s2: "check_page_free_list True s1 = Inr ((), s2)" "pfl_ok s2 ?ys"
      "PREMAPPED_FLAG s2" "npages s2 = npages s"
  proof -
    have some: "\<exists>x \<in> set ?xs. page2pa x < EXTPHYSMEM" "\<exists>x \<in> set ?xs. \<not> page2pa x < EXTPHYSMEM"
      using low3 lo(1) high hi by blast+
    have "nextfree s1 \<noteq> 0" using paddr_ok_pos [OF nf] nf1 by simp
    with check_page_free_list_ok [OF s1(3), of True] pass some that pre s1(2) show ?thesis by (force simp: same_boot_def)
  qed
  obtain a b c r where l: "?ys = a # b # c # r" "a < 1024" "b < 1024" "c < 1024"
  proof (rule three_first [of ?xs "filter (\<lambda>p. \<not> is_low p) ?xs"])
    show "distinct ?xs" by (rule pfl_okD(2) [OF s1(3)])
    show "\<forall>x \<in> set ?xs. x < 1048576" using n by auto
    show "{3, 4, 5} \<subseteq> set ?xs" using lo by blast
  qed
  have len: "length ?xs = length r + 3" using arg_cong [OF l(1), of length] sum_length_filter_compl [of is_low ?xs] by simp
  have "check_page_alloc_4K s2 = Inr (length r + 3, s2\<lparr>free_pages_count := free_pages_count s2 + 7, pmem := (pmem s2)(c := (\<lambda>_. 0))\<rparr>)"
    using check_page_alloc_4K_ok [of s2 a b c r] s2 n l by simp
  moreover have "free_pages_count s2 = of_nat (length r + 3)" using pfl_okD(7) [OF s2(2)] unfolding l(1) by simp
  ultimately show ?thesis
    using s1(1,3) s2(1,2) unfolding len [symmetric] by (intro exI [of _ s1] exI [of _ s2] exI [of _ "s2\<lparr>free_pages_count := _, pmem := _\<rparr>"] exI [of _ ?xs]) auto
qed

theorem boot_checks_pass_witness:
  "\<exists>s1 s2 s3 xs. page_init (sample_boot\<lparr>PREMAPPED_FLAG := True\<rparr>) = Inr ((), s1) \<and> pfl_ok s1 xs \<and>
    check_page_free_list True s1 = Inr ((), s2) \<and> pfl_ok s2 (filter is_low xs @ filter (\<lambda>p. \<not> is_low p) xs) \<and>
    check_page_alloc_4K s2 = Inr (length xs, s3) \<and> page_free_list s3 = page_free_list s2 \<and> pages s3 = pages s2 \<and>
    free_pages_count s3 = of_nat (length xs) + 7"
  by (rule boot_checks_pass [of "sample_boot\<lparr>PREMAPPED_FLAG := True\<rparr>" "0x200000"])
    (simp_all add: sample_boot_def sample_task_def paddr_ok_def KERNBASE_def EXTPHYSMEM_def)

section \<open>What the check of the kernel's page directory means\<close>

lemma check_va2pa_vmap:
  assumes "\<And>f. pt s pg (pdx va) = Some f \<Longrightarrow> f < npages s"
  shows "check_va2pa pg va s = Inr (case vmap s pg va of None \<Rightarrow> NOT 0 | Some (f, _) \<Rightarrow> page2pa f)"
proof (cases "pt s pg (pdx va)")
  case None
  then show ?thesis by (simp add: check_va2pa_def vmap_def pte_at_def pt_def split: if_splits)
next
  case (Some f)
  then have "frame (pmem s pg (pdx va)) < npages s" "pmem s pg (pdx va) AND PTE_P \<noteq> 0" "f = frame (pmem s pg (pdx va))"
    using assms by (auto simp: pt_def split: if_splits)
  then show ?thesis using Some by (simp add: check_va2pa_def vmap_def pte_at_def Let_def KADDR_def page2pa_frame)
qed

lemma check_range_iff:
  "check_range n pg va pa s = Inr () \<longleftrightarrow>
     (\<forall>k < n. check_va2pa pg (va + of_nat k * PGSIZE) s = Inr (pa + of_nat k * PGSIZE))"
proof (induction n arbitrary: va pa)
  case 0
  then show ?case by simp
next
  case (Suc n)
  have "maps_to pg va pa s = Inr () \<longleftrightarrow> check_va2pa pg va s = Inr pa"
    by (auto simp: maps_to_def ensure_def rbind_eq_Inr split: if_splits)
  moreover have "(\<forall>k < Suc n. P k) \<longleftrightarrow> P 0 \<and> (\<forall>k < n. P (Suc k))" for P
    using less_Suc_eq_0_disj by auto
  ultimately show ?case using Suc.IH [of "va + PGSIZE" "pa + PGSIZE"] by (auto simp: rbind_eq_Inr algebra_simps)
qed

text \<open>A page directory that passes maps the physical memory at \<open>KERNBASE\<close>.\<close>

lemma check_kern_pgdir_phys:
  assumes "check_kern_pgdir pages_va kstacks s = Inr ()" and "i < npages s" and "npages s \<le> 65536"
    and "\<And>d f. pt s (kern_pgdir s) d = Some f \<Longrightarrow> f < npages s"
  shows "\<exists>perm. vmap s (kern_pgdir s) (KERNBASE + of_nat i * PGSIZE) = Some (i, perm)"
proof -
  have "check_va2pa (kern_pgdir s) (KERNBASE + of_nat i * PGSIZE) s = Inr (of_nat i * PGSIZE)"
    using assms(1,2) check_range_iff [of "npages s" "kern_pgdir s" KERNBASE 0 s]
    by (auto simp: check_kern_pgdir_def Let_def rbind_eq_Inr)
  moreover have "(of_nat i * PGSIZE :: u32) = page2pa i" by (simp add: page2pa_def push_bit_eq_mult)
  ultimately have e: "(case vmap s (kern_pgdir s) (KERNBASE + of_nat i * PGSIZE) of None \<Rightarrow> NOT 0 | Some (f, _) \<Rightarrow> page2pa f) = page2pa i"
    using check_va2pa_vmap [of s "kern_pgdir s" "KERNBASE + of_nat i * PGSIZE"] assms(4) by auto
  have "page2pa i \<noteq> NOT 0"
  proof
    assume "page2pa i = NOT 0"
    then have "bit (page2pa i) 0 = bit (NOT 0 :: u32) 0" by simp
    then show False by (simp add: bit_page2pa)
  qed
  with e obtain f q where v: "vmap s (kern_pgdir s) (KERNBASE + of_nat i * PGSIZE) = Some (f, q)" "page2pa f = page2pa i"
    by (auto split: option.splits)
  then obtain x where "f = frame x" by (auto simp: vmap_def Let_def split: if_splits)
  then have "f = frame (page2pa f)" by (simp add: page2pa_frame)
  then have "f = i" using v(2) assms(2,3) by simp
  then show ?thesis using v(1) by blast
qed

end
