(* ===== verification/Printing.thy ===== *)
theory Printing
  imports Printf
begin

text \<open>
  What formatted output prints.  \<open>formatted\<close> collects the characters of a format in a list.  The three callbacks of the
  code are interpretations of the locale \<open>sink_sim\<close> against it: a buffer of \<open>snprintf\<close> holds a prefix of the list, the
  pieces given to \<open>sys_cputs\<close> make up the list, and the console receives it.  The texts of numbers are their digits,
  which \<open>strtol\<close> reads back.
\<close>

section \<open>The characters of a format\<close>

definition emit :: "(u32 list, 's) putch" where
  "emit c out = Inr (out @ [c])"

definition formatted :: "nat \<Rightarrow> (u32 list \<Rightarrow> bytes) \<Rightarrow> cptr \<Rightarrow> u32 list \<Rightarrow> 's stop + u32 list" where
  "formatted k mem fmt ap = vprintfmt k emit mem fmt ap []"

fun stored :: "bytes \<Rightarrow> u32 \<Rightarrow> u8 list \<Rightarrow> bytes" where
  "stored m a [] = m"
| "stored m a (c # cs) = stored (m(a := c)) (a + 1) cs"

lemma stored_snoc: "stored m a (cs @ [c]) = (stored m a cs)(a + of_nat (length cs) := c)"
  by (induction cs arbitrary: m a) (simp_all add: algebra_simps)

text \<open>The buffer: what has been printed, up to the first \<open>n - 1\<close> characters.\<close>

definition buffered :: "u32 \<Rightarrow> u32 list \<Rightarrow> u8 list" where
  "buffered n out = take (unat n - 1) (map ucast out)"

definition sprint_mem :: "bytes \<Rightarrow> u32 \<Rightarrow> u32 \<Rightarrow> u32 list \<Rightarrow> bytes" where
  "sprint_mem m buf n out = stored m buf (buffered n out)"

definition sprint_rel :: "bytes \<Rightarrow> u32 \<Rightarrow> u32 \<Rightarrow> sprintbuf \<Rightarrow> u32 list \<Rightarrow> bool" where
  "sprint_rel m buf n b out \<longleftrightarrow> 0 < unat n \<and> unat buf + unat n \<le> 4294967296 \<and>
     b = \<lparr>sb_buf = buf + of_nat (length (buffered n out)), sb_ebuf = buf + n - 1, sb_cnt = of_nat (length out),
          sb_mem = sprint_mem m buf n out\<rparr>"

lemma sprint_room:
  fixes n buf :: u32
  assumes "0 < unat n" "unat buf + unat n \<le> 4294967296" "j < unat n"
  shows "buf + of_nat j < buf + n - 1 \<longleftrightarrow> j < unat n - 1"
proof -
  have "unat (of_nat j :: u32) = j" using assms(3) unat_lt [of n] by (simp add: unat_of_nat)
  then have 1: "unat (buf + of_nat j) = unat buf + j" using assms by (subst unat_plus) auto
  have "unat (n - 1) = unat n - 1" using assms(1) by (subst unat_minus) auto
  then have "unat (buf + (n - 1)) = unat buf + (unat n - 1)" using assms by (subst unat_plus) auto
  then show ?thesis using 1 by (simp add: word_less_nat_alt algebra_simps)
qed

lemma sprintputch_sim: "sprint_rel m buf n b out \<Longrightarrow> rel_sum (=) (sprint_rel m buf n) (sprintputch c b) (emit c out)"
proof -
  assume r: "sprint_rel m buf n b out"
  then have n: "0 < unat n" "unat buf + unat n \<le> 4294967296" by (auto simp: sprint_rel_def)
  have l: "length (buffered n out) < unat n" using n by (auto simp: buffered_def min_def)
  show ?thesis
  proof (cases "length out < unat n - 1")
    case True
    then have "buffered n out = map ucast out" "buffered n (out @ [c]) = buffered n out @ [ucast c]" by (auto simp: buffered_def)
    then show ?thesis using r True sprint_room [OF n l]
      by (simp add: sprint_rel_def sprintputch_def emit_def sprint_mem_def stored_snoc Let_def algebra_simps)
  next
    case False
    then have "buffered n (out @ [c]) = buffered n out" "\<not> length (buffered n out) < unat n - 1" by (auto simp: buffered_def)
    then show ?thesis using r sprint_room [OF n l] by (simp add: sprint_rel_def sprintputch_def emit_def sprint_mem_def Let_def)
  qed
qed

interpretation sprint: sink_sim sprintputch sb_mem emit "sprint_mem m buf n" "sprint_rel m buf n" for m buf n
  by unfold_locales (auto intro: sprintputch_sim simp: sprint_rel_def)

lemma vsnprintf_exact:
  assumes "1 \<le> sint n" and "buf \<noteq> 0" and "unat buf + unat n \<le> 4294967296"
  shows "vsnprintf k buf n fmt ap m =
    rbind (formatted k (sprint_mem m buf n) fmt ap)
      (\<lambda>out. Inr (of_nat (length out), stored m buf (take (unat n - 1) (map ucast out) @ [0])))"
proof -
  have "n \<noteq> 0" using assms(1) by auto
  then have "0 < unat n" by (simp add: unat_gt_0)
  then have "sprint_rel m buf n \<lparr>sb_buf = buf, sb_ebuf = buf + n - 1, sb_cnt = 0, sb_mem = m\<rparr> []"
    using assms(3) by (simp add: sprint_rel_def sprint_mem_def buffered_def)
  then have "rel_sum (=) (sprint_rel m buf n)
      (vprintfmt k sprintputch sb_mem fmt ap \<lparr>sb_buf = buf, sb_ebuf = buf + n - 1, sb_cnt = 0, sb_mem = m\<rparr>)
      (formatted k (sprint_mem m buf n) fmt ap)"
    unfolding formatted_def by (rule sprint.vprintfmt_sim(1))
  then have "rbind (vprintfmt k sprintputch sb_mem fmt ap \<lparr>sb_buf = buf, sb_ebuf = buf + n - 1, sb_cnt = 0, sb_mem = m\<rparr>)
      (\<lambda>b. Inr (sb_cnt b, (sb_mem b)(sb_buf b := 0))) =
    rbind (formatted k (sprint_mem m buf n) fmt ap)
      (\<lambda>out. Inr (of_nat (length out), stored m buf (take (unat n - 1) (map ucast out) @ [0])))"
    by (rule rel_rbind_eq) (simp add: sprint_rel_def sprint_mem_def buffered_def stored_snoc)
  then show ?thesis using assms(1,2) by (simp add: vsnprintf_def)
qed

text \<open>
  C19: \<open>vsnprintf\<close> into a buffer of \<open>n\<close> bytes stores the first \<open>n - 1\<close> characters of the formatted text and a null
  character behind them, changes no other byte of the memory, and returns the length of the whole text; it stops or
  fails exactly when formatting the text does.
\<close>

theorem vsnprintf_refines:
  assumes "1 \<le> sint n" and "buf \<noteq> 0" and "unat buf + unat n \<le> 4294967296"
  shows "vsnprintf k buf n fmt ap m =
    rbind (formatted k (sprint_mem m buf n) fmt ap)
      (\<lambda>out. Inr (of_nat (length out), stored m buf (take (unat n - 1) (map ucast out) @ [0])))"
  using assms by (rule vsnprintf_exact)

theorem vsnprintf_refines_witness:
  "(vsnprintf 6 0x1000 3 (Lit ''a%d'' 0) [12] (\<lambda>_. 7) :: unit stop + _) = Inr (3, (\<lambda>_. 7)(0x1000 := 0x61, 0x1001 := 0x31, 0x1002 := 0))"
proof -
  have "(formatted 6 (sprint_mem (\<lambda>_. 7) 0x1000 3) (Lit ''a%d'' 0) [12] :: unit stop + _) = Inr [0x61, 0x31, 0x32]"
    by code_simp
  then show ?thesis by (subst vsnprintf_refines) simp_all
qed

section \<open>Printing to the console\<close>

definition user_rel :: "printbuf \<Rightarrow> u32 list \<Rightarrow> bool" where
  "user_rel b out \<longleftrightarrow> length (pb_buf b) = 256 \<and> pb_idx b < 255 \<and> pb_cnt b = of_nat (length out) \<and>
     concat (cputs_log b) @ take (pb_idx b) (pb_buf b) = map ucast out \<and> (\<forall>s\<in>set (cputs_log b). length s \<le> 255)"

lemma take_Suc_update: "i < length xs \<Longrightarrow> take (Suc i) (xs[i := x]) = take i xs @ [x]"
  by (simp add: take_Suc_conv_app_nth)

lemma putch_user_sim:
  assumes "user_rel b out"
  shows "rel_sum (=) user_rel (putch_user c b) (emit c out)"
proof (cases "pb_idx b = 254")
  case True
  then show ?thesis using assms take_Suc_update [of 254 "pb_buf b" "ucast c"]
    by (auto simp: user_rel_def putch_user_def emit_def sys_cputs_user_def Let_def)
next
  case False
  then show ?thesis using assms take_Suc_update [of "pb_idx b" "pb_buf b" "ucast c"]
    by (auto simp: user_rel_def putch_user_def emit_def sys_cputs_user_def Let_def)
qed

interpretation user_out: sink_sim putch_user "\<lambda>_. m" emit "\<lambda>_. m" user_rel for m
  by unfold_locales (auto intro: putch_user_sim)

text \<open>The pieces that a user program hands to \<open>sys_cputs\<close> make up the formatted text, and none is longer than its buffer.\<close>

lemma vcprintf_user_prints:
  assumes "256 \<le> length stack"
  shows "rel_sum (=) (\<lambda>(r, log) out. r = of_nat (length out) \<and> concat log = map ucast out \<and> (\<forall>s\<in>set log. length s \<le> 255))
    (vcprintf_user k m fmt ap stack) (formatted k (\<lambda>_. m) fmt ap)"
proof -
  let ?b = "\<lparr>pb_idx = 0, pb_cnt = 0, pb_buf = take 256 stack, cputs_log = []\<rparr>"
  have "user_rel ?b []" using assms by (simp add: user_rel_def)
  then have "rel_sum (=) user_rel (vprintfmt k putch_user (\<lambda>_. m) fmt ap ?b) (formatted k (\<lambda>_. m) fmt ap)"
    unfolding formatted_def by (rule user_out.vprintfmt_sim(1))
  then show ?thesis
    unfolding vcprintf_user_def by (rule rel_rbind_left) (auto simp: user_rel_def sys_cputs_user_def Let_def)
qed

text \<open>The kernel writes the same characters to the console; the count it returns is always 0.\<close>

fun cons_puts :: "u32 list \<Rightarrow> cons_state \<Rightarrow> 's stop + cons_state" where
  "cons_puts [] c = Inr c"
| "cons_puts (x # xs) c = rbind (cons_putc x c) (cons_puts xs)"

lemma cons_puts_snoc: "cons_puts (xs @ [x]) c = rbind (cons_puts xs c) (cons_putc x)"
proof (induction xs arbitrary: c)
  case Nil
  then show ?case by (cases "cons_putc x c :: 'a stop + _") simp_all
next
  case (Cons y ys)
  then show ?case by (cases "cons_putc y c :: 'a stop + _") simp_all
qed

definition console_rel :: "cons_state \<Rightarrow> cons_state \<times> u32 \<Rightarrow> u32 list \<Rightarrow> bool" where
  "console_rel c0 x out \<longleftrightarrow> snd x = 0 \<and> crt_ok (fst x) \<and> (cons_puts out c0 :: kstate stop + _) = Inr (fst x)"

lemma putch_console_sim:
  assumes "console_rel c0 x out"
  shows "rel_sum (=) (console_rel c0) (putch_console ch x :: kstate stop + _) (emit ch out)"
proof -
  obtain c where c: "x = (c, 0)" "crt_ok c" "(cons_puts out c0 :: kstate stop + _) = Inr c"
    using assms by (cases x) (auto simp: console_rel_def)
  from cons_putc_ok [OF c(2)] obtain c' where "(cons_putc ch c :: kstate stop + _) = Inr c'" "crt_ok c'" by blast
  then show ?thesis using c by (simp add: putch_console_def emit_def console_rel_def cons_puts_snoc)
qed

interpretation console_out: sink_sim "putch_console :: (cons_state \<times> u32, kstate) putch" "\<lambda>_. m" emit "\<lambda>_. m" "console_rel c0" for m c0
  by unfold_locales (auto intro: putch_console_sim)

lemma vcprintf_prints:
  assumes "crt_ok c"
  shows "rel_sum (=) (\<lambda>(r, c') out. r = 0 \<and> crt_ok c' \<and> (cons_puts out c :: kstate stop + _) = Inr c')
    (vcprintf k m fmt ap c :: kstate stop + _) (formatted k (\<lambda>_. m) fmt ap)"
proof -
  have "console_rel c (c, 0) []" using assms by (simp add: console_rel_def)
  then have "rel_sum (=) (console_rel c) (vprintfmt k putch_console (\<lambda>_. m) fmt ap (c, 0) :: kstate stop + _) (formatted k (\<lambda>_. m) fmt ap)"
    unfolding formatted_def by (rule console_out.vprintfmt_sim(1))
  then show ?thesis unfolding vcprintf_def by (rule rel_rbind_left) (auto simp: console_rel_def)
qed

section \<open>Printing a number and reading it back\<close>

fun digits :: "nat \<Rightarrow> nat \<Rightarrow> nat list" where
  "digits b n = (if n < b \<or> b < 2 then [n] else digits b (n div b) @ [n mod b])"

declare digits.simps [simp del]

lemma digits_value: "2 \<le> b \<Longrightarrow> foldl (\<lambda>v d. v * b + d) 0 (digits b n) = n"
proof (induction b n rule: digits.induct)
  case (1 b n)
  then show ?case by (subst digits.simps) (auto simp: not_less)
qed

lemma digits_less: "2 \<le> b \<Longrightarrow> d \<in> set (digits b n) \<Longrightarrow> d < b"
proof (induction b n rule: digits.induct)
  case (1 b n)
  then show ?case using digits.simps [of b n] by (auto split: if_splits)
qed

lemma length_digits: "2 \<le> b \<Longrightarrow> n < b ^ Suc k \<Longrightarrow> length (digits b n) \<le> Suc k"
proof (induction k arbitrary: n)
  case 0
  then show ?case by (subst digits.simps) simp
next
  case (Suc k)
  then have "n div b < b ^ Suc k" by (simp add: less_mult_imp_div_less mult.commute)
  then show ?case using Suc by (subst digits.simps) simp
qed

lemma digits_not_Nil: "digits b n \<noteq> []"
  by (subst digits.simps) simp

definition digit_char :: "nat \<Rightarrow> u32" where
  "digit_char d = of_char (''0123456789abcdef'' ! d)"

lemma sint_minus:
  assumes "sint (w :: u32) \<le> 0" and "- 2147483648 < sint w"
  shows "sint (w - 1) = sint w - 1"
proof -
  have "sint (w - 1) = signed_take_bit 31 (sint w - 1)" by (simp add: sint_word_ariths)
  also have "\<dots> = sint w - 1" using assms by (intro signed_take_bit_int_eq_self) simp_all
  finally show ?thesis .
qed

lemma printnum_digits:
  fixes num :: u64 and base :: u32
  assumes "2 \<le> unat base"
  shows "sint width \<le> 0 \<Longrightarrow> - 2147483648 + int (length (digits (unat base) (unat num))) \<le> sint width \<Longrightarrow>
    (printnum emit num base width padc out :: 's stop + _) = Inr (out @ map digit_char (digits (unat base) (unat num)))"
proof (induction "unat num" arbitrary: num width rule: less_induct)
  case less
  let ?b = "unat base" and ?n = "unat num"
  have char: "hexdigit (num mod ucast base) = digit_char (?n mod ?b)" by (simp add: hexdigit_def digit_char_def unat_mod)
  have le: "ucast base \<le> num \<longleftrightarrow> ?b \<le> ?n" by (simp add: word_le_nat_alt)
  have length_pos: "0 < int (length (digits ?b ?n))" using digits_not_Nil [of ?b ?n] by simp
  have w: "sint (width - 1) = sint width - 1"
    using less.prems length_pos by (intro sint_minus) linarith+
  show ?case
  proof (cases "?b \<le> ?n")
    case True
    have "\<not> base < 2" using assms by (simp add: word_less_nat_alt)
    moreover have d: "digits ?b ?n = digits ?b (unat (num div ucast base)) @ [?n mod ?b]"
      using True assms by (subst digits.simps) (simp add: unat_div)
    moreover have "(printnum emit (num div ucast base) base (width - 1) padc out :: 's stop + _) =
        Inr (out @ map digit_char (digits ?b (unat (num div ucast base))))"
      using True le less.prems d w calculation(1) by (intro less.hyps unat_div_base) auto
    ultimately show ?thesis using True le char by (subst printnum.simps) (simp add: emit_def)
  next
    case False
    then have "digits ?b ?n = [?n]" by (subst digits.simps) simp
    then show ?thesis using False le char w less.prems by (subst printnum.simps) (simp add: emit_def)
  qed
qed

lemma stored_before:
  "unat x < unat a \<Longrightarrow> unat a + length cs \<le> 4294967296 \<Longrightarrow> stored m a cs x = m x"
proof (induction cs arbitrary: m a)
  case (Cons c cs)
  have "x \<noteq> a" using Cons.prems by auto
  moreover have "unat (a + 1) = unat a + 1" if "cs \<noteq> []" using that Cons.prems by (subst unat_plus) (cases cs, auto)
  ultimately show ?case using Cons by (cases "cs = []") auto
qed simp

lemma cstr_stored:
  "0 \<notin> set cs \<Longrightarrow> unat a + length cs < 4294967296 \<Longrightarrow> cstr (stored m a (cs @ [0])) a cs"
proof (induction cs arbitrary: m a)
  case (Cons c cs)
  then have "unat (a + 1) = unat a + 1" by (subst unat_plus) auto
  then show ?case using Cons stored_before [of a "a + 1" "cs @ [0]" "m(a := c)"] by auto
qed simp

lemma digit_chars:
  "\<forall>d\<in>set [0..<16]. digit (ucast (digit_char d)) = Some (of_nat d) \<and>
     (ucast (digit_char d) :: u8) \<notin> {0, 0x09, 0x20, 0x2B, 0x2D, 0x78}"
  by code_simp

lemma digit_of_char:
  assumes "d < 16"
  shows "digit (ucast (digit_char d)) = Some (of_nat d)" "(ucast (digit_char d) :: u8) \<notin> {0, 0x09, 0x20, 0x2B, 0x2D, 0x78}"
  using bspec [OF digit_chars, of d] assms by simp_all

lemma strtol_digits_ok:
  assumes "2 \<le> b" "b \<le> 16"
  shows "(\<And>d. d \<in> set ds \<Longrightarrow> d < b) \<Longrightarrow> cstr m s (map (ucast \<circ> digit_char) ds) \<Longrightarrow>
    strtol_digits s (of_nat v) (of_nat b) m = Some (of_nat (foldl (\<lambda>v d. v * b + d) v ds), s + of_nat (length ds))"
proof (induction ds arbitrary: s v)
  case Nil
  then show ?case by (subst strtol_digits.simps) (simp add: digit_def)
next
  case (Cons d ds)
  then have d: "d < b" by simp
  then have "digit (m s) = Some (of_nat d)" using assms Cons.prems(2) digit_of_char(1) [of d] by simp
  note d = d this
  have "sint (of_nat j :: u32) = int j" if "j < 17" for j
    using that by (simp add: signed_of_nat signed_take_bit_int_eq_self)
  then have "\<not> sint (of_nat b :: u32) \<le> sint (of_nat d :: u32)" using d(1) assms by simp
  then have "strtol_digits s (of_nat v) (of_nat b) m = strtol_digits (s + 1) (of_nat (v * b + d)) (of_nat b) m"
    using d by (subst strtol_digits.simps) simp
  also have "\<dots> = Some (of_nat (foldl (\<lambda>v d. v * b + d) (v * b + d) ds), s + 1 + of_nat (length ds))"
    using Cons.prems by (intro Cons.IH) auto
  finally show ?case by (simp add: algebra_simps)
qed

definition signed_text :: "u32 \<Rightarrow> u32 list" where
  "signed_text x = (if sint x < 0 then [0x2D] else []) @ map digit_char (digits 10 (nat \<bar>sint x\<bar>))"

lemma sint_bounds: "- 2147483648 \<le> sint (x :: u32)" "sint (x :: u32) < 2147483648"
  using sint_ge [of x] sint_lt [of x] by simp_all

lemma unat_of_sint:
  fixes n :: u32
  assumes "int j \<le> sint n"
  shows "j \<le> unat n"
proof -
  have "- 2147483648 \<le> uint n" using uint_ge_0 [of n] by linarith
  then have "sint n \<le> uint n" by (simp add: sint_uint signed_take_bit_int_less_eq_self_iff)
  moreover have "int (unat n) = uint n" by simp
  ultimately show ?thesis using assms by linarith
qed

lemma sint_scast64: "sint (scast (x :: u32) :: u64) = sint x"
  using sint_bounds [of x] by (simp add: signed_scast_eq signed_take_bit_int_eq_self)

lemma unat_abs64:
  fixes x :: u32
  shows "\<not> sint x < 0 \<Longrightarrow> unat (scast x :: u64) = nat \<bar>sint x\<bar>" "sint x < 0 \<Longrightarrow> unat (- scast x :: u64) = nat \<bar>sint x\<bar>"
proof -
  note r = sint_bounds [of x]
  have *: "unat (word_of_int i :: u64) = nat i" if "0 \<le> i" "i \<le> 2147483648" for i
    using that by (simp add: unsigned_of_int take_bit_int_eq_self)
  show "\<not> sint x < 0 \<Longrightarrow> unat (scast x :: u64) = nat \<bar>sint x\<bar>" using * [of "sint x"] r by simp
  show "sint x < 0 \<Longrightarrow> unat (- scast x :: u64) = nat \<bar>sint x\<bar>" using * [of "- sint x"] r by simp
qed

lemma formatted_d:
  assumes "3 \<le> k"
  shows "(formatted k mem (Lit ''%d'' 0) [x] :: 's stop + _) = Inr (signed_text x)"
proof -
  obtain j where k: "k = Suc (Suc (Suc j))" using assms by (metis add_2_eq_Suc le_Suc_ex numeral_3_eq_3 plus_nat.simps(2))
  have "length (digits 10 (nat \<bar>sint x\<bar>)) \<le> Suc 9" using sint_bounds [of x] by (intro length_digits) simp_all
  then have "(printnum emit num 10 (- 1) 32 out :: 's stop + _) = Inr (out @ map digit_char (digits 10 (nat \<bar>sint x\<bar>)))"
    if "unat num = nat \<bar>sint x\<bar>" for num out
    using that printnum_digits [of 10 "- 1" num 32 out] by simp
  then have "(put_signed emit (scast x) no_flags [] :: 's stop + _) = Inr (signed_text x)"
    using unat_abs64 [of x] by (cases "sint x < 0") (simp_all add: put_signed_def signed_text_def no_flags_def emit_def sint_scast64)
  then show ?thesis
    by (simp add: formatted_def k Let_def of_char_Char fmt_flag_def conversion_def getint_def) (simp add: no_flags_def getint_def)
qed

lemma formatted_x:
  assumes "3 \<le> k"
  shows "(formatted k mem (Lit ''%x'' 0) [x] :: 's stop + _) = Inr (map digit_char (digits 16 (unat x)))"
proof -
  obtain j where k: "k = Suc (Suc (Suc j))" using assms by (metis add_2_eq_Suc le_Suc_ex numeral_3_eq_3 plus_nat.simps(2))
  have "length (digits 16 (unat x)) \<le> Suc 7" using unat_lt [of x] by (intro length_digits) simp_all
  then have "(printnum emit (ucast x) 16 (- 1) 32 [] :: 's stop + _) = Inr (map digit_char (digits 16 (unat x)))"
    using printnum_digits [of 16 "- 1" "ucast x" 32 "[]"] by simp
  then have "(put_number emit 16 no_flags [x] [] :: 's stop + _) = Inr ([], map digit_char (digits 16 (unat x)))"
    by (simp add: put_number_def getuint_def no_flags_def)
  then show ?thesis by (simp add: formatted_def k Let_def of_char_Char fmt_flag_def conversion_def)
qed

lemma cstr_digits: "b \<le> 16 \<Longrightarrow> (\<And>d. d \<in> set ds \<Longrightarrow> d < b) \<Longrightarrow> 0 \<notin> set (map (ucast \<circ> digit_char) ds :: u8 list)"
  using digit_of_char(2) by fastforce

lemma strtol_of_digits:
  fixes b n :: nat
  assumes b: "2 \<le> b" "b \<le> 16" and s: "cstr m s (map (ucast \<circ> digit_char) (digits b n))"
  shows "strtol_digits s 0 (of_nat b) m = Some (of_nat n, s + of_nat (length (digits b n)))"
  using strtol_digits_ok [OF b, of "digits b n" m s 0] digits_less [OF b(1)] s digits_value [OF b(1), of n] by simp

text \<open>The first two bytes of a number: no blank, no sign, and no prefix of a hexadecimal number.\<close>

lemma cstr_number_head:
  assumes "cstr m s (map (ucast \<circ> digit_char) (digits b n))" "2 \<le> b" "b \<le> 16"
  shows "m s \<notin> {0, 0x09, 0x20, 0x2B, 0x2D, 0x78}" "m (s + 1) \<noteq> 0x78"
proof -
  have c: "m a \<notin> {0, 0x09, 0x20, 0x2B, 0x2D, 0x78}" if "cstr m a (map (ucast \<circ> digit_char) (d # ds))" "d < b" for a d ds
    using that digit_of_char(2) [of d] assms(3) by auto
  have less: "d < b" if "d \<in> set (digits b n)" for d using that assms(2) digits_less by blast
  obtain d ds where d: "digits b n = d # ds" using digits_not_Nil [of b n] by (cases "digits b n") auto
  then show "m s \<notin> {0, 0x09, 0x20, 0x2B, 0x2D, 0x78}" using c [of s d ds] assms(1) less by simp
  show "m (s + 1) \<noteq> 0x78"
  proof (cases ds)
    case Nil
    then show ?thesis using assms(1) d by simp
  next
    case (Cons e es)
    then show ?thesis using c [of "s + 1" e es] assms(1) less d by simp
  qed
qed

lemma strtol_number:
  assumes "cstr m s (map (ucast \<circ> digit_char) (digits b n))" "b = 10 \<or> b = 16"
  shows "strtol s (of_nat b) m = Some (of_nat n, s + of_nat (length (digits b n)))"
proof -
  have b: "2 \<le> b" "b \<le> 16" using assms(2) by auto
  note h = cstr_number_head [OF assms(1) b]
  have "skip_blanks s m = Some s" using h(1) by (subst skip_blanks.simps) auto
  then show ?thesis using h strtol_of_digits [OF b assms(1)] assms(2) by (auto simp: strtol_def)
qed

lemma strtol_negative:
  assumes "m s = 0x2D" "cstr m (s + 1) (map (ucast \<circ> digit_char) (digits 10 n))"
  shows "strtol s 10 m = Some (- of_nat n, s + 1 + of_nat (length (digits 10 n)))"
proof -
  have "skip_blanks s m = Some s" using assms(1) by (subst skip_blanks.simps) auto
  then show ?thesis using strtol_of_digits [OF _ _ assms(2)] assms(1) by (simp add: strtol_def)
qed

lemma snprintf_fits:
  assumes "(formatted k (sprint_mem m buf n) fmt ap :: 's stop + _) = Inr out" and "length out < 12"
    and n: "12 \<le> sint n" "buf \<noteq> 0" "unat buf + unat n \<le> 4294967296" and "0 \<notin> set (map ucast out :: u8 list)"
  shows "\<exists>m'. (snprintf k buf n fmt ap m :: 's stop + _) = Inr (of_nat (length out), m') \<and> cstr m' buf (map ucast out)"
proof -
  have "12 \<le> unat n" using n(1) unat_of_sint [of 12 n] by simp
  then have "unat buf + length (map ucast out :: u8 list) < 4294967296" "length out \<le> unat n - 1" using assms by simp_all
  then show ?thesis
    using vsnprintf_exact [of n buf k fmt ap m, where 'a = 's] assms(1,6) n cstr_stored [of "map ucast out" buf m]
    by (auto simp: snprintf_def)
qed

text \<open>
  C20: a number printed with \<open>snprintf\<close> into a buffer of at least 12 bytes is read back by \<open>strtol\<close>, which stops at
  the end of the text: with \<open>%d\<close> in base 10, for positive and negative numbers, and with \<open>%x\<close> in base 16.
\<close>

theorem snprintf_strtol:
  assumes k: "3 \<le> k" and n: "12 \<le> sint n" "buf \<noteq> 0" "unat buf + unat n \<le> 4294967296"
  shows "(\<exists>r m'. (snprintf k buf n (Lit ''%d'' 0) [x] m :: 's stop + _) = Inr (r, m') \<and> strtol buf 10 m' = Some (x, buf + r)) \<and>
    (\<exists>r m'. (snprintf k buf n (Lit ''%x'' 0) [x] m :: 's stop + _) = Inr (r, m') \<and> strtol buf 16 m' = Some (x, buf + r))"
proof
  let ?ds = "digits 10 (nat \<bar>sint x\<bar>)" and ?xs = "digits 16 (unat x)"
  have len: "length ?ds \<le> 10" "length ?xs \<le> 8"
    using length_digits [of 10 "nat \<bar>sint x\<bar>" 9] sint_bounds [of x] length_digits [of 16 "unat x" 7] unat_lt [of x] by simp_all
  have nz: "0 \<notin> set (map (ucast \<circ> digit_char) ?ds :: u8 list)" "0 \<notin> set (map (ucast \<circ> digit_char) ?xs :: u8 list)"
    using digits_less by (intro cstr_digits [of 10] cstr_digits [of 16]; simp)+
  have "\<exists>m'. (snprintf k buf n (Lit ''%x'' 0) [x] m :: 's stop + _) = Inr (of_nat (length (map digit_char ?xs)), m') \<and>
      cstr m' buf (map ucast (map digit_char ?xs))"
    by (rule snprintf_fits [OF formatted_x [OF k]]) (use len(2) n nz(2) in simp_all)
  then obtain m' where m': "(snprintf k buf n (Lit ''%x'' 0) [x] m :: 's stop + _) = Inr (of_nat (length ?xs), m')"
      "cstr m' buf (map (ucast \<circ> digit_char) ?xs)" by auto
  then show "\<exists>r m'. (snprintf k buf n (Lit ''%x'' 0) [x] m :: 's stop + _) = Inr (r, m') \<and> strtol buf 16 m' = Some (x, buf + r)"
    using strtol_number [OF m'(2)] by simp
  have txt_ok: "length (signed_text x) < 12" "0 \<notin> set (map ucast (signed_text x) :: u8 list)"
    using len(1) nz(1) unfolding signed_text_def by (cases "sint x < 0"; simp)+
  have "\<exists>m'. (snprintf k buf n (Lit ''%d'' 0) [x] m :: 's stop + _) = Inr (of_nat (length (signed_text x)), m') \<and>
      cstr m' buf (map ucast (signed_text x))"
    using snprintf_fits [OF formatted_d [OF k] txt_ok(1) n txt_ok(2)] .
  then obtain m' where m': "(snprintf k buf n (Lit ''%d'' 0) [x] m :: 's stop + _) = Inr (of_nat (length (signed_text x)), m')"
      "cstr m' buf (map ucast (signed_text x))" by blast
  moreover have "strtol buf 10 m' = Some (x, buf + of_nat (length (signed_text x)))"
  proof (cases "sint x < 0")
    case True
    then have "strtol buf 10 m' = Some (- of_nat (nat \<bar>sint x\<bar>), buf + 1 + of_nat (length ?ds))"
      using m'(2) by (intro strtol_negative) (simp_all add: signed_text_def)
    moreover have "- of_nat (nat \<bar>sint x\<bar>) = x" using True by (simp add: of_nat_nat)
    ultimately show ?thesis using True by (simp add: signed_text_def algebra_simps)
  next
    case False
    then have "of_nat (nat \<bar>sint x\<bar>) = x" by (simp add: of_nat_nat)
    then show ?thesis using False m'(2) strtol_number [of m' buf 10 "nat \<bar>sint x\<bar>"] by (simp add: signed_text_def)
  qed
  ultimately show "\<exists>r m'. (snprintf k buf n (Lit ''%d'' 0) [x] m :: 's stop + _) = Inr (r, m') \<and> strtol buf 10 m' = Some (x, buf + r)"
    by blast
qed

theorem snprintf_strtol_witness:
  "\<exists>r m'. (snprintf 3 0x1000 12 (Lit ''%d'' 0) [- 5] (\<lambda>_. 7) :: unit stop + _) = Inr (r, m') \<and> strtol 0x1000 10 m' = Some (- 5, 0x1000 + r)"
  using snprintf_strtol [of 3 12 "0x1000" "- 5" "\<lambda>_. 7", where 's = unit] by simp

end
