(* ===== verification/MpConfig.thy ===== *)
theory MpConfig
  imports StringLib BootMem
begin

text \<open>
  The search for the multiprocessor tables of the firmware and their evaluation, \<^verbatim>\<open>kern/mpconfig.c\<close>.  The memory is a
  function from kernel addresses to bytes; the number of physical pages is an argument, because \<open>KADDR\<close> panics above it.
  The messages are not modelled.
\<close>

datatype cpu_status = CPU_UNUSED | CPU_STARTED | CPU_HALTED

record cpuinfo =
  cpu_id :: u8
  cpu_status :: cpu_status

record mp_state =
  cpus :: "cpuinfo list"
  bootcpu :: nat
  ismp :: bool
  ncpu :: nat
  lapicaddr :: u32
  imcr :: u8

definition kaddr :: "nat \<Rightarrow> u32 \<Rightarrow> 's stop + u32" where
  "kaddr np pa = (if np \<le> unat (PGNUM pa) then Inl (Panic ''KADDR called with invalid pa'') else Inr (pa + KERNBASE))"

definition get16 :: "u32 \<Rightarrow> bytes \<Rightarrow> u32" where
  "get16 a m = ucast (m a) OR push_bit 8 (ucast (m (a + 1)))"

fun mp_sum :: "u32 \<Rightarrow> nat \<Rightarrow> bytes \<Rightarrow> u8" where
  "mp_sum a 0 m = 0"
| "mp_sum a (Suc n) m = m a + mp_sum (a + 1) n m"

definition signature :: "u32 \<Rightarrow> bytes \<Rightarrow> u8 list" where
  "signature a m = [m a, m (a + 1), m (a + 2), m (a + 3)]"

section \<open>Finding the tables\<close>

fun mpsearch_loop :: "nat \<Rightarrow> u32 \<Rightarrow> bytes \<Rightarrow> u32 option" where
  "mpsearch_loop 0 mp m = None"
| "mpsearch_loop (Suc n) mp m =
     (if signature mp m = [0x5F, 0x4D, 0x50, 0x5F] \<and> mp_sum mp 16 m = 0 then Some mp else mpsearch_loop n (mp + 16) m)"

definition mpsearch1 :: "nat \<Rightarrow> u32 \<Rightarrow> u32 \<Rightarrow> bytes \<Rightarrow> 's stop + u32 option" where
  "mpsearch1 np a len m =
     rbind (kaddr np a) (\<lambda>mp. rbind (kaddr np (a + len)) (\<lambda>end.
     Inr (mpsearch_loop ((unat end - unat mp + 15) div 16) mp m)))"

definition mpsearch :: "nat \<Rightarrow> bytes \<Rightarrow> 's stop + u32 option" where
  "mpsearch np m =
     rbind (kaddr np (push_bit 4 0x40)) (\<lambda>bda.
     let p = get16 (bda + 0x0E) m in
     rbind (if p \<noteq> 0 then mpsearch1 np (push_bit 4 p) 1024 m
            else mpsearch1 np (get16 (bda + 0x13) m * 1024 - 1024) 1024 m) (\<lambda>mp.
     case mp of Some mp \<Rightarrow> Inr (Some mp) | None \<Rightarrow> mpsearch1 np 0xF0000 0x10000 m))"

text \<open>The structure and the configuration table it points to.\<close>

definition mpconfig :: "nat \<Rightarrow> bytes \<Rightarrow> 's stop + (u32 \<times> u32) option" where
  "mpconfig np m =
     rbind (mpsearch np m) (\<lambda>mp.
     case mp of None \<Rightarrow> Inr None
     | Some mp \<Rightarrow>
         if get32 (mp + 4) m = 0 \<or> m (mp + 11) \<noteq> 0 then Inr None
         else rbind (kaddr np (get32 (mp + 4) m)) (\<lambda>conf.
           let len = get16 (conf + 4) m; version = m (conf + 6) in
           if signature conf m \<noteq> [0x50, 0x43, 0x4D, 0x50] then Inr None
           else if mp_sum conf (unat len) m \<noteq> 0 then Inr None
           else if version \<noteq> 1 \<and> version \<noteq> 4 then Inr None
           else if mp_sum (conf + len) (unat (get16 (conf + 40) m)) m \<noteq> m (conf + 42) then Inr None
           else Inr (Some (mp, conf))))"

section \<open>The processors\<close>

fun mp_entries :: "nat \<Rightarrow> u32 \<Rightarrow> bytes \<Rightarrow> mp_state \<Rightarrow> mp_state" where
  "mp_entries 0 p m s = s"
| "mp_entries (Suc n) p m s =
     (if m p = 0 then
        let s = (if m (p + 3) AND 2 \<noteq> 0 then s\<lparr>bootcpu := ncpu s\<rparr> else s);
            s = (if ncpu s < NCPU
                 then s\<lparr>cpus := (cpus s)[ncpu s := (cpus s ! ncpu s)\<lparr>cpu_id := of_nat (ncpu s)\<rparr>], ncpu := ncpu s + 1\<rparr>
                 else s) in
        mp_entries n (p + 20) m s
      else if m p \<in> {1, 2, 3, 4} then mp_entries n (p + 8) m s
      else s\<lparr>ismp := False\<rparr>)"

definition mp_init :: "nat \<Rightarrow> bytes \<Rightarrow> mp_state \<Rightarrow> mp_state stop + mp_state" where
  "mp_init np m s =
     (let s = s\<lparr>bootcpu := 0\<rparr> in
      rbind (mpconfig np m) (\<lambda>c.
      case c of None \<Rightarrow> Inr s
      | Some (mp, conf) \<Rightarrow>
          let s = s\<lparr>ismp := True, lapicaddr := get32 (conf + 36) m\<rparr>;
              s = mp_entries (unat (get16 (conf + 34) m)) (conf + 44) m s in
          if length (cpus s) \<le> bootcpu s then Inl OutOfBounds
          else
            let s = s\<lparr>cpus := (cpus s)[bootcpu s := (cpus s ! bootcpu s)\<lparr>cpu_status := CPU_STARTED\<rparr>]\<rparr> in
            if \<not> ismp s then Inr (s\<lparr>ncpu := 1, lapicaddr := 0\<rparr>)
            else if m (mp + 12) \<noteq> 0 then Inr (s\<lparr>imcr := imcr s OR 1\<rparr>)
            else Inr s))"

section \<open>The number of processors\<close>

text \<open>A structure that the search finds has the signature and a checksum of 0.\<close>

lemma mpsearch_loop_sound:
  "mpsearch_loop n mp m = Some r \<Longrightarrow> signature r m = [0x5F, 0x4D, 0x50, 0x5F] \<and> mp_sum r 16 m = 0 \<and> (\<exists>k < n. r = mp + 16 * of_nat k)"
proof (induction n arbitrary: mp)
  case (Suc n)
  show ?case
  proof (cases "signature mp m = [0x5F, 0x4D, 0x50, 0x5F] \<and> mp_sum mp 16 m = 0")
    case True
    then show ?thesis using Suc.prems by (auto intro: exI [of _ 0])
  next
    case False
    then obtain k where "k < n" "r = mp + 16 + 16 * of_nat k" "signature r m = [0x5F, 0x4D, 0x50, 0x5F]" "mp_sum r 16 m = 0"
      using Suc.IH [of "mp + 16"] Suc.prems by auto
    then show ?thesis by (auto simp: algebra_simps intro!: exI [of _ "Suc k"])
  qed
qed simp

fun processors :: "nat \<Rightarrow> u32 \<Rightarrow> bytes \<Rightarrow> nat" where
  "processors 0 p m = 0"
| "processors (Suc n) p m =
     (if m p = 0 then Suc (processors n (p + 20) m) else if m p \<in> {1, 2, 3, 4} then processors n (p + 8) m else 0)"

text \<open>
  The loop counts the processors of the table up to \<open>NCPU\<close>; the boot processor stays inside the array unless a processor
  beyond the last one is marked as the boot processor.
\<close>

lemma mp_entries_ncpu:
  "ncpu s \<le> NCPU \<Longrightarrow> ncpu (mp_entries n p m s) = min NCPU (ncpu s + processors n p m) \<and>
     length (cpus (mp_entries n p m s)) = length (cpus s)"
  by (induction n arbitrary: p s) (auto simp: Let_def)

lemma mp_entries_bootcpu:
  "ncpu s \<le> NCPU \<Longrightarrow> bootcpu s \<le> ncpu s \<Longrightarrow> bootcpu (mp_entries n p m s) \<le> ncpu (mp_entries n p m s)"
  by (induction n arbitrary: p s) (auto simp: Let_def)

lemma mp_entries_bootcpu_outside:
  assumes "ncpu s = NCPU" and "m p = 0" and "m (p + 3) AND 2 \<noteq> 0"
  shows "bootcpu (mp_entries 1 p m s) = NCPU"
  using assms by simp

end
