(* ===== verification/Devices.thy ===== *)
theory Devices
  imports Trap MpConfig
begin

text \<open>
  The interrupt controllers: the local APIC, \<^verbatim>\<open>kern/lapic.c\<close>, and the 8259A, \<^verbatim>\<open>kern/picirq.c\<close>.  Both are logs of the
  values that the kernel writes to their registers; what the hardware returns (identification, version, and the answers to
  successive reads of the delivery status) are fields of the state.  Waiting for a status bit that no answer clears does
  not end.
\<close>

definition IRQ_SLAVE :: nat where "IRQ_SLAVE = 2"

section \<open>The local APIC\<close>

datatype apic_reg = ID | VER | TPR | EOI | SVR | ESR | ICRLO | ICRHI | TIMER | PCINT | LINT0 | LINT1 | ERROR | TICR | TDCR

record apic_state =
  lapic :: "u32 option"
  lapic_log :: "(apic_reg \<times> u32) list"
  lapic_id :: u32
  lapic_ver :: u32
  icr_answers :: "u32 list"

definition ENABLE :: u32 where "ENABLE = 0x100"
definition INIT :: u32 where "INIT = 0x500"
definition STARTUP :: u32 where "STARTUP = 0x600"
definition DELIVS :: u32 where "DELIVS = 0x1000"
definition ASSERT :: u32 where "ASSERT = 0x4000"
definition LEVEL :: u32 where "LEVEL = 0x8000"
definition BCAST :: u32 where "BCAST = 0x80000"
definition OTHERS :: u32 where "OTHERS = 0xC0000"
definition FIXED :: u32 where "FIXED = 0"
definition X1 :: u32 where "X1 = 0xB"
definition PERIODIC :: u32 where "PERIODIC = 0x20000"
definition MASKED :: u32 where "MASKED = 0x10000"

definition lapicw :: "apic_reg \<Rightarrow> u32 \<Rightarrow> apic_state \<Rightarrow> 's stop + apic_state" where
  "lapicw r v a = (if lapic a = None then Inl NullDeref else Inr (a\<lparr>lapic_log := lapic_log a @ [(r, v)]\<rparr>))"

fun lapicws :: "(apic_reg \<times> u32) list \<Rightarrow> apic_state \<Rightarrow> 's stop + apic_state" where
  "lapicws [] a = Inr a"
| "lapicws ((r, v) # ws) a = rbind (lapicw r v a) (lapicws ws)"

text \<open>\<open>while (lapic[ICRLO] & DELIVS)\<close>\<close>

fun wait_answers :: "u32 list \<Rightarrow> 's stop + u32 list" where
  "wait_answers [] = Inl Diverge"
| "wait_answers (x # xs) = (if x AND DELIVS \<noteq> 0 then wait_answers xs else Inr xs)"

definition wait_delivered :: "apic_state \<Rightarrow> 's stop + apic_state" where
  "wait_delivered a = rbind (wait_answers (icr_answers a)) (\<lambda>xs. Inr (a\<lparr>icr_answers := xs\<rparr>))"

definition lapic_init :: "mp_state \<Rightarrow> kstate \<times> apic_state \<Rightarrow> kstate stop + (kstate \<times> apic_state)" where
  "lapic_init mp x =
     (let (s, a) = x in
      if lapicaddr mp = 0 then Inr (s, a)
      else
        rbind (mmio_map_region (lapicaddr mp) 4096 s) (\<lambda>(va, s).
        let a = a\<lparr>lapic := (if va = 0 then None else Some va)\<rparr> in
        rbind (lapicws [(SVR, ENABLE OR (IRQ_OFFSET + 7)), (TDCR, X1), (TIMER, PERIODIC OR IRQ_OFFSET), (TICR, 10000000)] a) (\<lambda>a.
        rbind (if unat (drop_bit 24 (lapic_id a)) \<noteq> bootcpu mp then lapicw LINT0 MASKED a else Inr a) (\<lambda>a.
        rbind (lapicw LINT1 MASKED a) (\<lambda>a.
        rbind (if 4 \<le> drop_bit 16 (lapic_ver a) AND 0xFF then lapicw PCINT MASKED a else Inr a) (\<lambda>a.
        rbind (lapicws [(ERROR, IRQ_OFFSET + 19), (ESR, 0), (ESR, 0), (EOI, 0), (ICRHI, 0), (ICRLO, BCAST OR INIT OR LEVEL)] a) (\<lambda>a.
        rbind (wait_delivered a) (\<lambda>a.
        rbind (lapicw TPR 0 a) (\<lambda>a. Inr (s, a))))))))))"

definition apic_cpunum :: "apic_state \<Rightarrow> u32" where
  "apic_cpunum a = (if lapic a \<noteq> None then drop_bit 24 (lapic_id a) else 0)"

definition lapic_eoi :: "apic_state \<Rightarrow> 's stop + apic_state" where
  "lapic_eoi a = (if lapic a \<noteq> None then lapicw EOI 0 a else Inr a)"

text \<open>The warm reset vector is at the physical address \<open>0x40 << 4 | 0x67\<close>; the clock chip gets the shutdown code.\<close>

definition lapic_startap ::
  "nat \<Rightarrow> u8 \<Rightarrow> u32 \<Rightarrow> bytes \<times> (u8 \<Rightarrow> u8) \<times> apic_state \<Rightarrow> 's stop + (bytes \<times> (u8 \<Rightarrow> u8) \<times> apic_state)" where
  "lapic_startap np apicid addr x =
     (let (m, cmos, a) = x; cmos = mc146818_write 0xF 0x0A cmos in
      rbind (kaddr np (push_bit 4 0x40 OR 0x67)) (\<lambda>wrv.
      let m = m(wrv := 0, wrv + 1 := 0);
          m = m(wrv + 2 := ucast (drop_bit 4 addr), wrv + 3 := ucast (drop_bit 12 addr));
          dest = push_bit 24 (ucast apicid);
          startup = STARTUP OR drop_bit 12 addr in
      rbind (lapicws [(ICRHI, dest), (ICRLO, INIT OR LEVEL OR ASSERT), (ICRLO, INIT OR LEVEL),
                      (ICRHI, dest), (ICRLO, startup), (ICRHI, dest), (ICRLO, startup)] a) (\<lambda>a.
      Inr (m, cmos, a))))"

definition lapic_ipi :: "u32 \<Rightarrow> apic_state \<Rightarrow> 's stop + apic_state" where
  "lapic_ipi vector a = rbind (lapicw ICRLO (OTHERS OR FIXED OR vector) a) wait_delivered"

section \<open>The 8259A\<close>

record pic_state =
  irq_mask_8259A :: u16
  didinit :: bool
  pic_log :: "(u16 \<times> u8) list"

definition IO_PIC1 :: u16 where "IO_PIC1 = 0x20"
definition IO_PIC2 :: u16 where "IO_PIC2 = 0xA0"

definition outs :: "(u16 \<times> u8) list \<Rightarrow> pic_state \<Rightarrow> pic_state" where
  "outs ws p = p\<lparr>pic_log := pic_log p @ ws\<rparr>"

definition irq_setmask_8259A :: "u16 \<Rightarrow> pic_state \<Rightarrow> pic_state" where
  "irq_setmask_8259A msk p =
     (let p = p\<lparr>irq_mask_8259A := msk\<rparr> in
      if \<not> didinit p then p
      else outs [(IO_PIC1 + 1, ucast msk), (IO_PIC2 + 1, ucast (drop_bit 8 msk))] p)"

definition pic_init :: "pic_state \<Rightarrow> pic_state" where
  "pic_init p =
     (let p = p\<lparr>didinit := True\<rparr>;
          p = outs [(IO_PIC1 + 1, 0xFF), (IO_PIC2 + 1, 0xFF),
                    (IO_PIC1, 0x11), (IO_PIC1 + 1, ucast IRQ_OFFSET), (IO_PIC1 + 1, push_bit IRQ_SLAVE 1), (IO_PIC1 + 1, 0x3),
                    (IO_PIC2, 0x11), (IO_PIC2 + 1, ucast (IRQ_OFFSET + 8)), (IO_PIC2 + 1, of_nat IRQ_SLAVE), (IO_PIC2 + 1, 0x01),
                    (IO_PIC1, 0x68), (IO_PIC1, 0x0A), (IO_PIC2, 0x68), (IO_PIC2, 0x0A)] p in
      if irq_mask_8259A p \<noteq> 0xFFFF then irq_setmask_8259A (irq_mask_8259A p) p else p)"

text \<open>
  The chip: an initialization word on the command port starts a sequence of three words on the data port; afterwards a
  word on the data port is the mask.  \<open>pic_run\<close> gives the words of the sequence and the mask after a log.
\<close>

fun pic_run :: "u16 \<Rightarrow> nat \<Rightarrow> u8 list \<Rightarrow> u8 \<Rightarrow> (u16 \<times> u8) list \<Rightarrow> u8 list \<times> u8" where
  "pic_run port k icws msk [] = (icws, msk)"
| "pic_run port k icws msk ((p, v) # ws) =
     (if p = port then
        if bit v 4 then pic_run port 3 [] msk ws else pic_run port k icws msk ws
      else if p = port + 1 then
        case k of 0 \<Rightarrow> pic_run port 0 icws v ws | Suc k \<Rightarrow> pic_run port k (icws @ [v]) msk ws
      else pic_run port k icws msk ws)"

text \<open>
  After \<open>pic_init\<close> the master delivers its interrupts from vector 32 on and the slave from vector 40 on, and the
  interrupts that are not in the mask of the kernel are the enabled ones.
\<close>

lemma pic_init_programs:
  assumes "pic_log p = []" and "irq_mask_8259A p \<noteq> 0xFFFF"
  shows "pic_run IO_PIC1 0 [] 0 (pic_log (pic_init p)) = ([32, 4, 3], ucast (irq_mask_8259A p)) \<and>
    pic_run IO_PIC2 0 [] 0 (pic_log (pic_init p)) = ([40, 2, 1], ucast (drop_bit 8 (irq_mask_8259A p)))"
  using assms
  by (simp add: pic_init_def irq_setmask_8259A_def outs_def Let_def IO_PIC1_def IO_PIC2_def IRQ_SLAVE_def numeral_3_eq_3)

end
