(* ===== verification/ConsoleInit.thy ===== *)
theory ConsoleInit
  imports Printing Devices
begin

text \<open>
  The rest of \<^verbatim>\<open>kern/console.c\<close>: finding the display, emptying the keyboard, programming the serial port, and the
  waiting loops in front of the two output ports.  What the hardware answers is the record \<open>console_hw\<close>: the cells of the
  two kinds of display, what the first cell of the colour display reads after a write, the cursor registers, the line
  status of the serial port.  Successive polls of a port's status are a function from the number of the poll.
\<close>

section \<open>Ports\<close>

definition COM1 :: u16 where "COM1 = 0x3F8"
definition COM_TX :: u16 where "COM_TX = 0"
definition COM_DLL :: u16 where "COM_DLL = 0"
definition COM_DLM :: u16 where "COM_DLM = 1"
definition COM_IER :: u16 where "COM_IER = 1"
definition COM_IER_RDI :: u8 where "COM_IER_RDI = 0x01"
definition COM_FCR :: u16 where "COM_FCR = 2"
definition COM_LCR :: u16 where "COM_LCR = 3"
definition COM_LCR_DLAB :: u8 where "COM_LCR_DLAB = 0x80"
definition COM_LCR_WLEN8 :: u8 where "COM_LCR_WLEN8 = 0x03"
definition COM_MCR :: u16 where "COM_MCR = 4"
definition COM_LSR_TXRDY :: u8 where "COM_LSR_TXRDY = 0x20"
definition MONO_BASE :: u16 where "MONO_BASE = 0x3B4"
definition CGA_BASE :: u16 where "CGA_BASE = 0x3D4"

record console_hw =
  cga_cells :: "u16 list"
  mono_cells :: "u16 list"
  cga_reads :: "u16 \<Rightarrow> u16"
  cursor_reg :: "u16 \<Rightarrow> u8 \<Rightarrow> u8"
  com_lsr :: u8

text \<open>\<open>for (i = 0; !(inb(port) & ready) && i < 12800; i++) delay();\<close> with the number of rounds as result.\<close>

fun putc_wait :: "nat \<Rightarrow> nat \<Rightarrow> u8 \<Rightarrow> (nat \<Rightarrow> u8) \<Rightarrow> nat" where
  "putc_wait 0 i ready st = i"
| "putc_wait (Suc n) i ready st = (if st i AND ready = 0 then putc_wait n (Suc i) ready st else i)"

definition serial_putc :: "(nat \<Rightarrow> u8) \<Rightarrow> u32 \<Rightarrow> cons_state \<Rightarrow> nat \<times> cons_state" where
  "serial_putc st c s = (putc_wait 12800 0 COM_LSR_TXRDY st, s\<lparr>serial_out := serial_out s @ [ucast c]\<rparr>)"

definition lpt_putc :: "(nat \<Rightarrow> u8) \<Rightarrow> u32 \<Rightarrow> cons_state \<Rightarrow> nat \<times> cons_state" where
  "lpt_putc st c s = (putc_wait 12800 0 0x80 st, s\<lparr>lpt_out := lpt_out s @ [ucast c]\<rparr>)"

section \<open>Initialisation\<close>

text \<open>The result is \<open>addr_6845\<close>.\<close>

definition cga_init :: "console_hw \<Rightarrow> cons_state \<Rightarrow> 's stop + (u16 \<times> cons_state)" where
  "cga_init hw s =
     (if cga_cells hw = [] then Inl OutOfBounds
      else
        let was = cga_cells hw ! 0;
            cp = (cga_cells hw)[0 := 0xA55A];
            (addr_6845, cp) =
              (if cga_reads hw 0xA55A \<noteq> 0xA55A then (MONO_BASE, mono_cells hw) else (CGA_BASE, cp[0 := was]));
            pos = push_bit 8 (ucast (cursor_reg hw addr_6845 14) :: u32);
            pos = pos OR ucast (cursor_reg hw addr_6845 15) in
        Inr (addr_6845, s\<lparr>crt_buf := cp, crt_pos := unat (ucast pos :: u16)\<rparr>))"

definition kbd_init :: "cons_state \<times> pic_state \<Rightarrow> 's stop + (cons_state \<times> pic_state)" where
  "kbd_init x =
     (let (s, p) = x in
      rbind (kbd_intr s) (\<lambda>s. Inr (s, irq_setmask_8259A (irq_mask_8259A p AND NOT (push_bit 1 1)) p)))"

text \<open>The writes to the ports are the first result; reading the receive buffer takes a byte that is there.\<close>

definition serial_init :: "console_hw \<Rightarrow> cons_state \<Rightarrow> (u16 \<times> u8) list \<times> cons_state" where
  "serial_init hw s =
     ([(COM1 + COM_FCR, 0), (COM1 + COM_LCR, COM_LCR_DLAB), (COM1 + COM_DLL, 115200 div 9600), (COM1 + COM_DLM, 0),
       (COM1 + COM_LCR, COM_LCR_WLEN8 AND NOT COM_LCR_DLAB), (COM1 + COM_MCR, 0), (COM1 + COM_IER, COM_IER_RDI)],
      s\<lparr>serial_exists := com_lsr hw \<noteq> 0xFF, serial_in := drop 1 (serial_in s)\<rparr>)"

definition cons_init ::
  "console_hw \<Rightarrow> cons_state \<times> pic_state \<times> kstate \<Rightarrow> kstate stop + (cons_state \<times> pic_state \<times> kstate)" where
  "cons_init hw x =
     (let (c, p, s) = x in
      rbind (cga_init hw c) (\<lambda>(_, c).
      rbind (kbd_init (c, p)) (\<lambda>(c, p).
      let (_, c) = serial_init hw c in
      if \<not> serial_exists c then
        rbind (cprintf 100 (\<lambda>_. 0) (Lit ''Serial port does not exist!\<newline>'' 0) [] (c, s)) (\<lambda>(_, c, s). Inr (c, p, s))
      else Inr (c, p, s))))"

section \<open>Waiting is bounded and does not change the output\<close>

lemma putc_wait_bound: "putc_wait n i ready st \<le> i + n"
proof (induction n arbitrary: i)
  case 0
  then show ?case by simp
next
  case (Suc n)
  then show ?case using Suc [of "Suc i"] by simp
qed

lemma ports_putc:
  "snd (lpt_putc st' c (snd (serial_putc st c s))) = port_putc c s"
  by (simp add: lpt_putc_def serial_putc_def port_putc_def)

section \<open>Input interrupts end\<close>

lemma kbd_proc_data_Some:
  assumes "kbd_proc_data s = (r, s')"
  shows "cbuf s' = cbuf s" "rpos s' = rpos s" "wpos s' = wpos s" "serial_in s' = serial_in s"
    "crt_buf s' = crt_buf s" "crt_pos s' = crt_pos s"
    "r = None \<longleftrightarrow> kbd_in s = []" "kbd_in s' = drop 1 (kbd_in s)"
  using assms by (auto simp: kbd_proc_data_def Let_def split: list.splits if_splits)

lemma cons_put_always:
  assumes "cons_ok s"
  shows "\<exists>s'. (cons_put c s :: 's stop + _) = Inr s' \<and> cons_ok s' \<and> kbd_in s' = kbd_in s \<and> serial_in s' = serial_in s \<and>
    crt_buf s' = crt_buf s \<and> crt_pos s' = crt_pos s"
  using assms by (auto simp: cons_put_def cons_ok_def Let_def)

lemma kbd_loop_ends:
  assumes "cons_ok s" and "length (kbd_in s) < n"
  shows "\<exists>s'. (cons_intr_loop n kbd_proc_data s :: 's stop + _) = Inr s' \<and> cons_ok s' \<and> kbd_in s' = [] \<and>
    serial_in s' = serial_in s \<and> crt_buf s' = crt_buf s \<and> crt_pos s' = crt_pos s"
  using assms
proof (induction n arbitrary: s)
  case 0
  then show ?case by simp
next
  case (Suc n)
  obtain r t where p: "kbd_proc_data s = (r, t)" by fastforce
  note t = kbd_proc_data_Some [OF p]
  have ok: "cons_ok t" using Suc.prems(1) t by (simp add: cons_ok_def)
  show ?case
  proof (cases r)
    case None
    then show ?thesis using p t ok by simp
  next
    case (Some c)
    then have "length (kbd_in t) < n" using t Suc.prems(2) by (cases "kbd_in s") auto
    moreover obtain u where u: "(cons_put c t :: 's stop + _) = Inr u" "cons_ok u" "kbd_in u = kbd_in t"
      "serial_in u = serial_in t" "crt_buf u = crt_buf t" "crt_pos u = crt_pos t"
      using cons_put_always [OF ok] by blast
    ultimately show ?thesis using Suc.IH [OF ok] Suc.IH [OF u(2)] p Some t by auto
  qed
qed

lemma kbd_intr_ends:
  assumes "cons_ok s"
  shows "\<exists>s'. (kbd_intr s :: 's stop + _) = Inr s' \<and> cons_ok s' \<and> kbd_in s' = [] \<and> serial_in s' = serial_in s \<and>
    crt_buf s' = crt_buf s \<and> crt_pos s' = crt_pos s"
  unfolding kbd_intr_def cons_intr_def by (rule kbd_loop_ends [OF assms]) simp

section \<open>The console after initialisation\<close>

text \<open>
  The position of the cursor is taken from the display as it is: only a cursor that the firmware left inside the 2000
  cells makes the display usable.
\<close>

definition selected_base :: "console_hw \<Rightarrow> u16" where
  "selected_base hw = (if cga_reads hw 0xA55A \<noteq> 0xA55A then MONO_BASE else CGA_BASE)"

definition selected_cells :: "console_hw \<Rightarrow> u16 list" where
  "selected_cells hw = (if cga_reads hw 0xA55A \<noteq> 0xA55A then mono_cells hw else cga_cells hw)"

definition cursor_pos :: "console_hw \<Rightarrow> nat" where
  "cursor_pos hw = 256 * unat (cursor_reg hw (selected_base hw) 14) + unat (cursor_reg hw (selected_base hw) 15)"

lemma cursor_word: "unat (ucast (push_bit 8 (ucast (h :: u8)) OR ucast (l :: u8) :: u32) :: u16) = 256 * unat h + unat l"
proof -
  have "(push_bit 8 (ucast h) OR ucast l :: u32) = push_bit 8 (ucast h) + ucast l"
    by (rule disjunctive_add [symmetric]) (auto simp: bit_push_bit_iff bit_ucast_iff dest: bit_imp_le_length)
  also have "\<dots> = of_nat (256 * unat h + unat l)" by (simp add: push_bit_eq_mult)
  finally have e: "(push_bit 8 (ucast h) OR ucast l :: u32) = of_nat (256 * unat h + unat l)" .
  have "256 * unat h + unat l < 65536" using unsigned_less [of h, where 'a = nat] unsigned_less [of l, where 'a = nat] by simp
  moreover have "unat (ucast (of_nat n :: u32) :: u16) = n" if "n < 65536" for n
    using that by (simp add: unsigned_ucast_eq unat_of_nat take_bit_eq_mod)
  ultimately show ?thesis unfolding e by blast
qed

lemma cga_init_ok:
  assumes "cga_cells hw \<noteq> []"
  shows "(cga_init hw s :: 's stop + _) =
    Inr (selected_base hw, s\<lparr>crt_buf := selected_cells hw, crt_pos := cursor_pos hw\<rparr>)"
  using assms
  by (simp add: cga_init_def Let_def selected_base_def selected_cells_def cursor_pos_def cursor_word)

lemma cons_init_ok:
  assumes "cons_ok c" and "com_lsr hw \<noteq> 0xFF" and "cga_cells hw \<noteq> []"
    and "length (selected_cells hw) = CRT_SIZE" and "cursor_pos hw < CRT_SIZE"
  shows "\<exists>c' p'. cons_init hw (c, p, s) = Inr (c', p', s) \<and> cons_ok c' \<and> crt_ok c' \<and> kbd_in c' = [] \<and> serial_exists c' \<and>
    crt_buf c' = selected_cells hw \<and> irq_mask_8259A p' = irq_mask_8259A p AND NOT 2"
proof -
  let ?c = "c\<lparr>crt_buf := selected_cells hw, crt_pos := cursor_pos hw\<rparr>"
  have "cons_ok ?c" using assms(1) by (simp add: cons_ok_def)
  then obtain d where d: "(kbd_intr ?c :: kstate stop + _) = Inr d" "cons_ok d" "kbd_in d = []"
    "crt_buf d = selected_cells hw" "crt_pos d = cursor_pos hw"
    using kbd_intr_ends [of ?c] by auto
  then show ?thesis using assms(2-5) cga_init_ok [OF assms(3), of c, where 's = kstate]
    by (simp add: cons_init_def kbd_init_def serial_init_def Let_def cons_ok_def crt_ok_def irq_setmask_8259A_def outs_def)
qed

text \<open>A cursor beyond the display makes the first character that is printed a write outside the buffer.\<close>

lemma cga_putc_wild_cursor:
  assumes "cga_cells hw \<noteq> []" and "length (selected_cells hw) = CRT_SIZE" and "CRT_SIZE \<le> cursor_pos hw"
  shows "\<exists>c'. (cga_init hw c :: 's stop + _) = Inr (selected_base hw, c') \<and> (cons_putc 65 c' :: 's stop + _) = Inl OutOfBounds"
  unfolding cga_init_ok [OF assms(1)] using assms(2,3)
  by (simp add: cons_putc_def cga_putc_def cga_plain_def port_putc_def Let_def)

end
