(* ===== verification/Segments.thy ===== *)
theory Segments
  imports Trap BootMem
begin

text \<open>
  Segments and the per-processor part of start-up: the descriptors of \<^verbatim>\<open>inc/mmu.h\<close>, the table \<open>gdt\<close> and
  \<open>env_init_percpu\<close> of \<^verbatim>\<open>kern/env.c\<close>, \<open>trap_init_percpu\<close> of \<^verbatim>\<open>kern/trap.c\<close>.  Bit fields are words of their width.  Loading
  the task register marks the descriptor as busy, and loading a descriptor that is not an available task segment faults;
  at this point a fault stops the machine.
\<close>

record segdesc =
  sd_lim_15_0 :: "16 word"
  sd_base_15_0 :: "16 word"
  sd_base_23_16 :: "8 word"
  sd_type :: "4 word"
  sd_s :: "1 word"
  sd_dpl :: "2 word"
  sd_p :: "1 word"
  sd_lim_19_16 :: "4 word"
  sd_avl :: "1 word"
  sd_rsv1 :: "1 word"
  sd_db :: "1 word"
  sd_g :: "1 word"
  sd_base_31_24 :: "8 word"

definition SEG_NULL :: segdesc where
  "SEG_NULL = \<lparr>sd_lim_15_0 = 0, sd_base_15_0 = 0, sd_base_23_16 = 0, sd_type = 0, sd_s = 0, sd_dpl = 0, sd_p = 0,
     sd_lim_19_16 = 0, sd_avl = 0, sd_rsv1 = 0, sd_db = 0, sd_g = 0, sd_base_31_24 = 0\<rparr>"

definition SEG :: "4 word \<Rightarrow> u32 \<Rightarrow> u32 \<Rightarrow> 2 word \<Rightarrow> segdesc" where
  "SEG ty base lim dpl =
     \<lparr>sd_lim_15_0 = ucast (drop_bit 12 lim AND 0xffff), sd_base_15_0 = ucast (base AND 0xffff),
      sd_base_23_16 = ucast (drop_bit 16 base AND 0xff), sd_type = ty, sd_s = 1, sd_dpl = dpl, sd_p = 1,
      sd_lim_19_16 = ucast (drop_bit 28 lim), sd_avl = 0, sd_rsv1 = 0, sd_db = 1, sd_g = 1,
      sd_base_31_24 = ucast (drop_bit 24 base)\<rparr>"

definition SEG16 :: "4 word \<Rightarrow> u32 \<Rightarrow> u32 \<Rightarrow> 2 word \<Rightarrow> segdesc" where
  "SEG16 ty base lim dpl =
     \<lparr>sd_lim_15_0 = ucast (lim AND 0xffff), sd_base_15_0 = ucast (base AND 0xffff),
      sd_base_23_16 = ucast (drop_bit 16 base AND 0xff), sd_type = ty, sd_s = 1, sd_dpl = dpl, sd_p = 1,
      sd_lim_19_16 = ucast (drop_bit 16 lim), sd_avl = 0, sd_rsv1 = 0, sd_db = 1, sd_g = 0,
      sd_base_31_24 = ucast (drop_bit 24 base)\<rparr>"

definition STA_X :: "4 word" where "STA_X = 0x8"
definition STA_W :: "4 word" where "STA_W = 0x2"
definition STA_R :: "4 word" where "STA_R = 0x2"
definition STS_T32A :: "4 word" where "STS_T32A = 0x9"
definition STS_T32B :: "4 word" where "STS_T32B = 0xB"
definition GD_TSS0 :: u16 where "GD_TSS0 = 0x28"

definition initial_gdt :: "segdesc list" where
  "initial_gdt = (replicate (NCPU + 5) SEG_NULL)
     [1 := SEG (STA_X OR STA_R) 0 0xffffffff 0,
      2 := SEG STA_W 0 0xffffffff 0,
      3 := SEG (STA_X OR STA_R) 0 0xffffffff 3,
      4 := SEG STA_W 0 0xffffffff 3]"

record taskstate =
  ts_link :: u32
  ts_esp0 :: u32
  ts_ss0 :: u16
  ts_padding1 :: u16
  ts_esp1 :: u32
  ts_ss1 :: u16
  ts_padding2 :: u16
  ts_esp2 :: u32
  ts_ss2 :: u16
  ts_padding3 :: u16
  ts_cr3 :: u32
  ts_eip :: u32
  ts_eflags :: u32
  ts_eax :: u32
  ts_ecx :: u32
  ts_edx :: u32
  ts_ebx :: u32
  ts_esp :: u32
  ts_ebp :: u32
  ts_esi :: u32
  ts_edi :: u32
  ts_es :: u16
  ts_padding4 :: u16
  ts_cs :: u16
  ts_padding5 :: u16
  ts_ss :: u16
  ts_padding6 :: u16
  ts_ds :: u16
  ts_padding7 :: u16
  ts_fs :: u16
  ts_padding8 :: u16
  ts_gs :: u16
  ts_padding9 :: u16
  ts_ldt :: u16
  ts_padding10 :: u16
  ts_t :: u16
  ts_iomb :: u16

record seg_state =
  gdt :: "segdesc list"
  cpu_ts :: "nat \<Rightarrow> taskstate"
  reg_gs :: u16
  reg_fs :: u16
  reg_es :: u16
  reg_ds :: u16
  reg_ss :: u16
  reg_cs :: u16
  reg_ldt :: u16
  reg_tr :: u16
  gdt_loaded :: bool
  idt_loaded :: bool

definition env_init_percpu :: "seg_state \<Rightarrow> seg_state" where
  "env_init_percpu s =
     s\<lparr>gdt_loaded := True, reg_gs := GD_UD OR 3, reg_fs := GD_UD OR 3, reg_es := GD_KD, reg_ds := GD_KD, reg_ss := GD_KD,
       reg_cs := GD_KT, reg_ldt := 0\<rparr>"

definition ltr :: "u16 \<Rightarrow> seg_state \<Rightarrow> seg_state stop + seg_state" where
  "ltr sel s =
     (let i = unat (drop_bit 3 sel) in
      if length (gdt s) \<le> i \<or> sd_type (gdt s ! i) \<noteq> STS_T32A then Inl (Halted s)
      else Inr (s\<lparr>gdt := (gdt s)[i := (gdt s ! i)\<lparr>sd_type := STS_T32B\<rparr>], reg_tr := sel\<rparr>))"

text \<open>A task state has 104 bytes; \<open>ts_addr i\<close> is the address of the one of processor \<open>i\<close>.\<close>

definition trap_init_percpu :: "(nat \<Rightarrow> u32) \<Rightarrow> nat \<Rightarrow> u8 \<Rightarrow> seg_state \<Rightarrow> seg_state stop + seg_state" where
  "trap_init_percpu ts_addr thiscpu cpu_id s =
     (let cpun = unat cpu_id;
          slot = unat (drop_bit 3 GD_TSS0) + cpun;
          s = s\<lparr>cpu_ts := (cpu_ts s)(thiscpu := (cpu_ts s thiscpu)\<lparr>ts_esp0 := KSTACKTOP - of_nat cpun * (KSTKGAP + KSTKSIZE), ts_ss0 := GD_KD\<rparr>)\<rparr> in
      if length (gdt s) \<le> slot then Inl OutOfBounds
      else
        let s = s\<lparr>gdt := (gdt s)[slot := (SEG16 STS_T32A (ts_addr thiscpu) 104 0)\<lparr>sd_s := 0\<rparr>]\<rparr> in
        rbind (ltr (GD_TSS0 + of_nat (8 * cpun)) s) (\<lambda>s. Inr (s\<lparr>idt_loaded := True\<rparr>)))"

section \<open>Descriptors\<close>

definition seg_base :: "segdesc \<Rightarrow> u32" where
  "seg_base d = ucast (sd_base_15_0 d) OR push_bit 16 (ucast (sd_base_23_16 d)) OR push_bit 24 (ucast (sd_base_31_24 d))"

text \<open>The limit the processor computes, in bytes.\<close>

definition seg_limit :: "segdesc \<Rightarrow> u32" where
  "seg_limit d =
     (let l = ucast (sd_lim_15_0 d) OR push_bit 16 (ucast (sd_lim_19_16 d)) in
      if sd_g d = 1 then push_bit 12 l OR 0xfff else l)"

lemma low16: "(x AND 0xffff :: u32) = take_bit 16 x"
  by (simp add: take_bit_eq_mask mask_eq_exp_minus_1)

lemma low8: "(x AND 0xff :: u32) = take_bit 8 x"
  by (simp add: take_bit_eq_mask mask_eq_exp_minus_1)

lemma base_parts:
  "ucast (ucast (take_bit 16 (b :: u32)) :: u16) OR push_bit 16 (ucast (ucast (take_bit 8 (drop_bit 16 b)) :: u8)) OR
   push_bit 24 (ucast (ucast (drop_bit 24 b) :: u8)) = b"
proof (rule bit_word_eqI)
  fix n assume "n < LENGTH(32)"
  then consider "n < 16" | "16 \<le> n" "n < 24" | "24 \<le> n" "n < 32" by fastforce
  thus "bit (ucast (ucast (take_bit 16 b) :: u16) OR push_bit 16 (ucast (ucast (take_bit 8 (drop_bit 16 b)) :: u8)) OR
    push_bit 24 (ucast (ucast (drop_bit 24 b) :: u8)) :: u32) n = bit b n"
    by cases (auto simp: bit_or_iff bit_push_bit_iff bit_ucast_iff bit_take_bit_iff bit_drop_bit_eq)
qed

lemma seg_base_SEG:
  "seg_base (SEG ty base lim dpl) = base" "seg_base (SEG16 ty base lim dpl) = base"
  unfolding seg_base_def SEG_def SEG16_def segdesc.simps low16 low8 by (rule base_parts)+

lemma seg_limit_flat: "seg_limit (SEG ty base 0xffffffff dpl) = 0xffffffff"
  by (simp add: seg_limit_def SEG_def)

lemma gdt_flat:
  assumes "i \<in> {1, 2, 3, 4}"
  shows "seg_base (initial_gdt ! i) = 0 \<and> seg_limit (initial_gdt ! i) = 0xffffffff"
  using assms by (auto simp: initial_gdt_def seg_base_SEG seg_limit_flat)

section \<open>The processors\<close>

text \<open>
  Processor \<open>i\<close> gets its own task segment, whose base is its task state and whose stack is the one that
  \<open>mem_init_mp\<close> has mapped for it; the descriptors of the other processors stay as they are.
\<close>

text \<open>The top of the stack of processor \<open>i\<close>.\<close>

definition kstack_top :: "nat \<Rightarrow> u32" where
  "kstack_top i = KSTACKTOP - of_nat i * (KSTKGAP + KSTKSIZE)"

lemma tss_selector:
  assumes "cid < (8 :: u8)"
  shows "unat (drop_bit 3 (GD_TSS0 + 8 * ucast cid)) = 5 + unat cid"
proof -
  have "\<forall>i \<in> {0..<8}. unat (drop_bit 3 (GD_TSS0 + 8 * ucast (of_nat i :: u8))) = 5 + i"
    by (simp add: GD_TSS0_def atLeastLessThan_nat_numeral)
  moreover have "unat cid \<in> {0..<8}" using assms by (simp add: word_less_nat_alt)
  ultimately show ?thesis by force
qed

lemma trap_init_percpu_ok:
  assumes "unat cid < NCPU" and "length (gdt s) = NCPU + 5"
  shows "\<exists>s'. trap_init_percpu ts_addr i cid s = Inr s' \<and> length (gdt s') = NCPU + 5 \<and> idt_loaded s' \<and>
    seg_base (gdt s' ! (5 + unat cid)) = ts_addr i \<and> sd_type (gdt s' ! (5 + unat cid)) = STS_T32B \<and>
    ts_esp0 (cpu_ts s' i) = kstack_top (unat cid) \<and> ts_ss0 (cpu_ts s' i) = GD_KD \<and>
    unat (drop_bit 3 (reg_tr s')) = 5 + unat cid \<and> (\<forall>j. j \<noteq> 5 + unat cid \<longrightarrow> gdt s' ! j = gdt s ! j)"
proof -
  have base: "seg_base (d\<lparr>sd_s := a, sd_type := b\<rparr>) = seg_base d" "seg_base (d\<lparr>sd_type := b, sd_s := a\<rparr>) = seg_base d" for d a b
    by (simp_all add: seg_base_def)
  have ty: "sd_type (SEG16 ty a l d) = ty" for ty a l d by (simp add: SEG16_def)
  have "unat (drop_bit 3 (GD_TSS0 + 8 * ucast cid)) = 5 + unat cid" 
    using assms(1) by (intro tss_selector) (simp add: word_less_nat_alt)
  moreover have "drop_bit 3 GD_TSS0 = 5" by (simp add: GD_TSS0_def)
  ultimately show ?thesis using assms by (simp add: trap_init_percpu_def ltr_def Let_def seg_base_SEG base ty kstack_top_def)
qed

text \<open>The stacks of two processors are disjoint, with a gap between them, and lie below \<open>KERNBASE\<close>.\<close>

lemma kstack_top_unat:
  assumes "i < NCPU"
  shows "unat (kstack_top i) = unat KSTACKTOP - i * 65536"
proof -
  have "\<forall>i \<in> {0..<8}. unat (kstack_top i) = unat KSTACKTOP - i * 65536"
    by (simp add: kstack_top_def KSTACKTOP_def KERNBASE_def KSTKGAP_def KSTKSIZE_def atLeastLessThan_nat_numeral)
  thus ?thesis using assms by simp
qed

text \<open>\<open>mem_init_mp\<close> maps the stack below the top that \<open>trap_init_percpu\<close> tells the processor.\<close>

lemma mem_init_mp_loop_top:
  "mem_init_mp_loop (Suc n) i (kstack_top i) kstacks s =
     rbind (PADDR (kstacks + of_nat i * KSTKSIZE)) (\<lambda>pa.
     rbind (boot_map_region (Some (kern_pgdir s)) (kstack_top i - KSTKSIZE) KSTKSIZE pa PTE_W s) (\<lambda>(_, s).
     mem_init_mp_loop n (Suc i) (kstack_top (Suc i)) kstacks s))"
  by (simp add: kstack_top_def algebra_simps)

lemma kstacks_apart:
  assumes "i < j" and "j < NCPU"
  shows "unat (kstack_top j) + unat KSTKGAP \<le> unat (kstack_top i) - unat KSTKSIZE"
proof -
  have "524288 \<le> unat KSTACKTOP" by (simp add: KSTACKTOP_def KERNBASE_def)
  thus ?thesis using assms by (auto simp: kstack_top_unat KSTKGAP_def KSTKSIZE_def)
qed

end
