(* ===== verification/Startup.thy ===== *)
theory Startup
  imports SelfTests ConsoleInit Segments
begin

text \<open>
  The start of the kernel, \<^verbatim>\<open>kern/init.c\<close>: \<open>i386_init\<close> on the boot processor, \<open>boot_aps\<close>, which starts the other processors
  one after the other, and \<open>mp_main\<close>, which each of them runs.  The state has the parts of the components that take part.
  Each processor has a local APIC and segment registers of its own; the pointer \<open>lapic\<close>, the table \<open>gdt\<close> and the task
  states are shared.  \<open>bs_mem\<close> are the bytes that the firmware has left, and the entry code.

  \<open>boot_aps\<close> waits for each processor until it has set its status, and a processor that has done so waits for the lock
  of the environments, which the boot processor holds until \<open>sched_yield\<close>.  Therefore the first part of \<open>mp_main\<close>, up to
  the change of the status, happens during the wait of \<open>boot_aps\<close>, and nothing of the second part before the boot
  processor leaves the kernel.  A processor that does not answer makes \<open>boot_aps\<close> wait forever.

  The variables of the kernel are zero at the start, so the \<open>memset\<close> with which \<open>i386_init\<close> begins is left out.
\<close>

record boot_state =
  bs_k :: kstate
  bs_pic :: pic_state
  bs_mp :: mp_state
  bs_lapic :: "u32 option"
  bs_apic :: "nat \<Rightarrow> apic_state"
  bs_gdt :: "segdesc list"
  bs_ts :: "nat \<Rightarrow> taskstate"
  bs_seg :: "nat \<Rightarrow> seg_state"
  bs_idt :: "nat \<Rightarrow> gatedesc"
  bs_mem :: bytes
  bs_cmos :: "u8 \<Rightarrow> u8"
  mpentry_kstack :: u32

section \<open>Operations of the components on this state\<close>

definition on_k :: "(kstate \<Rightarrow> (kstate, 'a) kres) \<Rightarrow> boot_state \<Rightarrow> (boot_state, 'a) kres" where
  "on_k f st =
     (case f (bs_k st) of
        Inl e \<Rightarrow> Inl (map_stop (\<lambda>k. st\<lparr>bs_k := k\<rparr>) e)
      | Inr (r, k) \<Rightarrow> Inr (r, st\<lparr>bs_k := k\<rparr>))"

definition on_seg :: "nat \<Rightarrow> (seg_state \<Rightarrow> seg_state stop + seg_state) \<Rightarrow> boot_state \<Rightarrow> boot_state stop + boot_state" where
  "on_seg i f st =
     (let put = (\<lambda>g. st\<lparr>bs_gdt := gdt g, bs_ts := cpu_ts g, bs_seg := (bs_seg st)(i := g)\<rparr>) in
      case f ((bs_seg st i)\<lparr>gdt := bs_gdt st, cpu_ts := bs_ts st\<rparr>) of
        Inl e \<Rightarrow> Inl (map_stop put e)
      | Inr g \<Rightarrow> Inr (put g))"

definition init_lapic :: "nat \<Rightarrow> boot_state \<Rightarrow> boot_state stop + boot_state" where
  "init_lapic i st =
     (case lapic_init (bs_mp st) (bs_k st, (bs_apic st i)\<lparr>lapic := bs_lapic st\<rparr>) of
        Inl e \<Rightarrow> Inl (map_stop (\<lambda>k. st\<lparr>bs_k := k\<rparr>) e)
      | Inr (k, a) \<Rightarrow> Inr (st\<lparr>bs_k := k, bs_lapic := lapic a, bs_apic := (bs_apic st)(i := a)\<rparr>))"

definition set_status :: "nat \<Rightarrow> cpu_status \<Rightarrow> boot_state \<Rightarrow> boot_state stop + boot_state" where
  "set_status i v st =
     (let mp = bs_mp st in
      if length (cpus mp) \<le> i then Inl OutOfBounds
      else Inr (st\<lparr>bs_mp := mp\<lparr>cpus := (cpus mp)[i := (cpus mp ! i)\<lparr>cpu_status := v\<rparr>]\<rparr>\<rparr>))"

section \<open>The other processors\<close>

text \<open>\<open>cpunum\<close> of the state is the processor that executes; \<open>cr3\<close> belongs to it as well.\<close>

definition mp_main_setup :: "(nat \<Rightarrow> u32) \<Rightarrow> nat \<Rightarrow> boot_state \<Rightarrow> boot_state stop + boot_state" where
  "mp_main_setup ts_addr i st =
     (let boot = bs_k st in
      rbind (on_k (\<lambda>k. lcr3 (kern_pgdir k) (k\<lparr>cpunum := i\<rparr>)) st) (\<lambda>(_, st).
      rbind (init_lapic i st) (\<lambda>st.
      rbind (on_seg i (\<lambda>g. Inr (env_init_percpu g)) st) (\<lambda>st.
      if length (cpus (bs_mp st)) \<le> i then Inl OutOfBounds
      else
        rbind (on_seg i (trap_init_percpu ts_addr i (cpu_id (cpus (bs_mp st) ! i))) st) (\<lambda>st.
        rbind (set_status i CPU_STARTED st) (\<lambda>st.
        Inr (st\<lparr>bs_k := (bs_k st)\<lparr>cpunum := cpunum boot, cr3 := cr3 boot\<rparr>\<rparr>)))))))"

definition mp_main_run :: "nat \<Rightarrow> boot_state \<Rightarrow> (boot_state, unit) kres" where
  "mp_main_run i st =
     on_k (\<lambda>k. rbind (lock ENV_LOCK (k\<lparr>cpunum := i, cr3 := kern_pgdir k\<rparr>)) (\<lambda>(_, k). sched k)) st"

definition mp_main :: "(nat \<Rightarrow> u32) \<Rightarrow> nat \<Rightarrow> boot_state \<Rightarrow> (boot_state, unit) kres" where
  "mp_main ts_addr i st = rbind (mp_main_setup ts_addr i st) (mp_main_run i)"

text \<open>
  One round of \<open>boot_aps\<close> for the processor \<open>c\<close>; \<open>present\<close> tells which processors answer.  The processor that starts is the
  one with the APIC number \<open>cpu_id\<close>.
\<close>

definition start_cpu :: "(nat \<Rightarrow> bool) \<Rightarrow> (nat \<Rightarrow> u32) \<Rightarrow> u32 \<Rightarrow> u32 \<Rightarrow> nat \<Rightarrow> boot_state \<Rightarrow> boot_state stop + boot_state" where
  "start_cpu present ts_addr code kstacks c st =
     (if length (cpus (bs_mp st)) \<le> c then Inl OutOfBounds
      else
        let me = cpunum (bs_k st);
            st = st\<lparr>mpentry_kstack := kstacks + of_nat c * KSTKSIZE + KSTKSIZE\<rparr>;
            apicid = cpu_id (cpus (bs_mp st) ! c) in
        rbind (PADDR code) (\<lambda>pa.
        rbind (lapic_startap (npages (bs_k st)) apicid pa (bs_mem st, bs_cmos st, (bs_apic st me)\<lparr>lapic := bs_lapic st\<rparr>)) (\<lambda>(m, cm, a).
        let st = st\<lparr>bs_mem := m, bs_cmos := cm, bs_apic := (bs_apic st)(me := a)\<rparr> in
        rbind (if present (unat apicid) then mp_main_setup ts_addr (unat apicid) st else Inr st) (\<lambda>st.
        if cpu_status (cpus (bs_mp st) ! c) = CPU_STARTED then Inr st else Inl Diverge))))"

fun boot_aps_loop :: "(nat \<Rightarrow> bool) \<Rightarrow> (nat \<Rightarrow> u32) \<Rightarrow> u32 \<Rightarrow> u32 \<Rightarrow> nat list \<Rightarrow> boot_state \<Rightarrow> boot_state stop + boot_state" where
  "boot_aps_loop present ts_addr code kstacks [] st = Inr st"
| "boot_aps_loop present ts_addr code kstacks (c # cs) st =
     (if c = cpunum (bs_k st) then boot_aps_loop present ts_addr code kstacks cs st
      else rbind (start_cpu present ts_addr code kstacks c st) (boot_aps_loop present ts_addr code kstacks cs))"

text \<open>The entry code lies at \<open>mpentry\<close> and has \<open>len\<close> bytes.\<close>

definition boot_aps :: "(nat \<Rightarrow> bool) \<Rightarrow> (nat \<Rightarrow> u32) \<Rightarrow> u32 \<Rightarrow> u32 \<Rightarrow> u32 \<Rightarrow> boot_state \<Rightarrow> boot_state stop + boot_state" where
  "boot_aps present ts_addr kstacks mpentry len st =
     rbind (kaddr (npages (bs_k st)) MPENTRY_PADDR) (\<lambda>code.
     let st = st\<lparr>bs_mem := snd (memmove code mpentry len (bs_mem st))\<rparr> in
     boot_aps_loop present ts_addr code kstacks [0..<ncpu (bs_mp st)] st)"

section \<open>The boot processor\<close>

text \<open>What the kernel finds in the machine and in its own image.\<close>

record machine =
  m_console :: console_hw
  m_disk1 :: "nat \<Rightarrow> u8"
  m_present :: "nat \<Rightarrow> bool"
  i_ts :: "nat \<Rightarrow> u32"
  i_kstacks :: u32
  i_mpentry :: u32
  i_mpentry_len :: u32
  i_handler :: "nat \<Rightarrow> u32"
  i_ktask :: u32
  i_user_yield :: u32
  i_user_yield_elf :: elf

definition init_devices :: "machine \<Rightarrow> boot_state \<Rightarrow> boot_state stop + boot_state" where
  "init_devices m st =
     rbind (case cons_init (m_console m) (cons (bs_k st), bs_pic st, bs_k st) of
              Inl e \<Rightarrow> Inl (map_stop (\<lambda>k. st\<lparr>bs_k := k\<rparr>) e)
            | Inr (c, p, k) \<Rightarrow> Inr (st\<lparr>bs_k := k\<lparr>cons := c\<rparr>, bs_pic := p\<rparr>)) (\<lambda>st.
     rbind (on_k (mem_init (bs_cmos st) (i_kstacks m)) st) (\<lambda>(_, st).
     let st = st\<lparr>bs_k := env_init (bs_k st)\<rparr> in
     rbind (on_seg 0 (\<lambda>g. Inr (env_init_percpu g)) st) (\<lambda>st.
     let st = st\<lparr>bs_idt := trap_init (i_handler m) (bs_idt st)\<rparr> in
     if cpus (bs_mp st) = [] then Inl OutOfBounds
     else
       rbind (on_seg 0 (trap_init_percpu (i_ts m) 0 (cpu_id (cpus (bs_mp st) ! 0))) st) (\<lambda>st.
       rbind (case mp_init (npages (bs_k st)) (bs_mem st) (bs_mp st) of
                Inl e \<Rightarrow> Inl (map_stop (\<lambda>mp. st\<lparr>bs_mp := mp\<rparr>) e)
              | Inr mp \<Rightarrow> Inr (st\<lparr>bs_mp := mp\<rparr>)) (\<lambda>st.
       rbind (init_lapic (cpunum (bs_k st)) st) (\<lambda>st.
       let st = st\<lparr>bs_pic := pic_init (bs_pic st)\<rparr> in
       rbind (ide_init (m_disk1 m) (ide (bs_k st))) (\<lambda>(_, d).
       Inr (st\<lparr>bs_k := (bs_k st)\<lparr>ide := d\<rparr>\<rparr>))))))))"

fun create_kthreads :: "nat \<Rightarrow> u32 \<Rightarrow> kstate \<Rightarrow> (kstate, unit) kres" where
  "create_kthreads 0 kt s = Inr ((), s)"
| "create_kthreads (Suc n) kt s = rbind (kenv_create kt ENV_TYPE_KERNEL s) (\<lambda>(_, s). create_kthreads n kt s)"

definition init_envs :: "machine \<Rightarrow> kstate \<Rightarrow> (kstate, unit) kres" where
  "init_envs m s =
     rbind (lock PAGEALLOC_LOCK s) (\<lambda>(_, s).
     rbind (create_kthreads NKTHREADS (i_ktask m) s) (\<lambda>(_, s).
     rbind (env_create sched (i_user_yield m) (i_user_yield_elf m) ENV_TYPE_USER s) (\<lambda>(_, s).
     unlock PAGEALLOC_LOCK s)))"

definition i386_init :: "machine \<Rightarrow> boot_state \<Rightarrow> (boot_state, unit) kres" where
  "i386_init m st =
     rbind (init_devices m st) (\<lambda>st.
     rbind (on_k (lock ENV_LOCK) st) (\<lambda>(_, st).
     rbind (boot_aps (m_present m) (i_ts m) (i_kstacks m) (i_mpentry m) (i_mpentry_len m) st) (\<lambda>st.
     rbind (on_k (init_envs m) st) (\<lambda>(_, st).
     on_k sched st))))"

section \<open>Mapping the local APIC\<close>

text \<open>
  \<open>mmio_room k n\<close>: the page table of the region for devices is there, and the region has room for \<open>n\<close> more pages.
\<close>

definition mmio_room :: "kstate \<Rightarrow> nat \<Rightarrow> bool" where
  "mmio_room k n \<longleftrightarrow>
     (let pde = pmem k (kern_pgdir k) (pdx MMIOBASE) in
      pde AND PTE_P \<noteq> 0 \<and> pde AND PTE_PS = 0 \<and> frame pde < npages k \<and> frame pde \<noteq> kern_pgdir k \<and>
      (\<exists>j. j + n \<le> 1024 \<and> mmio_base k = MMIOBASE + of_nat j * PGSIZE))"

lemma mmio_room_Suc: "mmio_room k (Suc n) \<Longrightarrow> mmio_room k n"
  unfolding mmio_room_def Let_def by (metis add_Suc_right Suc_leD)

lemma mmio_addr:
  assumes "j < 1024"
  shows "unat (MMIOBASE + of_nat j * PGSIZE) = unat MMIOBASE + j * 4096" "pdx (MMIOBASE + of_nat j * PGSIZE) = pdx MMIOBASE"
proof -
  have "unat (of_nat j * PGSIZE :: u32) = j * 4096" using assms unat_page2pa [of j] by (simp add: page2pa_def push_bit_eq_mult)
  then show u: "unat (MMIOBASE + of_nat j * PGSIZE) = unat MMIOBASE + j * 4096"
    using assms by (subst unat_add_lem [THEN iffD1]) (simp_all add: layout_defs)
  have p: "pdx x = unat x div 4194304 mod 1024" for x
  proof -
    have "PDX x = take_bit 10 (drop_bit 22 x)" by (simp add: PDX_def take_bit_eq_mask mask_eq_exp_minus_1)
    then have "pdx x = take_bit 10 (drop_bit 22 (unat x))" by (simp only: pdx_def unsigned_take_bit_eq unat_drop_bit_eq)
    then show ?thesis by (simp add: take_bit_eq_mod drop_bit_eq_div)
  qed
  show "pdx (MMIOBASE + of_nat j * PGSIZE) = pdx MMIOBASE" unfolding p u using assms by (simp add: layout_defs)
qed

lemma mmio_map_page:
  assumes "mmio_room k (Suc n)"
  obtains k' f w where "mmio_map_region pa 4096 k = Inr (mmio_base k, k')" and "mmio_room k' n" and "mmio_base k \<noteq> 0"
    and "k' = (wr (f, ptx (mmio_base k)) w k)\<lparr>mmio_base := mmio_base k + PGSIZE\<rparr>"
proof -
  let ?pde = "pmem k (kern_pgdir k) (pdx MMIOBASE)"
  obtain j where j: "j + Suc n \<le> 1024" "mmio_base k = MMIOBASE + of_nat j * PGSIZE"
    and pde: "?pde AND PTE_P \<noteq> 0" "?pde AND PTE_PS = 0" "frame ?pde < npages k" "frame ?pde \<noteq> kern_pgdir k"
    using assms by (auto simp: mmio_room_def Let_def)
  have j': "j < 1024" using j(1) by simp
  have walk: "pgdir_walk (Some (kern_pgdir k)) (mmio_base k) CREATE_NORMAL k = Inr (Some (frame ?pde, ptx (mmio_base k)), k)"
    using pde mmio_addr(2) [OF j'] unfolding j(2)
    by (simp add: pgdir_walk_def rd_def walk_entry_def KADDR_def CREATE_NORMAL_def CREATE_HUGE_def)
  have room: "\<not> MMIOLIM < mmio_base k + PGSIZE"
  proof -
    have "unat (mmio_base k + PGSIZE) = unat MMIOBASE + j * 4096 + 4096"
      using mmio_addr(1) [OF j'] j' unfolding j(2) by (subst unat_add_lem [THEN iffD1]) (simp_all add: layout_defs)
    then show ?thesis using j' by (simp add: word_less_nat_alt layout_defs)
  qed
  let ?w = "pa OR (PTE_PCD OR PTE_PWT OR PTE_W) OR PTE_P"
  let ?k = "(wr (frame ?pde, ptx (mmio_base k)) ?w k)\<lparr>mmio_base := mmio_base k + PGSIZE\<rparr>"
  have perm: "(PTE_PCD OR PTE_PWT OR PTE_W) AND PTE_P = 0" by (simp add: pte_flag_defs)
  have "mmio_map_region pa 4096 k = Inr (mmio_base k, ?k)"
    using room walk perm by (simp add: mmio_map_region_def boot_map_region_def ROUNDUP_def ROUNDDOWN_def Let_def)
  moreover have "mmio_room ?k n"
  proof -
    have "mmio_base ?k = MMIOBASE + of_nat (Suc j) * PGSIZE" "Suc j + n \<le> 1024" using j by (simp_all add: algebra_simps)
    moreover have "pmem ?k (kern_pgdir ?k) = pmem k (kern_pgdir k)" "npages ?k = npages k" "kern_pgdir ?k = kern_pgdir k"
      using pde(4) by (simp_all add: wr_def write_mem_def)
    ultimately show ?thesis using pde unfolding mmio_room_def Let_def by metis
  qed
  moreover have "mmio_base k \<noteq> 0" using mmio_addr(1) [OF j'] unfolding j(2) by (auto simp: layout_defs)
  ultimately show ?thesis using that by blast
qed

lemma lapicws_ok: "lapic a \<noteq> None \<Longrightarrow> (lapicws ws a :: 's stop + _) = Inr (a\<lparr>lapic_log := lapic_log a @ ws\<rparr>)"
proof (induction ws arbitrary: a)
  case Nil
  then show ?case by simp
next
  case (Cons w ws)
  obtain r v where "w = (r, v)" by fastforce
  then show ?case using Cons.IH [of "a\<lparr>lapic_log := lapic_log a @ [(r, v)]\<rparr>"] Cons.prems by (simp add: lapicw_def)
qed

lemma lapicw_ok: "lapic a \<noteq> None \<Longrightarrow> (lapicw r v a :: 's stop + _) = Inr (a\<lparr>lapic_log := lapic_log a @ [(r, v)]\<rparr>)"
  by (simp add: lapicw_def)

lemma wait_answers_ok: "\<exists>x \<in> set xs. x AND DELIVS = 0 \<Longrightarrow> \<exists>ys. (wait_answers xs :: 's stop + _) = Inr ys"
  by (induction xs) auto

text \<open>The local APIC gets a new page of the region in every call, although all processors find theirs at the same address.\<close>

lemma lapic_init_ok:
  assumes "lapicaddr mp \<noteq> 0" and "mmio_room k (Suc n)" and "\<exists>x \<in> set (icr_answers a). x AND DELIVS = 0"
  obtains k' a' f w where "lapic_init mp (k, a) = Inr (k', a')" and "lapic a' = Some (mmio_base k)" and "mmio_room k' n"
    and "k' = (wr (f, ptx (mmio_base k)) w k)\<lparr>mmio_base := mmio_base k + PGSIZE\<rparr>"
proof -
  obtain k' f w where k: "mmio_map_region (lapicaddr mp) 4096 k = Inr (mmio_base k, k')" "mmio_room k' n" "mmio_base k \<noteq> 0"
    "k' = (wr (f, ptx (mmio_base k)) w k)\<lparr>mmio_base := mmio_base k + PGSIZE\<rparr>"
    by (rule mmio_map_page [OF assms(2)])
  obtain ys where ys: "(wait_answers (icr_answers a) :: kstate stop + _) = Inr ys" using wait_answers_ok [OF assms(3)] by blast
  have "\<exists>a'. lapic_init mp (k, a) = Inr (k', a') \<and> lapic a' = Some (mmio_base k)"
    using assms(1) k(1,3) ys by (simp add: lapic_init_def Let_def lapicws_ok lapicw_ok wait_delivered_def)
  then show ?thesis using that k(2,4) by blast
qed

section \<open>Starting the other processors\<close>

definition aps_ready :: "nat \<Rightarrow> boot_state \<Rightarrow> bool" where
  "aps_ready n st \<longleftrightarrow>
     lapicaddr (bs_mp st) \<noteq> 0 \<and> bs_lapic st \<noteq> None \<and> length (cpus (bs_mp st)) = NCPU \<and> ncpu (bs_mp st) \<le> NCPU \<and>
     (\<forall>i < ncpu (bs_mp st). cpu_id (cpus (bs_mp st) ! i) = of_nat i) \<and> length (bs_gdt st) = NCPU + 5 \<and>
     mmio_room (bs_k st) n \<and> 0 < npages (bs_k st) \<and> paddr_ok (kva (kern_pgdir (bs_k st)))"

definition answers :: "nat \<Rightarrow> boot_state \<Rightarrow> bool" where
  "answers i st \<longleftrightarrow> (\<exists>x \<in> set (icr_answers (bs_apic st i)). x AND DELIVS = 0)"

text \<open>A processor that runs: it has its own task segment and the top of its own stack.\<close>

definition started :: "(nat \<Rightarrow> u32) \<Rightarrow> nat \<Rightarrow> boot_state \<Rightarrow> bool" where
  "started ts_addr i st \<longleftrightarrow>
     cpu_status (cpus (bs_mp st) ! i) = CPU_STARTED \<and> seg_base (bs_gdt st ! (5 + i)) = ts_addr i \<and>
     sd_type (bs_gdt st ! (5 + i)) = STS_T32B \<and> ts_esp0 (bs_ts st i) = kstack_top i \<and> ts_ss0 (bs_ts st i) = GD_KD \<and>
     unat (drop_bit 3 (reg_tr (bs_seg st i))) = 5 + i \<and> idt_loaded (bs_seg st i)"

definition same_cpu :: "nat \<Rightarrow> boot_state \<Rightarrow> boot_state \<Rightarrow> bool" where
  "same_cpu j st st' \<longleftrightarrow>
     cpus (bs_mp st') ! j = cpus (bs_mp st) ! j \<and> bs_gdt st' ! (5 + j) = bs_gdt st ! (5 + j) \<and> bs_ts st' j = bs_ts st j \<and>
     bs_seg st' j = bs_seg st j \<and> icr_answers (bs_apic st' j) = icr_answers (bs_apic st j)"

text \<open>
  What starting a processor leaves alone of the rest: the processor that executes, its address space and all locks, and the
  memory but for the word at \<open>40:67\<close> through which the BIOS finds the start address.
\<close>

definition warm_reset :: "u32 set" where
  "warm_reset = {KERNBASE + 0x467 ..< KERNBASE + 0x46B}"

definition kept :: "boot_state \<Rightarrow> boot_state \<Rightarrow> bool" where
  "kept st st' \<longleftrightarrow>
     cpu_locks (bs_k st) (bs_k st') \<and> cr3 (bs_k st') = cr3 (bs_k st) \<and> ncpu (bs_mp st') = ncpu (bs_mp st) \<and>
     (\<forall>a. a \<notin> warm_reset \<longrightarrow> bs_mem st' a = bs_mem st a)"

lemma kept_trans: "kept st st1 \<Longrightarrow> kept st1 st2 \<Longrightarrow> kept st st2"
  by (simp add: kept_def cpu_locks_def)

lemma same_cpu_trans: "same_cpu j st st1 \<Longrightarrow> same_cpu j st1 st2 \<Longrightarrow> same_cpu j st st2"
  by (simp add: same_cpu_def)

lemma same_cpu_answers: "same_cpu j st st' \<Longrightarrow> answers j st' = answers j st"
  by (simp add: same_cpu_def answers_def)

lemma same_cpu_started: "same_cpu j st st' \<Longrightarrow> started ts_addr j st' = started ts_addr j st"
  by (simp add: same_cpu_def started_def)

lemma trap_init_percpu_other:
  "trap_init_percpu ts_addr i c s = Inr s' \<Longrightarrow> j \<noteq> i \<Longrightarrow> cpu_ts s' j = cpu_ts s j"
  by (auto simp: trap_init_percpu_def ltr_def Let_def split: if_splits)

text \<open>The segment part of \<open>mp_main\<close>.\<close>

lemma percpu_segments:
  assumes "i < NCPU" and "length (bs_gdt st) = NCPU + 5"
  obtains g0 g where "on_seg i (\<lambda>g. Inr (env_init_percpu g)) st = Inr (st\<lparr>bs_seg := (bs_seg st)(i := g0)\<rparr>)"
    and "on_seg i (trap_init_percpu ts_addr i (of_nat i)) (st\<lparr>bs_seg := (bs_seg st)(i := g0)\<rparr>) =
      Inr (st\<lparr>bs_gdt := gdt g, bs_ts := cpu_ts g, bs_seg := (bs_seg st)(i := g)\<rparr>)"
    and "length (gdt g) = NCPU + 5" and "idt_loaded g" and "seg_base (gdt g ! (5 + i)) = ts_addr i" and "sd_type (gdt g ! (5 + i)) = STS_T32B"
    and "ts_esp0 (cpu_ts g i) = kstack_top i" and "ts_ss0 (cpu_ts g i) = GD_KD" and "unat (drop_bit 3 (reg_tr g)) = 5 + i"
    and "\<forall>j. j \<noteq> i \<longrightarrow> gdt g ! (5 + j) = bs_gdt st ! (5 + j) \<and> cpu_ts g j = bs_ts st j"
proof -
  let ?g = "env_init_percpu ((bs_seg st i)\<lparr>gdt := bs_gdt st, cpu_ts := bs_ts st\<rparr>)"
  have u: "unat (of_nat i :: u8) = i" using assms(1) by (simp add: unat_of_nat)
  have g0: "gdt ?g = bs_gdt st" "cpu_ts ?g = bs_ts st" by (simp_all add: env_init_percpu_def)
  obtain g where g: "trap_init_percpu ts_addr i (of_nat i) ?g = Inr g" "length (gdt g) = NCPU + 5" "idt_loaded g"
    "seg_base (gdt g ! (5 + i)) = ts_addr i" "sd_type (gdt g ! (5 + i)) = STS_T32B" "ts_esp0 (cpu_ts g i) = kstack_top i"
    "ts_ss0 (cpu_ts g i) = GD_KD" "unat (drop_bit 3 (reg_tr g)) = 5 + i" "\<forall>j. j \<noteq> 5 + i \<longrightarrow> gdt g ! j = bs_gdt st ! j"
    using trap_init_percpu_ok [of "of_nat i" ?g ts_addr i] assms unfolding u g0 by blast
  have same: "?g\<lparr>gdt := bs_gdt st, cpu_ts := bs_ts st\<rparr> = ?g" by (simp add: env_init_percpu_def)
  let ?st = "st\<lparr>bs_seg := (bs_seg st)(i := ?g)\<rparr>"
  have "on_seg i (\<lambda>g. Inr (env_init_percpu g)) st = Inr ?st"
    unfolding on_seg_def Let_def sum.case g0 by simp
  moreover have "on_seg i (trap_init_percpu ts_addr i (of_nat i)) ?st =
      Inr (st\<lparr>bs_gdt := gdt g, bs_ts := cpu_ts g, bs_seg := (bs_seg st)(i := g)\<rparr>)"
  proof -
    have "bs_seg ?st i = ?g" "bs_gdt ?st = bs_gdt st" "bs_ts ?st = bs_ts st" by simp_all
    then have "(bs_seg ?st i)\<lparr>gdt := bs_gdt ?st, cpu_ts := bs_ts ?st\<rparr> = ?g" using same by (simp only:)
    then show ?thesis unfolding on_seg_def Let_def by (simp only: g(1) sum.case) simp
  qed
  ultimately show ?thesis using that g trap_init_percpu_other [OF g(1)] g0 by auto
qed

lemma mp_main_setup_ok:
  assumes ready: "aps_ready (Suc n) st" and i: "i < ncpu (bs_mp st)" and ans: "answers i st"
  obtains st' where "mp_main_setup ts_addr i st = Inr st'" and "aps_ready n st'" and "started ts_addr i st'"
    and "\<forall>j. j \<noteq> i \<longrightarrow> same_cpu j st st'" and "kept st st'"
proof -
  let ?k = "(bs_k st)\<lparr>cpunum := i, cr3 := kern_pgdir (bs_k st)\<rparr>"
  let ?a = "(bs_apic st i)\<lparr>lapic := bs_lapic st\<rparr>"
  have r: "lapicaddr (bs_mp st) \<noteq> 0" "length (cpus (bs_mp st)) = NCPU" "length (bs_gdt st) = NCPU + 5" "i < NCPU"
    "cpu_id (cpus (bs_mp st) ! i) = of_nat i" "paddr_ok (kva (kern_pgdir (bs_k st)))" and room: "mmio_room ?k (Suc n)"
    using ready i by (auto simp: aps_ready_def mmio_room_def)
  have k: "on_k (\<lambda>k. lcr3 (kern_pgdir k) (k\<lparr>cpunum := i\<rparr>)) st = Inr ((), st\<lparr>bs_k := ?k\<rparr>)"
    using r(6) by (simp add: on_k_def lcr3_def PADDR_paddr_ok)
  have "\<exists>x \<in> set (icr_answers ?a). x AND DELIVS = 0" using ans by (simp add: answers_def)
  from lapic_init_ok [OF r(1) room this]
  obtain k' a f w where ap: "lapic_init (bs_mp st) (?k, ?a) = Inr (k', a)" "lapic a = Some (mmio_base ?k)" "mmio_room k' n"
    "k' = (wr (f, ptx (mmio_base ?k)) w ?k)\<lparr>mmio_base := mmio_base ?k + PGSIZE\<rparr>" .
  let ?st = "st\<lparr>bs_k := k', bs_lapic := lapic a, bs_apic := (bs_apic st)(i := a)\<rparr>"
  have l: "init_lapic i (st\<lparr>bs_k := ?k\<rparr>) = Inr ?st" using ap(1) by (simp add: init_lapic_def)
  have len: "length (bs_gdt ?st) = NCPU + 5" using r(3) by simp
  from percpu_segments [OF r(4) len, of ts_addr]
  obtain g0 g where g: "on_seg i (\<lambda>g. Inr (env_init_percpu g)) ?st = Inr (?st\<lparr>bs_seg := (bs_seg ?st)(i := g0)\<rparr>)"
    "on_seg i (trap_init_percpu ts_addr i (of_nat i)) (?st\<lparr>bs_seg := (bs_seg ?st)(i := g0)\<rparr>) =
      Inr (?st\<lparr>bs_gdt := gdt g, bs_ts := cpu_ts g, bs_seg := (bs_seg ?st)(i := g)\<rparr>)"
    "length (gdt g) = NCPU + 5" "idt_loaded g" "seg_base (gdt g ! (5 + i)) = ts_addr i" "sd_type (gdt g ! (5 + i)) = STS_T32B"
    "ts_esp0 (cpu_ts g i) = kstack_top i" "ts_ss0 (cpu_ts g i) = GD_KD" "unat (drop_bit 3 (reg_tr g)) = 5 + i"
    "\<forall>j. j \<noteq> i \<longrightarrow> gdt g ! (5 + j) = bs_gdt ?st ! (5 + j) \<and> cpu_ts g j = bs_ts ?st j" .
  let ?mp = "(bs_mp st)\<lparr>cpus := (cpus (bs_mp st))[i := (cpus (bs_mp st) ! i)\<lparr>cpu_status := CPU_STARTED\<rparr>]\<rparr>"
  let ?out = "?st\<lparr>bs_gdt := gdt g, bs_ts := cpu_ts g, bs_seg := (bs_seg st)(i := g), bs_mp := ?mp,
    bs_k := k'\<lparr>cpunum := cpunum (bs_k st), cr3 := cr3 (bs_k st)\<rparr>\<rparr>"
  have "mp_main_setup ts_addr i st = Inr ?out"
    using r(2,4,5) by (simp add: mp_main_setup_def k l g(1,2)[simplified] set_status_def Let_def)
  moreover have "aps_ready n ?out"
    using ready ap(2,3,4) g(3) i by (auto simp: aps_ready_def mmio_room_def wr_def write_mem_def nth_list_update)
  moreover have "started ts_addr i ?out" using g(4-9) r(2,4) by (simp add: started_def)
  moreover have "same_cpu j st ?out" if "j \<noteq> i" for j using g(10) that by (simp add: same_cpu_def)
  moreover have "kept st ?out" using ap(4) by (simp add: kept_def cpu_locks_def wr_def write_mem_def)
  ultimately show ?thesis using that [of ?out] by blast
qed

lemma lapic_startap_ok:
  assumes "lapic a \<noteq> None" and "0 < np"
  obtains m' cm' log where "(lapic_startap np c pa (m, cm, a) :: 's stop + _) = Inr (m', cm', a\<lparr>lapic_log := log\<rparr>)"
    and "\<forall>x. x \<notin> warm_reset \<longrightarrow> m' x = m x"
proof -
  have w: "push_bit 4 0x40 OR 0x67 = (0x467 :: u32)" "PGNUM 0x467 = 0" by code_simp+
  have "\<exists>m' cm' log. (lapic_startap np c pa (m, cm, a) :: 's stop + _) = Inr (m', cm', a\<lparr>lapic_log := log\<rparr>) \<and>
      (\<forall>x. x \<notin> warm_reset \<longrightarrow> m' x = m x)"
    using assms unfolding lapic_startap_def kaddr_def w
    by (simp add: Let_def lapicws_ok del: lapicws.simps) (auto simp: warm_reset_def KERNBASE_def)
  then show ?thesis using that by blast
qed

lemma start_cpu_ok:
  assumes ready: "aps_ready (Suc n) st" and i: "i < ncpu (bs_mp st)" and ans: "answers i st" "present i" and code: "paddr_ok code"
  obtains st' where "start_cpu present ts_addr code kstacks i st = Inr st'" and "aps_ready n st'" and "started ts_addr i st'"
    and "\<forall>j. j \<noteq> i \<longrightarrow> same_cpu j st st'" and "kept st st'"
proof -
  let ?me = "cpunum (bs_k st)"
  have r: "i < NCPU" "length (cpus (bs_mp st)) = NCPU" "cpu_id (cpus (bs_mp st) ! i) = of_nat i" "bs_lapic st \<noteq> None" "0 < npages (bs_k st)"
    using ready i by (auto simp: aps_ready_def)
  have u: "unat (of_nat i :: u8) = i" using r(1) by (simp add: unat_of_nat)
  have "lapic ((bs_apic st ?me)\<lparr>lapic := bs_lapic st\<rparr>) \<noteq> None" using r(4) by simp
  from lapic_startap_ok [OF this r(5), where 's = boot_state and c = "of_nat i" and pa = "code - KERNBASE" and m = "bs_mem st" and cm = "bs_cmos st"]
  obtain m cm log where la: "(lapic_startap (npages (bs_k st)) (of_nat i) (code - KERNBASE)
      (bs_mem st, bs_cmos st, (bs_apic st ?me)\<lparr>lapic := bs_lapic st\<rparr>) :: boot_state stop + _) =
      Inr (m, cm, (bs_apic st ?me)\<lparr>lapic := bs_lapic st, lapic_log := log\<rparr>)"
    "\<forall>a. a \<notin> warm_reset \<longrightarrow> m a = bs_mem st a" .
  define st1 where "st1 = st\<lparr>mpentry_kstack := kstacks + of_nat i * KSTKSIZE + KSTKSIZE, bs_mem := m, bs_cmos := cm,
    bs_apic := (bs_apic st)(?me := (bs_apic st ?me)\<lparr>lapic := bs_lapic st, lapic_log := log\<rparr>)\<rparr>"
  have 1: "aps_ready (Suc n) st1" "i < ncpu (bs_mp st1)" "answers i st1" "same_cpu j st st1" "kept st st1" for j
    using ready i ans(1) la(2) by (auto simp: st1_def aps_ready_def answers_def same_cpu_def kept_def)
  obtain st' where 2: "mp_main_setup ts_addr i st1 = Inr st'" "aps_ready n st'" "started ts_addr i st'"
    "\<forall>j. j \<noteq> i \<longrightarrow> same_cpu j st1 st'" "kept st1 st'"
    by (rule mp_main_setup_ok [OF 1(1,2,3)])
  have "start_cpu present ts_addr code kstacks i st = Inr st'"
    using r(1,2,3) u ans(2) la(1) 2(1,3) code
    by (simp add: start_cpu_def PADDR_paddr_ok Let_def started_def flip: st1_def)
  then show ?thesis using that 2(2,3,4,5) 1(4,5) kept_trans same_cpu_trans by blast
qed

lemma boot_aps_loop_ok:
  assumes "aps_ready (length cs) st" and "distinct cs" and "paddr_ok code"
    and "\<forall>i \<in> set cs. i \<noteq> cpunum (bs_k st) \<longrightarrow> i < ncpu (bs_mp st) \<and> answers i st \<and> present i"
  shows "\<exists>st'. boot_aps_loop present ts_addr code kstacks cs st = Inr st' \<and> kept st st' \<and>
    (\<forall>i. if i \<in> set cs \<and> i \<noteq> cpunum (bs_k st) then started ts_addr i st' else same_cpu i st st')"
  using assms
proof (induction cs arbitrary: st)
  case Nil
  then show ?case by (simp add: kept_def same_cpu_def)
next
  case (Cons c cs)
  show ?case
  proof (cases "c = cpunum (bs_k st)")
    case True
    have "aps_ready (length cs) st" using Cons.prems(1) mmio_room_Suc by (auto simp: aps_ready_def)
    then show ?thesis using Cons.IH [of st] Cons.prems(2-) True by auto
  next
    case False
    have c: "c < ncpu (bs_mp st)" "answers c st" "present c" and l: "aps_ready (Suc (length cs)) st" using Cons.prems False by simp_all
    obtain st1 where 1: "start_cpu present ts_addr code kstacks c st = Inr st1" "aps_ready (length cs) st1" "started ts_addr c st1"
      "\<forall>j. j \<noteq> c \<longrightarrow> same_cpu j st st1" "kept st st1"
      by (rule start_cpu_ok [of _ st c present, OF l c Cons.prems(3)])
    have me: "cpunum (bs_k st1) = cpunum (bs_k st)" "ncpu (bs_mp st1) = ncpu (bs_mp st)" using 1(5) by (simp_all add: kept_def cpu_locks_def)
    have "\<forall>i \<in> set cs. i \<noteq> cpunum (bs_k st1) \<longrightarrow> i < ncpu (bs_mp st1) \<and> answers i st1 \<and> present i"
      using Cons.prems(2,4) 1(4) same_cpu_answers unfolding me by (metis distinct.simps(2) list.set_intros(2))
    then obtain st' where 2: "boot_aps_loop present ts_addr code kstacks cs st1 = Inr st'" "kept st1 st'"
      "\<forall>i. if i \<in> set cs \<and> i \<noteq> cpunum (bs_k st) then started ts_addr i st' else same_cpu i st1 st'"
      using Cons.IH [OF 1(2) _ Cons.prems(3)] Cons.prems(2) unfolding me by auto
    have "if i \<in> set (c # cs) \<and> i \<noteq> cpunum (bs_k st) then started ts_addr i st' else same_cpu i st st'" for i
      using 2(3) [rule_format, of i] 1(3,4) Cons.prems(2) False same_cpu_started same_cpu_trans by (cases "i = c") auto
    then show ?thesis using 1(1) 2(1) kept_trans [OF 1(5) 2(2)] False by auto
  qed
qed


text \<open>A processor that does not answer holds \<open>boot_aps\<close> up forever.\<close>

lemma start_cpu_missing:
  assumes "aps_ready n st" and "i < ncpu (bs_mp st)" and "\<not> present i" and "cpu_status (cpus (bs_mp st) ! i) \<noteq> CPU_STARTED" and "paddr_ok code"
  shows "start_cpu present ts_addr code kstacks i st = Inl Diverge"
proof -
  let ?a = "(bs_apic st (cpunum (bs_k st)))\<lparr>lapic := bs_lapic st\<rparr>"
  have r: "i < NCPU" "length (cpus (bs_mp st)) = NCPU" "cpu_id (cpus (bs_mp st) ! i) = of_nat i" "lapic ?a \<noteq> None" "0 < npages (bs_k st)"
    using assms(1,2) by (auto simp: aps_ready_def)
  have u: "unat (of_nat i :: u8) = i" using r(1) by (simp add: unat_of_nat)
  obtain m' cm' log where "(lapic_startap (npages (bs_k st)) (of_nat i) (code - KERNBASE) (bs_mem st, bs_cmos st, ?a) :: boot_state stop + _) =
      Inr (m', cm', ?a\<lparr>lapic_log := log\<rparr>)"
    by (rule lapic_startap_ok [OF r(4,5)])
  then show ?thesis using r(1,2,3) u assms(3,4,5) by (simp add: start_cpu_def PADDR_paddr_ok Let_def)
qed

text \<open>While the boot processor holds the lock of the environments, no other processor gets into the scheduler.\<close>

lemma mp_main_run_blocked:
  assumes "holds ENV_LOCK (bs_k st)" and "cpu_locks (bs_k st) (bs_k st')" and "i \<noteq> cpunum (bs_k st)"
  shows "mp_main_run i st' = Inl Blocked"
  using assms by (auto simp: mp_main_run_def on_k_def lock_def spin_lock_def holds_def holding_def cpu_locks_def)

text \<open>
  C14: When the machine has at least eight pages of memory, the page table of the device region is there with room for the
  local APIC of every processor, and every processor that the configuration lists answers, \<open>boot_aps\<close> ends.  Then every
  processor but the boot processor has started: its status says so, the task register selects the descriptor of its own task
  state in the shared \<open>gdt\<close>, which points to it, and the task state has its own kernel stack; starting the later ones has
  not disturbed the earlier ones.  The entry code lies at \<open>MPENTRY_PADDR\<close>, and the boot processor keeps its segments, its
  address space and the locks it holds.  So if it holds the lock of the environments, as \<open>i386_init\<close> does, each of the others
  waits for that lock and is kept out of the scheduler.
\<close>

theorem boot_aps_starts_all:
  assumes ready: "aps_ready (ncpu (bs_mp st)) st" and mem: "7 < npages (bs_k st)"
    and up: "\<forall>i < ncpu (bs_mp st). i \<noteq> cpunum (bs_k st) \<longrightarrow> answers i st \<and> present i"
    and image: "unat mpentry + unat len \<le> 4294967295" "unat len \<le> 4096"
  shows "\<exists>st'. boot_aps present ts_addr kstacks mpentry len st = Inr st' \<and>
    (\<forall>i < ncpu (bs_mp st). i \<noteq> cpunum (bs_k st) \<longrightarrow> started ts_addr i st') \<and>
    (\<forall>d. unat d < unat len \<longrightarrow> bs_mem st' (KERNBASE + MPENTRY_PADDR + d) = bs_mem st (mpentry + d)) \<and>
    same_cpu (cpunum (bs_k st)) st st' \<and> cpu_locks (bs_k st) (bs_k st') \<and> cr3 (bs_k st') = cr3 (bs_k st) \<and>
    (holds ENV_LOCK (bs_k st) \<longrightarrow> (\<forall>i. i \<noteq> cpunum (bs_k st) \<longrightarrow> mp_main_run i st' = Inl Blocked))"
proof -
  let ?code = "KERNBASE + MPENTRY_PADDR"
  have pn: "unat (PGNUM MPENTRY_PADDR) = 7" "paddr_ok ?code" "unat ?code = 0xF0007000"
    by (simp_all add: PGNUM_def paddr_ok_def KERNBASE_def MPENTRY_PADDR_def)
  let ?st = "st\<lparr>bs_mem := snd (memmove ?code mpentry len (bs_mem st))\<rparr>"
  have a: "answers i ?st = answers i st" "same_cpu i ?st = same_cpu i st" for i by (auto simp: answers_def same_cpu_def)
  have "aps_ready (length [0..<ncpu (bs_mp st)]) ?st" using ready by (simp add: aps_ready_def)
  from boot_aps_loop_ok [OF this _ pn(2), of present ts_addr kstacks]
  have "\<exists>st'. boot_aps_loop present ts_addr ?code kstacks [0..<ncpu (bs_mp st)] ?st = Inr st' \<and> kept ?st st' \<and>
      (\<forall>i. if i < ncpu (bs_mp st) \<and> i \<noteq> cpunum (bs_k st) then started ts_addr i st' else same_cpu i st st')"
    using up by (simp add: a cong: if_cong)
  then obtain st' where l: "boot_aps_loop present ts_addr ?code kstacks [0..<ncpu (bs_mp st)] ?st = Inr st'" "kept ?st st'"
    "\<forall>i. if i < ncpu (bs_mp st) \<and> i \<noteq> cpunum (bs_k st) then started ts_addr i st' else same_cpu i st st'" by blast
  have b: "boot_aps present ts_addr kstacks mpentry len st = Inr st'"
    using mem pn(1) l(1) by (simp add: boot_aps_def kaddr_def Let_def add.commute)
  have "bs_mem st' (?code + d) = bs_mem st (mpentry + d)" if d: "unat d < unat len" for d
  proof -
    have u: "unat (?code + d) = unat ?code + unat d" using d image(2) pn(3) by (intro unat_plus) simp
    then have "?code + d \<notin> warm_reset" unfolding warm_reset_def by (simp add: word_less_nat_alt pn(3)) (simp add: KERNBASE_def)
    then have "bs_mem st' (?code + d) = snd (memmove ?code mpentry len (bs_mem st)) (?code + d)"
      using l(2) by (simp add: kept_def)
    also have "\<dots> = bs_mem st (mpentry + d)"
      using copiedD [OF memmove_copied, of mpentry len ?code "bs_mem st" "?code + d"] image d u pn(3) by simp
    finally show ?thesis .
  qed
  moreover have k: "cpu_locks (bs_k st) (bs_k st')" "cr3 (bs_k st') = cr3 (bs_k st)" using l(2) by (simp_all add: kept_def)
  moreover have "same_cpu (cpunum (bs_k st)) st st'" "\<forall>i < ncpu (bs_mp st). i \<noteq> cpunum (bs_k st) \<longrightarrow> started ts_addr i st'"
    using l(3) by auto
  ultimately show ?thesis using b mp_main_run_blocked [OF _ k(1)] by auto
qed

definition zero_ts :: taskstate where
  "zero_ts =
     \<lparr>ts_link = 0, ts_esp0 = 0, ts_ss0 = 0, ts_padding1 = 0, ts_esp1 = 0, ts_ss1 = 0, ts_padding2 = 0, ts_esp2 = 0, ts_ss2 = 0,
       ts_padding3 = 0, ts_cr3 = 0, ts_eip = 0, ts_eflags = 0, ts_eax = 0, ts_ecx = 0, ts_edx = 0, ts_ebx = 0, ts_esp = 0, ts_ebp = 0,
       ts_esi = 0, ts_edi = 0, ts_es = 0, ts_padding4 = 0, ts_cs = 0, ts_padding5 = 0, ts_ss = 0, ts_padding6 = 0, ts_ds = 0,
       ts_padding7 = 0, ts_fs = 0, ts_padding8 = 0, ts_gs = 0, ts_padding9 = 0, ts_ldt = 0, ts_padding10 = 0, ts_t = 0, ts_iomb = 0\<rparr>"

definition sample_start :: boot_state where
  "sample_start =
    \<lparr>bs_k = sample_k\<lparr>pmem := (\<lambda>_ _. page2pa 5 OR PTE_P OR PTE_W)\<rparr>,
     bs_pic = \<lparr>irq_mask_8259A = 0xFFFF, didinit = True, pic_log = []\<rparr>,
     bs_mp = \<lparr>cpus = map (\<lambda>i. \<lparr>cpu_id = of_nat i, cpu_status = (if i = 0 then CPU_STARTED else CPU_UNUSED)\<rparr>) [0..<NCPU],
         bootcpu = 0, ismp = True, ncpu = 4, lapicaddr = 0xFEE00000, imcr = 0\<rparr>,
     bs_lapic = Some MMIOBASE,
     bs_apic = (\<lambda>i. \<lparr>lapic = None, lapic_log = [], lapic_id = push_bit 24 (of_nat i), lapic_ver = 0x50014, icr_answers = [0x1000, 0]\<rparr>),
     bs_gdt = initial_gdt, bs_ts = (\<lambda>_. zero_ts),
     bs_seg = (\<lambda>_. \<lparr>gdt = [], cpu_ts = (\<lambda>_. zero_ts), reg_gs = 0, reg_fs = 0, reg_es = 0, reg_ds = 0, reg_ss = 0, reg_cs = 0,
         reg_ldt = 0, reg_tr = 0, gdt_loaded = False, idt_loaded = False\<rparr>),
     bs_idt = (\<lambda>_. SETGATE False 0 0 0), bs_mem = (\<lambda>a. ucast a), bs_cmos = (\<lambda>_. 0), mpentry_kstack = 0\<rparr>"

theorem boot_aps_starts_all_witness:
  "\<exists>st'. boot_aps (\<lambda>_. True) (\<lambda>i. 0xF0250000 + of_nat i * 104) 0xF0260000 0xF0105000 87 sample_start = Inr st' \<and>
    started (\<lambda>i. 0xF0250000 + of_nat i * 104) 3 st' \<and> same_cpu 0 sample_start st' \<and> bs_mem st' 0xF0007012 = 0x12"
proof -
  have f: "frame (page2pa 5 OR PTE_P OR PTE_W) = 5" "(page2pa 5 OR PTE_P OR PTE_W) AND PTE_P \<noteq> 0" "(page2pa 5 OR PTE_P OR PTE_W) AND PTE_PS = 0"
    by code_simp+
  have k: "npages (bs_k sample_start) = 8" "kern_pgdir (bs_k sample_start) = 1" "cpunum (bs_k sample_start) = 0" "ncpu (bs_mp sample_start) = 4"
    "bs_mem sample_start = (\<lambda>a. ucast a)"
    by (simp_all add: sample_start_def sample_k_def)
  have "mmio_room (bs_k sample_start) 4"
    unfolding mmio_room_def Let_def by (intro conjI exI [of _ 0]) (simp_all add: f sample_start_def sample_k_def)
  then have ready: "aps_ready (ncpu (bs_mp sample_start)) sample_start"
    by (simp add: aps_ready_def k) (simp add: sample_start_def initial_gdt_def paddr_ok_def kva_def page2pa_def KERNBASE_def)
  have up: "\<forall>i < ncpu (bs_mp sample_start). i \<noteq> cpunum (bs_k sample_start) \<longrightarrow> answers i sample_start \<and> True"
    by (simp add: answers_def sample_start_def DELIVS_def)
  show ?thesis
    using boot_aps_starts_all [OF ready _ up, of "0xF0105000" 87 "\<lambda>i. 0xF0250000 + of_nat i * 104" "0xF0260000"] unfolding k
    by (auto simp: KERNBASE_def MPENTRY_PADDR_def dest!: spec [of _ "0x12 :: u32"])
qed

end
