(* ===== verification/UserLib.thy ===== *)
theory UserLib
  imports Faults
begin

text \<open>
  The library of user programs: the system-call stubs of \<^verbatim>\<open>lib/syscall.c\<close>, \<^verbatim>\<open>lib/fork.c\<close>, \<^verbatim>\<open>lib/libmain.c\<close>,
  \<^verbatim>\<open>lib/exit.c\<close>, \<^verbatim>\<open>lib/panic.c\<close> and \<^verbatim>\<open>lib/console.c\<close>.

  A program is the tree of what it does next, with a branch for each answer of the kernel or of the memory.  A function of
  the library takes the rest of the program, which gets its result.  \<open>Print\<close> is a call of \<open>cprintf\<close>, which theory
  \<open>Printing\<close> follows down to the calls of \<open>sys_cputs\<close>.  \<open>Envs i\<close> reads the element \<open>i\<close> of the array \<open>envs\<close>, which the kernel
  maps at \<open>UENVS\<close>.  \<open>Interrupt n\<close> is the instruction \<open>int n\<close>, \<open>Exception n\<close> an instruction that raises the exception \<open>n\<close>.  The global variables of the library are a record; \<open>thisenv\<close> is an index.  The relation \<open>ustep\<close> at the end
  executes a program on the kernel: a system call and a page fault enter \<open>trap\<close>.
\<close>

datatype uarg = Num u32 | Str string

datatype width = Byte | Word

datatype uprog =
    Returned
  | Sys u32 u32 u32 u32 u32 u32 "u32 \<Rightarrow> uprog"
  | Print string "uarg list" uprog
  | Load width u32 "u32 \<Rightarrow> uprog"
  | Store width u32 u32 uprog
  | Envs nat "env \<Rightarrow> uprog"
  | Interrupt u32 uprog
  | Exception u32 uprog
  | Breakpoints
  | Spin
  | NoFuel

record ulib =
  thisenv :: nat
  binaryname :: string

section \<open>Panics and system calls\<close>

text \<open>The number of the current environment is asked for before the line is printed; then breakpoints follow forever.\<close>

definition u_panic :: "ulib \<Rightarrow> string \<Rightarrow> u32 \<Rightarrow> string \<Rightarrow> uarg list \<Rightarrow> uprog" where
  "u_panic g file line fmt args =
     Sys 2 0 0 0 0 0 (\<lambda>r.
     Print ''[%08x] user panic in %s at %s:%d: '' [Num r, Str (binaryname g), Str file, Num line]
     (Print fmt args (Print ''\<newline>'' [] Breakpoints)))"

definition u_assert :: "ulib \<Rightarrow> string \<Rightarrow> u32 \<Rightarrow> string \<Rightarrow> bool \<Rightarrow> uprog \<Rightarrow> uprog" where
  "u_assert g file line txt b k = (if b then k else u_panic g file line ''assertion failed: %s'' [Str txt])"

definition syscall_stub :: "ulib \<Rightarrow> u32 \<Rightarrow> bool \<Rightarrow> u32 \<Rightarrow> u32 \<Rightarrow> u32 \<Rightarrow> u32 \<Rightarrow> u32 \<Rightarrow> (u32 \<Rightarrow> uprog) \<Rightarrow> uprog" where
  "syscall_stub g num check a1 a2 a3 a4 a5 k =
     Sys num a1 a2 a3 a4 a5 (\<lambda>ret.
     if check \<and> sint ret > 0 then u_panic g ''lib/syscall.c'' 38 ''syscall %d returned %d (> 0)'' [Num num, Num ret]
     else k ret)"

definition sys_cputs_stub :: "ulib \<Rightarrow> u32 \<Rightarrow> u32 \<Rightarrow> uprog \<Rightarrow> uprog" where
  "sys_cputs_stub g s len k = syscall_stub g 0 False s len 0 0 0 (\<lambda>_. k)"

definition sys_cgetc_stub :: "ulib \<Rightarrow> (u32 \<Rightarrow> uprog) \<Rightarrow> uprog" where
  "sys_cgetc_stub g k = syscall_stub g 1 False 0 0 0 0 0 k"

definition sys_env_destroy_stub :: "ulib \<Rightarrow> u32 \<Rightarrow> (u32 \<Rightarrow> uprog) \<Rightarrow> uprog" where
  "sys_env_destroy_stub g envid k = syscall_stub g 3 True envid 0 0 0 0 k"

definition sys_getenvid_stub :: "ulib \<Rightarrow> (u32 \<Rightarrow> uprog) \<Rightarrow> uprog" where
  "sys_getenvid_stub g k = syscall_stub g 2 False 0 0 0 0 0 k"

definition sys_vma_create_stub :: "ulib \<Rightarrow> u32 \<Rightarrow> u32 \<Rightarrow> u32 \<Rightarrow> (u32 \<Rightarrow> uprog) \<Rightarrow> uprog" where
  "sys_vma_create_stub g sz perm flags k = syscall_stub g 4 False sz perm flags 0 0 k"

definition sys_vma_destroy_stub :: "ulib \<Rightarrow> u32 \<Rightarrow> u32 \<Rightarrow> (u32 \<Rightarrow> uprog) \<Rightarrow> uprog" where
  "sys_vma_destroy_stub g va sz k = syscall_stub g 5 False va sz 0 0 0 k"

definition sys_yield_stub :: "ulib \<Rightarrow> uprog \<Rightarrow> uprog" where
  "sys_yield_stub g k = syscall_stub g 8 False 0 0 0 0 0 (\<lambda>_. k)"

definition sys_wait_stub :: "ulib \<Rightarrow> u32 \<Rightarrow> (u32 \<Rightarrow> uprog) \<Rightarrow> uprog" where
  "sys_wait_stub g envid k = syscall_stub g 9 False envid 0 0 0 0 k"

definition sys_fork_stub :: "ulib \<Rightarrow> (u32 \<Rightarrow> uprog) \<Rightarrow> uprog" where
  "sys_fork_stub g k = Print ''Fork called\<newline>'' [] (syscall_stub g 10 False 0 0 0 0 0 k)"

section \<open>Processes\<close>

definition u_fork :: "ulib \<Rightarrow> (ulib \<Rightarrow> u32 \<Rightarrow> uprog) \<Rightarrow> uprog" where
  "u_fork g k =
     sys_fork_stub g (\<lambda>i.
     let report = (\<lambda>g. Envs (thisenv g) (\<lambda>e. Print ''env: %x forked -> %x\<newline>'' [Num (env_id e), Num i] (k g i))) in
     if i = 0 then sys_getenvid_stub g (\<lambda>r. report (g\<lparr>thisenv := ENVX r\<rparr>)) else report g)"

definition u_exit :: "ulib \<Rightarrow> uprog \<Rightarrow> uprog" where
  "u_exit g k = sys_env_destroy_stub g 0 (\<lambda>_. k)"

text \<open>\<open>umain\<close> gets the library's variables and the rest of the program; when \<open>libmain\<close> returns, the entry code spins.\<close>

definition libmain :: "(ulib \<Rightarrow> (ulib \<Rightarrow> uprog) \<Rightarrow> uprog) \<Rightarrow> string list \<Rightarrow> ulib \<Rightarrow> uprog" where
  "libmain umain argv g =
     sys_getenvid_stub g (\<lambda>r.
     let g = g\<lparr>thisenv := ENVX r\<rparr>;
         g = (if argv \<noteq> [] then g\<lparr>binaryname := hd argv\<rparr> else g) in
     umain g (\<lambda>g. u_exit g Returned))"

definition ulib_start :: ulib where
  "ulib_start = \<lparr>thisenv = 0, binaryname = ''<unknown>''\<rparr>"

section \<open>The console\<close>

text \<open>\<open>buf\<close> is the address of the variable \<open>c\<close> on the stack.\<close>

definition cputchar_user :: "ulib \<Rightarrow> u32 \<Rightarrow> u32 \<Rightarrow> uprog \<Rightarrow> uprog" where
  "cputchar_user g buf ch k = Store Byte buf ch (sys_cputs_stub g buf 1 k)"

fun getchar_user :: "nat \<Rightarrow> ulib \<Rightarrow> (u32 \<Rightarrow> uprog) \<Rightarrow> uprog" where
  "getchar_user 0 g k = NoFuel"
| "getchar_user (Suc n) g k =
     sys_cgetc_stub g (\<lambda>r. if r = 0 then sys_yield_stub g (getchar_user n g k) else k r)"

section \<open>Execution\<close>

text \<open>The registers that the stub loads before \<open>int T_SYSCALL\<close>, and the frame of a page fault at \<open>va\<close>.\<close>

definition call_tf :: "u32 \<Rightarrow> u32 \<Rightarrow> u32 \<Rightarrow> u32 \<Rightarrow> u32 \<Rightarrow> u32 \<Rightarrow> trapframe \<Rightarrow> trapframe" where
  "call_tf num a1 a2 a3 a4 a5 tf =
     tf\<lparr>tf_trapno := T_SYSCALL, tf_err := 0,
        tf_regs := (tf_regs tf)\<lparr>reg_eax := num, reg_edx := a1, reg_ecx := a2, reg_ebx := a3, reg_edi := a4, reg_esi := a5\<rparr>\<rparr>"

definition fault_tf :: "bool \<Rightarrow> bool \<Rightarrow> trapframe \<Rightarrow> trapframe" where
  "fault_tf present wrt tf = tf\<lparr>tf_trapno := T_PGFLT, tf_err := 4 OR (if wrt then 2 else 0) OR (if present then 1 else 0)\<rparr>"

definition user_may :: "bool \<Rightarrow> u32 \<Rightarrow> bool" where
  "user_may wrt perm \<longleftrightarrow> perm AND PTE_U \<noteq> 0 \<and> (wrt \<longrightarrow> perm AND PTE_W \<noteq> 0)"

definition word_of :: "u32 \<Rightarrow> nat" where
  "word_of va = unat (PGOFF va div 4)"

text \<open>Bytes are parts of a word of the memory; a word is read and written at an aligned address.\<close>

fun aligned :: "width \<Rightarrow> u32 \<Rightarrow> bool" where
  "aligned Byte va = True"
| "aligned Word va = (va AND 3 = 0)"

fun read_at :: "width \<Rightarrow> u32 \<Rightarrow> u32 \<Rightarrow> u32" where
  "read_at Byte va w = take_bit 8 (drop_bit (8 * unat (va AND 3)) w)"
| "read_at Word va w = w"

fun write_at :: "width \<Rightarrow> u32 \<Rightarrow> u32 \<Rightarrow> u32 \<Rightarrow> u32" where
  "write_at Byte va x w = (let k = 8 * unat (va AND 3) in (w AND NOT (push_bit k 0xFF)) OR push_bit k (take_bit 8 x))"
| "write_at Word va x w = x"

fun fit :: "width \<Rightarrow> u32 \<Rightarrow> u32" where
  "fit Byte x = take_bit 8 x"
| "fit Word x = x"

text \<open>
  One step of the environment \<open>c\<close>, which the processor runs.  The frame kept by the kernel has the registers with which the
  environment was entered last.  The relation stands for the processor in user mode and not for code of the repository:  it
  has no timer interrupts and no other processors, and no step when a trap ends otherwise than by entering the same environment
  again.
\<close>

inductive ustep :: "nat \<Rightarrow> uprog \<times> kstate \<Rightarrow> uprog \<times> kstate \<Rightarrow> bool" for c where
  call: "curenv s = Some c \<Longrightarrow> trap (call_tf n a1 a2 a3 a4 a5 (env_tf (envs s c))) s = Inl (EnterUser c s') \<Longrightarrow>
    ustep c (Sys n a1 a2 a3 a4 a5 k, s) (k (reg_eax (tf_regs (env_tf (envs s' c)))), s')"
| envs: "i < NENV \<Longrightarrow> ustep c (Envs i k, s) (k (envs s i), s)"
| load: "env_pgdir (envs s c) = Some pg \<Longrightarrow> vmap s pg va = Some (f, perm) \<Longrightarrow> user_may False perm \<Longrightarrow> aligned wd va \<Longrightarrow>
    ustep c (Load wd va k, s) (k (read_at wd va (pmem s f (word_of va))), s)"
| store: "env_pgdir (envs s c) = Some pg \<Longrightarrow> vmap s pg va = Some (f, perm) \<Longrightarrow> user_may True perm \<Longrightarrow> aligned wd va \<Longrightarrow>
    ustep c (Store wd va x p, s) (p, wr (f, word_of va) (write_at wd va x (pmem s f (word_of va))) s)"
| load_fault: "curenv s = Some c \<Longrightarrow> env_pgdir (envs s c) = Some pg \<Longrightarrow>
    (case vmap s pg va of None \<Rightarrow> \<not> present | Some (f, perm) \<Rightarrow> present \<and> \<not> user_may False perm) \<Longrightarrow>
    trap (fault_tf present False (env_tf (envs s c))) (s\<lparr>cr2 := va\<rparr>) = Inl (EnterUser c s') \<Longrightarrow>
    ustep c (Load wd va k, s) (Load wd va k, s')"
| store_fault: "curenv s = Some c \<Longrightarrow> env_pgdir (envs s c) = Some pg \<Longrightarrow>
    (case vmap s pg va of None \<Rightarrow> \<not> present | Some (f, perm) \<Rightarrow> present \<and> \<not> user_may True perm) \<Longrightarrow>
    trap (fault_tf present True (env_tf (envs s c))) (s\<lparr>cr2 := va\<rparr>) = Inl (EnterUser c s') \<Longrightarrow>
    ustep c (Store wd va x p, s) (Store wd va x p, s')"

inductive_cases ustep_LoadE: "ustep c (Load wd va k, s) y"
inductive_cases ustep_SysE: "ustep c (Sys n a1 a2 a3 a4 a5 k, s) x"
inductive_cases ustep_StoreE: "ustep c (Store wd va x p, s) y"
inductive_cases ustep_EnvsE: "ustep c (Envs i k, s) x"

end
