(* ===== verification/UserRun.thy ===== *)
theory UserRun
  imports UserLib
begin

text \<open>
  User programs on the kernel.  A step of a program is determined, a system call reaches the handler with the arguments of the
  stub, and the first access to a page of an anonymous area finds it zero: the fault that brings it in is invisible.
\<close>

section \<open>Steps are determined\<close>

lemma ustep_det:
  assumes "ustep c x y" and "ustep c x z"
  shows "y = z"
  using assms
proof (induction rule: ustep.induct)
  case load
  then show ?case by (auto elim!: ustep_LoadE)
next
  case load_fault
  then show ?case by (auto elim!: ustep_LoadE split: option.splits)
next
  case store
  then show ?case by (auto elim!: ustep_StoreE)
next
  case store_fault
  then show ?case by (auto elim!: ustep_StoreE split: option.splits)
next
  case call
  then show ?case by (auto elim!: ustep_SysE)
next
  case envs
  then show ?case by (auto elim!: ustep_EnvsE)
qed

section \<open>System calls\<close>

text \<open>The dispatcher hands the registers of a stub to the handler in the order of the stub's arguments; the last two are not used.\<close>

lemma trap_dispatch_call:
  "trap_dispatch (call_tf num a1 a2 a3 a4 a5 tf) who s =
     rbind (syscall num a1 a2 a3 s) (\<lambda>(ret, s). Inr ((), set_eax who ret s))"
  by (simp add: trap_dispatch_def call_tf_def)

lemma libmain_call:
  "libmain umain argv g = Sys 2 0 0 0 0 0 (\<lambda>r.
     umain (g\<lparr>thisenv := ENVX r, binaryname := (if argv = [] then binaryname g else hd argv)\<rparr>) (\<lambda>g. u_exit g Returned))"
  by (simp add: libmain_def sys_getenvid_stub_def syscall_stub_def Let_def)

text \<open>
  C15: A program starts with a pointer to its own environment: the system call with which \<open>libmain\<close> begins goes through the
  trap handler and the dispatcher, and when its environment has an identifier that belongs to its place in the array,
  \<open>umain\<close> begins with \<open>thisenv\<close> at this place, where it reads its own identifier.  Of the environments only the saved
  registers and the number of the processor have changed.
\<close>

theorem libmain_knows_itself:
  assumes lk: "locked (locks s ENV_LOCK) = 0"
    and c: "curenv s = Some c" "env_status (envs s c) = ENV_RUNNING" "env_type (envs s c) \<noteq> ENV_TYPE_KERNEL"
    and cs: "tf_cs (env_tf (envs s c)) AND 3 = 3" and own: "ENVX (env_id (envs s c)) = c"
  shows "\<exists>s' tf. ustep c (libmain umain argv g, s)
      (umain (g\<lparr>thisenv := c, binaryname := (if argv = [] then binaryname g else hd argv)\<rparr>) (\<lambda>g. u_exit g Returned), s') \<and>
    envs s' = (envs s)(c := (envs s c)\<lparr>env_tf := tf, env_cpunum := cpunum s\<rparr>) \<and> curenv s' = Some c \<and> \<not> holds ENV_LOCK s' \<and>
    ustep c (Envs c k, s') (k (envs s' c), s') \<and> env_id (envs s' c) = env_id (envs s c)"
proof -
  let ?tf = "call_tf 2 0 0 0 0 0 (env_tf (envs s c))"
  have tf: "tf_trapno ?tf = T_SYSCALL" "tf_cs ?tf AND 3 = 3" "reg_eax (tf_regs ?tf) = 2 \<or> 10 < reg_eax (tf_regs ?tf)" "reg_eax (tf_regs ?tf) = 2"
    using cs by (simp_all add: call_tf_def)
  obtain s' where s': "trap ?tf s = Inl (EnterUser c s')" "curenv s' = Some c" "\<not> holds ENV_LOCK s'"
    "envs s' = (envs s)(c := (envs s c)\<lparr>env_tf := ?tf\<lparr>tf_regs := (tf_regs ?tf)\<lparr>reg_eax := env_id (envs s c)\<rparr>\<rparr>, env_cpunum := cpunum s\<rparr>)"
    using trap_simple_call [OF lk c tf(1,2,3)] tf(4) by auto
  have n: "c < NENV" using ENVX_bound [of "env_id (envs s c)"] own by simp
  have "ustep c (libmain umain argv g, s)
      (umain (g\<lparr>thisenv := c, binaryname := (if argv = [] then binaryname g else hd argv)\<rparr>) (\<lambda>g. u_exit g Returned), s')"
    using ustep.call [OF c(1) s'(1), of "\<lambda>r. umain (g\<lparr>thisenv := ENVX r, binaryname := (if argv = [] then binaryname g else hd argv)\<rparr>) (\<lambda>g. u_exit g Returned)"]
      own s'(4) by (simp add: libmain_call)
  then show ?thesis using s' ustep.envs [OF n, of c k s'] by auto
qed

definition sample_user :: kstate where
  "sample_user = upd_env 2 (\<lambda>x. x\<lparr>env_id := 0x1002, env_tf := zero_tf\<lparr>tf_cs := 0x1B\<rparr>\<rparr>) sample_fault"

lemma sample_user_fields:
  "curenv sample_user = Some 2" "locks sample_user l = spin_initlock" "env_status (envs sample_user 2) = ENV_RUNNING"
  "env_type (envs sample_user 2) = ENV_TYPE_USER" "tf_cs (env_tf (envs sample_user 2)) = 0x1B" "env_id (envs sample_user 2) = 0x1002"
  "env_pgdir (envs sample_user 2) = Some 1" "vmas (envs sample_user 2) 0 = vmas (envs sample_fault 2) 0"
  by (simp_all add: sample_user_def sample_fault_fields blank_env_def del: One_nat_def)

theorem libmain_knows_itself_witness:
  "\<exists>s'. ustep 2 (libmain (\<lambda>g k. Envs (thisenv g) (\<lambda>e. Print ''%x'' [Num (env_id e)] (k g))) [] ulib_start, sample_user)
      (Envs 2 (\<lambda>e. Print ''%x'' [Num (env_id e)] (u_exit (ulib_start\<lparr>thisenv := 2\<rparr>) Returned)), s') \<and> env_id (envs s' 2) = 0x1002"
proof -
  have "ENVX 0x1002 = 2" by (simp add: ENVX_def)
  then show ?thesis
    using libmain_knows_itself [of sample_user 2 "\<lambda>g k. Envs (thisenv g) (\<lambda>e. Print ''%x'' [Num (env_id e)] (k g))" "[]" ulib_start]
    by (auto simp: sample_user_fields spin_initlock_def)
qed

section \<open>Memory\<close>

lemma wf_pgdir_cr2 [simp]:
  "wf_pgdir (s\<lparr>cr2 := a\<rparr>) pg xs = wf_pgdir s pg xs" "lru_ok (s\<lparr>cr2 := a\<rparr>) as bs = lru_ok s as bs"
  "pt (s\<lparr>cr2 := a\<rparr>) = pt s" "pte_at (s\<lparr>cr2 := a\<rparr>) = pte_at s" "vmap (s\<lparr>cr2 := a\<rparr>) = vmap s" "curenv (s\<lparr>cr2 := a\<rparr>) = curenv s"
proof -
  show "wf_pgdir (s\<lparr>cr2 := a\<rparr>) pg xs = wf_pgdir s pg xs" by (rule wf_pgdir_cong(1); simp add: pfl_ok_def pfl_shape_def)
  show "pt (s\<lparr>cr2 := a\<rparr>) = pt s" "pte_at (s\<lparr>cr2 := a\<rparr>) = pte_at s" "vmap (s\<lparr>cr2 := a\<rparr>) = vmap s" by (rule view_pmem, simp)+
qed (simp_all add: lru_ok_def lru_seq_def curenv_def)

text \<open>A store of a program changes a page of data, so it leaves all translations alone.\<close>

lemma user_store_view:
  assumes wf: "wf_pgdir s pg xs" and d: "pdx va < UDIRS" and m: "vmap s pg va = Some (f, perm)"
  shows "wf_pgdir (wr (f, k) w s) pg xs" and "pdx b < UDIRS \<Longrightarrow> vmap (wr (f, k) w s) pg b = vmap s pg b"
proof -
  have "(pdx va, ptx va) \<in> mappings s pg f" using m d by (auto simp: vmap_def mappings_def Let_def split: if_splits)
  then have "mappings s pg f \<noteq> {}" by blast
  then have f: "f \<noteq> pg" "\<forall>d < UDIRS. pt s pg d \<noteq> Some f" using wf_pgdirD(8) [OF wf] by blast+
  note l = wf_pgdir_local [OF wf _ f, of "wr (f, k) w s"]
  show "wf_pgdir (wr (f, k) w s) pg xs" by (rule l(1)) (simp_all add: wr_def)
  show "pdx b < UDIRS \<Longrightarrow> vmap (wr (f, k) w s) pg b = vmap s pg b" by (rule vmap_cong, rule l(3)) (simp_all add: wr_def)
qed

lemma byte_in_word:
  assumes "k + 8 \<le> 32"
  shows "take_bit 8 (drop_bit k ((w AND NOT (push_bit k (mask 8))) OR push_bit k (take_bit 8 x))) = take_bit 8 (x :: u32)"
proof (rule word_eqI32)
  fix n :: nat
  assume "n < 32"
  then show "bit (take_bit 8 (drop_bit k ((w AND NOT (push_bit k (mask 8))) OR push_bit k (take_bit 8 x)))) n = bit (take_bit 8 x) n"
    using assms by (cases "n < 8") (simp_all add: bit_simps)
qed

lemma read_write_at: "read_at wd va (write_at wd va x w) = fit wd x"
proof (cases wd)
  case Byte
  have "va AND 3 \<le> 3" by (rule word_and_le1)
  then have "8 * unat (va AND 3) + 8 \<le> 32" by (simp add: word_le_nat_alt)
  from byte_in_word [OF this, of w x] show ?thesis
    unfolding Byte read_at.simps write_at.simps fit.simps Let_def by (simp add: mask_eq_exp_minus_1)
next
  case Word
  then show ?thesis by simp
qed

text \<open>
  The first access to a page of an anonymous area, as a step of the program: the fault changes nothing that the program can
  see but that the page is there, zeroed.
\<close>

lemma user_fault:
  assumes wf: "wf_pgdir s pg (p # ps)" and lru: "lru_ok s as bs" "p \<notin> set as" "p \<notin> set bs" and p0: "p \<noteq> 0"
    and lk: "locked (locks s ENV_LOCK) = 0" "locked (locks s PAGEALLOC_LOCK) = 0"
    and c: "curenv s = Some c" "env_pgdir (envs s c) = Some pg" "env_status (envs s c) = ENV_RUNNING" "env_type (envs s c) \<noteq> ENV_TYPE_KERNEL"
    and cs: "tf_cs (env_tf (envs s c)) AND 3 = 3"
    and d: "pdx va < UDIRS" and pte: "pte_at s pg (pdx va) (ptx va) = 0" and room: "pt s pg (pdx va) \<noteq> None \<or> ps \<noteq> []"
    and v: "vma_lookup va (envs s c) = (Inr (Some v) :: kstate stop + _)" and w: "vmas (envs s c) v = w" "v_type w \<noteq> VMA_BINARY" "\<not> hps w"
    and perm: "v_perm w < 0x1000" "v_perm w AND PTE_P = 0" "v_perm w AND PTE_PS = 0"
  obtains s' ys where "trap (fault_tf False wrt (env_tf (envs s c))) (s\<lparr>cr2 := va\<rparr>) = Inl (EnterUser c s')" and "wf_pgdir s' pg ys"
    and "pmem s' p = (\<lambda>_. 0)" and "env_pgdir (envs s' c) = Some pg" and "vmap s' pg va = Some (p, v_perm w OR PTE_P)"
    and "\<forall>b. pdx b < UDIRS \<longrightarrow> \<not> same_page va b \<longrightarrow> vmap s' pg b = vmap s pg b"
proof -
  let ?tf = "fault_tf False wrt (env_tf (envs s c))"
  have tf: "tf_trapno ?tf = T_PGFLT" "tf_cs ?tf AND 3 = 3" "tf_err ?tf AND 4 \<noteq> 0" "tf_err ?tf AND 1 = 0"
    using cs by (simp_all add: fault_tf_def)
  have "\<exists>s'. trap ?tf (s\<lparr>cr2 := va\<rparr>) = Inl (EnterUser c s') \<and> (\<exists>ys. wf_pgdir s' pg ys) \<and> pmem s' p = (\<lambda>_. 0) \<and> pp_ref (pages s' p) = 1 \<and>
    (\<forall>b. pdx b < UDIRS \<longrightarrow> vmap s' pg b = (if same_page (cr2 (s\<lparr>cr2 := va\<rparr>)) b then Some (p, v_perm w OR PTE_P) else vmap (s\<lparr>cr2 := va\<rparr>) pg b)) \<and>
    envs s' = (envs (s\<lparr>cr2 := va\<rparr>))(c := (envs (s\<lparr>cr2 := va\<rparr>) c)\<lparr>env_tf := ?tf, env_alloc_pages := env_alloc_pages (envs (s\<lparr>cr2 := va\<rparr>) c) + 1,
      env_cpunum := cpunum (s\<lparr>cr2 := va\<rparr>)\<rparr>) \<and>
    curenv s' = Some c \<and> (\<forall>l. \<not> holds l (s\<lparr>cr2 := va\<rparr>) \<longrightarrow> \<not> holds l s')"
    by (rule trap_anon_fault [where ps = ps and as = as and bs = bs and v = v]) (use assms tf in simp_all)
  then obtain s' ys where s': "trap ?tf (s\<lparr>cr2 := va\<rparr>) = Inl (EnterUser c s')" "wf_pgdir s' pg ys" "pmem s' p = (\<lambda>_. 0)"
    "\<forall>b. pdx b < UDIRS \<longrightarrow> vmap s' pg b = (if same_page va b then Some (p, v_perm w OR PTE_P) else vmap s pg b)"
    "envs s' = (envs s)(c := (envs s c)\<lparr>env_tf := ?tf, env_alloc_pages := env_alloc_pages (envs s c) + 1, env_cpunum := cpunum s\<rparr>)"
    by auto
  then show ?thesis using that [of s' ys] c(2) d by (simp add: same_page_def)
qed

text \<open>
  The first access of a program to a page of an anonymous area, by words and by bytes.  A read of an address whose page is not
  there yet faults, the kernel brings in a page, and the program goes on with 0; a write followed by a read of the address
  goes on with the value written, if the area may be written.  The other pages of the program are mapped as before.  The
  steps are those of \<open>ustep\<close>, of a program that nothing interrupts.
\<close>

lemma user_memory_on_demand:
  assumes wf: "wf_pgdir s pg (p # ps)" and lru: "lru_ok s as bs" "p \<notin> set as" "p \<notin> set bs" and p0: "p \<noteq> 0"
    and lk: "locked (locks s ENV_LOCK) = 0" "locked (locks s PAGEALLOC_LOCK) = 0"
    and c: "curenv s = Some c" "env_pgdir (envs s c) = Some pg" "env_status (envs s c) = ENV_RUNNING" "env_type (envs s c) \<noteq> ENV_TYPE_KERNEL"
    and cs: "tf_cs (env_tf (envs s c)) AND 3 = 3"
    and d: "pdx va < UDIRS" and pte: "pte_at s pg (pdx va) (ptx va) = 0" and room: "pt s pg (pdx va) \<noteq> None \<or> ps \<noteq> []"
    and v: "vma_lookup va (envs s c) = (Inr (Some v) :: kstate stop + _)" and w: "vmas (envs s c) v = w" "v_type w \<noteq> VMA_BINARY" "\<not> hps w"
    and perm: "v_perm w < 0x1000" "v_perm w AND PTE_P = 0" "v_perm w AND PTE_PS = 0" "v_perm w AND PTE_U \<noteq> 0"
    and al: "aligned wd va"
  shows "(\<exists>s1. (ustep c ^^ 2) (Load wd va k, s) (k 0, s1) \<and>
      (\<forall>b. pdx b < UDIRS \<longrightarrow> \<not> same_page va b \<longrightarrow> vmap s1 pg b = vmap s pg b)) \<and>
    (v_perm w AND PTE_W \<noteq> 0 \<longrightarrow>
      (\<exists>s2. (ustep c ^^ 3) (Store wd va x (Load wd va k), s) (k (fit wd x), s2) \<and>
        (\<forall>b. pdx b < UDIRS \<longrightarrow> \<not> same_page va b \<longrightarrow> vmap s2 pg b = vmap s pg b)))"
proof -
  have none: "vmap s pg va = None" using pte by (simp add: vmap_def)
  have u: "user_may False (v_perm w OR PTE_P)" "v_perm w AND PTE_W \<noteq> 0 \<Longrightarrow> user_may True (v_perm w OR PTE_P)"
    using perm(4) by (auto simp: user_may_def bit.conj_disj_distrib2 PTE_U_def PTE_W_def PTE_P_def)
  obtain s1 ys where 1: "trap (fault_tf False False (env_tf (envs s c))) (s\<lparr>cr2 := va\<rparr>) = Inl (EnterUser c s1)" "wf_pgdir s1 pg ys"
    "pmem s1 p = (\<lambda>_. 0)" "env_pgdir (envs s1 c) = Some pg" "vmap s1 pg va = Some (p, v_perm w OR PTE_P)"
    "\<forall>b. pdx b < UDIRS \<longrightarrow> \<not> same_page va b \<longrightarrow> vmap s1 pg b = vmap s pg b"
    by (rule user_fault [OF wf lru p0 lk c cs d pte room v w perm(1,2,3)])
  have "ustep c (Load wd va k, s) (Load wd va k, s1)"
    using ustep.load_fault [OF c(1,2), where va = va and present = False and s' = s1 and k = k and wd = wd] none 1(1) by simp
  moreover have "ustep c (Load wd va k, s1) (k 0, s1)"
    using ustep.load [OF 1(4,5) u(1) al, of k] 1(3) by (cases wd) simp_all
  ultimately have read: "(ustep c ^^ 2) (Load wd va k, s) (k 0, s1)" by (auto simp: numeral_2_eq_2)
  obtain s2 zs where 2: "trap (fault_tf False True (env_tf (envs s c))) (s\<lparr>cr2 := va\<rparr>) = Inl (EnterUser c s2)" "wf_pgdir s2 pg zs"
    "pmem s2 p = (\<lambda>_. 0)" "env_pgdir (envs s2 c) = Some pg" "vmap s2 pg va = Some (p, v_perm w OR PTE_P)"
    "\<forall>b. pdx b < UDIRS \<longrightarrow> \<not> same_page va b \<longrightarrow> vmap s2 pg b = vmap s pg b"
    by (rule user_fault [OF wf lru p0 lk c cs d pte room v w perm(1,2,3)])
  let ?s3 = "wr (p, word_of va) (write_at wd va x (pmem s2 p (word_of va))) s2"
  note view = user_store_view(2) [OF 2(2) d 2(5)]
  have "(ustep c ^^ 3) (Store wd va x (Load wd va k), s) (k (fit wd x), ?s3)" if "v_perm w AND PTE_W \<noteq> 0"
  proof -
    have "ustep c (Store wd va x (Load wd va k), s) (Store wd va x (Load wd va k), s2)"
      using ustep.store_fault [OF c(1,2), where va = va and present = False and s' = s2 and x = x and wd = wd] none 2(1) by simp
    moreover have "ustep c (Store wd va x (Load wd va k), s2) (Load wd va k, ?s3)"
      by (rule ustep.store [OF 2(4,5) u(2) [OF that] al])
    moreover have "ustep c (Load wd va k, ?s3) (k (fit wd x), ?s3)"
      using ustep.load [of ?s3 c pg va p "v_perm w OR PTE_P" wd k] 2(4,5) view [OF d] u(1) al by (simp add: wr_def write_mem_def read_write_at)
    ultimately show ?thesis by (auto simp: numeral_3_eq_3)
  qed
  moreover have "\<forall>b. pdx b < UDIRS \<longrightarrow> \<not> same_page va b \<longrightarrow> vmap ?s3 pg b = vmap s pg b" using 2(6) view by simp
  ultimately show ?thesis using read 1(6) by blast
qed

end
