(* ===== verification/UserPrograms.thy ===== *)
theory UserPrograms
  imports UserLib
begin

text \<open>
  The user programs under \<^verbatim>\<open>user/\<close>, each as the tree of its actions.  \<open>k\<close> is what follows \<open>umain\<close>.  Addresses of global
  variables are parameters.  A loop that does not end on its own has fuel for its rounds.
\<close>

definition env_field :: "ulib \<Rightarrow> (env \<Rightarrow> uprog) \<Rightarrow> uprog" where
  "env_field g k = Envs (thisenv g) k"

section \<open>Programs that misbehave\<close>

definition umain_aslr :: "u32 \<Rightarrow> u32 \<Rightarrow> ulib \<Rightarrow> (ulib \<Rightarrow> uprog) \<Rightarrow> uprog" where
  "umain_aslr foo cputs g k =
     Load Word foo (\<lambda>p.
     Print ''foo: %p\<newline>'' [Num p] (
     Print ''&sys_cputs: %p\<newline>'' [Num cputs] (
     u_panic g ''user/aslr.c'' 10 ''die'' [])))"

definition umain_badsegment :: "ulib \<Rightarrow> (ulib \<Rightarrow> uprog) \<Rightarrow> uprog" where
  "umain_badsegment g k = Exception 13 (k g)"

definition umain_breakpoint :: "ulib \<Rightarrow> (ulib \<Rightarrow> uprog) \<Rightarrow> uprog" where
  "umain_breakpoint g k = Interrupt 3 (k g)"

definition umain_softint :: "ulib \<Rightarrow> (ulib \<Rightarrow> uprog) \<Rightarrow> uprog" where
  "umain_softint g k = Interrupt 14 (k g)"

definition umain_buggyhello :: "ulib \<Rightarrow> (ulib \<Rightarrow> uprog) \<Rightarrow> uprog" where
  "umain_buggyhello g k = sys_cputs_stub g 1 1 (k g)"

definition umain_buggyhello2 :: "u32 \<Rightarrow> ulib \<Rightarrow> (ulib \<Rightarrow> uprog) \<Rightarrow> uprog" where
  "umain_buggyhello2 hello g k = Load Word hello (\<lambda>p. sys_cputs_stub g p (1024 * 1024) (k g))"

definition umain_evilhello :: "ulib \<Rightarrow> (ulib \<Rightarrow> uprog) \<Rightarrow> uprog" where
  "umain_evilhello g k = sys_cputs_stub g 0xf010000c 100 (k g)"

definition umain_divzero :: "u32 \<Rightarrow> ulib \<Rightarrow> (ulib \<Rightarrow> uprog) \<Rightarrow> uprog" where
  "umain_divzero zero g k =
     Store Word zero 0 (
     Load Word zero (\<lambda>z.
     if z = 0 then Exception 0 (k g) else Print ''1/0 is %08x!\<newline>'' [Num (if z = 1 \<or> z = - 1 then z else 0)] (k g)))"

definition umain_faultread :: "ulib \<Rightarrow> (ulib \<Rightarrow> uprog) \<Rightarrow> uprog" where
  "umain_faultread g k = Load Word 0 (\<lambda>v. Print ''I read %08x from location 0!\<newline>'' [Num v] (k g))"

definition umain_faultreadkernel :: "ulib \<Rightarrow> (ulib \<Rightarrow> uprog) \<Rightarrow> uprog" where
  "umain_faultreadkernel g k = Load Word 0xf0100000 (\<lambda>v. Print ''I read %08x from location 0xf0100000!\<newline>'' [Num v] (k g))"

definition umain_faultwrite :: "ulib \<Rightarrow> (ulib \<Rightarrow> uprog) \<Rightarrow> uprog" where
  "umain_faultwrite g k = Store Word 0 0 (k g)"

definition umain_faultwritekernel :: "ulib \<Rightarrow> (ulib \<Rightarrow> uprog) \<Rightarrow> uprog" where
  "umain_faultwritekernel g k = Store Word 0xf0100000 0 (k g)"

section \<open>Processes\<close>

definition umain_hello :: "ulib \<Rightarrow> (ulib \<Rightarrow> uprog) \<Rightarrow> uprog" where
  "umain_hello g k =
     Print ''hello, world\<newline>'' [] (
     env_field g (\<lambda>e. Print ''i am environment %08x\<newline>'' [Num (env_id e)] (k g)))"

fun yield_loop :: "nat \<Rightarrow> nat \<Rightarrow> ulib \<Rightarrow> uprog \<Rightarrow> uprog" where
  "yield_loop 0 i g p = p"
| "yield_loop (Suc n) i g p =
     sys_yield_stub g (
     env_field g (\<lambda>e. Print ''Back in environment %08x, iteration %d.\<newline>'' [Num (env_id e), Num (of_nat i)] (
     yield_loop n (Suc i) g p)))"

definition umain_yield :: "ulib \<Rightarrow> (ulib \<Rightarrow> uprog) \<Rightarrow> uprog" where
  "umain_yield g k =
     env_field g (\<lambda>e. Print ''Hello, I am environment %08x.\<newline>'' [Num (env_id e)] (
     yield_loop 5 0 g (
     env_field g (\<lambda>e. Print ''All done in environment %08x.\<newline>'' [Num (env_id e)] (k g)))))"

definition DEPTH :: nat where "DEPTH = 3"

text \<open>The buffer \<open>nxt\<close> has room for \<open>DEPTH\<close> characters and the null character.\<close>

function forkchild :: "ulib \<Rightarrow> string \<Rightarrow> char \<Rightarrow> (ulib \<Rightarrow> uprog) \<Rightarrow> uprog"
  and forktree :: "ulib \<Rightarrow> string \<Rightarrow> (ulib \<Rightarrow> uprog) \<Rightarrow> uprog" where
  "forkchild g cur branch k =
     (if length cur \<ge> DEPTH then k g
      else
        u_fork g (\<lambda>g i. if i = 0 then forktree g (take DEPTH (cur @ [branch])) (\<lambda>g. u_exit g (k g)) else k g))"
| "forktree g cur k =
     sys_getenvid_stub g (\<lambda>r.
     Print ''%04x: I am '%s'\<newline>'' [Num r, Str cur] (
     forkchild g cur CHR ''0'' (\<lambda>g. forkchild g cur CHR ''1'' k)))"
  by pat_completeness auto
termination
  by (relation "measure (\<lambda>x. case x of Inl (g, cur, b, k) \<Rightarrow> 2 * (DEPTH - length cur) | Inr (g, cur, k) \<Rightarrow> 2 * (DEPTH - length cur) + 1)")
    auto

definition umain_forktree :: "ulib \<Rightarrow> (ulib \<Rightarrow> uprog) \<Rightarrow> uprog" where
  "umain_forktree g k = forktree g '''' k"

definition print_cpunum :: "ulib \<Rightarrow> (ulib \<Rightarrow> uprog) \<Rightarrow> uprog" where
  "print_cpunum g k =
     sys_getenvid_stub g (\<lambda>r.
     let g = g\<lparr>thisenv := ENVX r\<rparr> in
     env_field g (\<lambda>e1. env_field g (\<lambda>e2.
     Print ''[%08x] Running on cpu: %d\<newline>'' [Num (env_id e1), Num (of_nat (env_cpunum e2))] (k g))))"

definition fork_or_say :: "string \<Rightarrow> ulib \<Rightarrow> (ulib \<Rightarrow> uprog) \<Rightarrow> uprog" where
  "fork_or_say txt g k = u_fork g (\<lambda>g i. if 0 > sint i then Print txt [] (k g) else k g)"

definition umain_mcorefork :: "ulib \<Rightarrow> (ulib \<Rightarrow> uprog) \<Rightarrow> uprog" where
  "umain_mcorefork g k =
     fork_or_say ''First fork() failed.\<newline>'' g (\<lambda>g.
     fork_or_say ''Second fork() failed.\<newline>'' g (\<lambda>g.
     fork_or_say ''Third fork() failed.\<newline>'' g (\<lambda>g.
     print_cpunum g k)))"

fun yields :: "nat \<Rightarrow> ulib \<Rightarrow> uprog \<Rightarrow> uprog" where
  "yields 0 g p = p"
| "yields (Suc n) g p = sys_yield_stub g (yields n g p)"

definition umain_spin :: "ulib \<Rightarrow> (ulib \<Rightarrow> uprog) \<Rightarrow> uprog" where
  "umain_spin g k =
     Print ''I am the parent.  Forking the child...\<newline>'' [] (
     u_fork g (\<lambda>g env.
     if env = 0 then Print ''I am the child.  Spinning...\<newline>'' [] Spin
     else
       Print ''I am the parent.  Running the child...\<newline>'' [] (
       yields 8 g (
       Print ''I am the parent.  Killing the child... %u\<newline>'' [Num env] (
       sys_env_destroy_stub g env (\<lambda>_. k g))))))"

text \<open>The array \<open>envs\<close> is volatile: each use of a field is a read of its own.\<close>

fun only_program_loop :: "nat \<Rightarrow> nat \<Rightarrow> nat \<Rightarrow> (bool \<Rightarrow> uprog) \<Rightarrow> uprog" where
  "only_program_loop 0 i count k = k (count < 1)"
| "only_program_loop (Suc n) i count k =
     (let alive = Envs i (\<lambda>e. only_program_loop n (Suc i) (if env_type e \<noteq> ENV_TYPE_IDLE then Suc count else count) k) in
      Envs i (\<lambda>e.
      if env_status e = ENV_RUNNABLE then alive
      else Envs i (\<lambda>e. if env_status e = ENV_RUNNING then alive else only_program_loop n (Suc i) count k)))"

definition only_program :: "(bool \<Rightarrow> uprog) \<Rightarrow> uprog" where
  "only_program k = only_program_loop NENV 0 0 k"

fun idle_loop :: "nat \<Rightarrow> ulib \<Rightarrow> uprog" where
  "idle_loop 0 g = NoFuel"
| "idle_loop (Suc n) g =
     only_program (\<lambda>only.
     if only then
       env_field g (\<lambda>e. Print '' No user programs running, killing the Idle process [%x]\<newline>'' [Num (env_id e)] (
       env_field g (\<lambda>e. sys_env_destroy_stub g (env_id e) (\<lambda>_. sys_yield_stub g (idle_loop n g)))))
     else sys_yield_stub g (idle_loop n g))"

definition umain_idle :: "nat \<Rightarrow> ulib \<Rightarrow> (ulib \<Rightarrow> uprog) \<Rightarrow> uprog" where
  "umain_idle n g k = idle_loop n (g\<lparr>binaryname := ''idle''\<rparr>)"

fun ktask_loop :: "nat \<Rightarrow> u32 \<Rightarrow> ulib \<Rightarrow> uprog" where
  "ktask_loop 0 tp g = NoFuel"
| "ktask_loop (Suc n) tp g =
     Load Word tp (\<lambda>t.
     Print ''t_list: %x\<newline>'' [Num t] (
     Print ''ktask printing...\<newline>'' [] (
     sys_yield_stub g (ktask_loop n tp g))))"

definition umain_ktask :: "nat \<Rightarrow> ulib \<Rightarrow> (ulib \<Rightarrow> uprog) \<Rightarrow> uprog" where
  "umain_ktask n g k = ktask_loop n (KERNBASE - PGSIZE) (g\<lparr>binaryname := ''ktask''\<rparr>)"

fun fork_loop :: "nat \<Rightarrow> nat \<Rightarrow> ulib \<Rightarrow> (ulib \<Rightarrow> nat \<Rightarrow> uprog) \<Rightarrow> uprog" where
  "fork_loop 0 i g k = k g i"
| "fork_loop (Suc n) i g k = u_fork g (\<lambda>g r. if r = 0 then k g i else fork_loop n (Suc i) g k)"

fun await_free :: "nat \<Rightarrow> nat \<Rightarrow> uprog \<Rightarrow> uprog" where
  "await_free 0 i p = NoFuel"
| "await_free (Suc n) i p = Envs i (\<lambda>e. if env_status e \<noteq> ENV_FREE then await_free n i p else p)"

fun count_up :: "nat \<Rightarrow> u32 \<Rightarrow> uprog \<Rightarrow> uprog" where
  "count_up 0 counter p = p"
| "count_up (Suc n) counter p = Load Word counter (\<lambda>v. Store Word counter (v + 1) (count_up n counter p))"

fun stress_loop :: "nat \<Rightarrow> u32 \<Rightarrow> ulib \<Rightarrow> uprog \<Rightarrow> uprog" where
  "stress_loop 0 counter g p = p"
| "stress_loop (Suc n) counter g p = sys_yield_stub g (count_up 10000 counter (stress_loop n counter g p))"

definition umain_stresssched :: "nat \<Rightarrow> u32 \<Rightarrow> ulib \<Rightarrow> (ulib \<Rightarrow> uprog) \<Rightarrow> uprog" where
  "umain_stresssched fuel counter g k =
     sys_getenvid_stub g (\<lambda>parent.
     fork_loop 20 0 g (\<lambda>g i.
     if i = 20 then sys_yield_stub g (k g)
     else
       await_free fuel (ENVX parent) (
       stress_loop 10 counter g (
       Load Word counter (\<lambda>v.
       if v \<noteq> 10 * 10000 then
         Load Word counter (\<lambda>v. u_panic g ''user/stresssched.c'' 32 ''ran on two CPUs at once (counter is %d)'' [Num v])
       else
         env_field g (\<lambda>e1. env_field g (\<lambda>e2.
         Print ''[%08x] stresssched on CPU %d\<newline>'' [Num (env_id e1), Num (of_nat (env_cpunum e2))] (k g))))))))"

section \<open>Memory\<close>

text \<open>\<open>g\<close> of the program is at the address \<open>ga\<close>; its page-table entry is read through \<open>uvpt\<close>.\<close>

definition own_pte :: "u32 \<Rightarrow> (u32 \<Rightarrow> uprog) \<Rightarrow> uprog" where
  "own_pte ga k = Load Word (UVPT + 4 * (ga div PGSIZE)) k"

definition cow_child :: "u32 \<Rightarrow> u32 \<Rightarrow> u32 \<Rightarrow> ulib \<Rightarrow> uprog \<Rightarrow> uprog" where
  "cow_child ga parent_id orig_pte g p =
     (let check = u_assert g ''user/cowforktest.c'' in
      env_field g (\<lambda>e.
      let child_id = env_id e in
      Print ''child: %d parent: %d'' [Num child_id, Num parent_id] (
      check 25 ''child_id != parent_id'' (child_id \<noteq> parent_id) (
      Load Word ga (\<lambda>v.
      Print ''[%08x] g[0] = %x\<newline>'' [Num child_id, Num v] (
      Load Word ga (\<lambda>v.
      check 27 ''g[0] == parent_id'' (v = parent_id) (
      own_pte ga (\<lambda>new_pte.
      Print ''[%08x] g child pte: %x\<newline>'' [Num child_id, Num new_pte] (
      check 31 ''PTE_ADDR(new_pte) == PTE_ADDR(orig_pte)'' (PTE_ADDR new_pte = PTE_ADDR orig_pte) (
      check 32 ''(new_pte & PTE_P) == PTE_P'' (new_pte AND PTE_P = PTE_P) (
      check 33 ''(new_pte & PTE_W) == 0'' (new_pte AND PTE_W = 0) (
      Store Word ga child_id (
      own_pte ga (\<lambda>new_pte.
      Load Word ga (\<lambda>v.
      Print ''[%08x] g[0] = %x (pte: %x)\<newline>'' [Num child_id, Num v, Num new_pte] (
      check 39 ''PTE_ADDR(new_pte) != PTE_ADDR(orig_pte)'' (PTE_ADDR new_pte \<noteq> PTE_ADDR orig_pte) p)))))))))))))))))"

definition cow_parent :: "u32 \<Rightarrow> u32 \<Rightarrow> u32 \<Rightarrow> u32 \<Rightarrow> ulib \<Rightarrow> uprog \<Rightarrow> uprog" where
  "cow_parent ga parent_id orig_pte child_id g p =
     (let check = u_assert g ''user/cowforktest.c'' in
      sys_wait_stub g child_id (\<lambda>_.
      Load Word ga (\<lambda>v.
      Print ''[%08x] g[0] = %x\<newline>'' [Num parent_id, Num v] (
      Load Word ga (\<lambda>v.
      check 44 ''g[0] == parent_id'' (v = parent_id) (
      own_pte ga (\<lambda>new_pte.
      Print ''[%08x] g parent pte: %x\<newline>'' [Num parent_id, Num new_pte] (
      check 48 ''PTE_ADDR(new_pte) == PTE_ADDR(orig_pte)'' (PTE_ADDR new_pte = PTE_ADDR orig_pte) (
      Store Word ga 0 (
      own_pte ga (\<lambda>new_pte.
      Load Word ga (\<lambda>v.
      Print ''[%08x] g[0] = %x (pte: %x)\<newline>'' [Num parent_id, Num v, Num new_pte] (
      check 53 ''PTE_ADDR(new_pte) == PTE_ADDR(orig_pte)'' (PTE_ADDR new_pte = PTE_ADDR orig_pte) p)))))))))))))"

definition umain_cowforktest :: "u32 \<Rightarrow> ulib \<Rightarrow> (ulib \<Rightarrow> uprog) \<Rightarrow> uprog" where
  "umain_cowforktest ga g k =
     env_field g (\<lambda>e.
     let parent_id = env_id e in
     env_field g (\<lambda>e.
     Store Word ga (env_id e) (
     own_pte ga (\<lambda>orig_pte.
     Load Word ga (\<lambda>v.
     Print ''[%08x] g[0](%08x) = %x (pte: %x)\<newline>'' [Num parent_id, Num ga, Num v, Num orig_pte] (
     u_fork g (\<lambda>g child_id.
     let finish = Print ''cowforktest completed.\<newline>'' [] (k g) in
     if sint child_id < 0 then u_panic g ''user/cowforktest.c'' 19 ''fork'' []
     else if child_id = 0 then cow_child ga parent_id orig_pte g finish
     else cow_parent ga parent_id orig_pte child_id g finish)))))))"

abbreviation TILE_SIZE :: u32 where "TILE_SIZE \<equiv> 4096"

definition umain_mapunmap :: "ulib \<Rightarrow> (ulib \<Rightarrow> uprog) \<Rightarrow> uprog" where
  "umain_mapunmap g k =
     sys_vma_create_stub g (6 * TILE_SIZE) 2 1 (\<lambda>va.
     Store Word va 0x7777 (
     sys_vma_destroy_stub g (va + 2 * TILE_SIZE) (2 * TILE_SIZE) (\<lambda>r.
     u_assert g ''user/mapunmap.c'' 22 ''0 == sys_vma_destroy((void *)(va + TILE(2)), STRIPE_SPACE)'' (r = 0) (
     Print ''MAPUNMAP WORKING 2\<newline>'' [] (
     Store Word (va + 0 * TILE_SIZE) 0x02020202 (
     Store Word (va + 5 * TILE_SIZE) 0x04040404 (
     Store Word (va + 4 * TILE_SIZE) 0x04040404 (
     Store Word (va + 1 * TILE_SIZE) 0x08080808 (
     Print ''0+5 == 4+1\<newline>'' [] (
     Store Word (va + 2 * TILE_SIZE) 0x0BADB10C (
     u_panic g ''user/mapunmap.c'' 34 ''SHOULD HAVE TRAPPED!!!'' [])))))))))))"

definition MEM_BLOCK_SIZE :: nat where "MEM_BLOCK_SIZE = 55 * 1024 * 1024"

function press_write :: "u32 \<Rightarrow> nat \<Rightarrow> uprog \<Rightarrow> uprog" where
  "press_write gigs i p =
     (if i < MEM_BLOCK_SIZE then
        Print ''USER pt.1: %d/%d\<newline>'' [Num (of_nat i), Num (of_nat MEM_BLOCK_SIZE)] (
        Store Byte (gigs + of_nat i) 0x61 (press_write gigs (i + 4096) p))
      else p)"
  by pat_completeness auto
termination by (relation "measure (\<lambda>(gigs, i, p). MEM_BLOCK_SIZE - i)") auto

function press_read :: "ulib \<Rightarrow> string \<Rightarrow> u32 \<Rightarrow> u32 \<Rightarrow> nat \<Rightarrow> uprog \<Rightarrow> uprog" where
  "press_read g file line gigs i p =
     (if i < MEM_BLOCK_SIZE then
        Print ''USER pt.2: %d/%d\<newline>'' [Num (of_nat i), Num (of_nat MEM_BLOCK_SIZE)] (
        Load Byte (gigs + of_nat i) (\<lambda>v.
        u_assert g file line ''gigs[i] == (char) 0x61'' (v = 0x61) (press_read g file line gigs (i + 4096 * 4096) p)))
      else p)"
  by pat_completeness auto
termination by (relation "measure (\<lambda>(g, file, line, gigs, i, p). MEM_BLOCK_SIZE - i)") auto

text \<open>The variable \<open>gigs\<close> is not changed after the call, so its later reads are left out.\<close>

definition umain_mempress :: "u32 \<Rightarrow> ulib \<Rightarrow> (ulib \<Rightarrow> uprog) \<Rightarrow> uprog" where
  "umain_mempress gigs_var g k =
     sys_vma_create_stub g (of_nat MEM_BLOCK_SIZE) PTE_W 0 (\<lambda>gigs.
     Store Word gigs_var gigs (
     press_write gigs 37 (
     press_read g ''user/mempress.c'' 54 gigs 37 (
     Print ''mempress successful.\<newline>'' [] (k g)))))"

definition umain_mempressc :: "u32 \<Rightarrow> ulib \<Rightarrow> (ulib \<Rightarrow> uprog) \<Rightarrow> uprog" where
  "umain_mempressc gigs_var g k =
     sys_vma_create_stub g (of_nat MEM_BLOCK_SIZE) PTE_W 0 (\<lambda>gigs.
     Store Word gigs_var gigs (
     press_write gigs 37 (
     press_read g ''user/mempressc.c'' 26 gigs 37 (
     Print ''mempress successful.\<newline>'' [] (k g)))))"

definition ARRAYSIZE :: nat where "ARRAYSIZE = 1024 * 1024"

fun bss_cleared :: "nat \<Rightarrow> u32 \<Rightarrow> nat \<Rightarrow> ulib \<Rightarrow> uprog \<Rightarrow> uprog" where
  "bss_cleared 0 a i g p = p"
| "bss_cleared (Suc n) a i g p =
     Load Word (a + 4 * of_nat i) (\<lambda>v.
     if v \<noteq> 0 then u_panic g ''user/testbss.c'' 16 ''bigarray[%d] isn't cleared!\<newline>'' [Num (of_nat i)]
     else bss_cleared n a (Suc i) g p)"

fun bss_fill :: "nat \<Rightarrow> u32 \<Rightarrow> nat \<Rightarrow> uprog \<Rightarrow> uprog" where
  "bss_fill 0 a i p = p"
| "bss_fill (Suc n) a i p = Store Word (a + 4 * of_nat i) (of_nat i) (bss_fill n a (Suc i) p)"

fun bss_holds :: "nat \<Rightarrow> u32 \<Rightarrow> nat \<Rightarrow> ulib \<Rightarrow> uprog \<Rightarrow> uprog" where
  "bss_holds 0 a i g p = p"
| "bss_holds (Suc n) a i g p =
     Load Word (a + 4 * of_nat i) (\<lambda>v.
     if v \<noteq> of_nat i then u_panic g ''user/testbss.c'' 21 ''bigarray[%d] didn't hold its value!\<newline>'' [Num (of_nat i)]
     else bss_holds n a (Suc i) g p)"

definition umain_testbss :: "u32 \<Rightarrow> ulib \<Rightarrow> (ulib \<Rightarrow> uprog) \<Rightarrow> uprog" where
  "umain_testbss a g k =
     Print ''Making sure bss works right...\<newline>'' [] (
     bss_cleared ARRAYSIZE a 0 g (
     bss_fill ARRAYSIZE a 0 (
     bss_holds ARRAYSIZE a 0 g (
     Print ''Yes, good.  Now doing a wild write off the end...\<newline>'' [] (
     Store Word (a + 4 * (of_nat ARRAYSIZE + 1024)) 0 (
     u_panic g ''user/testbss.c'' 25 ''SHOULD HAVE TRAPPED!!!'' []))))))"

definition umain_vmatest :: "ulib \<Rightarrow> (ulib \<Rightarrow> uprog) \<Rightarrow> uprog" where
  "umain_vmatest g k =
     (let foo_ro = UTEMP; foo_rw = UTEMP + PGSIZE in
      Print '' foo_ro = %p,  foo_rw = %p\<newline>'' [Num foo_ro, Num foo_rw] (
      Load Word foo_ro (\<lambda>a. Load Word foo_rw (\<lambda>b.
      Print ''*foo_ro = %x, *foo_rw = %x\<newline>'' [Num a, Num b] (
      Store Word foo_rw 0xcafebabe (
      Load Word foo_rw (\<lambda>b.
      Print ''*foo_rw = %x\<newline>'' [Num b] (
      Store Word foo_ro 0xcafebabe (
      Load Word foo_ro (\<lambda>a.
      Print ''*foo_ro = %x (this should not happen!!)\<newline>'' [Num a] (k g)))))))))))"

definition ALLOC_FIRST :: u32 where "ALLOC_FIRST = UTOP - 0x00800000 - (7 * PGSIZE + 3 * PGSIZE)"
definition ALLOC_SECOND :: u32 where "ALLOC_SECOND = 0x00a00000"
definition ALLOC_THIRD :: u32 where "ALLOC_THIRD = 0x00900000"

text \<open>The result of the third allocation is stored in \<open>vb\<close>, but the assertion tests \<open>va\<close>.\<close>

definition umain_vmaspace :: "ulib \<Rightarrow> (ulib \<Rightarrow> uprog) \<Rightarrow> uprog" where
  "umain_vmaspace g k =
     (let check = u_assert g ''user/vmaspace.c'' in
      sys_vma_create_stub g ALLOC_FIRST 2 0 (\<lambda>va.
      check 19 ''MAP_FAILED != va'' (- 1 \<noteq> va) (
      Print ''First alloc succeeded. Size:%08x va:%08x\<newline>'' [Num ALLOC_FIRST, Num va] (
      Store Word va 0x01010101 (
      Store Word ((va + ALLOC_FIRST) div 2) 0x02020202 (
      Store Word (va + ALLOC_FIRST - PGSIZE + 64) 0x03030303 (
      sys_vma_create_stub g ALLOC_SECOND 2 0 (\<lambda>vb.
      Print ''vb == %x\<newline>'' [Num vb] (
      check 30 ''MAP_FAILED == vb'' (- 1 = vb) (
      Print ''Second alloc failed. Size:%08x\<newline>'' [Num ALLOC_SECOND] (
      sys_vma_destroy_stub g (va + ALLOC_FIRST div 2) ALLOC_THIRD (\<lambda>r.
      check 34 ''0 == sys_vma_destroy((void *)((uint32_t)va + (ALLOC_FIRST/2)), ALLOC_THIRD)'' (r = 0) (
      Load Word va (\<lambda>v.
      Print ''[va: %08x : %08x]\<newline>'' [Num va, Num v] (
      Load Word (va + ALLOC_FIRST - PGSIZE + 64) (\<lambda>v.
      Print ''[va: %08x : %08x]\<newline>'' [Num (va + ALLOC_FIRST - PGSIZE + 64), Num v] (
      Store Word (va + ALLOC_FIRST - PGSIZE + 64) 0x04040404 (
      sys_vma_create_stub g ALLOC_THIRD 2 0 (\<lambda>vb.
      check 44 ''MAP_FAILED != va'' (- 1 \<noteq> va) (
      Print ''Third alloc succeeded. Size:%08x\<newline>'' [Num ALLOC_THIRD] (
      Print ''VMA space check succeeded.\<newline>'' [] (k g))))))))))))))))))))))"

section \<open>The tree of processes\<close>

text \<open>The names that all processes of a program print: a fork goes on as the child and as the parent, \<open>sys_env_destroy\<close> ends a process.\<close>

primrec names :: "uprog \<Rightarrow> string list" where
  "names Returned = []"
| "names (Sys n a1 a2 a3 a4 a5 k) = (if n = 10 then names (k 0) @ names (k 0x1001) else if n = 3 then [] else names (k 0x1001))"
| "names (Print f args p) = concat (map (\<lambda>a. case a of Str s \<Rightarrow> [s] | Num _ \<Rightarrow> []) args) @ names p"
| "names (Load wd va k) = names (k 0)"
| "names (Store wd va x p) = names p"
| "names (Envs i k) = names (k blank_env)"
| "names (Interrupt n p) = names p"
| "names (Exception n p) = names p"
| "names Breakpoints = []"
| "names Spin = []"
| "names NoFuel = []"

fun tree_names :: "nat \<Rightarrow> string \<Rightarrow> string list" where
  "tree_names 0 cur = [cur]"
| "tree_names (Suc d) cur = cur # tree_names d (cur @ ''0'') @ tree_names d (cur @ ''1'')"

lemma names_lib [simp]:
  "names (sys_getenvid_stub g k) = names (k 0x1001)" "names (u_exit g p) = []"
  "names (u_fork g f) = names (f (g\<lparr>thisenv := ENVX 0x1001\<rparr>) 0) @ names (f g 0x1001)"
  by (simp_all add: sys_getenvid_stub_def u_exit_def sys_env_destroy_stub_def syscall_stub_def u_fork_def sys_fork_stub_def Let_def)

lemma names_forktree:
  assumes "\<And>g. names (k g) = ns" and "length cur \<le> DEPTH"
  shows "names (forktree g cur k) = tree_names (DEPTH - length cur) cur @ ns"
  using assms
proof (induction "DEPTH - length cur" arbitrary: cur g k ns)
  case 0
  then show ?case by simp
next
  case (Suc d)
  have e: "d = DEPTH - length (cur @ [b])" "length (cur @ [b]) \<le> DEPTH" "take DEPTH (cur @ [b]) = cur @ [b]" for b using Suc.hyps(2) by auto
  have step: "names (forkchild g cur b k') = tree_names d (cur @ [b]) @ ms" if "\<And>g. names (k' g) = ms" for g b k' ms
  proof -
    have "names (forktree g (cur @ [b]) (\<lambda>g. u_exit g (k' g))) = tree_names d (cur @ [b])" for g
      using Suc.hyps(1) [OF e(1) [of b], of "\<lambda>g. u_exit g (k' g)" "[]" g, unfolded e(1) [of b, symmetric]] e(2) [of b]
      by (simp del: forktree.simps forkchild.simps)
    moreover have "\<not> DEPTH \<le> length cur" using Suc.hyps(2) by simp
    ultimately show ?thesis using that e(3) by (simp del: forktree.simps)
  qed
  have "names (forktree g cur k) = cur # names (forkchild g cur CHR ''0'' (\<lambda>g. forkchild g cur CHR ''1'' k))"
    by (simp del: forkchild.simps)
  also have "\<dots> = cur # tree_names d (cur @ ''0'') @ tree_names d (cur @ ''1'') @ ns"
    using step [OF step [OF Suc.prems(1)]] by (simp del: forktree.simps forkchild.simps)
  finally show ?case unfolding Suc.hyps(2) [symmetric] by simp
qed

lemma tree_names_words:
  "set (tree_names d cur) = {cur @ w |w. set w \<subseteq> {CHR ''0'', CHR ''1''} \<and> length w \<le> d}" "distinct (tree_names d cur)"
proof (induction d arbitrary: cur)
  case (Suc d)
  have split: "set w \<subseteq> {CHR ''0'', CHR ''1''} \<and> length w \<le> Suc d \<longleftrightarrow>
      w = [] \<or> (\<exists>v. (w = CHR ''0'' # v \<or> w = CHR ''1'' # v) \<and> set v \<subseteq> {CHR ''0'', CHR ''1''} \<and> length v \<le> d)" for w
    by (cases w) auto
  {
    case 1
    show ?case unfolding split by (auto simp: Suc.IH(1))
  next
    case 2
    show ?case using Suc.IH(2) by (auto simp: Suc.IH(1))
  }
qed auto

text \<open>\<open>forktree\<close> makes one process for each word of at most \<open>DEPTH\<close> binary digits, and no other.\<close>

lemma forktree_names:
  fixes g :: ulib
  defines "ns \<equiv> names (umain_forktree g (\<lambda>g. u_exit g Returned))"
  shows "distinct ns" and "set ns = {w. set w \<subseteq> {CHR ''0'', CHR ''1''} \<and> length w \<le> DEPTH}" and "length ns = 15"
proof -
  have "ns = tree_names DEPTH []" unfolding ns_def umain_forktree_def
    using names_forktree [of "\<lambda>g. u_exit g Returned" "[]" "[]" g] by (simp del: forktree.simps)
  then show "distinct ns" "set ns = {w. set w \<subseteq> {CHR ''0'', CHR ''1''} \<and> length w \<le> DEPTH}" "length ns = 15"
    using tree_names_words [of DEPTH "[]"] by (simp_all add: DEPTH_def numeral_3_eq_3)
qed

end
