(* ===== verification/Spec2Isabelle.thy ===== *)
theory Spec2Isabelle
  imports Areas Monitor BootLoader BootChecks Startup UserRun UserPrograms
begin

text \<open>
  A verification library for the teaching kernel under \<^verbatim>\<open>src/\<close>: a 32-bit x86 kernel with demand paging, copy on
  write, swapping, memory areas, tasklets, several processors and a round-robin scheduler.

  \<^bold>\<open>The parts of the program and how they interact.\<close>  The boot loader reads the kernel from disk.  \<open>mem_init\<close> measures
  the memory, lays out the kernel's data with \<open>boot_alloc\<close> and builds the free list; from then on \<open>page_alloc\<close> and
  \<open>page_free\<close> own every page, and page tables, memory areas, environments and the swap code are their clients.  A trap
  enters the kernel: a system call is dispatched to its handler, a page fault is answered by a zeroed page, by a copy of a
  shared page or by reading from disk, a timer interrupt calls the scheduler.  The scheduler picks the next environment,
  runs the two kernel threads, or halts the processor.  Under memory pressure a kernel thread works through the tasklets
  and moves pages between the LRU lists, the disk and the free list.  Console, disk driver, formatted output, string
  routines, symbol table and monitor serve all of them.

  \<^bold>\<open>The theories.\<close>  Each names the source it models in its own opening text.

  \<^item> \<open>Prelude\<close>: outcomes of kernel code (\<open>stop\<close>, \<open>rbind\<close>) and chains of array elements (\<open>llist\<close>, \<open>seek\<close>).
    \<open>Mmu\<close>: the constants and address arithmetic of \<^verbatim>\<open>inc/mmu.h\<close>, \<^verbatim>\<open>inc/memlayout.h\<close> and \<^verbatim>\<open>inc/types.h\<close>.
  \<^item> \<open>PageAlloc\<close>, \<open>HugePage\<close>: \<open>boot_alloc\<close> and the page allocator of \<^verbatim>\<open>kern/pmap.c\<close>.  The record \<open>pm_state\<close> has the
    globals of that file; \<open>pfl_ok\<close> is the invariant of the free list.  The locale \<open>frame_allocator\<close> states what a client
    may rely on and is interpreted on \<open>page_alloc\<close> and \<open>page_free\<close>.
  \<^item> \<open>BootMem\<close>: memory detection, \<open>page_init\<close>, the mappings that \<open>mem_init\<close> makes, \<open>mem_init_mp\<close>, the clock chip and the page
    table at entry.  \<open>SelfTests\<close>: the checks inside \<open>mem_init\<close> (\<open>check_page_alloc\<close> and the others) and \<open>mem_init\<close> as a whole;
    \<open>BootChecks\<close>: proofs that the free list passes them and what passing means.
  \<^item> \<open>Lru\<close>, \<open>Tasklet\<close>: the LRU lists and the tasklets of \<^verbatim>\<open>kern/pmap.c\<close>; their records extend \<open>pm_state\<close>, and the
    locales \<open>two_lists\<close> and \<open>task_pool\<close> are interpreted on their operations.
  \<^item> \<open>KState\<close>: \<open>kstate\<close>, the whole state of the kernel, which extends the records above by environments, processors,
    locks, control registers and devices.
  \<^item> \<open>PageTable\<close>, \<open>VirtMap\<close>, \<open>Frame\<close>: page tables of \<^verbatim>\<open>kern/pmap.c\<close>; \<open>vmap\<close> reads a page directory the way the
    processor does and is the abstract view into which \<open>page_insert\<close>, \<open>page_lookup\<close> and \<open>page_remove\<close> are refined
    (locale \<open>address_space\<close>).  \<open>Frame\<close> has the lemmas that say what the operations leave alone.
  \<^item> \<open>VmaList\<close>, \<open>Vma\<close>, \<open>Areas\<close>: memory areas, \<^verbatim>\<open>kern/vma.c\<close>; the abstract view is a map from addresses to areas (locale
    \<open>area_map\<close>).
  \<^item> \<open>Env\<close>: \<^verbatim>\<open>kern/env.c\<close>.  \<open>Sched\<close>: \<^verbatim>\<open>kern/sched.c\<close>.  \<open>Syscall\<close>: \<^verbatim>\<open>kern/syscall.c\<close>.  \<open>Trap\<close>, \<open>Faults\<close>:
    \<^verbatim>\<open>kern/trap.c\<close> and what a trap does from entry to exit.  \<open>Spinlock\<close>: \<^verbatim>\<open>kern/spinlock.c\<close> as operations and as a
    step relation of interleaved processors.
  \<^item> \<open>Bitmap\<close>, \<open>Ide\<close>, \<open>MemPressure\<close>: the map of disk sectors, the disk driver and swapping, \<^verbatim>\<open>kern/bitmap.c\<close>,
    \<^verbatim>\<open>kern/ide.c\<close> and \<^verbatim>\<open>kern/mm_pres.c\<close>.  \<open>Console\<close>: \<^verbatim>\<open>kern/console.c\<close>, with its input ring as a queue (locale
    \<open>byte_queue\<close>); \<open>ConsoleInit\<close>: its initialisation and the waiting in front of the output ports.
  \<^item> \<open>StringLib\<close>: \<^verbatim>\<open>lib/string.c\<close>.  \<open>Printf\<close>, \<open>Printing\<close>: \<^verbatim>\<open>lib/printfmt.c\<close> and its users \<^verbatim>\<open>kern/printf.c\<close> and
    \<^verbatim>\<open>lib/printf.c\<close>; the locale \<open>sink_sim\<close> relates two callbacks and is interpreted on the three callbacks of the code.
  \<^item> \<open>KDebug\<close>, \<open>Monitor\<close>: the symbol table, \<^verbatim>\<open>kern/kdebug.c\<close>, and the command line, \<^verbatim>\<open>kern/monitor.c\<close> and
    \<^verbatim>\<open>lib/readline.c\<close>, with the register dump and \<open>_panic\<close>.  \<open>MpConfig\<close>, \<open>Devices\<close>: the firmware tables and the interrupt controllers.  \<open>Segments\<close>:
    descriptors, task segments and the stacks of the processors.  \<open>BootLoader\<close>:
    \<^verbatim>\<open>boot/main.c\<close>.  \<open>Startup\<close>: \<^verbatim>\<open>kern/init.c\<close>; the record \<open>boot_state\<close> puts the states of all components together,
    with a local APIC and segment registers for each processor.
  \<^item> \<open>UserLib\<close>: the library of user programs, \<^verbatim>\<open>lib/\<close>, as trees of actions (\<open>uprog\<close>), and \<open>ustep\<close>, which executes a program
    on the kernel through \<open>trap\<close>.  \<open>UserRun\<close>: what such executions do.  \<open>UserPrograms\<close>: the programs under \<^verbatim>\<open>user/\<close>.

  \<^bold>\<open>State and operations.\<close>  A C function becomes a function from the state to \<open>stop + (result \<times> state)\<close>; \<open>Inl\<close> is every
  way of not returning: a panic, a failed assertion, a null pointer, an index outside an array, an endless loop, the switch
  to a user environment, the halt of the processor.  Pointers into arrays (pages, environments, areas, tasklets) are
  indices, \<open>None\<close> is the null pointer; the contents of physical memory are words by page frame.  Integers are words of
  their width where they can wrap around.

  \<^bold>\<open>What the lemmas show.\<close>  The allocator hands out no page twice and gives back what it took, for single pages and for
  4 MB blocks, and boot leaves on its list exactly the pages that neither the devices nor the kernel use, when base memory
  ends at 640 KB.  Page tables implement a map from addresses to pages
  with counted references.  Areas implement a map from addresses to areas under creation, lookup, removal and splitting.
  A page fault on an unused anonymous page gives a zeroed private page, one on a shared page a private copy, and other
  environments see no change.  Removing the pages of an area unmaps what it reaches and keeps the account exact.  What is
  written to the disk is what is read from it, on the selected drive and nowhere else, and swapping a page out and in
  restores its contents and the map of sectors.  The scheduler is round robin, finds a runnable environment when there is
  one, keeps an environment running while its time slice lasts and enters the next one when it is used up.  The check of user memory
  accepts exactly the ranges whose addresses are all permitted and records the first that is not.  The spin lock admits one processor.  \<open>memmove\<close> is correct
  for every overlap; \<open>vsnprintf\<close> stores a prefix of the formatted text and never leaves its buffer; a printed number reads
  back.  The free list passes the kernel's own checks at boot, and \<open>boot_aps\<close> starts every processor with its own stack and
  task segment while the boot processor keeps the scheduler locked.  \<open>libmain\<close> finds the program's own environment through
  the trap handler.  Several theorems
  show defects of the code as it is: they are stated as what the code does.

  \<^bold>\<open>Bounds and fuel.\<close>  A loop whose end depends on the data has a bound after which the model gives \<open>Diverge\<close>.  Chains
  are followed for as many steps as the array has elements (\<open>NVMA + 1\<close>, \<open>NTASKS + 2\<close>, the number of pages), which a chain
  without a cycle cannot exceed; the calls of the scheduler from inside
  the scheduler are bounded by 3, a device of the model, and \<open>sched_yield_bounded\<close> shows that every bound from 2 on gives the
  same outcome; the binary
  search of the symbol table has two steps for each entry; a format needs one unit for each character.  Loops over strings
  without a bound of their own are \<^theory_text>\<open>partial_function (option)\<close>.

  \<^bold>\<open>Not modelled.\<close>  Assembly code (\<^verbatim>\<open>kern/entry.S\<close>, \<^verbatim>\<open>kern/trapentry.S\<close>, \<^verbatim>\<open>kern/mpentry.S\<close>, \<^verbatim>\<open>boot/boot.S\<close>,
  \<^verbatim>\<open>lib/entry.S\<close>); the bits of \<open>cr0\<close> and \<open>cr4\<close>; debugging output and the texts of messages, except in the theories on
  formatted output and the monitor and in the user programs.  In the other theories a panic is the end of an execution, and
  its message is abbreviated; \<open>Monitor\<close> has \<open>_panic\<close> itself.  A panic ends the execution of the whole machine, so that the
  test of \<open>panicstr\<close> at the entry of \<open>trap\<close>, by which the other processors stop, is left out.  The device behind the disk driver,
  the processor in user mode (\<open>ustep\<close>) and the translation of an address by the loaded page directory (\<open>translate\<close>) stand for
  hardware, not for code of the repository; \<open>ustep\<close> has no interrupts and no other processors.  The invariant \<open>pfl_ok\<close> of the
  free list includes the count of free pages, which is 7 too large after the checks at boot.
\<close>

end
